(* ===== verification/Prelude.thy ===== *)
theory Prelude
  imports
    Main
    "HOL-Library.Char_ord"
    "HOL-Library.List_Lexorder"
    "HOL-Library.Product_Lexorder"
    "HOL-Library.Multiset"
begin

text \<open>
  What every component of the development shares: the ordered containers of the C++
  standard library the code uses (\<open>std::map\<close>, \<open>std::set\<close>), \<open>std::sort\<close>, the
  \<open>std::string\<close> scans, and the generic facts about them.

  A \<open>std::map\<close> is a list of key/value pairs in ascending key order (\<open>om_inv\<close>), so that
  walking the list is walking the iterator from \<open>begin()\<close> to \<open>end()\<close>. A \<open>std::set\<close> is
  an ascending list without duplicates. \<open>std::string\<close> is \<open>string\<close>, compared byte by byte
  (List\_Lexorder over Char\_ord is the order of \<open>std::string::compare\<close>); \<open>std::pair\<close>
  is compared component by component (Product\_Lexorder). A position \<open>pos\<close> that a scan
  moves forward over a string is the suffix of the string from that position on.
\<close>

section \<open>Collections of facts\<close>

named_theorems om_simps \<open>lookup, keys and invariant of ordered maps and sets after an update\<close>
named_theorems frame_simps \<open>components of a state that an operation leaves alone\<close>

text \<open>What every step of a loop keeps, the loop keeps.\<close>

lemma fold_keeps:
  assumes "P s" and "\<And>x s. P s \<Longrightarrow> P (h x s)"
  shows "P (fold h xs s)"
  using assms(1) by (induction xs arbitrary: s) (simp_all add: assms(2))

section \<open>std::map\<close>

type_synonym ('k, 'v) omap = "('k \<times> 'v) list"
type_synonym 'a oset = "'a list"

definition om_get :: "('k, 'v) omap \<Rightarrow> 'k \<Rightarrow> 'v option" where
  "om_get m k = map_of m k"

fun om_put :: "'k::linorder \<Rightarrow> 'v \<Rightarrow> ('k, 'v) omap \<Rightarrow> ('k, 'v) omap" where
  "om_put k v [] = [(k, v)]"
| "om_put k v ((k', v') # m) =
     (if k < k' then (k, v) # (k', v') # m
      else if k = k' then (k, v) # m
      else (k', v') # om_put k v m)"

definition om_del :: "'k \<Rightarrow> ('k, 'v) omap \<Rightarrow> ('k, 'v) omap" where
  "om_del k m = filter (\<lambda>(k', _). k' \<noteq> k) m"

definition om_keys :: "('k, 'v) omap \<Rightarrow> 'k list" where
  "om_keys m = map fst m"

definition om_inv :: "('k::linorder, 'v) omap \<Rightarrow> bool" where
  "om_inv m = sorted_wrt (<) (map fst m)"

text \<open>\<open>m[k]\<close> of a \<open>std::map\<close> used as a value to be updated: a missing key is created first.\<close>

definition om_upd :: "'v \<Rightarrow> ('v \<Rightarrow> 'v) \<Rightarrow> 'k::linorder \<Rightarrow> ('k, 'v) omap \<Rightarrow> ('k, 'v) omap" where
  "om_upd dflt f k m = om_put k (f (case om_get m k of None \<Rightarrow> dflt | Some v \<Rightarrow> v)) m"

lemma om_get_Nil [simp, om_simps]: "om_get [] k = None"
  by (simp add: om_get_def)

lemma om_get_put [om_simps]: "om_get (om_put k v m) k' = (if k' = k then Some v else om_get m k')"
  unfolding om_get_def by (induction m) auto

lemma om_get_del [om_simps]: "om_get (om_del k m) k' = (if k' = k then None else om_get m k')"
  unfolding om_get_def om_del_def by (induction m) auto

lemma om_get_upd [om_simps]:
  "om_get (om_upd d f k m) k' =
     (if k' = k then Some (f (case om_get m k of None \<Rightarrow> d | Some v \<Rightarrow> v)) else om_get m k')"
  by (simp add: om_upd_def om_get_put)

lemma om_keys_set: "set (om_keys m) = {k. om_get m k \<noteq> None}"
  unfolding om_keys_def om_get_def by (induction m) auto

lemma om_get_eq_None_iff: "om_get m k = None \<longleftrightarrow> k \<notin> set (om_keys m)"
  by (simp add: om_keys_set)

lemma om_keys_put_set: "set (om_keys (om_put k v m)) = insert k (set (om_keys m))"
  by (auto simp: om_keys_set om_get_put)

lemma om_put_fst_set: "fst ` set (om_put k v m) = insert k (fst ` set m)"
  using om_keys_put_set [of k v m] by (simp add: om_keys_def)

lemma om_inv_Nil [simp, om_simps]: "om_inv []"
  by (simp add: om_inv_def)

lemma om_inv_put [om_simps]: "om_inv m \<Longrightarrow> om_inv (om_put k v m)"
proof (induction m)
  case Nil
  then show ?case by (simp add: om_inv_def)
next
  case (Cons a m)
  then show ?case
    by (cases a) (auto simp: om_inv_def om_put_fst_set intro: less_trans)
qed

lemma om_inv_upd [om_simps]: "om_inv m \<Longrightarrow> om_inv (om_upd d f k m)"
  by (simp add: om_upd_def om_inv_put)

lemma om_inv_del [om_simps]: "om_inv m \<Longrightarrow> om_inv (om_del k m)"
proof -
  have "map fst (om_del k m) = filter (\<lambda>x. x \<noteq> k) (map fst m)"
    unfolding om_del_def by (induction m) auto
  then show "om_inv m \<Longrightarrow> om_inv (om_del k m)"
    by (simp add: om_inv_def sorted_wrt_filter)
qed

lemma om_get_SomeD: "om_get m k = Some v \<Longrightarrow> (k, v) \<in> set m"
  unfolding om_get_def by (rule map_of_SomeD)

lemma sorted_less_distinct: "sorted_wrt (<) (xs :: 'a::linorder list) \<Longrightarrow> distinct xs"
  by (induction xs) auto

lemma om_inv_distinct: "om_inv m \<Longrightarrow> distinct (map fst m)"
  unfolding om_inv_def by (rule sorted_less_distinct)

lemma om_get_iff: "om_inv m \<Longrightarrow> om_get m k = Some v \<longleftrightarrow> (k, v) \<in> set m"
  unfolding om_get_def by (simp add: om_inv_distinct)

text \<open>A loop that updates \<open>m[key(x)]\<close> for every \<open>x\<close>: each key gathers the elements that have it.\<close>

lemma fold_om_upd_get:
  "om_get (fold (\<lambda>x. om_upd d (f x) (key x)) xs m) k =
     (if \<exists>x \<in> set xs. key x = k
      then Some (fold f (filter (\<lambda>x. key x = k) xs) (case om_get m k of None \<Rightarrow> d | Some v \<Rightarrow> v))
      else om_get m k)"
  by (induction xs arbitrary: m) (auto simp: om_get_upd)

lemma fold_om_upd_inv: "om_inv m \<Longrightarrow> om_inv (fold (\<lambda>x. om_upd d (f x) (key x)) xs m)"
  by (induction xs arbitrary: m) (auto simp: om_inv_upd)

lemma fold_om_upd_mem:
  "(k, v) \<in> set (fold (\<lambda>x. om_upd d (f x) (key x)) xs []) \<longleftrightarrow>
     k \<in> key ` set xs \<and> v = fold f (filter (\<lambda>x. key x = k) xs) d"
  using om_get_iff [OF fold_om_upd_inv [OF om_inv_Nil], of d f key xs k v] fold_om_upd_get [of d f key xs "[]" k]
  by (auto split: if_splits)

section \<open>The interface of an ordered map\<close>

text \<open>
  What the clients of \<open>std::map\<close> rely on: lookup after an update, ascending iteration over
  exactly the keys present. The iteration order is a function of the contents alone.
\<close>

locale ordered_map =
  fixes get :: "'m \<Rightarrow> 'k::linorder \<Rightarrow> 'v option"
    and put :: "'k \<Rightarrow> 'v \<Rightarrow> 'm \<Rightarrow> 'm"
    and del :: "'k \<Rightarrow> 'm \<Rightarrow> 'm"
    and keys :: "'m \<Rightarrow> 'k list"
    and inv :: "'m \<Rightarrow> bool"
  assumes get_put: "get (put k v m) k' = (if k' = k then Some v else get m k')"
    and get_del: "get (del k m) k' = (if k' = k then None else get m k')"
    and keys_set: "set (keys m) = {k. get m k \<noteq> None}"
    and keys_sorted: "inv m \<Longrightarrow> sorted_wrt (<) (keys m)"
    and inv_put: "inv m \<Longrightarrow> inv (put k v m)"
    and inv_del: "inv m \<Longrightarrow> inv (del k m)"
begin

lemma sorted_less_unique:
  fixes xs ys :: "'k list"
  assumes "sorted_wrt (<) xs" and "sorted_wrt (<) ys" and "set xs = set ys"
  shows "xs = ys"
proof -
  have "sorted xs" and "sorted ys" and "distinct xs" and "distinct ys"
    using assms strict_sorted_iff by auto
  then show ?thesis using assms(3) by (simp add: sorted_distinct_set_unique)
qed

lemma keys_ext:
  assumes "inv m" and "inv m'" and "\<And>k. (get m k = None) = (get m' k = None)"
  shows "keys m = keys m'"
  by (rule sorted_less_unique) (use assms keys_sorted in \<open>auto simp: keys_set\<close>)

lemma put_existing_keys: "inv m \<Longrightarrow> get m k \<noteq> None \<Longrightarrow> keys (put k v m) = keys m"
  by (rule keys_ext) (auto simp: inv_put get_put)

lemma del_missing_keys: "inv m \<Longrightarrow> get m k = None \<Longrightarrow> keys (del k m) = keys m"
  by (rule keys_ext) (auto simp: inv_del get_del)

lemma get_fold_put_notin:
  "k \<notin> fst ` set kvs \<Longrightarrow> get (fold (\<lambda>(k', v). put k' v) kvs m) k = get m k"
  by (induction kvs arbitrary: m) (auto simp: get_put)

end

interpretation omap: ordered_map om_get om_put om_del om_keys om_inv
proof unfold_locales
  fix m :: "('k::linorder, 'v) omap"
  show "om_inv m \<Longrightarrow> sorted_wrt (<) (om_keys m)"
    by (simp add: om_inv_def om_keys_def)
qed (auto simp: om_simps om_keys_set)

section \<open>std::set\<close>

fun os_ins :: "'a::linorder \<Rightarrow> 'a oset \<Rightarrow> 'a oset" where
  "os_ins x [] = [x]"
| "os_ins x (y # ys) = (if x < y then x # y # ys else if x = y then y # ys else y # os_ins x ys)"

definition os_del :: "'a \<Rightarrow> 'a oset \<Rightarrow> 'a oset" where
  "os_del x xs = filter (\<lambda>y. y \<noteq> x) xs"

definition os_inv :: "'a::linorder oset \<Rightarrow> bool" where
  "os_inv xs = sorted_wrt (<) xs"

lemma os_ins_set [simp, om_simps]: "set (os_ins x xs) = insert x (set xs)"
  by (induction xs) auto

lemma os_del_set [simp, om_simps]: "set (os_del x xs) = set xs - {x}"
  by (auto simp: os_del_def)

lemma os_inv_Nil [simp, om_simps]: "os_inv []"
  by (simp add: os_inv_def)

lemma os_inv_ins [om_simps]: "os_inv xs \<Longrightarrow> os_inv (os_ins x xs)"
  unfolding os_inv_def by (induction xs) auto

lemma os_inv_del [om_simps]: "os_inv xs \<Longrightarrow> os_inv (os_del x xs)"
  by (simp add: os_inv_def os_del_def sorted_wrt_filter)

lemma os_ins_mem_id: "os_inv xs \<Longrightarrow> x \<in> set xs \<Longrightarrow> os_ins x xs = xs"
  unfolding os_inv_def by (induction xs) auto

lemma os_inv_distinct: "os_inv xs \<Longrightarrow> distinct xs"
  unfolding os_inv_def by (rule sorted_less_distinct)

lemma os_ins_length: "x \<notin> set xs \<Longrightarrow> length (os_ins x xs) = Suc (length xs)"
  by (induction xs) auto

definition os_of :: "'a::linorder list \<Rightarrow> 'a oset" where
  "os_of xs = fold os_ins xs []"

lemma fold_os_ins_set: "set (fold os_ins xs ys) = set xs \<union> set ys"
  by (induction xs arbitrary: ys) auto

lemma os_of_set [simp, om_simps]: "set (os_of xs) = set xs"
  by (simp add: os_of_def fold_os_ins_set)

lemma fold_os_ins_inv: "os_inv ys \<Longrightarrow> os_inv (fold os_ins xs ys)"
  by (induction xs arbitrary: ys) (auto simp: os_inv_ins)

lemma os_of_inv [simp, om_simps]: "os_inv (os_of xs)"
  by (simp add: os_of_def fold_os_ins_inv)

section \<open>std::sort\<close>

text \<open>
  \<open>std::sort\<close> promises a permutation of its range that is sorted by the comparator; the order of
  equivalent elements is not specified. The model is insertion sort with the code's
  comparator; the theorems use only the two promises below.
\<close>

fun sort_ins :: "('a \<Rightarrow> 'a \<Rightarrow> bool) \<Rightarrow> 'a \<Rightarrow> 'a list \<Rightarrow> 'a list" where
  "sort_ins lt x [] = [x]"
| "sort_ins lt x (y # ys) = (if lt y x then y # sort_ins lt x ys else x # y # ys)"

definition std_sort :: "('a \<Rightarrow> 'a \<Rightarrow> bool) \<Rightarrow> 'a list \<Rightarrow> 'a list" where
  "std_sort lt xs = foldr (sort_ins lt) xs []"

lemma sort_ins_mset [simp]: "mset (sort_ins lt x xs) = add_mset x (mset xs)"
  by (induction xs) auto

lemma std_sort_mset [simp]: "mset (std_sort lt xs) = mset xs"
  unfolding std_sort_def by (induction xs) auto

lemma std_sort_set [simp]: "set (std_sort lt xs) = set xs"
  using std_sort_mset mset_eq_setD by metis

lemma std_sort_length [simp]: "length (std_sort lt xs) = length xs"
  using std_sort_mset mset_eq_length by metis

lemma std_sort_Nil_iff [simp]: "std_sort lt xs = [] \<longleftrightarrow> xs = []"
  by (metis length_0_conv std_sort_length)

text \<open>A comparator of the code: a strict weak order, here one given by a key.\<close>

definition weak_order :: "('a \<Rightarrow> 'a \<Rightarrow> bool) \<Rightarrow> bool" where
  "weak_order lt \<longleftrightarrow> (\<forall>x y. lt x y \<longrightarrow> \<not> lt y x) \<and> (\<forall>x y z. \<not> lt y x \<longrightarrow> \<not> lt z y \<longrightarrow> \<not> lt z x)"

lemma weak_order_trans: "weak_order lt \<Longrightarrow> \<not> lt y x \<Longrightarrow> \<not> lt z y \<Longrightarrow> \<not> lt z x"
  unfolding weak_order_def by blast

lemma weak_order_asym: "weak_order lt \<Longrightarrow> lt x y \<Longrightarrow> \<not> lt y x"
  unfolding weak_order_def by blast

lemma weak_order_key: "weak_order (\<lambda>x y. (f x :: 'b::linorder) < f y)"
  by (auto simp: weak_order_def)

lemma weak_order_key_desc: "weak_order (\<lambda>x y. (f y :: 'b::linorder) < f x)"
  by (auto simp: weak_order_def)

lemma sort_ins_sorted:
  assumes "weak_order lt" and "sorted_wrt (\<lambda>x y. \<not> lt y x) xs"
  shows "sorted_wrt (\<lambda>x y. \<not> lt y x) (sort_ins lt x xs)"
  using assms(2)
proof (induction xs)
  case Nil
  then show ?case by simp
next
  case (Cons y ys)
  have set_eq: "set (sort_ins lt x ys) = insert x (set ys)"
    using sort_ins_mset [of lt x ys] by (metis set_mset_add_mset_insert set_mset_mset)
  show ?case
  proof (cases "lt y x")
    case True
    then have "\<not> lt x y" by (rule weak_order_asym [OF assms(1)])
    with True Cons set_eq show ?thesis by auto
  next
    case False
    have "\<not> lt z x" if "z \<in> set ys" for z
      using weak_order_trans [OF assms(1) False] Cons.prems that by simp
    with False Cons.prems show ?thesis by auto
  qed
qed

lemma std_sort_sorted: "weak_order lt \<Longrightarrow> sorted_wrt (\<lambda>x y. \<not> lt y x) (std_sort lt xs)"
  unfolding std_sort_def by (induction xs) (auto intro: sort_ins_sorted)

section \<open>Scans over std::string\<close>

definition starts_with :: "string \<Rightarrow> string \<Rightarrow> bool" where
  "starts_with s p = (length p \<le> length s \<and> take (length p) s = p)"

lemma starts_with_append [simp]: "starts_with (p @ s) p"
  by (simp add: starts_with_def)

lemma starts_with_iff: "starts_with s p \<longleftrightarrow> (\<exists>t. s = p @ t)"
  unfolding starts_with_def by (metis append_take_drop_id append_eq_conv_conj length_append le_add1)

text \<open>\<open>s.find(c)\<close> as the two parts around the first \<open>c\<close>; \<open>None\<close> is \<open>npos\<close>.\<close>

fun find_char :: "char \<Rightarrow> string \<Rightarrow> nat option" where
  "find_char c [] = None"
| "find_char c (x # xs) = (if x = c then Some 0 else map_option Suc (find_char c xs))"

lemma find_char_None_iff: "find_char c s = None \<longleftrightarrow> c \<notin> set s"
  by (induction s) auto

lemma find_char_SomeD: "find_char c s = Some i \<Longrightarrow> i < length s \<and> s ! i = c \<and> c \<notin> set (take i s)"
  by (induction s arbitrary: i) (auto split: if_splits)

text \<open>The part before the first \<open>c\<close> and what follows it (the whole string and nothing when absent).\<close>

abbreviation before_char :: "char \<Rightarrow> string \<Rightarrow> string" where
  "before_char c s \<equiv> takeWhile (\<lambda>x. x \<noteq> c) s"

abbreviation from_char :: "char \<Rightarrow> string \<Rightarrow> string" where
  "from_char c s \<equiv> dropWhile (\<lambda>x. x \<noteq> c) s"

abbreviation skip_char :: "char \<Rightarrow> string \<Rightarrow> string" where
  "skip_char c s \<equiv> dropWhile (\<lambda>x. x = c) s"

text \<open>\<open>path.substr(path.rfind(c) + 1)\<close>, the whole string when \<open>c\<close> does not occur.\<close>

definition after_last :: "char \<Rightarrow> string \<Rightarrow> string" where
  "after_last c s = rev (takeWhile (\<lambda>x. x \<noteq> c) (rev s))"

lemma after_last_notin [simp]: "c \<notin> set (after_last c s)"
  by (auto simp: after_last_def dest: set_takeWhileD)

lemma takeWhile_neq_all: "c \<notin> set s \<Longrightarrow> takeWhile (\<lambda>x. x \<noteq> c) s = s"
  by (induction s) auto

lemma takeWhile_neq_append: "c \<notin> set s \<Longrightarrow> takeWhile (\<lambda>x. x \<noteq> c) (s @ c # t) = s"
  by (induction s) auto

lemma after_last_append: "c \<notin> set t \<Longrightarrow> after_last c (s @ c # t) = t"
  unfolding after_last_def by (simp add: takeWhile_neq_append)

lemma after_last_no: "c \<notin> set s \<Longrightarrow> after_last c s = s"
  unfolding after_last_def by (simp add: takeWhile_neq_all)

text \<open>What C code sees of a \<open>std::string\<close>: the bytes up to its first NUL.\<close>

definition c_str :: "string \<Rightarrow> string" where
  "c_str s = takeWhile (\<lambda>c. c \<noteq> CHR 0x00) s"

lemma c_str_id: "CHR 0x00 \<notin> set s \<Longrightarrow> c_str s = s"
  unfolding c_str_def by (rule takeWhile_neq_all)

lemma c_str_idem [simp]: "c_str (c_str s) = c_str s"
  by (rule c_str_id) (auto simp: c_str_def dest: set_takeWhileD)

section \<open>Decimal digits\<close>

text \<open>\<open>%d\<close> and \<open>%lld\<close> of \<open>snprintf\<close>.\<close>

definition digit_char :: "nat \<Rightarrow> char" where
  "digit_char d = char_of (48 + d)"

lemma digit_char_table: "d < 10 \<Longrightarrow> digit_char d \<in> set ''0123456789''"
proof -
  have "\<forall>d \<in> set [0..<10]. digit_char d \<in> set ''0123456789''" by code_simp
  then show "d < 10 \<Longrightarrow> digit_char d \<in> set ''0123456789''" by simp
qed

fun nat_digits :: "nat \<Rightarrow> string" where
  "nat_digits n = (if n < 10 then [digit_char n] else nat_digits (n div 10) @ [digit_char (n mod 10)])"

declare nat_digits.simps [simp del]

definition int_str :: "int \<Rightarrow> string" where
  "int_str i = (if i < 0 then CHR ''-'' # nat_digits (nat (- i)) else nat_digits (nat i))"

end
