(* ===== verification/Types.thy ===== *)
theory Types
  imports Prelude
begin

text \<open>
  The data types of \<open>common/types.h\<close> and the classification of access modes and error numbers
  of \<open>common/view_helpers.cpp\<close>. The enumerators of \<open>FileAccessMode\<close> are a datatype;
  \<open>mode_val\<close> is the value the header gives each. Records and tables store that value, as the
  code does (\<open>mode_str\<close>, \<open>is_input_mode\<close> and \<open>is_output_mode\<close> take an \<open>int\<close>). Times,
  sizes and counters are \<open>int\<close>: the code's \<open>int64_t\<close> microseconds stay far inside their range.
\<close>

datatype FileAccessMode =
    FA_READ | FA_WRITE | FA_RDWR | FA_STAT | FA_ACCESS | FA_EXEC | FA_UNLINK
  | FA_RENAME_SRC | FA_RENAME_DST | FA_READLINK | FA_MKDIR | FA_LINK_SRC | FA_LINK_DST
  | FA_SYMLINK_TARGET | FA_SYMLINK_LINK | FA_CHMOD | FA_CHOWN | FA_TRUNCATE | FA_MKNOD
  | FA_UTIMENS | FA_CHDIR

fun mode_val :: "FileAccessMode \<Rightarrow> int" where
  "mode_val FA_READ = 0"
| "mode_val FA_WRITE = 1"
| "mode_val FA_RDWR = 2"
| "mode_val FA_STAT = 3"
| "mode_val FA_ACCESS = 4"
| "mode_val FA_EXEC = 5"
| "mode_val FA_UNLINK = 6"
| "mode_val FA_RENAME_SRC = 7"
| "mode_val FA_RENAME_DST = 8"
| "mode_val FA_READLINK = 9"
| "mode_val FA_MKDIR = 10"
| "mode_val FA_LINK_SRC = 11"
| "mode_val FA_LINK_DST = 12"
| "mode_val FA_SYMLINK_TARGET = 13"
| "mode_val FA_SYMLINK_LINK = 14"
| "mode_val FA_CHMOD = 15"
| "mode_val FA_CHOWN = 16"
| "mode_val FA_TRUNCATE = 17"
| "mode_val FA_MKNOD = 18"
| "mode_val FA_UTIMENS = 19"
| "mode_val FA_CHDIR = 20"

lemma mode_val_bounds: "0 \<le> mode_val m \<and> mode_val m \<le> 20"
  by (cases m) auto

lemma mode_val_inject: "mode_val a = mode_val b \<Longrightarrow> a = b"
  by (cases a; cases b) auto

text \<open>The enumerators compare as their values, as C++ enumerators do.\<close>

instantiation FileAccessMode :: linorder
begin

definition less_eq_FileAccessMode :: "FileAccessMode \<Rightarrow> FileAccessMode \<Rightarrow> bool" where
  "less_eq_FileAccessMode a b = (mode_val a \<le> mode_val b)"

definition less_FileAccessMode :: "FileAccessMode \<Rightarrow> FileAccessMode \<Rightarrow> bool" where
  "less_FileAccessMode a b = (mode_val a < mode_val b)"

instance
  by standard
    (auto simp: less_eq_FileAccessMode_def less_FileAccessMode_def dest: mode_val_inject)

end

record ProcessRecord =
  pr_pid :: int
  pr_ppid :: int
  pr_cmdline :: string
  pr_cwd :: string
  pr_start :: int
  pr_end :: int
  pr_exit_code :: int
  pr_user_time :: int
  pr_sys_time :: int
  pr_peak_rss :: int
  pr_io_read :: int
  pr_io_write :: int
  pr_file_count :: int
  pr_fail_count :: int

definition ProcessRecord_default :: ProcessRecord where
  "ProcessRecord_default =
     \<lparr>pr_pid = 0, pr_ppid = 0, pr_cmdline = '''', pr_cwd = '''', pr_start = 0, pr_end = 0,
      pr_exit_code = -1, pr_user_time = 0, pr_sys_time = 0, pr_peak_rss = 0,
      pr_io_read = 0, pr_io_write = 0, pr_file_count = 0, pr_fail_count = 0\<rparr>"

record FileAccessRecord =
  fa_pid :: int
  fa_filename :: string
  fa_mode :: int
  fa_fd :: int
  fa_timestamp :: int

definition FileAccessRecord_default :: FileAccessRecord where
  "FileAccessRecord_default =
     \<lparr>fa_pid = 0, fa_filename = '''', fa_mode = mode_val FA_READ, fa_fd = -1, fa_timestamp = 0\<rparr>"

record FailedAccessRecord =
  fl_pid :: int
  fl_filename :: string
  fl_mode :: int
  fl_errno :: int
  fl_timestamp :: int

definition FailedAccessRecord_default :: FailedAccessRecord where
  "FailedAccessRecord_default =
     \<lparr>fl_pid = 0, fl_filename = '''', fl_mode = mode_val FA_READ, fl_errno = 0, fl_timestamp = 0\<rparr>"

definition pr_duration :: "ProcessRecord \<Rightarrow> int" where
  "pr_duration p = pr_end p - pr_start p"

section \<open>Mode and error names\<close>

definition mode_str :: "int \<Rightarrow> string" where
  "mode_str m =
    (if m = mode_val FA_READ then ''R''
     else if m = mode_val FA_WRITE then ''W''
     else if m = mode_val FA_RDWR then ''RW''
     else if m = mode_val FA_STAT then ''ST''
     else if m = mode_val FA_ACCESS then ''AC''
     else if m = mode_val FA_EXEC then ''EX''
     else if m = mode_val FA_UNLINK then ''UL''
     else if m = mode_val FA_RENAME_SRC then ''RS''
     else if m = mode_val FA_RENAME_DST then ''RD''
     else if m = mode_val FA_READLINK then ''RL''
     else if m = mode_val FA_MKDIR then ''MD''
     else if m = mode_val FA_LINK_SRC then ''LS''
     else if m = mode_val FA_LINK_DST then ''LD''
     else if m = mode_val FA_SYMLINK_TARGET then ''SY''
     else if m = mode_val FA_SYMLINK_LINK then ''SL''
     else if m = mode_val FA_CHMOD then ''CM''
     else if m = mode_val FA_CHOWN then ''CO''
     else if m = mode_val FA_TRUNCATE then ''TR''
     else if m = mode_val FA_MKNOD then ''MN''
     else if m = mode_val FA_UTIMENS then ''UT''
     else if m = mode_val FA_CHDIR then ''CD''
     else ''?'')"

definition is_input_mode :: "int \<Rightarrow> bool" where
  "is_input_mode m \<longleftrightarrow>
     m = mode_val FA_READ \<or> m = mode_val FA_RDWR \<or> m = mode_val FA_EXEC
     \<or> m = mode_val FA_STAT \<or> m = mode_val FA_ACCESS \<or> m = mode_val FA_READLINK"

definition is_output_mode :: "int \<Rightarrow> bool" where
  "is_output_mode m \<longleftrightarrow>
     m = mode_val FA_WRITE \<or> m = mode_val FA_RDWR \<or> m = mode_val FA_RENAME_DST
     \<or> m = mode_val FA_LINK_DST \<or> m = mode_val FA_SYMLINK_LINK
     \<or> m = mode_val FA_TRUNCATE \<or> m = mode_val FA_MKNOD \<or> m = mode_val FA_MKDIR"

definition errno_name :: "int \<Rightarrow> string" where
  "errno_name e =
    (if e = 1 then ''EPERM''
     else if e = 2 then ''ENOENT''
     else if e = 13 then ''EACCES''
     else if e = 17 then ''EEXIST''
     else if e = 20 then ''ENOTDIR''
     else if e = 21 then ''EISDIR''
     else if e = 22 then ''EINVAL''
     else if e = 36 then ''ENAMETOOLONG''
     else if e = 40 then ''ELOOP''
     else '''')"

text \<open>The two-letter codes tell the modes apart, and only the value 2 is both read and write.\<close>

lemma mode_str_distinct: "mode_str (mode_val a) = mode_str (mode_val b) \<Longrightarrow> a = b"
  by (cases a; cases b; simp add: mode_str_def)

lemma input_and_output_mode: "is_input_mode m \<and> is_output_mode m \<longleftrightarrow> m = mode_val FA_RDWR"
  by (auto simp: is_input_mode_def is_output_mode_def)

lemma mode_str_known: "mode_str m \<noteq> ''?'' \<longleftrightarrow> 0 \<le> m \<and> m \<le> 20"
proof
  assume "0 \<le> m \<and> m \<le> 20"
  then have "m \<in> {0..20}" by simp
  also have "{0..20} = set [0..20]" by simp
  also have "[0..20] = [0,1,2,3,4,5,6,7,8,9,10,11,12,13,14,15,16,17,18,19,20::int]"
    by (simp add: upto_rec_numeral upto.simps)
  finally show "mode_str m \<noteq> ''?''" by (auto simp: mode_str_def)
qed (auto simp: mode_str_def split: if_splits)

end
