(* ===== verification/Database.thy ===== *)
theory Database
  imports Types
begin

text \<open>
  \<open>db/database.cpp\<close> over the tables of \<open>db/schema.cpp\<close>. Each table is the list of its rows in
  rowid order (\<open>processes\<close> by its primary key); each statement of the class is the function
  its SQL text denotes. Whether SQLite carries a statement out is the engine's business and a
  parameter of the model: \<open>db_rc db n\<close> says whether the engine completes the \<open>n\<close>-th write
  statement of the connection, \<open>db_readable db\<close> whether it prepares queries. Nothing is
  assumed about either. \<open>ORDER BY\<close> is \<open>std_sort\<close>; rows without an order come in rowid order. A bound C string ends at its first NUL (\<open>c_str\<close>).
\<close>

section \<open>Tables\<close>

record AccessRow =
  ar_id :: int
  ar_pid :: int
  ar_file :: int
  ar_mode :: int
  ar_fd :: int
  ar_ts :: int

record FailedRow =
  fr_id :: int
  fr_pid :: int
  fr_file :: int
  fr_mode :: int
  fr_errno :: int
  fr_ts :: int

record sq_db =
  db_meta :: "(string, string) omap"
  db_processes :: "(int, ProcessRecord) omap"
  db_files :: "(int \<times> string) list"
  db_accesses :: "AccessRow list"
  db_failed :: "FailedRow list"
  db_intern_cache :: "(string, int) omap"
  db_in_tx :: bool
  db_rc :: "nat \<Rightarrow> bool"
  db_steps :: nat
  db_readable :: bool

definition db_empty :: "(nat \<Rightarrow> bool) \<Rightarrow> sq_db" where
  "db_empty rc = \<lparr>db_meta = [], db_processes = [], db_files = [], db_accesses = [], db_failed = [],
     db_intern_cache = [], db_in_tx = False, db_rc = rc, db_steps = 0, db_readable = True\<rparr>"

text \<open>One write statement: the engine's answer, and the connection after it.\<close>

definition sq_step :: "sq_db \<Rightarrow> bool \<times> sq_db" where
  "sq_step db = (db_rc db (db_steps db), db\<lparr>db_steps := Suc (db_steps db)\<rparr>)"

text \<open>The rowid SQLite gives the next row of a table with a plain \<open>INTEGER PRIMARY KEY\<close>.\<close>

definition next_rowid :: "int list \<Rightarrow> int" where
  "next_rowid ids = 1 + foldr max ids 0"

lemma foldr_max_ge: "x \<in> set xs \<Longrightarrow> x \<le> foldr max xs (0::int)"
  by (induction xs) auto

lemma next_rowid_fresh: "next_rowid ids \<notin> set ids"
  using foldr_max_ge [of _ ids] by (force simp: next_rowid_def)

section \<open>Writes\<close>

definition intern_path :: "string \<Rightarrow> sq_db \<Rightarrow> int option \<times> sq_db" where
  "intern_path path db =
    (case om_get (db_intern_cache db) path of
       Some i \<Rightarrow> (Some i, db)
     | None \<Rightarrow>
        (case sq_step db of (ok, db1) \<Rightarrow>
           if \<not> ok then (None, db1)
           else (case find (\<lambda>(_, p). p = c_str path) (db_files db1) of
               None \<Rightarrow>
                 let i = next_rowid (map fst (db_files db1)) in
                 (Some i, db1\<lparr>db_files := db_files db1 @ [(i, c_str path)],
                              db_intern_cache := om_put path i (db_intern_cache db1)\<rparr>)
             | Some (i, _) \<Rightarrow>
                 (case sq_step db1 of (ok2, db2) \<Rightarrow>
                    if \<not> ok2 then (None, db2)
                    else (Some i, db2\<lparr>db_intern_cache := om_put path i (db_intern_cache db2)\<rparr>)))))"

definition insert_meta :: "string \<Rightarrow> string \<Rightarrow> sq_db \<Rightarrow> bool \<times> sq_db" where
  "insert_meta key val db =
    (case sq_step db of (ok, db1) \<Rightarrow>
       if \<not> ok then (False, db1)
       else (True, db1\<lparr>db_meta := om_put (c_str key) (c_str val) (db_meta db1)\<rparr>))"

text \<open>The row an \<open>INSERT\<close> into \<open>processes\<close> makes: seven bound columns, defaults for the others.\<close>

definition process_row :: "ProcessRecord \<Rightarrow> ProcessRecord" where
  "process_row r = ProcessRecord_default
     \<lparr>pr_pid := pr_pid r, pr_ppid := pr_ppid r, pr_cmdline := c_str (pr_cmdline r),
      pr_start := pr_start r, pr_end := pr_end r, pr_exit_code := pr_exit_code r,
      pr_cwd := c_str (pr_cwd r)\<rparr>"

definition insert_process :: "ProcessRecord \<Rightarrow> sq_db \<Rightarrow> bool \<times> sq_db" where
  "insert_process r db =
    (case sq_step db of (ok, db1) \<Rightarrow>
       if \<not> ok \<or> om_get (db_processes db1) (pr_pid r) \<noteq> None then (False, db1)
       else (True, db1\<lparr>db_processes := om_put (pr_pid r) (process_row r) (db_processes db1)\<rparr>))"

definition update_process_exit ::
  "int \<Rightarrow> int \<Rightarrow> int \<Rightarrow> int \<Rightarrow> int \<Rightarrow> int \<Rightarrow> int \<Rightarrow> int \<Rightarrow> sq_db \<Rightarrow> bool \<times> sq_db" where
  "update_process_exit pid end_us code user_us sys_us rss io_r io_w db =
    (case sq_step db of (ok, db1) \<Rightarrow>
       if \<not> ok then (False, db1)
       else (case om_get (db_processes db1) pid of
           None \<Rightarrow> (True, db1)
         | Some r \<Rightarrow> (True, db1\<lparr>db_processes := om_put pid
             (r\<lparr>pr_end := end_us, pr_exit_code := code, pr_user_time := user_us,
                pr_sys_time := sys_us, pr_peak_rss := rss, pr_io_read := io_r,
                pr_io_write := io_w\<rparr>) (db_processes db1)\<rparr>)))"

definition delete_process_row :: "int \<Rightarrow> sq_db \<Rightarrow> bool \<times> sq_db" where
  "delete_process_row pid db =
    (case sq_step db of (ok, db1) \<Rightarrow>
       if \<not> ok then (False, db1)
       else (True, db1\<lparr>db_processes := om_del pid (db_processes db1)\<rparr>))"

definition insert_file_access :: "FileAccessRecord \<Rightarrow> sq_db \<Rightarrow> bool \<times> sq_db" where
  "insert_file_access r db =
    (case intern_path (fa_filename r) db of
       (None, db1) \<Rightarrow> (False, db1)
     | (Some i, db1) \<Rightarrow>
        (case sq_step db1 of (ok, db2) \<Rightarrow>
           if \<not> ok then (False, db2)
           else (True, db2\<lparr>db_accesses := db_accesses db2 @
             [\<lparr>ar_id = next_rowid (map ar_id (db_accesses db2)), ar_pid = fa_pid r, ar_file = i,
               ar_mode = fa_mode r, ar_fd = fa_fd r, ar_ts = fa_timestamp r\<rparr>]\<rparr>)))"

definition insert_failed_access :: "FailedAccessRecord \<Rightarrow> sq_db \<Rightarrow> bool \<times> sq_db" where
  "insert_failed_access r db =
    (case intern_path (fl_filename r) db of
       (None, db1) \<Rightarrow> (False, db1)
     | (Some i, db1) \<Rightarrow>
        (case sq_step db1 of (ok, db2) \<Rightarrow>
           if \<not> ok then (False, db2)
           else (True, db2\<lparr>db_failed := db_failed db2 @
             [\<lparr>fr_id = next_rowid (map fr_id (db_failed db2)), fr_pid = fl_pid r, fr_file = i,
               fr_mode = fl_mode r, fr_errno = fl_errno r, fr_ts = fl_timestamp r\<rparr>]\<rparr>)))"

text \<open>\<open>BEGIN\<close> inside a transaction and \<open>COMMIT\<close> outside one are errors of the statement.\<close>

definition begin_transaction :: "sq_db \<Rightarrow> bool \<times> sq_db" where
  "begin_transaction db =
    (case sq_step db of (ok, db1) \<Rightarrow>
       if \<not> ok \<or> db_in_tx db1 then (False, db1) else (True, db1\<lparr>db_in_tx := True\<rparr>))"

definition commit_transaction :: "sq_db \<Rightarrow> bool \<times> sq_db" where
  "commit_transaction db =
    (case sq_step db of (ok, db1) \<Rightarrow>
       if \<not> ok \<or> \<not> db_in_tx db1 then (False, db1) else (True, db1\<lparr>db_in_tx := False\<rparr>))"

text \<open>
  \<open>init_schema\<close> on a file without older tables: the table statements, the look at both tables
  for a \<open>filename\<close> column (none, so nothing to migrate), and the schema version.
\<close>

definition init_schema :: "sq_db \<Rightarrow> bool \<times> sq_db" where
  "init_schema db =
    (case sq_step db of (ok, db1) \<Rightarrow>
       if \<not> ok then (False, db1)
       else if \<not> db_readable db1 then (False, db1)
       else (True, snd (insert_meta ''schema_version'' ''6'' db1)))"

section \<open>Queries\<close>

definition file_path :: "sq_db \<Rightarrow> int \<Rightarrow> string option" where
  "file_path db i = map_of (db_files db) i"

text \<open>\<open>FROM file_accesses a JOIN files f ON f.id = a.file_id\<close>, one result row per match.\<close>

definition row_to_file_access :: "sq_db \<Rightarrow> AccessRow \<Rightarrow> FileAccessRecord option" where
  "row_to_file_access db a =
    (case file_path db (ar_file a) of
       None \<Rightarrow> None
     | Some p \<Rightarrow> Some \<lparr>fa_pid = ar_pid a, fa_filename = p, fa_mode = ar_mode a, fa_fd = ar_fd a,
                       fa_timestamp = ar_ts a\<rparr>)"

definition start_less :: "ProcessRecord \<Rightarrow> ProcessRecord \<Rightarrow> bool" where
  "start_less a b \<longleftrightarrow> pr_start a < pr_start b"

lemma start_less_weak: "weak_order start_less"
  unfolding weak_order_def start_less_def by auto

definition get_all_processes :: "sq_db \<Rightarrow> ProcessRecord list" where
  "get_all_processes db =
     (if db_readable db then std_sort start_less (map snd (db_processes db)) else [])"

definition get_children :: "sq_db \<Rightarrow> int \<Rightarrow> ProcessRecord list" where
  "get_children db ppid =
     (if db_readable db
      then std_sort start_less (filter (\<lambda>p. pr_ppid p = ppid) (map snd (db_processes db))) else [])"

definition get_process :: "sq_db \<Rightarrow> int \<Rightarrow> ProcessRecord option" where
  "get_process db pid = (if db_readable db then om_get (db_processes db) pid else None)"

definition get_root_processes :: "sq_db \<Rightarrow> ProcessRecord list" where
  "get_root_processes db =
     (if db_readable db
      then std_sort start_less
        (filter (\<lambda>p. pr_ppid p \<notin> set (om_keys (db_processes db))) (map snd (db_processes db)))
      else [])"

definition get_pids_with_children :: "sq_db \<Rightarrow> int oset" where
  "get_pids_with_children db =
     (if db_readable db then os_of (map pr_ppid (map snd (db_processes db))) else [])"

definition get_all_file_accesses :: "sq_db \<Rightarrow> FileAccessRecord list" where
  "get_all_file_accesses db =
     (if db_readable db then List.map_filter (row_to_file_access db) (db_accesses db) else [])"

definition get_file_accesses_by_pid :: "sq_db \<Rightarrow> int \<Rightarrow> FileAccessRecord list" where
  "get_file_accesses_by_pid db pid =
     (if db_readable db
      then List.map_filter (row_to_file_access db) (filter (\<lambda>a. ar_pid a = pid) (db_accesses db))
      else [])"

definition get_file_accesses_by_name :: "sq_db \<Rightarrow> string \<Rightarrow> FileAccessRecord list" where
  "get_file_accesses_by_name db filename =
     (if db_readable db
      then (case find (\<lambda>(_, p). p = c_str filename) (db_files db) of
              None \<Rightarrow> []
            | Some (i, _) \<Rightarrow>
                List.map_filter (row_to_file_access db) (filter (\<lambda>a. ar_file a = i) (db_accesses db)))
      else [])"

definition get_file_accesses_by_pids :: "sq_db \<Rightarrow> int oset \<Rightarrow> FileAccessRecord list" where
  "get_file_accesses_by_pids db pids =
     (if pids = [] then []
      else if db_readable db
      then List.map_filter (row_to_file_access db)
             (filter (\<lambda>a. ar_pid a \<in> set pids) (db_accesses db))
      else [])"

definition get_processes_by_pids :: "sq_db \<Rightarrow> int oset \<Rightarrow> (int, ProcessRecord) omap" where
  "get_processes_by_pids db pids =
     (if pids = [] then []
      else if db_readable db
      then fold (\<lambda>r out. om_put (pr_pid r) r out)
             (filter (\<lambda>r. pr_pid r \<in> set pids) (map snd (db_processes db))) []
      else [])"

definition get_all_failed_accesses :: "sq_db \<Rightarrow> FailedAccessRecord list" where
  "get_all_failed_accesses db =
     (if db_readable db
      then List.map_filter
        (\<lambda>a. case file_path db (fr_file a) of
               None \<Rightarrow> None
             | Some p \<Rightarrow> Some \<lparr>fl_pid = fr_pid a, fl_filename = p, fl_mode = fr_mode a,
                               fl_errno = fr_errno a, fl_timestamp = fr_ts a\<rparr>)
        (db_failed db)
      else [])"

definition get_process_count :: "sq_db \<Rightarrow> int" where
  "get_process_count db = (if db_readable db then int (length (db_processes db)) else -1)"

definition get_file_access_count :: "sq_db \<Rightarrow> int" where
  "get_file_access_count db = (if db_readable db then int (length (db_accesses db)) else -1)"

text \<open>\<open>has_table\<close> answers false when its own query cannot be prepared, and the count is then 0.\<close>

definition get_failed_access_count :: "sq_db \<Rightarrow> int" where
  "get_failed_access_count db = (if db_readable db then int (length (db_failed db)) else 0)"

text \<open>
  \<open>WITH RECURSIVE descendants(pid) AS (... UNION ALL ...)\<close>: SQLite keeps a queue of rows, takes
  the first, returns it and appends the rows the recursive select makes of it. \<open>UNION ALL\<close>
  remembers no row, so on a cycle of parents the query does not end: \<open>None\<close>.
\<close>

definition child_pids :: "sq_db \<Rightarrow> int \<Rightarrow> int list" where
  "child_pids db p = map pr_pid (filter (\<lambda>r. pr_ppid r = p) (map snd (db_processes db)))"

partial_function (option) descend :: "sq_db \<Rightarrow> int list \<Rightarrow> int oset \<Rightarrow> int oset option" where
  "descend db q out =
     (case q of [] \<Rightarrow> Some out | p # q' \<Rightarrow> descend db (q' @ child_pids db p) (os_ins p out))"

definition get_descendant_pids :: "sq_db \<Rightarrow> int \<Rightarrow> int oset \<Rightarrow> int oset option" where
  "get_descendant_pids db root out =
     (if db_readable db then descend db (child_pids db root) out else Some out)"

text \<open>\<open>GROUP BY\<close> with \<open>COUNT(*)\<close>: the number of rows with each key, in key order.\<close>

definition count_by :: "('a \<Rightarrow> int) \<Rightarrow> 'a list \<Rightarrow> (int, int) omap" where
  "count_by key rows = fold (\<lambda>a m. om_upd 0 (\<lambda>n. n + 1) (key a) m) rows []"

definition get_file_count_by_pid :: "sq_db \<Rightarrow> (int, int) omap" where
  "get_file_count_by_pid db = (if db_readable db then count_by ar_pid (db_accesses db) else [])"

definition get_failed_count_by_pid :: "sq_db \<Rightarrow> (int, int) omap" where
  "get_failed_count_by_pid db = (if db_readable db then count_by fr_pid (db_failed db) else [])"

definition get_file_access_summary :: "sq_db \<Rightarrow> (int, int) omap" where
  "get_file_access_summary db = (if db_readable db then count_by ar_mode (db_accesses db) else [])"

text \<open>\<open>COALESCE((SELECT cnt FROM (... GROUP BY pid) WHERE pid = processes.pid), 0)\<close> per row.\<close>

definition populate_counts :: "sq_db \<Rightarrow> bool \<times> sq_db" where
  "populate_counts db =
    (case sq_step db of (ok1, db1) \<Rightarrow>
       if \<not> ok1 then (False, db1)
       else
        let db2 = db1\<lparr>db_processes :=
              map (\<lambda>(k, r). (k, r\<lparr>pr_file_count := 0, pr_fail_count := 0\<rparr>)) (db_processes db1)\<rparr>
        in (case sq_step db2 of (ok3, db3) \<Rightarrow>
          if \<not> ok3 then (False, db3)
          else
           let fc = count_by ar_pid (db_accesses db3);
               db4 = db3\<lparr>db_processes :=
                 map (\<lambda>(k, r). (k, r\<lparr>pr_file_count :=
                    (case om_get fc (pr_pid r) of None \<Rightarrow> 0 | Some n \<Rightarrow> n)\<rparr>)) (db_processes db3)\<rparr>
           in if \<not> db_readable db4 then (True, db4)
              else (case sq_step db4 of (ok5, db5) \<Rightarrow>
             if \<not> ok5 then (False, db5)
             else
              let ec = count_by fr_pid (db_failed db5)
              in (True, db5\<lparr>db_processes :=
                    map (\<lambda>(k, r). (k, r\<lparr>pr_fail_count :=
                      (case om_get ec (pr_pid r) of None \<Rightarrow> 0 | Some n \<Rightarrow> n)\<rparr>)) (db_processes db5)\<rparr>))))"

text \<open>
  The range query behind \<open>get_file_accesses_by_prefix\<close> and \<open>scan_file_accesses_by_prefix\<close>:
  \<open>path >= pfx AND path < upper\<close>, where \<open>upper\<close> is \<open>pfx\<close> with its last byte incremented.
\<close>

definition prefix_lower :: "string \<Rightarrow> string" where
  "prefix_lower prefix =
     (if prefix \<noteq> [] \<and> last prefix \<noteq> CHR ''/'' then prefix @ ''/'' else prefix)"

definition prefix_upper :: "string \<Rightarrow> string" where
  "prefix_upper pfx = (if pfx = [] then [] else butlast pfx @ [char_of (of_char (last pfx) + 1 :: nat)])"

definition in_prefix_range :: "string \<Rightarrow> string \<Rightarrow> bool" where
  "in_prefix_range prefix path \<longleftrightarrow>
     c_str (prefix_lower prefix) \<le> path \<and> path < c_str (prefix_upper (prefix_lower prefix))"

definition get_file_accesses_by_prefix :: "sq_db \<Rightarrow> string \<Rightarrow> FileAccessRecord list" where
  "get_file_accesses_by_prefix db prefix =
     (if db_readable db
      then filter (\<lambda>r. in_prefix_range prefix (fa_filename r))
             (List.map_filter (row_to_file_access db) (db_accesses db))
      else [])"

text \<open>The scans hand each row to a callback that updates its context; \<open>-1\<close> when not prepared.\<close>

definition scan_file_accesses_by_prefix ::
  "sq_db \<Rightarrow> string \<Rightarrow> (int \<Rightarrow> string \<Rightarrow> int \<Rightarrow> 'c \<Rightarrow> 'c) \<Rightarrow> 'c \<Rightarrow> int \<times> 'c" where
  "scan_file_accesses_by_prefix db prefix cb ctx =
     (if db_readable db
      then fold (\<lambda>r (n, c). (n + 1, cb (fa_pid r) (fa_filename r) (fa_mode r) c))
             (filter (\<lambda>r. in_prefix_range prefix (fa_filename r))
                (List.map_filter (row_to_file_access db) (db_accesses db))) (0, ctx)
      else (-1, ctx))"

definition scan_all_file_accesses ::
  "sq_db \<Rightarrow> (int \<Rightarrow> string \<Rightarrow> int \<Rightarrow> 'c \<Rightarrow> 'c) \<Rightarrow> 'c \<Rightarrow> int \<times> 'c" where
  "scan_all_file_accesses db cb ctx =
     (if db_readable db
      then fold (\<lambda>r (n, c). (n + 1, cb (fa_pid r) (fa_filename r) (fa_mode r) c))
             (List.map_filter (row_to_file_access db) (db_accesses db)) (0, ctx)
      else (-1, ctx))"

record FileStatRow =
  fs_filename :: string
  fs_access_count :: int
  fs_read_count :: int
  fs_write_count :: int
  fs_process_count :: int

text \<open>One row per file id that occurs, in id order, joined with the file's path.\<close>

definition get_file_stats_grouped :: "sq_db \<Rightarrow> FileStatRow list" where
  "get_file_stats_grouped db =
     (if db_readable db
      then List.map_filter (\<lambda>i.
             let rows = filter (\<lambda>a. ar_file a = i) (db_accesses db) in
             case file_path db i of
               None \<Rightarrow> None
             | Some p \<Rightarrow> Some
                 \<lparr>fs_filename = p,
                  fs_access_count = int (length rows),
                  fs_read_count = int (length (filter (\<lambda>a. ar_mode a \<in> {0, 2, 3, 4, 5, 9}) rows)),
                  fs_write_count =
                    int (length (filter (\<lambda>a. ar_mode a \<in> {1, 2, 8, 10, 12, 14, 17, 18}) rows)),
                  fs_process_count = int (length (os_of (map ar_pid rows)))\<rparr>)
           (os_of (map ar_file (db_accesses db)))
      else [])"

text \<open>The files more than \<open>min_procs\<close> processes read: how many, and the most shared one.\<close>

definition get_hotfile_stats :: "sq_db \<Rightarrow> int \<Rightarrow> int \<times> string \<times> int" where
  "get_hotfile_stats db min_procs =
     (if db_readable db
      then
       let inputs = filter (\<lambda>a. ar_mode a \<in> {0, 2, 3, 4, 5, 9}) (db_accesses db);
           groups = List.map_filter (\<lambda>i. case file_path db i of
                None \<Rightarrow> None
              | Some p \<Rightarrow>
                  Some (p, int (length (os_of (map ar_pid (filter (\<lambda>a. ar_file a = i) inputs))))))
             (os_of (map ar_file inputs));
           rows = std_sort (\<lambda>a b. snd b < snd a) (filter (\<lambda>(_, n). n > min_procs) groups)
       in (case rows of [] \<Rightarrow> (0, '''', 0) | (p, n) # _ \<Rightarrow> (int (length rows), p, n))
      else (0, '''', 0))"

end
