(* ===== verification/Session.thy ===== *)
theory Session
  imports Database
begin

text \<open>
  \<open>TraceSession\<close> of \<open>tracer/trace_session.{h,cpp}\<close>: the operations the tracer calls, and the
  event application that the writer thread (or, without one, the caller) performs. The
  members owned by the writer are the record \<open>writer\<close>; \<open>session\<close> holds the others and the
  queue between the two threads. \<open>int\<close> arithmetic on synthetic ids is unbounded here;
  \<open>Session_Proofs\<close> states when it fits the code's 32-bit \<open>int\<close>.
\<close>

definition BATCH_SIZE :: nat where "BATCH_SIZE = 5000"
definition WAL_CHECKPOINT_INTERVAL :: nat where "WAL_CHECKPOINT_INTERVAL = 50000"
definition MAX_QUEUE_EVENTS :: nat where "MAX_QUEUE_EVENTS = 200000"
definition PID_GEN_STRIDE :: int where "PID_GEN_STRIDE = 10000000"

datatype QueuedEvent =
    EV_PROC_START ProcessRecord
  | EV_PROC_EXIT (ev_pid: int) (ev_end_time: int) (ev_exit_code: int) (ev_user: int) (ev_sys: int)
      (ev_rss: int) (ev_io_r: int) (ev_io_w: int)
  | EV_FILE_ACCESS FileAccessRecord
  | EV_FAILED_ACCESS FailedAccessRecord
  | EV_DELETE_PROC int

section \<open>The writer's side\<close>

record writer =
  w_db :: sq_db
  w_event_count :: nat
  w_in_transaction :: bool
  w_write_error_count :: nat
  w_consecutive_errors :: nat
  w_total_event_count :: nat

definition writer_init :: "sq_db \<Rightarrow> writer" where
  "writer_init db = \<lparr>w_db = db, w_event_count = 0, w_in_transaction = False,
     w_write_error_count = 0, w_consecutive_errors = 0, w_total_event_count = 0\<rparr>"

definition check_write_result :: "bool \<Rightarrow> writer \<Rightarrow> writer" where
  "check_write_result ok w =
     (if ok then w\<lparr>w_consecutive_errors := 0\<rparr>
      else w\<lparr>w_write_error_count := Suc (w_write_error_count w),
             w_consecutive_errors := Suc (w_consecutive_errors w)\<rparr>)"

text \<open>\<open>wal_checkpoint\<close> is one statement without effect on the tables.\<close>

definition wal_checkpoint :: "sq_db \<Rightarrow> sq_db" where
  "wal_checkpoint db = snd (sq_step db)"

definition maybe_commit :: "writer \<Rightarrow> writer" where
  "maybe_commit w =
    (if w_event_count w \<ge> BATCH_SIZE
     then
      let w1 = w\<lparr>w_db := snd (commit_transaction (w_db w)), w_in_transaction := False,
                 w_total_event_count := w_total_event_count w + w_event_count w,
                 w_event_count := 0\<rparr>
      in if w_total_event_count w1 mod WAL_CHECKPOINT_INTERVAL = 0
         then w1\<lparr>w_db := wal_checkpoint (w_db w1)\<rparr> else w1
     else w)"

text \<open>The database call an event stands for: its success and the database after it.\<close>

fun event_call :: "QueuedEvent \<Rightarrow> sq_db \<Rightarrow> bool \<times> sq_db" where
  "event_call (EV_PROC_START p) db = insert_process p db"
| "event_call (EV_PROC_EXIT pid e c u s rss r w) db = update_process_exit pid e c u s rss r w db"
| "event_call (EV_FILE_ACCESS fa) db = insert_file_access fa db"
| "event_call (EV_FAILED_ACCESS fl) db = insert_failed_access fl db"
| "event_call (EV_DELETE_PROC pid) db = delete_process_row pid db"

definition ensure_transaction :: "writer \<Rightarrow> writer" where
  "ensure_transaction w =
     (if w_in_transaction w then w
      else w\<lparr>w_db := snd (begin_transaction (w_db w)), w_in_transaction := True\<rparr>)"

definition perform_event :: "QueuedEvent \<Rightarrow> writer \<Rightarrow> writer" where
  "perform_event ev w =
     (case event_call ev (w_db w) of (ok, db') \<Rightarrow> check_write_result ok (w\<lparr>w_db := db'\<rparr>))"

definition apply_event :: "QueuedEvent \<Rightarrow> writer \<Rightarrow> writer" where
  "apply_event ev w =
    (if w_consecutive_errors w \<ge> 50 then w
     else
      let w1 = perform_event ev (ensure_transaction w)
      in maybe_commit (w1\<lparr>w_event_count := Suc (w_event_count w1)\<rparr>))"

text \<open>What \<open>writer_loop\<close> does when it leaves its loop, and \<open>finalize\<close> after the join.\<close>

definition close_transaction :: "writer \<Rightarrow> writer" where
  "close_transaction w =
     (if w_in_transaction w
      then w\<lparr>w_db := snd (commit_transaction (w_db w)), w_in_transaction := False\<rparr> else w)"

section \<open>The tracer's side\<close>

type_synonym seen_set = "(int \<times> string) oset"

record session =
  ss_writer :: writer
  ss_finalized :: bool
  ss_process_count :: nat
  ss_file_access_count :: nat
  ss_failed_access_count :: nat
  ss_seen :: "(int, seen_set) omap"
  ss_dedup_dropped :: nat
  ss_pid_gen :: "(int, int) omap"
  ss_live_pids :: "int oset"
  ss_expect_reinsert :: "int oset"
  ss_pid_recycles :: nat
  ss_lost_exit_starts :: nat
  ss_async :: bool
  ss_stop_requested :: bool
  ss_queue :: "QueuedEvent list"
  ss_db_size_cache :: int

definition session_init :: "sq_db \<Rightarrow> bool \<Rightarrow> session" where
  "session_init db async = \<lparr>ss_writer = writer_init db, ss_finalized = False, ss_process_count = 0,
     ss_file_access_count = 0, ss_failed_access_count = 0, ss_seen = [], ss_dedup_dropped = 0,
     ss_pid_gen = [], ss_live_pids = [], ss_expect_reinsert = [], ss_pid_recycles = 0,
     ss_lost_exit_starts = 0, ss_async = async, ss_stop_requested = False, ss_queue = [],
     ss_db_size_cache = 0\<rparr>"

definition has_fatal_errors :: "session \<Rightarrow> bool" where
  "has_fatal_errors s \<longleftrightarrow> w_consecutive_errors (ss_writer s) \<ge> 50"

definition current_synth :: "session \<Rightarrow> int \<Rightarrow> int" where
  "current_synth s pid =
    (case om_get (ss_pid_gen s) pid of
       None \<Rightarrow> pid
     | Some g \<Rightarrow> if g = 0 then pid else g * PID_GEN_STRIDE + pid)"

text \<open>The insertion into the pid's set of seen accesses, and whether it was there already.\<close>

definition seen_of :: "session \<Rightarrow> int \<Rightarrow> seen_set" where
  "seen_of s pid = (case om_get (ss_seen s) pid of None \<Rightarrow> [] | Some ks \<Rightarrow> ks)"

definition already_seen :: "int \<Rightarrow> int \<Rightarrow> string \<Rightarrow> session \<Rightarrow> bool \<times> session" where
  "already_seen pid key filename s =
    (let s1 = s\<lparr>ss_seen := om_upd [] (os_ins (key, filename)) pid (ss_seen s)\<rparr>
     in if (key, filename) \<in> set (seen_of s pid)
        then (True, s1\<lparr>ss_dedup_dropped := Suc (ss_dedup_dropped s1)\<rparr>)
        else (False, s1))"

text \<open>
  \<open>enqueue\<close> applies the event at once without a writer thread, and appends it to the queue
  otherwise. The wait for space is the guard \<open>enqueue_ready\<close> of the step that enqueues.
\<close>

definition enqueue_ready :: "session \<Rightarrow> bool" where
  "enqueue_ready s \<longleftrightarrow>
     \<not> ss_async s \<or> length (ss_queue s) < MAX_QUEUE_EVENTS \<or> ss_stop_requested s"

definition enqueue :: "QueuedEvent \<Rightarrow> session \<Rightarrow> session" where
  "enqueue ev s =
     (if \<not> ss_async s then s\<lparr>ss_writer := apply_event ev (ss_writer s)\<rparr>
      else s\<lparr>ss_queue := ss_queue s @ [ev]\<rparr>)"

definition register_start :: "int \<Rightarrow> session \<Rightarrow> session" where
  "register_start pid s =
    (case om_get (ss_pid_gen s) pid of
       None \<Rightarrow> s\<lparr>ss_pid_gen := om_put pid 0 (ss_pid_gen s)\<rparr>
     | Some g \<Rightarrow>
        if pid \<in> set (ss_expect_reinsert s)
        then s\<lparr>ss_expect_reinsert := os_del pid (ss_expect_reinsert s)\<rparr>
        else s\<lparr>ss_lost_exit_starts :=
                 (if pid \<in> set (ss_live_pids s) then Suc (ss_lost_exit_starts s)
                  else ss_lost_exit_starts s),
               ss_pid_gen := om_put pid (g + 1) (ss_pid_gen s),
               ss_pid_recycles := Suc (ss_pid_recycles s)\<rparr>)"

definition start_body :: "ProcessRecord \<Rightarrow> session \<Rightarrow> session" where
  "start_body rec s =
    (let s1 = s\<lparr>ss_seen := om_del (pr_pid rec) (ss_seen s)\<rparr>;
         s2 = register_start (pr_pid rec) s1;
         s3 = s2\<lparr>ss_live_pids := os_ins (pr_pid rec) (ss_live_pids s2)\<rparr>;
         ev = EV_PROC_START (rec\<lparr>pr_pid := current_synth s3 (pr_pid rec),
                                 pr_ppid := current_synth s3 (pr_ppid rec)\<rparr>);
         s4 = enqueue ev s3
     in s4\<lparr>ss_process_count := Suc (ss_process_count s4)\<rparr>)"

definition exit_body :: "int \<Rightarrow> int \<Rightarrow> int \<Rightarrow> int \<Rightarrow> int \<Rightarrow> int \<Rightarrow> int \<Rightarrow> int \<Rightarrow> session \<Rightarrow> session" where
  "exit_body pid end_us code user_us sys_us rss io_r io_w s =
    (let s1 = s\<lparr>ss_seen := om_del pid (ss_seen s)\<rparr>;
         ev = EV_PROC_EXIT (current_synth s1 pid) end_us code user_us sys_us rss io_r io_w;
         s2 = s1\<lparr>ss_live_pids := os_del pid (ss_live_pids s1),
                 ss_expect_reinsert := os_del pid (ss_expect_reinsert s1)\<rparr>
     in enqueue ev s2)"

definition access_body :: "FileAccessRecord \<Rightarrow> session \<Rightarrow> session" where
  "access_body rec s =
    (case already_seen (fa_pid rec) (fa_mode rec) (fa_filename rec) s of
       (True, s1) \<Rightarrow> s1
     | (False, s1) \<Rightarrow>
        let s2 = enqueue (EV_FILE_ACCESS (rec\<lparr>fa_pid := current_synth s1 (fa_pid rec)\<rparr>)) s1
        in s2\<lparr>ss_file_access_count := Suc (ss_file_access_count s2)\<rparr>)"

text \<open>\<open>0x40000000L | ((long)errno << 8) | (long)mode\<close>\<close>

definition failed_key :: "int \<Rightarrow> int \<Rightarrow> int" where
  "failed_key errno mode = or (or 0x40000000 (push_bit 8 errno)) mode"

definition failed_body :: "FailedAccessRecord \<Rightarrow> session \<Rightarrow> session" where
  "failed_body rec s =
    (case already_seen (fl_pid rec) (failed_key (fl_errno rec) (fl_mode rec)) (fl_filename rec) s of
       (True, s1) \<Rightarrow> s1
     | (False, s1) \<Rightarrow>
        let s2 = enqueue (EV_FAILED_ACCESS (rec\<lparr>fl_pid := current_synth s1 (fl_pid rec)\<rparr>)) s1
        in s2\<lparr>ss_failed_access_count := Suc (ss_failed_access_count s2)\<rparr>)"

definition delete_body :: "int \<Rightarrow> session \<Rightarrow> session" where
  "delete_body pid s =
    (let ev = EV_DELETE_PROC (current_synth s pid);
         s1 = s\<lparr>ss_expect_reinsert := os_ins pid (ss_expect_reinsert s)\<rparr>
     in enqueue ev s1)"

text \<open>The public operations: nothing happens after a fatal error.\<close>

definition on_process_start :: "ProcessRecord \<Rightarrow> session \<Rightarrow> session" where
  "on_process_start rec s = (if has_fatal_errors s then s else start_body rec s)"

definition on_process_exit ::
  "int \<Rightarrow> int \<Rightarrow> int \<Rightarrow> int \<Rightarrow> int \<Rightarrow> int \<Rightarrow> int \<Rightarrow> int \<Rightarrow> session \<Rightarrow> session" where
  "on_process_exit pid end_us code user_us sys_us rss io_r io_w s =
     (if has_fatal_errors s then s else exit_body pid end_us code user_us sys_us rss io_r io_w s)"

definition on_file_access :: "FileAccessRecord \<Rightarrow> session \<Rightarrow> session" where
  "on_file_access rec s = (if has_fatal_errors s then s else access_body rec s)"

definition on_failed_access :: "FailedAccessRecord \<Rightarrow> session \<Rightarrow> session" where
  "on_failed_access rec s = (if has_fatal_errors s then s else failed_body rec s)"

definition delete_process :: "int \<Rightarrow> session \<Rightarrow> session" where
  "delete_process pid s = (if has_fatal_errors s then s else delete_body pid s)"

text \<open>
  \<open>finalize\<close> from the point where no writer thread runs (never started, or joined):
  commit what is open; the first time, build the indexes, count and analyse.
\<close>

definition finalize_tail :: "session \<Rightarrow> session" where
  "finalize_tail s =
    (let s1 = s\<lparr>ss_writer := close_transaction (ss_writer s)\<rparr>;
         s2 = (if ss_finalized s1 then s1
               else
                let db1 = snd (sq_step (w_db (ss_writer s1)));
                    db2 = snd (populate_counts db1);
                    db3 = snd (sq_step db2)
                in s1\<lparr>ss_finalized := True, ss_writer := (ss_writer s1)\<lparr>w_db := db3\<rparr>\<rparr>)
     in s2\<lparr>ss_seen := []\<rparr>)"

text \<open>One operation as a value, for sequences of calls.\<close>

datatype session_op =
    Start ProcessRecord
  | Exit int int int int int int int int
  | Access FileAccessRecord
  | Failed FailedAccessRecord
  | Delete int

fun op_body :: "session_op \<Rightarrow> session \<Rightarrow> session" where
  "op_body (Start rec) s = start_body rec s"
| "op_body (Exit pid e c u y rss r w) s = exit_body pid e c u y rss r w s"
| "op_body (Access rec) s = access_body rec s"
| "op_body (Failed rec) s = failed_body rec s"
| "op_body (Delete pid) s = delete_body pid s"

definition session_op :: "session_op \<Rightarrow> session \<Rightarrow> session" where
  "session_op op s = (if has_fatal_errors s then s else op_body op s)"

end
