(* ===== verification/Database_Proofs.thy ===== *)
theory Database_Proofs
  imports Database
begin

text \<open>
  What the statements of \<open>db/database.cpp\<close> promise their callers, whatever the engine answers:
  the tables stay consistent (\<open>db_inv\<close>), a write that reports success is read back exactly and
  a write that reports failure changes no row, a path has one id, the range query of the prefix
  search selects the files below a directory, and the denormalised counts are the row counts.
\<close>

section \<open>Consistency of the tables\<close>

definition files_ok :: "sq_db \<Rightarrow> bool" where
  "files_ok db \<longleftrightarrow>
     distinct (map fst (db_files db)) \<and> distinct (map snd (db_files db))
     \<and> (\<forall>(i, p) \<in> set (db_files db). CHR 0x00 \<notin> set p)
     \<and> (\<forall>p i. om_get (db_intern_cache db) p = Some i \<longrightarrow> (i, c_str p) \<in> set (db_files db))"

definition rows_ok :: "sq_db \<Rightarrow> bool" where
  "rows_ok db \<longleftrightarrow>
     om_inv (db_processes db)
     \<and> (\<forall>(k, r) \<in> set (db_processes db). pr_pid r = k)
     \<and> (\<forall>a \<in> set (db_accesses db). ar_file a \<in> fst ` set (db_files db))
     \<and> (\<forall>a \<in> set (db_failed db). fr_file a \<in> fst ` set (db_files db))
     \<and> distinct (map ar_id (db_accesses db)) \<and> distinct (map fr_id (db_failed db))"

definition db_inv :: "sq_db \<Rightarrow> bool" where
  "db_inv db \<longleftrightarrow> files_ok db \<and> rows_ok db"

lemma db_inv_empty: "db_inv (db_empty rc)"
  by (simp add: db_inv_def files_ok_def rows_ok_def db_empty_def)

lemma c_str_no_nul: "CHR 0x00 \<notin> set (c_str s)"
  by (auto simp: c_str_def dest: set_takeWhileD)

lemma sq_step_eq: "sq_step db = (ok, db') \<Longrightarrow> db' = db\<lparr>db_steps := Suc (db_steps db)\<rparr>"
  by (simp add: sq_step_def)

lemma db_inv_steps [simp]: "db_inv (db\<lparr>db_steps := n\<rparr>) = db_inv db"
  by (simp add: db_inv_def files_ok_def rows_ok_def)

lemma db_inv_in_tx [simp]: "db_inv (db\<lparr>db_in_tx := b\<rparr>) = db_inv db"
  by (simp add: db_inv_def files_ok_def rows_ok_def)

lemma db_inv_meta [simp]: "db_inv (db\<lparr>db_meta := m\<rparr>) = db_inv db"
  by (simp add: db_inv_def files_ok_def rows_ok_def)

lemma find_path_None: "find (\<lambda>(_, p). p = q) fs = None \<longleftrightarrow> q \<notin> snd ` set fs"
  by (force simp: find_None_iff)

lemma find_path_Some: "find (\<lambda>(_, p). p = q) fs = Some (i, p) \<Longrightarrow> p = q \<and> (i, p) \<in> set fs"
  by (induction fs) (auto split: if_splits)

section \<open>Interning a path\<close>

text \<open>Every outcome only appends to \<open>files\<close> and touches no other table.\<close>

lemma intern_path_frame:
  assumes "intern_path p db = (r, db')"
  shows "\<exists>fs c n. db' = db\<lparr>db_files := db_files db @ fs, db_intern_cache := c, db_steps := n\<rparr>"
proof -
  have "\<exists>fs c n. snd (intern_path p db) = db\<lparr>db_files := db_files db @ fs, db_intern_cache := c, db_steps := n\<rparr>"
  proof (cases "om_get (db_intern_cache db) p")
    case (Some i)
    then have "snd (intern_path p db) = db\<lparr>db_files := db_files db @ [],
        db_intern_cache := db_intern_cache db, db_steps := db_steps db\<rparr>" by (simp add: intern_path_def)
    then show ?thesis by blast
  next
    case None
    define d1 where "d1 = db\<lparr>db_steps := Suc (db_steps db)\<rparr>"
    show ?thesis
    proof (cases "db_rc db (db_steps db)")
      case False
      with None have "snd (intern_path p db) = db\<lparr>db_files := db_files db @ [],
          db_intern_cache := db_intern_cache db, db_steps := Suc (db_steps db)\<rparr>"
        by (simp add: intern_path_def sq_step_def)
      then show ?thesis by blast
    next
      case ok: True
      show ?thesis
      proof (cases "find (\<lambda>(_, q). q = c_str p) (db_files db)")
        case None2: None
        let ?i = "next_rowid (map fst (db_files db))"
        from None ok None2 have "snd (intern_path p db) = db\<lparr>db_files := db_files db @ [(?i, c_str p)],
            db_intern_cache := om_put p ?i (db_intern_cache db), db_steps := Suc (db_steps db)\<rparr>"
          by (simp add: intern_path_def sq_step_def Let_def)
        then show ?thesis by blast
      next
        case (Some ip)
        obtain i q where ip: "ip = (i, q)" by (cases ip)
        from None ok Some ip have "snd (intern_path p db) = db\<lparr>db_files := db_files db @ [],
            db_intern_cache := (if db_rc db (Suc (db_steps db)) then om_put p i (db_intern_cache db)
              else db_intern_cache db), db_steps := Suc (Suc (db_steps db))\<rparr>"
          by (simp add: intern_path_def sq_step_def)
        then show ?thesis by blast
      qed
    qed
  qed
  with assms show ?thesis by simp
qed

lemma files_ok_put_cache:
  "files_ok db \<Longrightarrow> (i, c_str p) \<in> set (db_files db) \<Longrightarrow>
   files_ok (db\<lparr>db_intern_cache := om_put p i (db_intern_cache db)\<rparr>)"
  by (auto simp: files_ok_def om_get_put)

lemma files_ok_append:
  assumes "files_ok db" and "i \<notin> fst ` set (db_files db)" and "c_str p \<notin> snd ` set (db_files db)"
  shows "files_ok (db\<lparr>db_files := db_files db @ [(i, c_str p)],
                     db_intern_cache := om_put p i (db_intern_cache db)\<rparr>)"
  using assms by (auto simp: files_ok_def om_get_put c_str_no_nul)

lemma files_ok_steps [simp]: "files_ok (db\<lparr>db_steps := n\<rparr>) = files_ok db"
  by (simp add: files_ok_def)

lemma intern_path_ok:
  assumes ok: "files_ok db" and r: "intern_path p db = (r, db')"
  shows "files_ok db'" and "r = Some i \<Longrightarrow> (i, c_str p) \<in> set (db_files db')"
proof -
  have "files_ok (snd (intern_path p db)) \<and>
    (fst (intern_path p db) = Some i \<longrightarrow> (i, c_str p) \<in> set (db_files (snd (intern_path p db))))"
  proof (cases "om_get (db_intern_cache db) p")
    case (Some j)
    with ok show ?thesis by (auto simp: intern_path_def files_ok_def)
  next
    case None
    show ?thesis
    proof (cases "find (\<lambda>(_, q). q = c_str p) (db_files db)")
      case None2: None
      let ?i = "next_rowid (map fst (db_files db))"
      have "?i \<notin> fst ` set (db_files db)" using next_rowid_fresh [of "map fst (db_files db)"] by simp
      moreover from None2 have "c_str p \<notin> snd ` set (db_files db)" using find_path_None by metis
      ultimately have "files_ok (db\<lparr>db_steps := Suc (db_steps db), db_files := db_files db @ [(?i, c_str p)],
          db_intern_cache := om_put p ?i (db_intern_cache db)\<rparr>)"
        using files_ok_append [of "db\<lparr>db_steps := Suc (db_steps db)\<rparr>" ?i p] ok by simp
      then show ?thesis using None None2 ok
        by (simp add: intern_path_def sq_step_def Let_def)
    next
      case (Some ip)
      obtain j q where ip: "ip = (j, q)" by (cases ip)
      with Some have "(j, c_str p) \<in> set (db_files db)" using find_path_Some by metis
      with files_ok_put_cache [of "db\<lparr>db_steps := Suc (Suc (db_steps db))\<rparr>" j p] ok None Some ip
      show ?thesis by (auto simp: intern_path_def sq_step_def)
    qed
  qed
  with r show "files_ok db'" and "r = Some i \<Longrightarrow> (i, c_str p) \<in> set (db_files db')" by auto
qed


section \<open>Every write keeps the tables consistent\<close>

lemma files_ok_ext:
  "db_files db' = db_files db \<Longrightarrow> db_intern_cache db' = db_intern_cache db \<Longrightarrow> files_ok db' = files_ok db"
  by (simp add: files_ok_def)

lemma rows_ok_intern:
  assumes "rows_ok db" and "intern_path p db = (r, db')"
  shows "rows_ok db'"
  using intern_path_frame [OF assms(2)] assms(1) by (auto simp: rows_ok_def image_Un)

lemma db_inv_intern: "db_inv db \<Longrightarrow> intern_path p db = (r, db') \<Longrightarrow> db_inv db'"
  unfolding db_inv_def using intern_path_ok(1) rows_ok_intern by blast

lemma rows_ok_put_process:
  "rows_ok db \<Longrightarrow> pr_pid r = k \<Longrightarrow> rows_ok (db\<lparr>db_processes := om_put k r (db_processes db)\<rparr>)"
proof -
  assume ok: "rows_ok db" and r: "pr_pid r = k"
  have "pr_pid r' = k'" if "(k', r') \<in> set (om_put k r (db_processes db))" for k' r'
  proof -
    have inv: "om_inv (om_put k r (db_processes db))" using ok by (simp add: rows_ok_def om_inv_put)
    with that have "om_get (om_put k r (db_processes db)) k' = Some r'" by (simp add: om_get_iff)
    with ok r show ?thesis by (auto simp: om_get_put rows_ok_def om_get_iff split: if_splits)
  qed
  with ok show ?thesis by (auto simp: rows_ok_def om_inv_put)
qed

lemma rows_ok_del_process: "rows_ok db \<Longrightarrow> rows_ok (db\<lparr>db_processes := om_del k (db_processes db)\<rparr>)"
  using om_inv_del [of "db_processes db" k] by (auto simp: rows_ok_def om_del_def)

lemma rows_ok_steps [simp]: "rows_ok (db\<lparr>db_steps := n\<rparr>) = rows_ok db"
  by (simp add: rows_ok_def)

lemma files_ok_processes [simp]: "files_ok (db\<lparr>db_processes := ps\<rparr>) = files_ok db"
  by (simp add: files_ok_def)

lemma rows_pid: "rows_ok db \<Longrightarrow> om_get (db_processes db) k = Some r \<Longrightarrow> pr_pid r = k"
  unfolding rows_ok_def using om_get_SomeD by fastforce

lemma insert_process_inv: "db_inv db \<Longrightarrow> db_inv (snd (insert_process r db))"
  using rows_ok_put_process [of "db\<lparr>db_steps := Suc (db_steps db)\<rparr>" "process_row r" "pr_pid r"]
  by (simp add: insert_process_def sq_step_def db_inv_def process_row_def)

lemma update_process_exit_inv: "db_inv db \<Longrightarrow> db_inv (snd (update_process_exit pid e c u s rss r w db))"
proof (cases "om_get (db_processes db) pid")
  case (Some row)
  assume inv: "db_inv db"
  let ?row = "row\<lparr>pr_end := e, pr_exit_code := c, pr_user_time := u, pr_sys_time := s,
    pr_peak_rss := rss, pr_io_read := r, pr_io_write := w\<rparr>"
  from inv Some have "pr_pid ?row = pid" using rows_pid [of db pid row] by (simp add: db_inv_def)
  with inv rows_ok_put_process [of "db\<lparr>db_steps := Suc (db_steps db)\<rparr>" ?row pid] Some
  show ?thesis by (simp add: update_process_exit_def sq_step_def db_inv_def)
qed (simp add: update_process_exit_def sq_step_def)

lemma delete_process_row_inv: "db_inv db \<Longrightarrow> db_inv (snd (delete_process_row pid db))"
  using rows_ok_del_process [of "db\<lparr>db_steps := Suc (db_steps db)\<rparr>" pid]
  by (simp add: delete_process_row_def sq_step_def db_inv_def)

lemma files_ok_accesses [simp]:
  "files_ok (db\<lparr>db_accesses := as\<rparr>) = files_ok db" "files_ok (db\<lparr>db_failed := fs\<rparr>) = files_ok db"
  by (simp_all add: files_ok_def)

lemma db_inv_add_access:
  assumes "db_inv db" and "ar_file a \<in> fst ` set (db_files db)"
    and "ar_id a \<notin> set (map ar_id (db_accesses db))"
  shows "db_inv (db\<lparr>db_accesses := db_accesses db @ [a]\<rparr>)"
  using assms by (auto simp: db_inv_def rows_ok_def)

lemma db_inv_add_failed:
  assumes "db_inv db" and "fr_file a \<in> fst ` set (db_files db)"
    and "fr_id a \<notin> set (map fr_id (db_failed db))"
  shows "db_inv (db\<lparr>db_failed := db_failed db @ [a]\<rparr>)"
  using assms by (auto simp: db_inv_def rows_ok_def)

lemma insert_file_access_inv: "db_inv db \<Longrightarrow> db_inv (snd (insert_file_access r db))"
proof -
  assume inv: "db_inv db"
  obtain i db1 where i: "intern_path (fa_filename r) db = (i, db1)" by fastforce
  show ?thesis
  proof (cases i)
    case (Some j)
    from inv i intern_path_ok(2) [OF _ i Some] have "j \<in> fst ` set (db_files db1)"
      by (force simp: db_inv_def)
    with db_inv_intern [OF inv i] next_rowid_fresh [of "map ar_id (db_accesses db1)"] Some i
      db_inv_add_access [of "db1\<lparr>db_steps := Suc (db_steps db1)\<rparr>"]
    show ?thesis by (simp add: insert_file_access_def sq_step_def)
  qed (use db_inv_intern [OF inv i] i in \<open>simp add: insert_file_access_def\<close>)
qed

lemma insert_failed_access_inv: "db_inv db \<Longrightarrow> db_inv (snd (insert_failed_access r db))"
proof -
  assume inv: "db_inv db"
  obtain i db1 where i: "intern_path (fl_filename r) db = (i, db1)" by fastforce
  show ?thesis
  proof (cases i)
    case (Some j)
    from inv i intern_path_ok(2) [OF _ i Some] have "j \<in> fst ` set (db_files db1)"
      by (force simp: db_inv_def)
    with db_inv_intern [OF inv i] next_rowid_fresh [of "map fr_id (db_failed db1)"] Some i
      db_inv_add_failed [of "db1\<lparr>db_steps := Suc (db_steps db1)\<rparr>"]
    show ?thesis by (simp add: insert_failed_access_def sq_step_def)
  qed (use db_inv_intern [OF inv i] i in \<open>simp add: insert_failed_access_def\<close>)
qed

lemma transaction_inv:
  "db_inv db \<Longrightarrow> db_inv (snd (begin_transaction db))" "db_inv db \<Longrightarrow> db_inv (snd (commit_transaction db))"
  by (simp_all add: begin_transaction_def commit_transaction_def sq_step_def)

lemma map_rows_get:
  "om_get (map (\<lambda>(k, r). (k, f r)) m) k = map_option f (om_get m k)"
  unfolding om_get_def by (induction m) auto

lemma rows_ok_map:
  assumes "rows_ok (db\<lparr>db_processes := ps\<rparr>)" and "\<And>r. pr_pid (f r) = pr_pid r"
  shows "rows_ok (db\<lparr>db_processes := map (\<lambda>(k, r). (k, f r)) ps\<rparr>)"
proof -
  have "map fst (map (\<lambda>(k, r). (k, f r)) ps) = map fst ps"
    by (induction ps) auto
  with assms show ?thesis by (auto simp: rows_ok_def om_inv_def simp del: map_map)
qed

lemma rows_ok_same [simp]: "rows_ok (db\<lparr>db_steps := n, db_processes := db_processes db\<rparr>) = rows_ok db"
  by (simp add: rows_ok_def)

lemma populate_counts_inv: "db_inv db \<Longrightarrow> db_inv (snd (populate_counts db))"
  by (simp add: populate_counts_def sq_step_def db_inv_def rows_ok_map Let_def del: map_map)


section \<open>What a write adds to a query's result\<close>

lemma file_path_append:
  "i \<in> fst ` set (db_files db) \<Longrightarrow> map_of (db_files db @ fs) i = map_of (db_files db) i"
  by (auto simp: map_add_def map_of_append split: option.split dest: weak_map_of_SomeI)

lemma map_filter_cong:
  "(\<And>x. x \<in> set xs \<Longrightarrow> f x = g x) \<Longrightarrow> List.map_filter f xs = List.map_filter g xs"
  by (induction xs) (simp_all add: List.map_filter_simps split: option.split)

lemma rows_same_after_intern:
  assumes "rows_ok db" and "intern_path p db = (r, db')"
  shows "List.map_filter (row_to_file_access db') (db_accesses db) =
    List.map_filter (row_to_file_access db) (db_accesses db)"
proof -
  from intern_path_frame [OF assms(2)] obtain fs where fs: "db_files db' = db_files db @ fs" by auto
  have "row_to_file_access db' a = row_to_file_access db a" if "a \<in> set (db_accesses db)" for a
    using assms(1) that file_path_append [of "ar_file a" db fs]
    by (simp add: row_to_file_access_def file_path_def fs rows_ok_def)
  then show ?thesis by (rule map_filter_cong)
qed

lemma file_path_ok: "files_ok db \<Longrightarrow> (i, p) \<in> set (db_files db) \<Longrightarrow> file_path db i = Some p"
  by (simp add: files_ok_def file_path_def)

lemma map_filter_append [simp]: "List.map_filter f (xs @ ys) = List.map_filter f xs @ List.map_filter f ys"
  by (simp add: List.map_filter_def)

lemma row_to_file_access_cong:
  "db_files db' = db_files db \<Longrightarrow> row_to_file_access db' = row_to_file_access db"
  by (simp add: row_to_file_access_def file_path_def fun_eq_iff)

text \<open>A file access that \<open>insert_file_access\<close> reports as written is read back by
  \<open>get_all_file_accesses\<close> after all earlier ones, with the path up to its first NUL; one that
  failed leaves the result of the query as it was, whichever statement of the insert failed.\<close>

theorem insert_access_roundtrip:
  assumes "db_inv db" and "db_readable db" and "insert_file_access r db = (ok, db')"
  shows "get_all_file_accesses db' = get_all_file_accesses db @
    (if ok then [r\<lparr>fa_filename := c_str (fa_filename r)\<rparr>] else [])"
proof -
  obtain i db1 where i: "intern_path (fa_filename r) db = (i, db1)" by fastforce
  from intern_path_frame [OF i] have frame: "db_accesses db1 = db_accesses db" "db_readable db1 = db_readable db"
    by auto
  from assms(1) have fok: "files_ok db" and rok: "rows_ok db" by (simp_all add: db_inv_def)
  note same = rows_same_after_intern [OF rok i]
  show ?thesis
  proof (cases i)
    case None
    with assms(2,3) i same frame show ?thesis
      by (auto simp: insert_file_access_def get_all_file_accesses_def)
  next
    case (Some j)
    have "file_path db1 j = Some (c_str (fa_filename r))"
      by (rule file_path_ok [OF intern_path_ok [OF fok i]]) (rule Some)
    then have new: "row_to_file_access db1 \<lparr>ar_id = n, ar_pid = fa_pid r, ar_file = j, ar_mode = fa_mode r,
        ar_fd = fa_fd r, ar_ts = fa_timestamp r\<rparr> = Some (r\<lparr>fa_filename := c_str (fa_filename r)\<rparr>)" for n
      by (simp add: row_to_file_access_def)
    have cong: "row_to_file_access (db1\<lparr>db_steps := n\<rparr>) = row_to_file_access db1"
      "row_to_file_access (db1\<lparr>db_steps := n, db_accesses := as\<rparr>) = row_to_file_access db1" for n as
      by (rule row_to_file_access_cong; simp)+
    show ?thesis
    proof (cases "db_rc db1 (db_steps db1)")
      case True
      with assms(3) i Some have "ok" and "db' = db1\<lparr>db_steps := Suc (db_steps db1),
          db_accesses := db_accesses db1 @ [\<lparr>ar_id = next_rowid (map ar_id (db_accesses db1)),
            ar_pid = fa_pid r, ar_file = j, ar_mode = fa_mode r, ar_fd = fa_fd r, ar_ts = fa_timestamp r\<rparr>]\<rparr>"
        by (auto simp: insert_file_access_def sq_step_def)
      with assms(2) frame same new show ?thesis
        by (simp add: get_all_file_accesses_def cong List.map_filter_simps)
    next
      case False
      with assms(3) i Some have "\<not> ok" and "db' = db1\<lparr>db_steps := Suc (db_steps db1)\<rparr>"
        by (auto simp: insert_file_access_def sq_step_def)
      with assms(2) frame same show ?thesis by (simp add: get_all_file_accesses_def cong)
    qed
  qed
qed

text \<open>A path has one id: two paths that \<open>intern_path\<close> resolves, one after the other and
  through the cache or the table, get the same id exactly when they are the same C string.\<close>

theorem intern_path_injective:
  assumes "db_inv db" and "intern_path p db = (Some i, db1)" and "intern_path q db1 = (Some j, db2)"
  shows "i = j \<longleftrightarrow> c_str p = c_str q"
proof -
  have ok1: "files_ok db1" and p1: "(i, c_str p) \<in> set (db_files db1)"
    using intern_path_ok [OF _ assms(2)] assms(1) by (auto simp: db_inv_def)
  have ok2: "files_ok db2" and q2: "(j, c_str q) \<in> set (db_files db2)"
    using intern_path_ok [OF ok1 assms(3)] by auto
  have p2: "(i, c_str p) \<in> set (db_files db2)" using intern_path_frame [OF assms(3)] p1 by auto
  from ok2 have "distinct (map fst (db_files db2))" "distinct (map snd (db_files db2))"
    by (simp_all add: files_ok_def)
  with p2 q2 show ?thesis by (metis eq_key_imp_eq_value distinct_map inj_onD snd_conv prod.inject)
qed

section \<open>The range query of the prefix search\<close>

lemma slash_range: "q @ ''/'' \<le> s \<and> s < q @ ''0'' \<longleftrightarrow> starts_with s (q @ ''/'')"
proof (induction q arbitrary: s)
  case Nil
  show ?case
    by (cases s) (auto simp: starts_with_def less_char_def less_eq_char_def of_char_def)
next
  case step: (Cons c q)
  show ?case
  proof (cases s)
    case (Cons d s')
    have 1: "starts_with (d # s') ((c # q) @ ''/'') \<longleftrightarrow> d = c \<and> starts_with s' (q @ ''/'')"
      by (simp add: starts_with_def) blast
    have 2: "(c # q) @ ''/'' \<le> d # s' \<and> d # s' < (c # q) @ ''0'' \<longleftrightarrow> d = c \<and> (q @ ''/'' \<le> s' \<and> s' < q @ ''0'')"
      using less_linear [of d c] by (cases "d = c") (simp_all add: not_less_iff_gr_or_eq)
    show ?thesis unfolding Cons 1 2 by (simp only: step.IH)
  qed (simp add: starts_with_def)
qed

lemma char_after_slash: "char_of (48 :: nat) = CHR ''0''"
  by code_simp

lemma prefix_bounds:
  assumes "prefix \<noteq> []" and "CHR 0x00 \<notin> set prefix"
  shows "\<exists>q. prefix_lower prefix = q @ ''/'' \<and> prefix_upper (prefix_lower prefix) = q @ ''0''
    \<and> CHR 0x00 \<notin> set q"
proof -
  let ?q = "if last prefix = CHR ''/'' then butlast prefix else prefix"
  have "prefix_lower prefix = ?q @ ''/''"
    using assms(1) by (auto simp: prefix_lower_def) (metis append_butlast_last_id)
  moreover from this have "prefix_upper (prefix_lower prefix) = ?q @ ''0''"
    by (simp only: prefix_upper_def) (simp add: char_after_slash)
  moreover have "CHR 0x00 \<notin> set ?q" using assms(2) by (auto dest: in_set_butlastD)
  ultimately show ?thesis by blast
qed

lemma in_prefix_range_iff:
  assumes "prefix \<noteq> []" and "CHR 0x00 \<notin> set prefix"
  shows "in_prefix_range prefix path \<longleftrightarrow> starts_with path (prefix_lower prefix)"
proof -
  from prefix_bounds [OF assms] obtain q where q: "prefix_lower prefix = q @ ''/''"
    "prefix_upper (q @ ''/'') = q @ ''0''" "CHR 0x00 \<notin> set q" by metis
  have "c_str (q @ ''/'') = q @ ''/''" "c_str (q @ ''0'') = q @ ''0''" using q(3) by (simp_all add: c_str_id)
  with q slash_range [of q path] show ?thesis by (simp add: in_prefix_range_def)
qed

text \<open>The prefix search returns exactly the accesses whose path starts with the given
  directory and a slash (a slash that is already there is not doubled), in table order: the range
  the query asks the index for is that set, for every non-empty prefix without a NUL.\<close>

theorem prefix_search_exact:
  assumes "prefix \<noteq> []" and "CHR 0x00 \<notin> set prefix"
  shows "get_file_accesses_by_prefix db prefix =
    filter (\<lambda>r. starts_with (fa_filename r) (if last prefix = CHR ''/'' then prefix else prefix @ ''/''))
      (get_all_file_accesses db)"
proof -
  have "prefix_lower prefix = (if last prefix = CHR ''/'' then prefix else prefix @ ''/'')"
    using assms(1) by (simp add: prefix_lower_def)
  then show ?thesis
    by (simp add: get_file_accesses_by_prefix_def get_all_file_accesses_def in_prefix_range_iff [OF assms])
qed

text \<open>The range of an empty prefix is empty: no path is below the empty string.\<close>

lemma prefix_search_empty: "get_file_accesses_by_prefix db [] = []"
proof -
  have "\<not> in_prefix_range [] path" for path
    by (simp add: in_prefix_range_def prefix_lower_def prefix_upper_def c_str_def)
  then show ?thesis by (simp add: get_file_accesses_by_prefix_def)
qed

section \<open>Counts\<close>

lemma count_by_get:
  "om_get (count_by key rows) k =
     (let n = length (filter (\<lambda>a. key a = k) rows) in if n = 0 then None else Some (int n))"
proof -
  have "om_get (fold (\<lambda>a m. om_upd 0 (\<lambda>n. n + 1) (key a) m) rows m) k =
      (let n = length (filter (\<lambda>a. key a = k) rows) in
       if n = 0 then om_get m k
       else Some (int n + (case om_get m k of None \<Rightarrow> 0 | Some v \<Rightarrow> v)))" for m
    by (induction rows arbitrary: m) (auto simp: om_get_upd Let_def split: option.split)
  then show ?thesis by (simp add: count_by_def Let_def)
qed

lemma count_by_value:
  "(case om_get (count_by key rows) k of None \<Rightarrow> 0 | Some n \<Rightarrow> n) =
     int (length (filter (\<lambda>a. key a = k) rows))"
  by (simp add: count_by_get Let_def)

text \<open>When \<open>populate_counts\<close> reports success, every process row carries the number of its
  file accesses and of its failed accesses, and nothing else of the row has changed.\<close>

lemma populate_counts_correct:
  assumes "populate_counts db = (True, db')" and "db_readable db"
  shows "om_get (db_processes db') pid = map_option
    (\<lambda>r. r\<lparr>pr_file_count := int (length (filter (\<lambda>a. ar_pid a = pr_pid r) (db_accesses db))),
           pr_fail_count := int (length (filter (\<lambda>a. fr_pid a = pr_pid r) (db_failed db)))\<rparr>)
    (om_get (db_processes db) pid)"
  using assms
  by (auto simp: populate_counts_def sq_step_def Let_def count_by_value map_rows_get
      option.map_comp o_def simp del: map_map split: if_splits)

section \<open>The recursive query for descendants\<close>

text \<open>\<open>(c, p)\<close>: a row with pid \<open>c\<close> and parent \<open>p\<close>.\<close>

definition child_rel :: "sq_db \<Rightarrow> (int \<times> int) set" where
  "child_rel db = {(c, p). c \<in> set (child_pids db p)}"

definition below :: "sq_db \<Rightarrow> int list \<Rightarrow> int oset \<Rightarrow> int oset \<Rightarrow> bool" where
  "below db q out out' \<longleftrightarrow>
     set out' = set out \<union> {c. \<exists>p \<in> set q. (c, p) \<in> (child_rel db)\<^sup>*}
     \<and> (\<forall>p \<in> set q. p \<in> Wellfounded.acc (child_rel db))"

lemma below_step:
  assumes "below db (q @ child_pids db p) (os_ins p out) out'"
  shows "below db (p # q) out out'"
proof -
  have set: "set out' = insert p (set out) \<union> {c. \<exists>p' \<in> set q \<union> set (child_pids db p). (c, p') \<in> (child_rel db)\<^sup>*}"
    and acc: "\<forall>p' \<in> set q \<union> set (child_pids db p). p' \<in> Wellfounded.acc (child_rel db)"
    using assms by (auto simp: below_def)
  have "p \<in> Wellfounded.acc (child_rel db)"
    by (rule accI) (use acc in \<open>auto simp: child_rel_def\<close>)
  moreover have "(c, p) \<in> (child_rel db)\<^sup>* \<longleftrightarrow>
      c = p \<or> (\<exists>p' \<in> set (child_pids db p). (c, p') \<in> (child_rel db)\<^sup>*)" for c
    by (subst rtrancl_unfold) (auto simp: child_rel_def)
  ultimately show ?thesis using set acc by (auto simp: below_def)
qed

lemma descend_sound: "descend db q out = Some out' \<Longrightarrow> below db q out out'"
proof (rule descend.raw_induct [of below db q out out'], goal_cases)
  case (1 rec db q out out')
  show ?case
  proof (cases q)
    case Nil
    with 1(3) show ?thesis by (simp add: below_def)
  next
    case (Cons p q')
    with 1(3) have "rec db (q' @ child_pids db p) (os_ins p out) = Some out'" by simp
    with 1(2) Cons show ?thesis by (simp add: below_step)
  qed
qed

text \<open>Conversely, a queue of pids without cyclic ancestry below them is worked off.\<close>

definition child_acc :: "sq_db \<Rightarrow> (int \<times> int) set" where
  "child_acc db = {(c, p). (c, p) \<in> child_rel db \<and> p \<in> Wellfounded.acc (child_rel db)}"

lemma wf_child_acc: "wf (child_acc db)"
proof -
  have "x \<in> Wellfounded.acc (child_acc db)" for x
  proof (cases "x \<in> Wellfounded.acc (child_rel db)")
    case True
    then show ?thesis
      by (induction rule: acc.induct) (auto intro: accI simp: child_acc_def)
  next
    case False
    then show ?thesis by (auto intro: accI simp: child_acc_def)
  qed
  then show ?thesis by (auto simp: wf_iff_acc)
qed

lemma descend_returns:
  "\<forall>p \<in> set q. p \<in> Wellfounded.acc (child_rel db) \<Longrightarrow> \<exists>out'. descend db q out = Some out'"
proof (induction "mset q" arbitrary: q out rule: wf_induct_rule [OF wf_mult [OF wf_child_acc [of db]]])
  case (1 q)
  show ?case
  proof (cases q)
    case Nil
    then show ?thesis by (simp add: descend.simps)
  next
    case (Cons p q')
    have acc: "p \<in> Wellfounded.acc (child_rel db)" using 1 Cons by simp
    have "(mset q' + mset (child_pids db p), mset q' + {#p#}) \<in> mult (child_acc db)"
      by (rule one_step_implies_mult) (use acc in \<open>auto simp: child_acc_def child_rel_def\<close>)
    then have less: "(mset (q' @ child_pids db p), mset q) \<in> mult (child_acc db)"
      unfolding Cons by simp
    have "\<forall>p' \<in> set (q' @ child_pids db p). p' \<in> Wellfounded.acc (child_rel db)"
      using 1(2) Cons acc by (auto simp: child_rel_def dest: acc_downward)
    from 1(1) [OF less this] show ?thesis unfolding Cons by (subst descend.simps) simp
  qed
qed

text \<open>C11. The query for the descendants of a process ends exactly when no ancestry below that
  process is cyclic, and then adds exactly the pids of the processes below it.\<close>

theorem descendants_correct:
  assumes "db_readable db"
  shows "(get_descendant_pids db root out \<noteq> None \<longleftrightarrow> (\<forall>c. (c, root) \<in> child_rel db \<longrightarrow> c \<in> Wellfounded.acc (child_rel db)))
    \<and> (\<forall>out'. get_descendant_pids db root out = Some out' \<longrightarrow>
         set out' = set out \<union> {c. (c, root) \<in> (child_rel db)\<^sup>+})"
proof -
  have step: "{c. \<exists>p \<in> set (child_pids db root). (c, p) \<in> (child_rel db)\<^sup>*} = {c. (c, root) \<in> (child_rel db)\<^sup>+}"
    by (auto simp: child_rel_def trancl_unfold_right)
  from assms show ?thesis
    using descend_sound [of db "child_pids db root" out] descend_returns [of "child_pids db root" db out]
    by (auto simp: get_descendant_pids_def child_rel_def below_def step [unfolded child_rel_def])
qed

section \<open>The properties at concrete tables\<close>

definition access_at :: "int \<Rightarrow> string \<Rightarrow> FileAccessRecord" where
  "access_at pid path = FileAccessRecord_default\<lparr>fa_pid := pid, fa_filename := path\<rparr>"

definition process_at :: "int \<Rightarrow> int \<Rightarrow> ProcessRecord" where
  "process_at pid ppid = ProcessRecord_default\<lparr>pr_pid := pid, pr_ppid := ppid\<rparr>"

theorem insert_access_roundtrip_witness:
  "get_all_file_accesses (snd (insert_file_access (access_at 7 ''/a'') (db_empty (\<lambda>_. True)))) =
     [access_at 7 ''/a'']"
proof -
  have "fst (insert_file_access (access_at 7 ''/a'') (db_empty (\<lambda>_. True)))" by code_simp
  moreover have "get_all_file_accesses (db_empty (\<lambda>_. True)) = []" "db_readable (db_empty (\<lambda>_. True))"
    by code_simp+
  moreover have "(access_at 7 ''/a'')\<lparr>fa_filename := c_str (fa_filename (access_at 7 ''/a''))\<rparr> = access_at 7 ''/a''"
    by code_simp
  ultimately show ?thesis
    using insert_access_roundtrip [OF db_inv_empty, of "\<lambda>_. True" "access_at 7 ''/a''"
        "fst (insert_file_access (access_at 7 ''/a'') (db_empty (\<lambda>_. True)))"
        "snd (insert_file_access (access_at 7 ''/a'') (db_empty (\<lambda>_. True)))"]
    by (simp add: prod_eq_iff)
qed

theorem intern_path_injective_witness:
  "intern_path ''/b'' (snd (intern_path ''/a'' (db_empty (\<lambda>_. True)))) =
     (Some 2, snd (intern_path ''/b'' (snd (intern_path ''/a'' (db_empty (\<lambda>_. True))))))
   \<and> c_str ''/a'' \<noteq> c_str ''/b''"
proof -
  let ?d1 = "snd (intern_path ''/a'' (db_empty (\<lambda>_. True)))"
  have 1: "fst (intern_path ''/a'' (db_empty (\<lambda>_. True))) = Some 1" by code_simp
  have 2: "fst (intern_path ''/b'' ?d1) = Some 2" by code_simp
  have "intern_path ''/a'' (db_empty (\<lambda>_. True)) = (Some 1, ?d1)" using 1 by (simp add: prod_eq_iff)
  moreover have b: "intern_path ''/b'' ?d1 = (Some 2, snd (intern_path ''/b'' ?d1))"
    using 2 by (simp add: prod_eq_iff)
  ultimately have "c_str ''/a'' \<noteq> c_str ''/b''"
    using intern_path_injective [OF db_inv_empty, of "''/a''" "\<lambda>_. True" 1 "?d1" "''/b''" 2
        "snd (intern_path ''/b'' ?d1)"] by simp
  with b show ?thesis by simp
qed

theorem prefix_search_exact_witness:
  "map fa_filename (get_file_accesses_by_prefix
     (snd (insert_file_access (access_at 1 ''/ab/c'') (snd (insert_file_access (access_at 1 ''/a/c'') (db_empty (\<lambda>_. True))))))
     ''/a'') = [''/a/c'']"
  by (subst prefix_search_exact) (simp, simp, code_simp)

lemma populate_counts_correct_witness:
  "map_option pr_file_count (om_get (db_processes (snd (populate_counts
     (snd (insert_file_access (access_at 1 ''/a'') (snd (insert_process (process_at 1 0) (db_empty (\<lambda>_. True))))))))) 1) = Some 1"
proof -
  let ?db = "snd (insert_file_access (access_at 1 ''/a'') (snd (insert_process (process_at 1 0) (db_empty (\<lambda>_. True)))))"
  have ok: "fst (populate_counts ?db)" "db_readable ?db" by code_simp+
  then have "populate_counts ?db = (True, snd (populate_counts ?db))" by (simp add: prod_eq_iff)
  from populate_counts_correct [OF this ok(2), of 1]
  have "map_option pr_file_count (om_get (db_processes (snd (populate_counts ?db))) 1) =
      map_option (\<lambda>r. int (length (filter (\<lambda>a. ar_pid a = pr_pid r) (db_accesses ?db)))) (om_get (db_processes ?db) 1)"
    by (simp add: option.map_comp o_def)
  also have "\<dots> = Some 1" by code_simp
  finally show ?thesis .
qed

text \<open>A process 2 under process 1: the query ends with \<open>2\<close>. A row that is its own parent below
  the root: it does not end.\<close>

lemma child_rel_code: "(c, p) \<in> child_rel db \<longleftrightarrow> c \<in> set (child_pids db p)"
  by (simp add: child_rel_def)

theorem descendants_correct_witness:
  "get_descendant_pids (snd (insert_process (process_at 3 3) (db_empty (\<lambda>_. True)))) 3 [] = None"
proof -
  let ?db = "snd (insert_process (process_at 3 3) (db_empty (\<lambda>_. True)))"
  have "db_readable ?db" by code_simp
  moreover have "3 \<in> set (child_pids ?db 3)" by code_simp
  then have loop: "(3, 3) \<in> child_rel ?db" by (simp add: child_rel_code)
  then have "3 \<notin> Wellfounded.acc (child_rel ?db)"
  proof -
    have "x \<noteq> 3" if "x \<in> Wellfounded.acc (child_rel ?db)" for x
      using that by induction (use loop in blast)
    then show ?thesis by blast
  qed
  ultimately show ?thesis using descendants_correct [of ?db 3 "[]"] loop by blast
qed

end
