(* ===== verification/Session_Proofs.thy ===== *)
theory Session_Proofs
  imports Session Database_Proofs
begin

text \<open>
  Facts about \<open>TraceSession\<close>. An operation is split into what it does to the tracer's side and
  the events it hands over (\<open>op_emit\<close>); the split does not depend on the writer. From it:
  synthetic process ids never collide, repeated accesses are dropped exactly once per
  incarnation, and the writer's batching keeps its counters in step.
\<close>

section \<open>Operations as emitters of events\<close>

fun op_emit :: "session_op \<Rightarrow> session \<Rightarrow> session \<times> QueuedEvent list" where
  "op_emit (Start rec) s =
    (let s2 = register_start (pr_pid rec) (s\<lparr>ss_seen := om_del (pr_pid rec) (ss_seen s)\<rparr>);
         s3 = s2\<lparr>ss_live_pids := os_ins (pr_pid rec) (ss_live_pids s2)\<rparr>
     in (s3\<lparr>ss_process_count := Suc (ss_process_count s3)\<rparr>,
         [EV_PROC_START (rec\<lparr>pr_pid := current_synth s3 (pr_pid rec),
                             pr_ppid := current_synth s3 (pr_ppid rec)\<rparr>)]))"
| "op_emit (Exit pid e c u y rss r w) s =
    (s\<lparr>ss_seen := om_del pid (ss_seen s), ss_live_pids := os_del pid (ss_live_pids s),
       ss_expect_reinsert := os_del pid (ss_expect_reinsert s)\<rparr>,
     [EV_PROC_EXIT (current_synth s pid) e c u y rss r w])"
| "op_emit (Access rec) s =
    (case already_seen (fa_pid rec) (fa_mode rec) (fa_filename rec) s of
       (True, s1) \<Rightarrow> (s1, [])
     | (False, s1) \<Rightarrow> (s1\<lparr>ss_file_access_count := Suc (ss_file_access_count s1)\<rparr>,
                       [EV_FILE_ACCESS (rec\<lparr>fa_pid := current_synth s1 (fa_pid rec)\<rparr>)]))"
| "op_emit (Failed rec) s =
    (case already_seen (fl_pid rec) (failed_key (fl_errno rec) (fl_mode rec)) (fl_filename rec) s of
       (True, s1) \<Rightarrow> (s1, [])
     | (False, s1) \<Rightarrow> (s1\<lparr>ss_failed_access_count := Suc (ss_failed_access_count s1)\<rparr>,
                       [EV_FAILED_ACCESS (rec\<lparr>fl_pid := current_synth s1 (fl_pid rec)\<rparr>)]))"
| "op_emit (Delete pid) s =
    (s\<lparr>ss_expect_reinsert := os_ins pid (ss_expect_reinsert s)\<rparr>, [EV_DELETE_PROC (current_synth s pid)])"

fun emit_all :: "session_op list \<Rightarrow> session \<Rightarrow> session \<times> QueuedEvent list" where
  "emit_all [] s = (s, [])"
| "emit_all (op # ops) s =
     (let (s1, evs1) = op_emit op s; (s2, evs2) = emit_all ops s1 in (s2, evs1 @ evs2))"

text \<open>The writer and the queue with all else unchanged.\<close>

definition with_pipe :: "writer \<Rightarrow> QueuedEvent list \<Rightarrow> session \<Rightarrow> session" where
  "with_pipe w q s = s\<lparr>ss_writer := w, ss_queue := q\<rparr>"

lemma with_pipe_simps [frame_simps]:
  "ss_writer (with_pipe w q s) = w" "ss_queue (with_pipe w q s) = q"
  "ss_async (with_pipe w q s) = ss_async s" "ss_seen (with_pipe w q s) = ss_seen s"
  "ss_pid_gen (with_pipe w q s) = ss_pid_gen s" "ss_live_pids (with_pipe w q s) = ss_live_pids s"
  "ss_expect_reinsert (with_pipe w q s) = ss_expect_reinsert s"
  "ss_stop_requested (with_pipe w q s) = ss_stop_requested s"
  "current_synth (with_pipe w q s) = current_synth s"
  "seen_of (with_pipe w q s) = seen_of s"
  "with_pipe w q (with_pipe w' q' s) = with_pipe w q s"
  by (simp_all add: with_pipe_def current_synth_def seen_of_def fun_eq_iff)

lemma with_pipe_self [simp]: "with_pipe (ss_writer s) (ss_queue s) s = s"
  by (simp add: with_pipe_def)

lemma op_emit_frame [frame_simps]:
  "ss_writer (fst (op_emit op s)) = ss_writer s" "ss_queue (fst (op_emit op s)) = ss_queue s"
  "ss_async (fst (op_emit op s)) = ss_async s"
  "ss_stop_requested (fst (op_emit op s)) = ss_stop_requested s"
  by (cases op; simp add: register_start_def already_seen_def Let_def split: option.split)+

lemma register_start_with_pipe:
  "register_start pid (with_pipe w q s) = with_pipe w q (register_start pid s)"
  by (simp add: register_start_def with_pipe_def split: option.split)

lemma op_emit_with_pipe:
  "op_emit op (with_pipe w q s) = (with_pipe w q (fst (op_emit op s)), snd (op_emit op s))"
  by (cases op)
    (simp_all add: with_pipe_def register_start_def already_seen_def current_synth_def seen_of_def
      Let_def split: option.split)

lemma op_body_emit:
  "op_body op s = fold enqueue (snd (op_emit op s)) (fst (op_emit op s))"
  by (cases op)
    (simp_all add: start_body_def exit_body_def access_body_def failed_body_def delete_body_def
      enqueue_def register_start_def already_seen_def current_synth_def Let_def split: option.split)

lemma op_emit_length: "length (snd (op_emit op s)) \<le> 1"
  by (cases op) (simp_all add: already_seen_def Let_def)

lemma emit_all_with_pipe:
  "emit_all ops (with_pipe w q s) = (with_pipe w q (fst (emit_all ops s)), snd (emit_all ops s))"
  by (induction ops arbitrary: s) (simp_all add: op_emit_with_pipe split_beta Let_def)

lemma emit_all_append:
  "emit_all (xs @ ys) s =
     (fst (emit_all ys (fst (emit_all xs s))), snd (emit_all xs s) @ snd (emit_all ys (fst (emit_all xs s))))"
  by (induction xs arbitrary: s) (simp_all add: split_beta Let_def)

lemma fold_enqueue_sync:
  "\<not> ss_async s \<Longrightarrow> fold enqueue evs s = with_pipe (fold apply_event evs (ss_writer s)) (ss_queue s) s"
proof (induction evs arbitrary: s)
  case Nil
  then show ?case by (simp add: with_pipe_def)
next
  case (Cons e evs)
  then show ?case by (simp add: enqueue_def with_pipe_def)
qed

lemma fold_enqueue_async:
  "ss_async s \<Longrightarrow> fold enqueue evs s = with_pipe (ss_writer s) (ss_queue s @ evs) s"
proof (induction evs arbitrary: s)
  case Nil
  then show ?case by (simp add: with_pipe_def)
next
  case (Cons e evs)
  then show ?case by (simp add: enqueue_def with_pipe_def)
qed

section \<open>The writer after a fatal error\<close>

lemma apply_event_fatal: "w_consecutive_errors w \<ge> 50 \<Longrightarrow> apply_event ev w = w"
  by (simp add: apply_event_def)

lemma fold_apply_fatal: "w_consecutive_errors w \<ge> 50 \<Longrightarrow> fold apply_event evs w = w"
  by (induction evs) (simp_all add: apply_event_fatal)

text \<open>
  Without a writer thread, a sequence of calls leaves the writer as if every event they would
  emit had been applied: after a fatal error both the calls and the events do nothing.
\<close>

lemma session_op_sync:
  assumes "\<not> ss_async s"
  shows "ss_writer (session_op op s) = fold apply_event (snd (op_emit op s)) (ss_writer s)"
    and "\<not> ss_async (session_op op s)"
    and "\<not> has_fatal_errors s \<Longrightarrow>
      session_op op s = with_pipe (fold apply_event (snd (op_emit op s)) (ss_writer s)) (ss_queue s) (fst (op_emit op s))"
  using assms
  by (auto simp: session_op_def has_fatal_errors_def fold_apply_fatal op_body_emit fold_enqueue_sync
      frame_simps)

lemma session_op_fatal: "has_fatal_errors s \<Longrightarrow> session_op op s = s"
  by (simp add: session_op_def)

lemma session_ops_fatal: "has_fatal_errors s \<Longrightarrow> fold session_op ops s = s"
  by (induction ops) (simp_all add: session_op_fatal)

lemma session_ops_sync:
  assumes "\<not> ss_async s"
  shows "ss_writer (fold session_op ops s) = fold apply_event (snd (emit_all ops s)) (ss_writer s)"
  using assms
proof (induction ops arbitrary: s)
  case (Cons op ops)
  show ?case
  proof (cases "has_fatal_errors s")
    case True
    with session_ops_fatal [OF True, of "op # ops"] show ?thesis
      by (simp add: fold_apply_fatal has_fatal_errors_def del: fold_simps)
  next
    case False
    from Cons.IH [OF session_op_sync(2) [OF Cons.prems]] session_op_sync(3) [OF Cons.prems False]
    show ?thesis by (simp add: emit_all_with_pipe frame_simps split_beta Let_def)
  qed
qed simp

section \<open>Synthetic process ids\<close>

definition gens_ok :: "session \<Rightarrow> bool" where
  "gens_ok s \<longleftrightarrow> (\<forall>pid g. om_get (ss_pid_gen s) pid = Some g \<longrightarrow> 0 \<le> g)"

definition synth :: "int \<Rightarrow> int \<Rightarrow> int" where
  "synth pid g = g * PID_GEN_STRIDE + pid"

definition real_pid :: "int \<Rightarrow> bool" where
  "real_pid pid \<longleftrightarrow> 0 \<le> pid \<and> pid < PID_GEN_STRIDE"

lemma synth_inject:
  assumes "real_pid p" and "real_pid q" and "synth p g = synth q h"
  shows "p = q \<and> g = h"
proof -
  have "synth p g mod PID_GEN_STRIDE = p" "synth q h mod PID_GEN_STRIDE = q"
    "synth p g div PID_GEN_STRIDE = g" "synth q h div PID_GEN_STRIDE = h"
    using assms(1,2) by (simp_all add: synth_def real_pid_def PID_GEN_STRIDE_def)
  with assms(3) show ?thesis by metis
qed

definition gen_of :: "session \<Rightarrow> int \<Rightarrow> int" where
  "gen_of s pid = (case om_get (ss_pid_gen s) pid of None \<Rightarrow> 0 | Some g \<Rightarrow> g)"

lemma current_synth_eq: "current_synth s pid = synth pid (gen_of s pid)"
  by (simp add: current_synth_def synth_def gen_of_def split: option.split)

text \<open>The generations after an operation.\<close>

lemma op_emit_gens [frame_simps]:
  "ss_pid_gen (fst (op_emit (Exit pid e c u y rss r w) s)) = ss_pid_gen s"
  "ss_pid_gen (fst (op_emit (Access fa) s)) = ss_pid_gen s"
  "ss_pid_gen (fst (op_emit (Failed fl) s)) = ss_pid_gen s"
  "ss_pid_gen (fst (op_emit (Delete pid) s)) = ss_pid_gen s"
  by (simp_all add: already_seen_def Let_def)

lemma register_start_gen:
  "om_get (ss_pid_gen (register_start pid s)) p =
     (if p \<noteq> pid then om_get (ss_pid_gen s) p
      else case om_get (ss_pid_gen s) pid of
        None \<Rightarrow> Some 0
      | Some g \<Rightarrow> Some (if pid \<in> set (ss_expect_reinsert s) then g else g + 1))"
  by (auto simp: register_start_def om_get_put split: option.split)

lemma start_gen:
  "om_get (ss_pid_gen (fst (op_emit (Start rec) s))) p =
     (if p \<noteq> pr_pid rec then om_get (ss_pid_gen s) p
      else case om_get (ss_pid_gen s) (pr_pid rec) of
        None \<Rightarrow> Some 0
      | Some g \<Rightarrow> Some (if pr_pid rec \<in> set (ss_expect_reinsert s) then g else g + 1))"
  by (simp add: Let_def register_start_gen split: option.split)

lemma start_event:
  "snd (op_emit (Start rec) s) =
     [EV_PROC_START (rec\<lparr>pr_pid := current_synth (fst (op_emit (Start rec) s)) (pr_pid rec),
                         pr_ppid := current_synth (fst (op_emit (Start rec) s)) (pr_ppid rec)\<rparr>)]"
  by (simp add: Let_def current_synth_def)

lemma gens_ok_emit: "gens_ok s \<Longrightarrow> gens_ok (fst (op_emit op s))"
proof (cases op)
  case (Start rec)
  assume "gens_ok s"
  then show ?thesis unfolding Start gens_ok_def start_gen by (auto split: option.splits if_splits)
qed (auto simp: gens_ok_def already_seen_def Let_def)

text \<open>
  Which rows of \<open>processes\<close> the events create and remove: an event list never inserts a pid
  that is present.
\<close>

fun no_collision :: "int set \<Rightarrow> QueuedEvent list \<Rightarrow> bool" where
  "no_collision R [] = True"
| "no_collision R (EV_PROC_START p # es) = (pr_pid p \<notin> R \<and> no_collision (insert (pr_pid p) R) es)"
| "no_collision R (EV_DELETE_PROC k # es) = no_collision (R - {k}) es"
| "no_collision R (EV_PROC_EXIT a b c d e f g h # es) = no_collision R es"
| "no_collision R (EV_FILE_ACCESS a # es) = no_collision R es"
| "no_collision R (EV_FAILED_ACCESS a # es) = no_collision R es"

fun rows_after :: "int set \<Rightarrow> QueuedEvent list \<Rightarrow> int set" where
  "rows_after R [] = R"
| "rows_after R (EV_PROC_START p # es) = rows_after (insert (pr_pid p) R) es"
| "rows_after R (EV_DELETE_PROC k # es) = rows_after (R - {k}) es"
| "rows_after R (EV_PROC_EXIT a b c d e f g h # es) = rows_after R es"
| "rows_after R (EV_FILE_ACCESS a # es) = rows_after R es"
| "rows_after R (EV_FAILED_ACCESS a # es) = rows_after R es"

text \<open>
  The calls the tracer may make: kernel pids, and \<open>delete_process\<close> only for a pid whose start
  was reported (\<open>known\<close> holds those).
\<close>

fun calls_ok :: "int set \<Rightarrow> session_op list \<Rightarrow> bool" where
  "calls_ok known [] = True"
| "calls_ok known (Start rec # ops) =
     (real_pid (pr_pid rec) \<and> calls_ok (insert (pr_pid rec) known) ops)"
| "calls_ok known (Delete pid # ops) = (pid \<in> known \<and> calls_ok known ops)"
| "calls_ok known (Exit pid e c u y rss r w # ops) = calls_ok known ops"
| "calls_ok known (Access fa # ops) = calls_ok known ops"
| "calls_ok known (Failed fl # ops) = calls_ok known ops"

definition ids_inv :: "int set \<Rightarrow> int set \<Rightarrow> session \<Rightarrow> bool" where
  "ids_inv known R s \<longleftrightarrow>
     gens_ok s
     \<and> (\<forall>pid. pid \<in> known \<longleftrightarrow> om_get (ss_pid_gen s) pid \<noteq> None)
     \<and> (\<forall>pid \<in> known. real_pid pid)
     \<and> (\<forall>k \<in> R. \<exists>pid g. pid \<in> known \<and> g \<le> gen_of s pid \<and> k = synth pid g)
     \<and> (\<forall>pid \<in> set (ss_expect_reinsert s). pid \<in> known \<and> synth pid (gen_of s pid) \<notin> R)"

lemma ids_inv_init: "ids_inv {} {} (session_init db async)"
  by (simp add: ids_inv_def gens_ok_def session_init_def)

lemma gen_of_start:
  "gen_of (fst (op_emit (Start rec) s)) p =
     (if p = pr_pid rec \<and> om_get (ss_pid_gen s) p \<noteq> None \<and> p \<notin> set (ss_expect_reinsert s)
      then gen_of s p + 1 else gen_of s p)"
  unfolding gen_of_def start_gen by (auto split: option.split)

lemma start_expect:
  "set (ss_expect_reinsert (fst (op_emit (Start rec) s))) =
     (if om_get (ss_pid_gen s) (pr_pid rec) = None then set (ss_expect_reinsert s)
      else set (ss_expect_reinsert s) - {pr_pid rec})"
  by (auto simp: Let_def register_start_def split: option.split)

text \<open>The step lemma: the row a start creates is new, and the invariant holds afterwards.\<close>

lemma ids_inv_start:
  assumes inv: "ids_inv known R s" and real: "real_pid (pr_pid rec)"
  shows "current_synth (fst (op_emit (Start rec) s)) (pr_pid rec) \<notin> R"
    and "ids_inv (insert (pr_pid rec) known)
           (insert (current_synth (fst (op_emit (Start rec) s)) (pr_pid rec)) R) (fst (op_emit (Start rec) s))"
proof -
  note op_emit.simps [simp del]
  let ?p = "pr_pid rec" and ?s = "fst (op_emit (Start rec) s)"
  have key: "synth ?p (gen_of ?s ?p) \<notin> R"
  proof
    assume "synth ?p (gen_of ?s ?p) \<in> R"
    with inv obtain q g where q: "q \<in> known" "g \<le> gen_of s q" "synth ?p (gen_of ?s ?p) = synth q g"
      unfolding ids_inv_def by blast
    with inv have "real_pid q" by (auto simp: ids_inv_def)
    with real q have "?p = q" "gen_of ?s ?p = g" using synth_inject by blast+
    with q inv have "gen_of ?s ?p \<le> gen_of s ?p" "om_get (ss_pid_gen s) ?p \<noteq> None"
      by (auto simp: ids_inv_def simp del: op_emit.simps)
    then have "?p \<in> set (ss_expect_reinsert s)" "gen_of ?s ?p = gen_of s ?p"
      unfolding gen_of_start by (auto split: if_splits)
    with inv \<open>synth ?p (gen_of ?s ?p) \<in> R\<close> show False by (simp add: ids_inv_def del: op_emit.simps)
  qed
  then show "current_synth ?s ?p \<notin> R" by (simp add: current_synth_eq)
  have known: "pid \<in> insert ?p known \<longleftrightarrow> om_get (ss_pid_gen ?s) pid \<noteq> None" for pid
    using inv by (auto simp: ids_inv_def start_gen split: option.splits)
  have mono: "gen_of s pid \<le> gen_of ?s pid" for pid by (simp add: gen_of_start)
  have rows: "\<exists>pid g. pid \<in> insert ?p known \<and> g \<le> gen_of ?s pid \<and> k = synth pid g"
    if "k \<in> insert (current_synth ?s ?p) R" for k
    using that inv mono unfolding ids_inv_def current_synth_eq by (blast intro: order_trans)
  have expect: "pid \<in> insert ?p known \<and> synth pid (gen_of ?s pid) \<notin> insert (current_synth ?s ?p) R"
    if "pid \<in> set (ss_expect_reinsert ?s)" for pid
  proof -
    from that have e: "pid \<in> set (ss_expect_reinsert s)" and n: "pid = ?p \<Longrightarrow> om_get (ss_pid_gen s) ?p = None"
      by (auto simp: start_expect split: if_splits)
    from e inv have k: "pid \<in> known" and fresh: "synth pid (gen_of s pid) \<notin> R" by (auto simp: ids_inv_def)
    with n inv have "pid \<noteq> ?p" by (auto simp: ids_inv_def)
    moreover from this have "gen_of ?s pid = gen_of s pid" by (simp add: gen_of_start)
    moreover have "synth pid (gen_of s pid) \<noteq> current_synth ?s ?p"
      using \<open>pid \<noteq> ?p\<close> k inv real synth_inject by (auto simp: ids_inv_def current_synth_eq)
    ultimately show ?thesis using k fresh by simp
  qed
  show "ids_inv (insert ?p known) (insert (current_synth ?s ?p) R) ?s"
    unfolding ids_inv_def
    using inv real gens_ok_emit known rows expect unfolding ids_inv_def by blast
qed

lemma ids_inv_delete:
  assumes "ids_inv known R s" and "pid \<in> known"
  shows "ids_inv known (R - {current_synth s pid}) (fst (op_emit (Delete pid) s))"
proof -
  have "gen_of (fst (op_emit (Delete pid) s)) = gen_of s" by (simp add: gen_of_def fun_eq_iff)
  with assms show ?thesis by (auto simp: ids_inv_def gens_ok_def current_synth_eq)
qed

lemma ids_inv_exit:
  assumes "ids_inv known R s"
  shows "ids_inv known R (fst (op_emit (Exit pid e c u y rss r w) s))"
proof -
  have "gen_of (fst (op_emit (Exit pid e c u y rss r w) s)) = gen_of s" by (simp add: gen_of_def fun_eq_iff)
  with assms show ?thesis by (auto simp: ids_inv_def gens_ok_def)
qed

lemma ids_inv_access:
  assumes "ids_inv known R s"
  shows "ids_inv known R (fst (op_emit (Access fa) s))" "ids_inv known R (fst (op_emit (Failed fl) s))"
proof -
  have "gen_of (fst (op_emit (Access fa) s)) = gen_of s" "gen_of (fst (op_emit (Failed fl) s)) = gen_of s"
    by (simp_all add: gen_of_def fun_eq_iff already_seen_def Let_def)
  with assms show "ids_inv known R (fst (op_emit (Access fa) s))" "ids_inv known R (fst (op_emit (Failed fl) s))"
    by (auto simp: ids_inv_def gens_ok_def already_seen_def Let_def)
qed

lemma quiet_events:
  "no_collision R (snd (op_emit (Exit pid e c u y rss r w) s) @ es) = no_collision R es"
  "no_collision R (snd (op_emit (Access fa) s) @ es) = no_collision R es"
  "no_collision R (snd (op_emit (Failed fl) s) @ es) = no_collision R es"
  by (simp_all add: already_seen_def Let_def)

lemma emit_no_collision:
  "ids_inv known R s \<Longrightarrow> calls_ok known ops \<Longrightarrow> no_collision R (snd (emit_all ops s))"
proof (induction ops arbitrary: known R s)
  case (Cons op ops)
  show ?case
  proof (cases op)
    case (Start rec)
    with Cons.prems ids_inv_start [of known R s rec] Cons.IH
    show ?thesis by (auto simp: split_beta Let_def start_event simp del: op_emit.simps)
  next
    case (Delete pid)
    with Cons.prems ids_inv_delete [of known R s pid] Cons.IH
    have "no_collision (R - {current_synth s pid}) (snd (emit_all ops (fst (op_emit (Delete pid) s))))"
      by auto
    with Delete show ?thesis by (simp add: split_beta Let_def)
  next
    case (Exit pid e c u y rss r w)
    with Cons.prems Cons.IH [OF ids_inv_exit] show ?thesis
      by (simp add: split_beta Let_def quiet_events del: op_emit.simps)
  next
    case (Access fa)
    with Cons.prems Cons.IH [OF ids_inv_access(1)] show ?thesis
      by (simp add: split_beta Let_def quiet_events del: op_emit.simps)
  next
    case (Failed fl)
    with Cons.prems Cons.IH [OF ids_inv_access(2)] show ?thesis
      by (simp add: split_beta Let_def quiet_events del: op_emit.simps)
  qed
qed simp

section \<open>Applying events to a cooperative engine\<close>

definition engine_ok :: "sq_db \<Rightarrow> bool" where
  "engine_ok db \<longleftrightarrow> (\<forall>n. db_rc db n)"

definition rows :: "sq_db \<Rightarrow> int set" where
  "rows db = {k. om_get (db_processes db) k \<noteq> None}"

lemma intern_path_engine_ok:
  assumes "engine_ok db" and "intern_path p db = (r, db')"
  shows "r \<noteq> None" and "engine_ok db'" and "db_processes db' = db_processes db"
proof -
  have "fst (intern_path p db) \<noteq> None"
    using assms(1) by (simp add: engine_ok_def intern_path_def sq_step_def Let_def split: option.split)
  with assms(2) show "r \<noteq> None" by simp
  show "engine_ok db'" and "db_processes db' = db_processes db"
    using assms(1) intern_path_frame [OF assms(2)] by (auto simp: engine_ok_def)
qed

lemma transaction_frame:
  "engine_ok (snd (begin_transaction db)) = engine_ok db" "engine_ok (snd (commit_transaction db)) = engine_ok db"
  "db_processes (snd (begin_transaction db)) = db_processes db"
  "db_processes (snd (commit_transaction db)) = db_processes db"
  "db_accesses (snd (begin_transaction db)) = db_accesses db"
  "db_accesses (snd (commit_transaction db)) = db_accesses db"
  "db_files (snd (begin_transaction db)) = db_files db"
  "db_files (snd (commit_transaction db)) = db_files db"
  "db_readable (snd (begin_transaction db)) = db_readable db"
  "db_readable (snd (commit_transaction db)) = db_readable db"
  by (simp_all add: begin_transaction_def commit_transaction_def sq_step_def engine_ok_def)

text \<open>An event list without collisions succeeds, event by event, and leaves the rows it says.\<close>

lemma event_call_ok:
  assumes "engine_ok db" and "no_collision (rows db) (ev # evs)"
  shows "fst (event_call ev db) \<and> engine_ok (snd (event_call ev db))
    \<and> no_collision (rows (snd (event_call ev db))) evs"
proof (cases ev)
  case (EV_FILE_ACCESS fa)
  obtain r db1 where r: "intern_path (fa_filename fa) db = (r, db1)" by fastforce
  from intern_path_engine_ok [OF assms(1) r] assms(2) r show ?thesis
    by (auto simp: EV_FILE_ACCESS insert_file_access_def sq_step_def engine_ok_def rows_def)
next
  case (EV_FAILED_ACCESS fl)
  obtain r db1 where r: "intern_path (fl_filename fl) db = (r, db1)" by fastforce
  from intern_path_engine_ok [OF assms(1) r] assms(2) r show ?thesis
    by (auto simp: EV_FAILED_ACCESS insert_failed_access_def sq_step_def engine_ok_def rows_def)
next
  case (EV_PROC_START p)
  have "rows (db\<lparr>db_steps := n, db_processes := om_put (pr_pid p) r (db_processes db)\<rparr>) = insert (pr_pid p) (rows db)" for n r
    by (auto simp: rows_def om_get_put)
  with assms show ?thesis
    by (simp add: EV_PROC_START insert_process_def sq_step_def engine_ok_def) (simp add: rows_def)
next
  case (EV_DELETE_PROC k)
  have "rows (db\<lparr>db_steps := n, db_processes := om_del k (db_processes db)\<rparr>) = rows db - {k}" for n
    by (auto simp: rows_def om_get_del)
  with assms show ?thesis
    by (simp add: EV_DELETE_PROC delete_process_row_def sq_step_def engine_ok_def)
next
  case (EV_PROC_EXIT k e c u y rss r w)
  have "rows (db\<lparr>db_steps := n, db_processes := om_put k r (db_processes db)\<rparr>) = rows db"
    if "om_get (db_processes db) k = Some r'" for n r r'
    using that by (auto simp: rows_def om_get_put)
  with assms show ?thesis
    by (auto simp: EV_PROC_EXIT update_process_exit_def sq_step_def engine_ok_def rows_def split: option.split)
qed

lemma writer_parts:
  "w_db (maybe_commit w) = w_db w \<or> w_db (maybe_commit w) = snd (commit_transaction (w_db w))
   \<or> w_db (maybe_commit w) = wal_checkpoint (snd (commit_transaction (w_db w)))"
  by (simp add: maybe_commit_def Let_def)

lemma maybe_commit_frame:
  "engine_ok (w_db (maybe_commit w)) = engine_ok (w_db w)"
  "db_processes (w_db (maybe_commit w)) = db_processes (w_db w)"
  "db_accesses (w_db (maybe_commit w)) = db_accesses (w_db w)"
  "db_files (w_db (maybe_commit w)) = db_files (w_db w)"
  "db_readable (w_db (maybe_commit w)) = db_readable (w_db w)"
  "w_write_error_count (maybe_commit w) = w_write_error_count w"
  "w_consecutive_errors (maybe_commit w) = w_consecutive_errors w"
  by (simp_all add: maybe_commit_def Let_def transaction_frame wal_checkpoint_def sq_step_def)
    (simp_all add: engine_ok_def commit_transaction_def sq_step_def)

lemma ensure_transaction_frame:
  "engine_ok (w_db (ensure_transaction w)) = engine_ok (w_db w)"
  "db_processes (w_db (ensure_transaction w)) = db_processes (w_db w)"
  "db_accesses (w_db (ensure_transaction w)) = db_accesses (w_db w)"
  "db_files (w_db (ensure_transaction w)) = db_files (w_db w)"
  "db_readable (w_db (ensure_transaction w)) = db_readable (w_db w)"
  "w_write_error_count (ensure_transaction w) = w_write_error_count w"
  "w_consecutive_errors (ensure_transaction w) = w_consecutive_errors w"
  "w_event_count (ensure_transaction w) = w_event_count w"
  "w_total_event_count (ensure_transaction w) = w_total_event_count w"
  "w_in_transaction (ensure_transaction w)"
  by (simp_all add: ensure_transaction_def transaction_frame)

lemma apply_event_ok:
  assumes "engine_ok (w_db w)" and "no_collision (rows (w_db w)) (ev # evs)"
    and "w_write_error_count w = 0" and "w_consecutive_errors w = 0"
  shows "engine_ok (w_db (apply_event ev w)) \<and> no_collision (rows (w_db (apply_event ev w))) evs
    \<and> w_write_error_count (apply_event ev w) = 0 \<and> w_consecutive_errors (apply_event ev w) = 0"
proof -
  let ?db = "w_db (ensure_transaction w)"
  have "rows ?db = rows (w_db w)" by (simp add: rows_def ensure_transaction_frame)
  with assms event_call_ok [of ?db ev evs] have
    "fst (event_call ev ?db) \<and> engine_ok (snd (event_call ev ?db)) \<and> no_collision (rows (snd (event_call ev ?db))) evs"
    by (simp add: ensure_transaction_frame)
  moreover have "rows (w_db (maybe_commit w')) = rows (w_db w')" for w'
    by (simp add: rows_def maybe_commit_frame)
  ultimately show ?thesis using assms(3,4)
    by (simp add: apply_event_def perform_event_def check_write_result_def maybe_commit_frame
        ensure_transaction_frame Let_def split_beta)
qed

lemma fold_apply_ok:
  "engine_ok (w_db w) \<Longrightarrow> no_collision (rows (w_db w)) evs \<Longrightarrow> w_write_error_count w = 0 \<Longrightarrow>
   w_consecutive_errors w = 0 \<Longrightarrow>
   w_write_error_count (fold apply_event evs w) = 0 \<and> w_consecutive_errors (fold apply_event evs w) = 0"
proof (induction evs arbitrary: w)
  case (Cons ev evs)
  with apply_event_ok [of w ev evs] show ?case by simp
qed simp

lemma session_no_errors:
  assumes "calls_ok {} ops" and "engine_ok db" and "db_processes db = []"
  shows "w_write_error_count (ss_writer (fold session_op ops (session_init db False))) = 0"
proof -
  let ?s = "session_init db False"
  have "no_collision {} (snd (emit_all ops ?s))"
    using emit_no_collision [OF ids_inv_init assms(1)] .
  moreover have "rows (w_db (ss_writer ?s)) = {}" "engine_ok (w_db (ss_writer ?s))"
    "w_write_error_count (ss_writer ?s) = 0" "w_consecutive_errors (ss_writer ?s) = 0"
    using assms(2,3) by (simp_all add: session_init_def writer_init_def rows_def)
  ultimately show ?thesis
    using session_ops_sync [of ?s ops] fold_apply_ok [of "ss_writer ?s" "snd (emit_all ops ?s)"]
    by (simp add: session_init_def)
qed


text \<open>
  The hypothesis that no process is recorded yet is needed: generations start anew with every session, so a second
  trace into the same file that meets a pid of the first is refused its row, and the old row stays.
\<close>

lemma retrace_collides:
  assumes "om_get (db_processes db) (pr_pid rec) \<noteq> None"
  shows "w_write_error_count (ss_writer (session_op (Start rec) (session_init db False))) = 1
    \<and> db_processes (w_db (ss_writer (session_op (Start rec) (session_init db False)))) = db_processes db"
proof -
  let ?ev = "EV_PROC_START (rec\<lparr>pr_pid := pr_pid rec, pr_ppid := pr_ppid rec\<rparr>)"
  have "snd (op_emit (Start rec) (session_init db False)) = [?ev]"
    by (simp add: session_init_def register_start_def om_get_def current_synth_def split: option.split)
  then have "ss_writer (session_op (Start rec) (session_init db False)) = apply_event ?ev (writer_init db)"
    using session_op_sync(1) [of "session_init db False" "Start rec"] by (simp add: session_init_def)
  moreover have "db_processes (snd (begin_transaction db)) = db_processes db"
    by (simp add: begin_transaction_def sq_step_def)
  ultimately show ?thesis using assms
    by (simp add: apply_event_def perform_event_def ensure_transaction_def writer_init_def insert_process_def sq_step_def
        check_write_result_def maybe_commit_def BATCH_SIZE_def Let_def)
qed

text \<open>
  Ids stay within the code's 32-bit \<open>int\<close> as long as no pid is recycled more than 213 times; the
  product \<open>it->second * PID_GEN_STRIDE\<close> leaves it from generation 215 on.
\<close>

lemma synth_fits_int: "real_pid pid \<Longrightarrow> 0 \<le> g \<Longrightarrow> g \<le> 213 \<Longrightarrow> 0 \<le> synth pid g \<and> synth pid g < 2 ^ 31"
  by (simp add: synth_def real_pid_def PID_GEN_STRIDE_def)

lemma synth_overflow: "0 \<le> pid \<Longrightarrow> 215 \<le> g \<Longrightarrow> 2 ^ 31 \<le> synth pid g"
  by (simp add: synth_def PID_GEN_STRIDE_def)

section \<open>The tables after a session\<close>

lemma event_call_inv: "db_inv db \<Longrightarrow> db_inv (snd (event_call ev db))"
  by (cases ev) (simp_all add: insert_process_inv update_process_exit_inv insert_file_access_inv
      insert_failed_access_inv delete_process_row_inv)

lemma check_write_result_db [frame_simps]: "w_db (check_write_result ok w) = w_db w"
  by (simp add: check_write_result_def)

lemma apply_event_inv: "db_inv (w_db w) \<Longrightarrow> db_inv (w_db (apply_event ev w))"
  using writer_parts
  by (auto simp: apply_event_def perform_event_def ensure_transaction_def frame_simps event_call_inv
      transaction_inv maybe_commit_def wal_checkpoint_def sq_step_def Let_def split: prod.split
      intro!: transaction_inv)
    (metis event_call_inv snd_conv transaction_inv)+

lemma op_body_db_inv:
  "db_inv (w_db (ss_writer s)) \<Longrightarrow> db_inv (w_db (ss_writer (op_body op s)))"
proof (cases "ss_async s")
  case True
  assume "db_inv (w_db (ss_writer s))"
  with True show ?thesis
    by (simp add: op_body_emit fold_enqueue_async frame_simps)
next
  case False
  assume "db_inv (w_db (ss_writer s))"
  then have "db_inv (w_db (fold apply_event evs (ss_writer s)))" for evs
    by (rule fold_keeps [where P = "\<lambda>w. db_inv (w_db w)"]) (rule apply_event_inv)
  with False show ?thesis by (simp add: op_body_emit fold_enqueue_sync frame_simps)
qed

lemma session_op_db_inv: "db_inv (w_db (ss_writer s)) \<Longrightarrow> db_inv (w_db (ss_writer (session_op op s)))"
  by (simp add: session_op_def op_body_db_inv)

lemma finalize_db_inv: "db_inv (w_db (ss_writer s)) \<Longrightarrow> db_inv (w_db (ss_writer (finalize_tail s)))"
proof -
  assume inv: "db_inv (w_db (ss_writer s))"
  then have "db_inv (w_db (close_transaction (ss_writer s)))"
    by (simp add: close_transaction_def transaction_inv)
  then show ?thesis
    by (simp add: finalize_tail_def Let_def sq_step_def populate_counts_inv)
qed


section \<open>Batching\<close>

definition batch_inv :: "writer \<Rightarrow> bool" where
  "batch_inv w \<longleftrightarrow>
     w_event_count w < BATCH_SIZE \<and> w_total_event_count w mod BATCH_SIZE = 0
     \<and> (0 < w_event_count w \<longleftrightarrow> w_in_transaction w)
     \<and> w_consecutive_errors w \<le> 50 \<and> w_consecutive_errors w \<le> w_write_error_count w
     \<and> w_write_error_count w \<le> w_total_event_count w + w_event_count w"

lemma check_write_result_frame [frame_simps]:
  "w_event_count (check_write_result ok w) = w_event_count w"
  "w_total_event_count (check_write_result ok w) = w_total_event_count w"
  "w_in_transaction (check_write_result ok w) = w_in_transaction w"
  by (simp_all add: check_write_result_def)

lemma batch_full: "n < 5000 \<Longrightarrow> 4999 \<le> n \<Longrightarrow> 5000 dvd t \<Longrightarrow> Suc (t + n) mod 5000 = 0"
proof -
  assume "n < 5000" "4999 \<le> n" "5000 dvd t"
  then have "Suc (t + n) = t + 5000" by simp
  with \<open>5000 dvd t\<close> show ?thesis by simp
qed

lemma batch_inv_commit:
  assumes "w_in_transaction w" "w_event_count w < BATCH_SIZE" "w_total_event_count w mod BATCH_SIZE = 0"
    "w_consecutive_errors w \<le> 50" "w_consecutive_errors w \<le> w_write_error_count w"
    "w_write_error_count w \<le> Suc (w_total_event_count w + w_event_count w)"
  shows "batch_inv (maybe_commit (w\<lparr>w_event_count := Suc (w_event_count w)\<rparr>))"
    and "w_total_event_count (maybe_commit (w\<lparr>w_event_count := Suc (w_event_count w)\<rparr>)) +
      w_event_count (maybe_commit (w\<lparr>w_event_count := Suc (w_event_count w)\<rparr>)) =
      Suc (w_total_event_count w + w_event_count w)"
proof -
  let ?w = "w\<lparr>w_event_count := Suc (w_event_count w)\<rparr>"
  have "batch_inv (maybe_commit ?w) \<and> w_total_event_count (maybe_commit ?w) + w_event_count (maybe_commit ?w) =
      Suc (w_total_event_count w + w_event_count w)"
  proof (cases "BATCH_SIZE \<le> Suc (w_event_count w)")
    case True
    with assms(2,3) have "Suc (w_total_event_count w + w_event_count w) mod BATCH_SIZE = 0"
      using batch_full [of "w_event_count w" "w_total_event_count w"] by (simp add: BATCH_SIZE_def dvd_eq_mod_eq_0)
    with True assms show ?thesis by (simp add: batch_inv_def maybe_commit_def Let_def BATCH_SIZE_def)
  next
    case False
    with assms show ?thesis by (simp add: batch_inv_def maybe_commit_def)
  qed
  then show "batch_inv (maybe_commit ?w)" and "w_total_event_count (maybe_commit ?w) +
      w_event_count (maybe_commit ?w) = Suc (w_total_event_count w + w_event_count w)" by simp_all
qed

lemma batch_inv_apply:
  assumes "batch_inv w"
  shows "batch_inv (apply_event ev w)"
    and "w_total_event_count (apply_event ev w) + w_event_count (apply_event ev w) =
      w_total_event_count w + w_event_count w + (if w_consecutive_errors w \<ge> 50 then 0 else 1)"
proof -
  let ?w = "perform_event ev (ensure_transaction w)"
  have w: "w_in_transaction ?w" "w_event_count ?w = w_event_count w"
    "w_total_event_count ?w = w_total_event_count w"
    by (simp_all add: perform_event_def frame_simps ensure_transaction_frame split_beta)
  have err: "w_consecutive_errors ?w \<le> Suc (w_consecutive_errors w)"
    "w_consecutive_errors w \<le> w_write_error_count w \<longrightarrow> w_consecutive_errors ?w \<le> w_write_error_count ?w"
    "w_write_error_count ?w \<le> Suc (w_write_error_count w)"
    by (simp_all add: perform_event_def check_write_result_def ensure_transaction_frame split_beta)
  from assms w err batch_inv_commit [of ?w] have
    "\<not> 50 \<le> w_consecutive_errors w \<Longrightarrow>
      batch_inv (maybe_commit (?w\<lparr>w_event_count := Suc (w_event_count ?w)\<rparr>)) \<and>
      w_total_event_count (maybe_commit (?w\<lparr>w_event_count := Suc (w_event_count ?w)\<rparr>)) +
      w_event_count (maybe_commit (?w\<lparr>w_event_count := Suc (w_event_count ?w)\<rparr>)) =
      Suc (w_total_event_count w + w_event_count w)"
    by (simp add: batch_inv_def)
  with assms show "batch_inv (apply_event ev w)"
    and "w_total_event_count (apply_event ev w) + w_event_count (apply_event ev w) =
      w_total_event_count w + w_event_count w + (if w_consecutive_errors w \<ge> 50 then 0 else 1)"
    by (simp_all add: apply_event_def Let_def)
qed

text \<open>The writer's batches: after any events over any engine, fewer than a batch of events is
  uncommitted, a transaction is open exactly when there are any, whole batches have been counted,
  at most 50 errors ran in a row and they are part of the total, and as long as no fatal error
  occurred every event has been counted once.\<close>

theorem writer_batching:
  "let w = fold apply_event evs (writer_init db) in
     w_event_count w < BATCH_SIZE \<and> w_total_event_count w mod BATCH_SIZE = 0
     \<and> (0 < w_event_count w \<longleftrightarrow> w_in_transaction w)
     \<and> w_consecutive_errors w \<le> 50 \<and> w_consecutive_errors w \<le> w_write_error_count w
     \<and> (w_consecutive_errors w = 50 \<or> w_total_event_count w + w_event_count w = length evs)"
proof -
  have "batch_inv (fold apply_event evs w) \<and>
      (w_consecutive_errors (fold apply_event evs w) = 50 \<or>
        w_total_event_count (fold apply_event evs w) + w_event_count (fold apply_event evs w) =
        w_total_event_count w + w_event_count w + length evs)" if "batch_inv w" for w
    using that
  proof (induction evs arbitrary: w)
    case (Cons ev evs)
    show ?case
    proof (cases "w_consecutive_errors w \<ge> 50")
      case True
      with fold_apply_fatal [OF True, of "ev # evs"] Cons.prems show ?thesis
        by (simp add: batch_inv_def del: fold_simps)
    next
      case False
      with Cons.IH [OF batch_inv_apply(1) [OF Cons.prems, of ev]] batch_inv_apply(2) [OF Cons.prems, of ev]
      show ?thesis by simp
    qed
  qed simp
  from this [of "writer_init db"] show ?thesis
    by (simp add: batch_inv_def writer_init_def BATCH_SIZE_def Let_def)
qed

section \<open>Dropping repeated accesses\<close>

text \<open>
  The accesses of one kernel pid: the key an operation asks to record, the keys a run of
  operations asks for, and the keys whose operation hands over an event.
\<close>

fun op_key :: "int \<Rightarrow> session_op \<Rightarrow> (int \<times> string) option" where
  "op_key pid (Access fa) = (if fa_pid fa = pid then Some (fa_mode fa, fa_filename fa) else None)"
| "op_key pid (Failed fl) =
     (if fl_pid fl = pid then Some (failed_key (fl_errno fl) (fl_mode fl), fl_filename fl) else None)"
| "op_key pid op = None"

fun restarts :: "int \<Rightarrow> session_op \<Rightarrow> bool" where
  "restarts pid (Start rec) = (pr_pid rec = pid)"
| "restarts pid (Exit p e c u y rss r w) = (p = pid)"
| "restarts pid op = False"

definition requested :: "int \<Rightarrow> session_op list \<Rightarrow> (int \<times> string) list" where
  "requested pid ops = List.map_filter (op_key pid) ops"

fun recorded :: "int \<Rightarrow> session_op list \<Rightarrow> session \<Rightarrow> (int \<times> string) list" where
  "recorded pid [] s = []"
| "recorded pid (op # ops) s =
     (case op_key pid op of
        Some k \<Rightarrow> if snd (op_emit op s) = [] then [] else [k]
      | None \<Rightarrow> []) @ recorded pid ops (fst (op_emit op s))"

lemma seen_after:
  assumes "\<not> restarts pid op"
  shows "set (seen_of (fst (op_emit op s)) pid) =
    (case op_key pid op of None \<Rightarrow> set (seen_of s pid) | Some k \<Rightarrow> insert k (set (seen_of s pid)))"
  using assms
  by (cases op) (auto simp: seen_of_def already_seen_def register_start_def om_get_put om_get_del om_get_upd
      Let_def split: option.split)

lemma emit_iff_unseen:
  "op_key pid op = Some k \<Longrightarrow> snd (op_emit op s) = [] \<longleftrightarrow> k \<in> set (seen_of s pid)"
  by (cases op) (auto simp: already_seen_def Let_def split: if_splits)

text \<open>C8. De-duplication is exact within one incarnation of a process: over operations without a
  start or exit of \<open>pid\<close>, whatever other processes do in between, each key (mode, or errno and
  mode, with the path) the process asks for and has not been seen is handed to the writer exactly
  once, and no other key is.\<close>

theorem dedup_exact:
  assumes "\<forall>op \<in> set ops. \<not> restarts pid op"
  shows "distinct (recorded pid ops s)
    \<and> set (recorded pid ops s) = set (requested pid ops) - set (seen_of s pid)"
  using assms
proof (induction ops arbitrary: s)
  case Nil
  then show ?case by (simp add: requested_def List.map_filter_simps)
next
  case (Cons op ops)
  let ?s = "fst (op_emit op s)"
  have seen: "set (seen_of ?s pid) =
      (case op_key pid op of None \<Rightarrow> set (seen_of s pid) | Some k \<Rightarrow> insert k (set (seen_of s pid)))"
    using Cons.prems by (simp add: seen_after)
  have IH: "distinct (recorded pid ops ?s)"
    "set (recorded pid ops ?s) = set (requested pid ops) - set (seen_of ?s pid)"
    using Cons by auto
  show ?case
  proof (cases "op_key pid op")
    case None
    with IH seen show ?thesis by (simp add: requested_def List.map_filter_simps)
  next
    case (Some k)
    with IH seen emit_iff_unseen [OF Some, of s] show ?thesis
      by (auto simp: requested_def List.map_filter_simps)
  qed
qed

text \<open>The key of a failed access keeps errno, mode and success apart.\<close>

lemma bit_small_int: "0 \<le> (x::int) \<Longrightarrow> x < 2 ^ n \<Longrightarrow> bit x k \<Longrightarrow> k < n"
  by (metis bit_take_bit_iff take_bit_int_eq_self)

lemma failed_key_sum:
  assumes "0 \<le> mode" "mode < 2 ^ 8" "0 \<le> errno" "errno < 2 ^ 22"
  shows "failed_key errno mode = 2 ^ 30 + errno * 2 ^ 8 + mode"
proof -
  have m: "bit mode k \<Longrightarrow> k < 8" for k using bit_small_int assms(1,2) by blast
  have e: "bit errno k \<Longrightarrow> k < 22" for k using bit_small_int assms(3,4) by blast
  have "or (push_bit 8 errno) mode = push_bit 8 errno + mode"
    by (rule disjunctive_add [symmetric]) (use m in \<open>force simp: bit_simps\<close>)
  moreover have "or (2 ^ 30) (or (push_bit 8 errno) mode) = 2 ^ 30 + or (push_bit 8 errno) mode"
    by (rule disjunctive_add [symmetric]) (auto simp: bit_simps simp del: power_numeral dest!: m e)
  ultimately show ?thesis
    by (simp add: failed_key_def or.assoc push_bit_eq_mult)
qed

text \<open>The de-duplication keys of failed accesses are one to one in errno and mode and differ
  from every mode, so a failure is never dropped for a success or for another errno.\<close>

lemma failed_key_injective:
  assumes "0 \<le> m1 \<and> m1 < 2 ^ 8" "0 \<le> m2 \<and> m2 < 2 ^ 8" "0 \<le> e1 \<and> e1 < 2 ^ 22" "0 \<le> e2 \<and> e2 < 2 ^ 22"
  shows "(failed_key e1 m1 = failed_key e2 m2 \<longleftrightarrow> e1 = e2 \<and> m1 = m2) \<and> failed_key e1 m1 \<noteq> m2"
proof -
  have keys: "failed_key e1 m1 = 2 ^ 30 + e1 * 2 ^ 8 + m1" "failed_key e2 m2 = 2 ^ 30 + e2 * 2 ^ 8 + m2"
    using assms by (simp_all add: failed_key_sum)
  have "(e1 * 256 + m1) div 256 = e1" "(e2 * 256 + m2) div 256 = e2" using assms by simp_all
  then have "e1 * 256 + m1 = e2 * 256 + m2 \<longleftrightarrow> e1 = e2 \<and> m1 = m2" by (metis add_left_cancel)
  moreover have "2 ^ 30 + e1 * 256 + m1 \<noteq> m2" using assms by simp
  ultimately show ?thesis unfolding keys by simp
qed

section \<open>What a session records\<close>

text \<open>
  With a cooperative engine every file access that is handed over ends up in the database, in
  order, under the synthetic id of its process.
\<close>

definition accesses_of :: "QueuedEvent list \<Rightarrow> FileAccessRecord list" where
  "accesses_of evs = [fa\<lparr>fa_filename := c_str (fa_filename fa)\<rparr>. EV_FILE_ACCESS fa \<leftarrow> evs]"

lemma insert_access_succeeds:
  assumes "engine_ok db"
  shows "fst (insert_file_access fa db)"
proof -
  obtain r db1 where r: "intern_path (fa_filename fa) db = (r, db1)" by fastforce
  from intern_path_engine_ok [OF assms r] r show ?thesis
    by (auto simp: insert_file_access_def sq_step_def engine_ok_def)
qed

lemma get_all_cong:
  assumes "db_files db' = db_files db" "db_accesses db' = db_accesses db" "db_readable db' = db_readable db"
  shows "get_all_file_accesses db' = get_all_file_accesses db"
  using assms row_to_file_access_cong [OF assms(1)] by (simp add: get_all_file_accesses_def)

lemma rows_same_after_intern_all:
  assumes "db_inv db" and "intern_path p db = (r, db')"
  shows "get_all_file_accesses db' = get_all_file_accesses db" "db_readable db' = db_readable db"
  using rows_same_after_intern [of db p r db'] intern_path_frame [OF assms(2)] assms
  by (auto simp: get_all_file_accesses_def db_inv_def)

lemma event_call_accesses:
  assumes "db_inv db" and "db_readable db" and "engine_ok db"
  shows "get_all_file_accesses (snd (event_call ev db)) = get_all_file_accesses db @ accesses_of [ev]
    \<and> db_readable (snd (event_call ev db))"
proof (cases ev)
  case (EV_FILE_ACCESS fa)
  obtain ok db' where ins: "insert_file_access fa db = (ok, db')" by fastforce
  obtain r db1 where r: "intern_path (fa_filename fa) db = (r, db1)" by fastforce
  from intern_path_frame [OF r] ins r have "db_readable db' = db_readable db"
    by (auto simp: insert_file_access_def sq_step_def split: option.splits if_splits)
  with insert_access_roundtrip [OF assms(1,2) ins] insert_access_succeeds [OF assms(3), of fa] ins assms(2)
  show ?thesis by (simp add: EV_FILE_ACCESS accesses_of_def)
next
  case (EV_FAILED_ACCESS fl)
  obtain r db1 where r: "intern_path (fl_filename fl) db = (r, db1)" by fastforce
  note same = rows_same_after_intern_all [OF assms(1) r]
  have "get_all_file_accesses (snd (insert_failed_access fl db)) = get_all_file_accesses db1
      \<and> db_readable (snd (insert_failed_access fl db)) = db_readable db1"
    using r by (auto simp: insert_failed_access_def sq_step_def split: option.split intro!: get_all_cong)
  with same assms(2) show ?thesis by (simp add: EV_FAILED_ACCESS accesses_of_def)
qed (auto simp: accesses_of_def insert_process_def update_process_exit_def delete_process_row_def
    sq_step_def assms(2) split: option.split intro!: get_all_cong)

lemma apply_event_accesses:
  assumes "db_inv (w_db w)" and "db_readable (w_db w)" and "engine_ok (w_db w)"
    and "w_consecutive_errors w < 50"
  shows "get_all_file_accesses (w_db (apply_event ev w)) = get_all_file_accesses (w_db w) @ accesses_of [ev]
    \<and> db_readable (w_db (apply_event ev w))"
proof -
  let ?db = "w_db (ensure_transaction w)"
  have "db_inv ?db" using assms(1) by (simp add: ensure_transaction_def transaction_inv)
  with event_call_accesses [of ?db ev] assms have
    "get_all_file_accesses (snd (event_call ev ?db)) = get_all_file_accesses ?db @ accesses_of [ev]
    \<and> db_readable (snd (event_call ev ?db))" by (simp add: ensure_transaction_frame)
  moreover have "get_all_file_accesses ?db = get_all_file_accesses (w_db w)"
    by (rule get_all_cong) (simp_all add: ensure_transaction_frame)
  moreover have "get_all_file_accesses (w_db (maybe_commit w')) = get_all_file_accesses (w_db w')" for w'
    by (rule get_all_cong) (simp_all add: maybe_commit_frame)
  ultimately show ?thesis using assms(4)
    by (simp add: apply_event_def perform_event_def frame_simps maybe_commit_frame Let_def split_beta)
qed

lemma accesses_of_append [simp]: "accesses_of (xs @ ys) = accesses_of xs @ accesses_of ys"
  by (simp add: accesses_of_def)

lemma accesses_of_Cons: "accesses_of (e # es) = accesses_of [e] @ accesses_of es"
  using accesses_of_append [of "[e]" es] by simp

lemma fold_apply_accesses:
  assumes "db_inv (w_db w)" "db_readable (w_db w)" "engine_ok (w_db w)" "no_collision (rows (w_db w)) evs"
    "w_write_error_count w = 0" "w_consecutive_errors w = 0"
  shows "get_all_file_accesses (w_db (fold apply_event evs w)) =
    get_all_file_accesses (w_db w) @ accesses_of evs"
  using assms
proof (induction evs arbitrary: w)
  case Nil
  then show ?case by (simp add: accesses_of_def)
next
  case (Cons ev evs)
  with apply_event_ok [of w ev evs] apply_event_accesses [of w ev] apply_event_inv [of w ev]
  show ?case by (simp add: accesses_of_Cons [of ev evs])
qed

lemma session_accesses:
  assumes "calls_ok {} ops" and "engine_ok db" and "db_inv db" and "db_readable db"
    and "db_processes db = []"
  shows "get_all_file_accesses (w_db (ss_writer (fold session_op ops (session_init db False)))) =
    get_all_file_accesses db @ accesses_of (snd (emit_all ops (session_init db False)))"
proof -
  let ?s = "session_init db False"
  have "no_collision {} (snd (emit_all ops ?s))"
    using emit_no_collision [OF ids_inv_init assms(1)] .
  moreover have "w_db (ss_writer ?s) = db" "rows db = {}" "w_write_error_count (ss_writer ?s) = 0"
      "w_consecutive_errors (ss_writer ?s) = 0" "\<not> ss_async ?s"
    using assms(5) by (simp_all add: session_init_def writer_init_def rows_def)
  ultimately show ?thesis
    using session_ops_sync [of ?s ops] fold_apply_accesses [of "ss_writer ?s" "snd (emit_all ops ?s)"] assms
    by simp
qed

text \<open>C2. Nothing is lost or invented on the way to the database: over an engine that completes
  every statement, the accesses in the database after a session are the ones the operations
  emitted, in the order of the calls, under their processes' synthetic ids.\<close>

theorem session_records_accesses:
  assumes "calls_ok {} ops" and "engine_ok db" and "db_inv db" and "db_readable db"
    and "db_processes db = []"
  shows "get_all_file_accesses (w_db (ss_writer (fold session_op ops (session_init db False)))) =
    get_all_file_accesses db @ accesses_of (snd (emit_all ops (session_init db False)))"
  by (rule session_accesses [OF assms])

section \<open>The properties at concrete runs\<close>

text \<open>A pid that starts, exits and is recycled, with repeated accesses in between.\<close>

definition sample_ops :: "session_op list" where
  "sample_ops =
     [Start (process_at 5 1), Access (access_at 5 ''/a''), Access (access_at 5 ''/a''), Exit 5 9 0 0 0 0 0 0,
      Start (process_at 5 1), Delete 5, Start (process_at 5 1), Access (access_at 5 ''/a'')]"

lemma sample_calls_ok: "calls_ok {} sample_ops"
  by (simp add: sample_ops_def process_at_def real_pid_def PID_GEN_STRIDE_def)

lemma sample_engine: "engine_ok (db_empty (\<lambda>_. True))"
  by (simp add: engine_ok_def db_empty_def)


definition two_accesses :: "session_op list" where
  "two_accesses = [Access (access_at 5 ''/a''), Access (access_at 5 ''/a'')]"

theorem dedup_exact_witness:
  "distinct (recorded 5 two_accesses (session_init (db_empty (\<lambda>_. True)) False))
   \<and> set (recorded 5 two_accesses (session_init (db_empty (\<lambda>_. True)) False)) = {(0, ''/a'')}"
proof -
  have "requested 5 two_accesses = [(0, ''/a''), (0, ''/a'')]"
    by (simp add: two_accesses_def requested_def List.map_filter_simps access_at_def FileAccessRecord_default_def)
  moreover have "\<forall>op \<in> set two_accesses. \<not> restarts 5 op" by (simp add: two_accesses_def)
  moreover have "seen_of (session_init (db_empty (\<lambda>_. True)) False) 5 = []"
    by (simp add: seen_of_def session_init_def)
  ultimately show ?thesis
    using dedup_exact [of two_accesses 5 "session_init (db_empty (\<lambda>_. True)) False"] by simp
qed

lemma failed_key_injective_witness: "failed_key 2 0 \<noteq> failed_key 13 0 \<and> failed_key 2 0 \<noteq> 0"
  using failed_key_injective [of 0 0 2 13] by simp

theorem session_records_accesses_witness:
  "get_all_file_accesses (w_db (ss_writer
     (fold session_op sample_ops (session_init (db_empty (\<lambda>_. True)) False)))) =
   [access_at 5 ''/a'', access_at 10000005 ''/a'']"
proof -
  have "get_all_file_accesses (db_empty (\<lambda>_. True)) @
      accesses_of (snd (emit_all sample_ops (session_init (db_empty (\<lambda>_. True)) False))) =
      [access_at 5 ''/a'', access_at 10000005 ''/a'']" by code_simp
  then show ?thesis
    using session_records_accesses [OF sample_calls_ok sample_engine db_inv_empty] by (simp add: db_empty_def)
qed

end
