(* ===== verification/Pipeline.thy ===== *)
theory Pipeline
  imports Session_Proofs
begin

text \<open>
  The two threads of \<open>TraceSession\<close>: the tracer's thread, which makes the calls and finally
  \<open>finalize\<close>, and the writer thread of \<open>writer_loop\<close>. A step is what one thread does between two
  points where the other can interfere: a critical section, or the work on data it owns.
  \<open>pthread_cond_wait\<close> is the guard of the step it waits for. The theorems say that every
  interleaving ends, within the bound of the queue, in the writer state of a run without a
  writer thread.
\<close>

section \<open>The step relation\<close>

datatype wpc = WWait | WApply | WPublish | WDone

datatype mpc = MNext | MEmit "QueuedEvent list" | MJoin | MDone

record pipe =
  pp_sess :: session
  pp_local :: "QueuedEvent list"
  pp_wpc :: wpc
  pp_mpc :: mpc
  pp_todo :: "session_op list"

definition pipe_init :: "sq_db \<Rightarrow> session_op list \<Rightarrow> pipe" where
  "pipe_init db ops = \<lparr>pp_sess = session_init db True, pp_local = [], pp_wpc = WWait, pp_mpc = MNext,
     pp_todo = ops\<rparr>"

text \<open>
  The tracer's thread: each call checks for fatal errors under the mutex, works on its own
  members, then enqueues; \<open>finalize\<close> asks the writer to stop, joins it and completes.
\<close>

inductive main_step :: "pipe \<Rightarrow> pipe \<Rightarrow> bool" where
  check_fatal: "pp_mpc p = MNext \<Longrightarrow> pp_todo p = op # ops \<Longrightarrow> has_fatal_errors (pp_sess p) \<Longrightarrow>
    main_step p (p\<lparr>pp_todo := ops\<rparr>)"
| check_ok: "pp_mpc p = MNext \<Longrightarrow> pp_todo p = op # ops \<Longrightarrow> \<not> has_fatal_errors (pp_sess p) \<Longrightarrow>
    main_step p (p\<lparr>pp_todo := ops, pp_sess := fst (op_emit op (pp_sess p)),
                   pp_mpc := MEmit (snd (op_emit op (pp_sess p)))\<rparr>)"
| emit: "pp_mpc p = MEmit (ev # evs) \<Longrightarrow> enqueue_ready (pp_sess p) \<Longrightarrow>
    main_step p (p\<lparr>pp_sess := enqueue ev (pp_sess p), pp_mpc := MEmit evs\<rparr>)"
| emitted: "pp_mpc p = MEmit [] \<Longrightarrow> main_step p (p\<lparr>pp_mpc := MNext\<rparr>)"
| stop: "pp_mpc p = MNext \<Longrightarrow> pp_todo p = [] \<Longrightarrow>
    main_step p (p\<lparr>pp_sess := (pp_sess p)\<lparr>ss_stop_requested := True\<rparr>, pp_mpc := MJoin\<rparr>)"
| join: "pp_mpc p = MJoin \<Longrightarrow> pp_wpc p = WDone \<Longrightarrow>
    main_step p (p\<lparr>pp_sess := finalize_tail ((pp_sess p)\<lparr>ss_async := False\<rparr>), pp_mpc := MDone\<rparr>)"

inductive writer_step :: "pipe \<Rightarrow> pipe \<Rightarrow> bool" where
  take: "pp_wpc p = WWait \<Longrightarrow> ss_queue (pp_sess p) \<noteq> [] \<Longrightarrow>
    writer_step p (p\<lparr>pp_local := ss_queue (pp_sess p), pp_sess := (pp_sess p)\<lparr>ss_queue := []\<rparr>,
                     pp_wpc := WApply\<rparr>)"
| apply_one: "pp_wpc p = WApply \<Longrightarrow> pp_local p = ev # evs \<Longrightarrow>
    writer_step p (p\<lparr>pp_sess := (pp_sess p)\<lparr>ss_writer := apply_event ev (ss_writer (pp_sess p))\<rparr>,
                     pp_local := evs\<rparr>)"
| applied: "pp_wpc p = WApply \<Longrightarrow> pp_local p = [] \<Longrightarrow> writer_step p (p\<lparr>pp_wpc := WPublish\<rparr>)"
| publish: "pp_wpc p = WPublish \<Longrightarrow> \<not> w_in_transaction (ss_writer (pp_sess p)) \<Longrightarrow>
    writer_step p (p\<lparr>pp_sess := (pp_sess p)\<lparr>ss_db_size_cache := sz\<rparr>, pp_wpc := WWait\<rparr>)"
| no_publish: "pp_wpc p = WPublish \<Longrightarrow> w_in_transaction (ss_writer (pp_sess p)) \<Longrightarrow>
    writer_step p (p\<lparr>pp_wpc := WWait\<rparr>)"
| leave: "pp_wpc p = WWait \<Longrightarrow> ss_queue (pp_sess p) = [] \<Longrightarrow> ss_stop_requested (pp_sess p) \<Longrightarrow>
    writer_step p (p\<lparr>pp_sess := (pp_sess p)\<lparr>ss_writer := close_transaction (ss_writer (pp_sess p))\<rparr>,
                     pp_wpc := WDone\<rparr>)"

definition pipe_step :: "pipe \<Rightarrow> pipe \<Rightarrow> bool" where
  "pipe_step p p' \<longleftrightarrow> main_step p p' \<or> writer_step p p'"

inductive_cases main_stepE: "main_step p p'"
inductive_cases writer_stepE: "writer_step p p'"

section \<open>The invariant\<close>

fun pending :: "mpc \<Rightarrow> QueuedEvent list" where
  "pending (MEmit evs) = evs"
| "pending _ = []"

text \<open>
  The writer state once all events on their way have been applied: those in the writer's hands,
  those queued, those about to be queued, and those of the calls to come. No step changes it.
\<close>

definition outcome :: "pipe \<Rightarrow> writer" where
  "outcome p = fold apply_event
     (pp_local p @ ss_queue (pp_sess p) @ pending (pp_mpc p) @ snd (emit_all (pp_todo p) (pp_sess p)))
     (ss_writer (pp_sess p))"

text \<open>What \<open>finalize_tail\<close> does to the writer's members the first time.\<close>

definition finalize_writer :: "writer \<Rightarrow> writer" where
  "finalize_writer w =
     (let w1 = close_transaction w
      in w1\<lparr>w_db := snd (sq_step (snd (populate_counts (snd (sq_step (w_db w1))))))\<rparr>)"

lemma finalize_tail_writer: "\<not> ss_finalized s \<Longrightarrow> ss_writer (finalize_tail s) = finalize_writer (ss_writer s)"
  by (simp add: finalize_tail_def finalize_writer_def Let_def)

lemma close_idem: "close_transaction (close_transaction w) = close_transaction w"
  by (simp add: close_transaction_def)

lemma finalize_writer_close: "finalize_writer (close_transaction w) = finalize_writer w"
  by (simp add: finalize_writer_def close_idem)

definition pipe_inv :: "writer \<Rightarrow> pipe \<Rightarrow> bool" where
  "pipe_inv w p \<longleftrightarrow>
     length (ss_queue (pp_sess p)) \<le> MAX_QUEUE_EVENTS
     \<and> (pp_wpc p \<noteq> WApply \<longrightarrow> pp_local p = [])
     \<and> (ss_stop_requested (pp_sess p) \<longleftrightarrow> pp_mpc p \<in> {MJoin, MDone})
     \<and> (pp_mpc p \<in> {MJoin, MDone} \<longrightarrow> pp_todo p = [])
     \<and> (pp_mpc p = MDone \<longrightarrow> pp_wpc p = WDone)
     \<and> (pp_wpc p = WDone \<longrightarrow> ss_stop_requested (pp_sess p) \<and> ss_queue (pp_sess p) = [])
     \<and> (pp_mpc p \<noteq> MDone \<longrightarrow> ss_async (pp_sess p) \<and> \<not> ss_finalized (pp_sess p))
     \<and> (pp_mpc p \<noteq> MDone \<longrightarrow> (if pp_wpc p = WDone then ss_writer (pp_sess p) = close_transaction w else outcome p = w))
     \<and> (pp_mpc p = MDone \<longrightarrow> ss_writer (pp_sess p) = finalize_writer w)"

lemma op_emit_more_frame [frame_simps]:
  "ss_finalized (fst (op_emit op s)) = ss_finalized s"
  "ss_db_size_cache (fst (op_emit op s)) = ss_db_size_cache s"
  by (cases op; simp add: register_start_def already_seen_def Let_def split: option.split)+

text \<open>The members \<open>op_emit\<close> does not look at.\<close>

lemma emit_all_blind:
  "snd (emit_all ops (s\<lparr>ss_writer := w\<rparr>)) = snd (emit_all ops s)"
  "snd (emit_all ops (s\<lparr>ss_queue := q\<rparr>)) = snd (emit_all ops s)"
  using emit_all_with_pipe [of ops w "ss_queue s" s] emit_all_with_pipe [of ops "ss_writer s" q s]
  by (simp_all add: with_pipe_def)

lemma op_emit_size:
  "op_emit op (s\<lparr>ss_db_size_cache := n\<rparr>) =
     (fst (op_emit op s)\<lparr>ss_db_size_cache := n\<rparr>, snd (op_emit op s))"
  by (cases op)
    (simp_all add: register_start_def already_seen_def current_synth_def seen_of_def Let_def split: option.split)

lemma emit_all_size: "snd (emit_all ops (s\<lparr>ss_db_size_cache := n\<rparr>)) = snd (emit_all ops s)"
  by (induction ops arbitrary: s) (simp_all add: op_emit_size split_beta Let_def)

lemma main_step_inv:
  assumes "main_step p p'" and inv: "pipe_inv w p"
  shows "pipe_inv w p'"
  using assms(1)
proof (cases rule: main_step.cases)
  case (check_fatal op ops)
  then have "outcome p' = outcome p" by (simp add: outcome_def has_fatal_errors_def fold_apply_fatal)
  with check_fatal inv show ?thesis by (auto simp: pipe_inv_def)
next
  case (check_ok op ops)
  then have "outcome p' = outcome p" by (simp add: outcome_def frame_simps split_beta Let_def)
  with check_ok inv show ?thesis by (auto simp: pipe_inv_def frame_simps)
next
  case (emit ev evs)
  with inv have async: "ss_async (pp_sess p)" "\<not> ss_stop_requested (pp_sess p)" by (auto simp: pipe_inv_def)
  with emit have eq: "enqueue ev (pp_sess p) = (pp_sess p)\<lparr>ss_queue := ss_queue (pp_sess p) @ [ev]\<rparr>"
    "length (ss_queue (pp_sess p)) < MAX_QUEUE_EVENTS" by (auto simp: enqueue_def enqueue_ready_def)
  with emit have "outcome p' = outcome p" by (simp add: outcome_def emit_all_blind)
  with emit inv eq async show ?thesis by (auto simp: pipe_inv_def)
next
  case emitted
  then have "outcome p' = outcome p" by (simp add: outcome_def)
  with emitted inv show ?thesis by (auto simp: pipe_inv_def)
next
  case stop
  then have "outcome p' = outcome p" by (simp add: outcome_def)
  with stop inv show ?thesis by (auto simp: pipe_inv_def)
next
  case join
  with inv have "ss_writer (finalize_tail ((pp_sess p)\<lparr>ss_async := False\<rparr>)) = finalize_writer w"
    by (simp add: pipe_inv_def finalize_tail_writer finalize_writer_close)
  with join inv show ?thesis by (simp add: pipe_inv_def) (simp add: finalize_tail_def Let_def)
qed

lemma writer_step_inv:
  assumes "writer_step p p'" and inv: "pipe_inv w p"
  shows "pipe_inv w p'"
  using assms(1)
proof (cases rule: writer_step.cases)
  case take
  then have "outcome p' = outcome p" using inv by (simp add: outcome_def emit_all_blind pipe_inv_def)
  with take inv show ?thesis by (auto simp: pipe_inv_def)
next
  case (apply_one ev evs)
  then have "outcome p' = outcome p" by (simp add: outcome_def emit_all_blind)
  with apply_one inv show ?thesis by (auto simp: pipe_inv_def)
next
  case applied
  then have "outcome p' = outcome p" by (simp add: outcome_def)
  with applied inv show ?thesis by (auto simp: pipe_inv_def)
next
  case (publish sz)
  then have "outcome p' = outcome p" by (simp add: outcome_def emit_all_size)
  with publish inv show ?thesis by (auto simp: pipe_inv_def)
next
  case no_publish
  then have "outcome p' = outcome p" by (simp add: outcome_def)
  with no_publish inv show ?thesis by (auto simp: pipe_inv_def)
next
  case leave
  with inv have "outcome p = ss_writer (pp_sess p)" by (auto simp: outcome_def pipe_inv_def)
  with leave inv show ?thesis by (auto simp: pipe_inv_def)
qed

lemma pipe_step_inv: "pipe_step p p' \<Longrightarrow> pipe_inv w p \<Longrightarrow> pipe_inv w p'"
  unfolding pipe_step_def using main_step_inv writer_step_inv by blast

definition all_applied :: "sq_db \<Rightarrow> session_op list \<Rightarrow> writer" where
  "all_applied db ops = fold apply_event (snd (emit_all ops (session_init db True))) (writer_init db)"

lemma pipe_inv_init: "pipe_inv (all_applied db ops) (pipe_init db ops)"
proof -
  have "outcome (pipe_init db ops) = all_applied db ops"
    by (simp add: outcome_def pipe_init_def all_applied_def) (simp add: session_init_def)
  then show ?thesis by (simp add: pipe_inv_def) (simp add: pipe_init_def session_init_def)
qed

lemma pipe_reachable_inv: "pipe_step\<^sup>*\<^sup>* (pipe_init db ops) p \<Longrightarrow> pipe_inv (all_applied db ops) p"
  by (induction rule: rtranclp_induct) (auto intro: pipe_inv_init pipe_step_inv)

section \<open>Progress and termination\<close>

fun mpc_weight :: "mpc \<Rightarrow> nat" where
  "mpc_weight MNext = 2"
| "mpc_weight (MEmit evs) = 3 + 5 * length evs"
| "mpc_weight MJoin = 1"
| "mpc_weight MDone = 0"

fun wpc_weight :: "wpc \<Rightarrow> nat" where
  "wpc_weight WWait = 1" | "wpc_weight WApply = 3" | "wpc_weight WPublish = 2" | "wpc_weight WDone = 0"

definition pipe_measure :: "pipe \<Rightarrow> nat" where
  "pipe_measure p = 7 * length (pp_todo p) + mpc_weight (pp_mpc p) + 4 * length (ss_queue (pp_sess p))
     + length (pp_local p) + wpc_weight (pp_wpc p)"

lemma pipe_measure_less: "pipe_step p p' \<Longrightarrow> pipe_measure p' < pipe_measure p"
proof -
  assume "pipe_step p p'"
  then consider "main_step p p'" | "writer_step p p'" by (auto simp: pipe_step_def)
  then show ?thesis
  proof cases
    case 1
    then show ?thesis
    proof (cases rule: main_step.cases)
      case (check_ok op ops)
      with op_emit_length [of op "pp_sess p"] show ?thesis by (simp add: pipe_measure_def frame_simps)
    qed (simp_all add: pipe_measure_def enqueue_def finalize_tail_def Let_def)
  next
    case 2
    then show ?thesis
    proof (cases rule: writer_step.cases)
      case take
      then have "1 \<le> length (ss_queue (pp_sess p))" by (cases "ss_queue (pp_sess p)") auto
      with take show ?thesis by (simp add: pipe_measure_def)
    qed (simp_all add: pipe_measure_def)
  qed
qed

lemma writer_can_step:
  assumes "pp_wpc p \<in> {WApply, WPublish} \<or> pp_wpc p = WWait \<and> (ss_queue (pp_sess p) \<noteq> [] \<or> ss_stop_requested (pp_sess p))"
  shows "\<exists>p'. writer_step p p'"
proof (cases "pp_wpc p")
  case WApply
  show ?thesis
  proof (cases "pp_local p")
    case Nil
    with WApply show ?thesis using writer_step.applied by blast
  next
    case (Cons ev evs)
    with WApply show ?thesis using writer_step.apply_one by blast
  qed
next
  case WPublish
  then show ?thesis using writer_step.publish writer_step.no_publish by blast
next
  case WWait
  with assms show ?thesis using writer_step.take writer_step.leave by auto
qed (use assms in simp)

lemma main_can_step:
  assumes "pp_mpc p = MNext \<or> (\<exists>evs. pp_mpc p = MEmit evs) \<and> enqueue_ready (pp_sess p)
    \<or> pp_mpc p = MJoin \<and> pp_wpc p = WDone"
  shows "\<exists>p'. main_step p p'"
proof (cases "pp_mpc p")
  case MNext
  show ?thesis
  proof (cases "pp_todo p")
    case Nil
    with MNext show ?thesis using main_step.stop by blast
  next
    case (Cons op ops)
    with MNext show ?thesis using main_step.check_ok main_step.check_fatal by blast
  qed
next
  case (MEmit evs)
  show ?thesis
  proof (cases evs)
    case Nil
    with MEmit show ?thesis using main_step.emitted by blast
  next
    case (Cons ev evs')
    with MEmit assms show ?thesis using main_step.emit by auto
  qed
next
  case MJoin
  with assms show ?thesis using main_step.join by auto
qed (use assms in simp)

lemma pipe_can_step:
  assumes inv: "pipe_inv w p" and "pp_mpc p \<noteq> MDone"
  shows "\<exists>p'. pipe_step p p'"
proof (cases "pp_wpc p \<in> {WApply, WPublish} \<or> pp_wpc p = WWait \<and> (ss_queue (pp_sess p) \<noteq> [] \<or> ss_stop_requested (pp_sess p))")
  case True
  then show ?thesis using writer_can_step by (auto simp: pipe_step_def)
next
  case False
  then have idle: "pp_wpc p = WWait \<and> ss_queue (pp_sess p) = [] \<and> \<not> ss_stop_requested (pp_sess p) \<or> pp_wpc p = WDone"
    by (cases "pp_wpc p") auto
  have "pp_mpc p = MNext \<or> (\<exists>evs. pp_mpc p = MEmit evs) \<and> enqueue_ready (pp_sess p) \<or> pp_mpc p = MJoin \<and> pp_wpc p = WDone"
  proof (cases "pp_mpc p")
    case (MEmit evs)
    with idle inv show ?thesis by (auto simp: pipe_inv_def enqueue_ready_def MAX_QUEUE_EVENTS_def)
  next
    case MJoin
    with idle inv show ?thesis by (auto simp: pipe_inv_def)
  qed (use assms in simp_all)
  then show ?thesis using main_can_step by (auto simp: pipe_step_def)
qed

text \<open>The threads never deadlock and the queue never exceeds its bound: in every state that
  some interleaving reaches, at most \<open>MAX_QUEUE_EVENTS\<close> events are queued, and either \<open>finalize\<close>
  has returned or one of the threads can take a step.\<close>

theorem pipeline_progress:
  assumes "pipe_step\<^sup>*\<^sup>* (pipe_init db ops) p"
  shows "length (ss_queue (pp_sess p)) \<le> MAX_QUEUE_EVENTS \<and> (pp_mpc p = MDone \<or> (\<exists>p'. pipe_step p p'))"
  using pipe_reachable_inv [OF assms] pipe_can_step by (auto simp: pipe_inv_def)


lemma pipeline_completes: "\<exists>p. pipe_step\<^sup>*\<^sup>* (pipe_init db ops) p \<and> pp_mpc p = MDone"
proof -
  have "\<exists>p'. pipe_step\<^sup>*\<^sup>* p p' \<and> pp_mpc p' = MDone" if "pipe_inv w p" for w p
    using that
  proof (induction "pipe_measure p" arbitrary: p rule: less_induct)
    case less
    show ?case
    proof (cases "pp_mpc p = MDone")
      case False
      then obtain p1 where step: "pipe_step p p1" using pipe_can_step [OF less.prems] by blast
      from less.hyps [OF pipe_measure_less [OF step] pipe_step_inv [OF step less.prems]]
      show ?thesis using step by (meson converse_rtranclp_into_rtranclp)
    qed blast
  qed
  from this [OF pipe_inv_init] show ?thesis .
qed

section \<open>Equivalence with synchronous writing\<close>

lemma op_emit_async:
  "op_emit op (s\<lparr>ss_async := b\<rparr>) = (fst (op_emit op s)\<lparr>ss_async := b\<rparr>, snd (op_emit op s))"
  by (cases op)
    (simp_all add: register_start_def already_seen_def current_synth_def seen_of_def Let_def split: option.split)

lemma emit_all_async: "snd (emit_all ops (s\<lparr>ss_async := b\<rparr>)) = snd (emit_all ops s)"
  by (induction ops arbitrary: s) (simp_all add: op_emit_async split_beta Let_def)

lemma session_op_finalized:
  "\<not> ss_async s \<Longrightarrow> ss_finalized (session_op op s) = ss_finalized s"
  by (simp add: session_op_def op_body_emit fold_enqueue_sync frame_simps) (simp add: with_pipe_def frame_simps)

lemma session_ops_finalized:
  "\<not> ss_async s \<Longrightarrow> ss_finalized (fold session_op ops s) = ss_finalized s"
  by (induction ops arbitrary: s) (simp_all add: session_op_finalized session_op_sync(2))

lemma sync_final:
  "ss_writer (finalize_tail (fold session_op ops (session_init db False))) = finalize_writer (all_applied db ops)"
proof -
  have sync: "\<not> ss_async (session_init db False)" "\<not> ss_finalized (session_init db False)"
    "ss_writer (session_init db False) = writer_init db" by (simp_all add: session_init_def)
  have "snd (emit_all ops (session_init db False)) = snd (emit_all ops (session_init db True))"
    using emit_all_async [where s = "session_init db True" and b = False] by (simp add: session_init_def)
  with sync show ?thesis
    by (simp add: finalize_tail_writer session_ops_finalized session_ops_sync all_applied_def)
qed

text \<open>C13. The writer thread changes nothing: whenever \<open>finalize\<close> returns, in any interleaving and
  over any engine, the database and all of the writer's counters are those of the same calls
  without a writer thread. No event is lost, duplicated or reordered, even when writing fails
  for good in the middle.\<close>

theorem pipeline_equals_sync:
  assumes "pipe_step\<^sup>*\<^sup>* (pipe_init db ops) p" and "pp_mpc p = MDone"
  shows "ss_writer (pp_sess p) = ss_writer (finalize_tail (fold session_op ops (session_init db False)))"
  using pipe_reachable_inv [OF assms(1)] assms(2) by (simp add: sync_final pipe_inv_def)

section \<open>The properties at concrete runs\<close>

theorem pipeline_progress_witness: "\<exists>p'. pipe_step (pipe_init (db_empty (\<lambda>_. True)) sample_ops) p'"
proof -
  have "pp_mpc (pipe_init (db_empty (\<lambda>_. True)) sample_ops) \<noteq> MDone" by (simp add: pipe_init_def)
  with pipeline_progress [of "db_empty (\<lambda>_. True)" sample_ops "pipe_init (db_empty (\<lambda>_. True)) sample_ops"]
  show ?thesis by blast
qed

theorem pipeline_equals_sync_witness:
  "\<exists>p. pipe_step\<^sup>*\<^sup>* (pipe_init (db_empty (\<lambda>_. True)) sample_ops) p \<and> ss_writer (pp_sess p) =
     ss_writer (finalize_tail (fold session_op sample_ops (session_init (db_empty (\<lambda>_. True)) False)))"
  using pipeline_completes [of "db_empty (\<lambda>_. True)" sample_ops]
    pipeline_equals_sync [of "db_empty (\<lambda>_. True)" sample_ops] by blast

end
