(* ===== verification/Ptrace_Defs.thy ===== *)
theory Ptrace_Defs
  imports Types "HOL-Library.Word"
begin

unbundle bit_operations_syntax

text \<open>
  \<open>tracer/ptrace_defs.h\<close> for x86-64, the process state of \<open>tracer/process_state.h\<close>, and the
  table of traced system calls with the seccomp program of \<open>tracer/ptrace_backend.cpp\<close>.
\<close>

section \<open>System call numbers\<close>

definition SYS_OPEN_NR :: int where "SYS_OPEN_NR = 2"
definition SYS_CLOSE_NR :: int where "SYS_CLOSE_NR = 3"
definition SYS_STAT_NR :: int where "SYS_STAT_NR = 4"
definition SYS_LSTAT_NR :: int where "SYS_LSTAT_NR = 6"
definition SYS_ACCESS_NR :: int where "SYS_ACCESS_NR = 21"
definition SYS_FORK_NR :: int where "SYS_FORK_NR = 57"
definition SYS_VFORK_NR :: int where "SYS_VFORK_NR = 58"
definition SYS_EXECVE_NR :: int where "SYS_EXECVE_NR = 59"
definition SYS_CLONE_NR :: int where "SYS_CLONE_NR = 56"
definition SYS_EXIT_GROUP_NR :: int where "SYS_EXIT_GROUP_NR = 231"
definition SYS_CHDIR_NR :: int where "SYS_CHDIR_NR = 80"
definition SYS_FCHDIR_NR :: int where "SYS_FCHDIR_NR = 81"
definition SYS_RENAME_NR :: int where "SYS_RENAME_NR = 82"
definition SYS_MKDIR_NR :: int where "SYS_MKDIR_NR = 83"
definition SYS_LINK_NR :: int where "SYS_LINK_NR = 86"
definition SYS_UNLINK_NR :: int where "SYS_UNLINK_NR = 87"
definition SYS_SYMLINK_NR :: int where "SYS_SYMLINK_NR = 88"
definition SYS_READLINK_NR :: int where "SYS_READLINK_NR = 89"
definition SYS_CHMOD_NR :: int where "SYS_CHMOD_NR = 90"
definition SYS_CHOWN_NR :: int where "SYS_CHOWN_NR = 92"
definition SYS_MKNOD_NR :: int where "SYS_MKNOD_NR = 133"
definition SYS_TRUNCATE_NR :: int where "SYS_TRUNCATE_NR = 76"
definition SYS_CREAT_NR :: int where "SYS_CREAT_NR = 85"
definition SYS_OPENAT_NR :: int where "SYS_OPENAT_NR = 257"
definition SYS_MKDIRAT_NR :: int where "SYS_MKDIRAT_NR = 258"
definition SYS_MKNODAT_NR :: int where "SYS_MKNODAT_NR = 259"
definition SYS_FCHOWNAT_NR :: int where "SYS_FCHOWNAT_NR = 260"
definition SYS_UNLINKAT_NR :: int where "SYS_UNLINKAT_NR = 263"
definition SYS_RENAMEAT_NR :: int where "SYS_RENAMEAT_NR = 264"
definition SYS_LINKAT_NR :: int where "SYS_LINKAT_NR = 265"
definition SYS_SYMLINKAT_NR :: int where "SYS_SYMLINKAT_NR = 266"
definition SYS_READLINKAT_NR :: int where "SYS_READLINKAT_NR = 267"
definition SYS_FCHMODAT_NR :: int where "SYS_FCHMODAT_NR = 268"
definition SYS_FACCESSAT_NR :: int where "SYS_FACCESSAT_NR = 269"
definition SYS_NEWFSTATAT_NR :: int where "SYS_NEWFSTATAT_NR = 262"
definition SYS_UTIMENSAT_NR :: int where "SYS_UTIMENSAT_NR = 280"
definition SYS_RENAMEAT2_NR :: int where "SYS_RENAMEAT2_NR = 316"
definition SYS_EXECVEAT_NR :: int where "SYS_EXECVEAT_NR = 322"
definition SYS_STATX_NR :: int where "SYS_STATX_NR = 332"
definition SYS_FACCESSAT2_NR :: int where "SYS_FACCESSAT2_NR = 439"
definition SYS_OPENAT2_NR :: int where "SYS_OPENAT2_NR = 437"

lemmas sys_nrs = 
  SYS_OPEN_NR_def SYS_CLOSE_NR_def SYS_STAT_NR_def SYS_LSTAT_NR_def 
  SYS_ACCESS_NR_def SYS_FORK_NR_def SYS_VFORK_NR_def SYS_EXECVE_NR_def 
  SYS_CLONE_NR_def SYS_EXIT_GROUP_NR_def SYS_CHDIR_NR_def SYS_FCHDIR_NR_def 
  SYS_RENAME_NR_def SYS_MKDIR_NR_def SYS_LINK_NR_def SYS_UNLINK_NR_def 
  SYS_SYMLINK_NR_def SYS_READLINK_NR_def SYS_CHMOD_NR_def SYS_CHOWN_NR_def 
  SYS_MKNOD_NR_def SYS_TRUNCATE_NR_def SYS_CREAT_NR_def SYS_OPENAT_NR_def 
  SYS_MKDIRAT_NR_def SYS_MKNODAT_NR_def SYS_FCHOWNAT_NR_def SYS_UNLINKAT_NR_def 
  SYS_RENAMEAT_NR_def SYS_LINKAT_NR_def SYS_SYMLINKAT_NR_def SYS_READLINKAT_NR_def 
  SYS_FCHMODAT_NR_def SYS_FACCESSAT_NR_def SYS_NEWFSTATAT_NR_def SYS_UTIMENSAT_NR_def 
  SYS_RENAMEAT2_NR_def SYS_EXECVEAT_NR_def SYS_STATX_NR_def SYS_FACCESSAT2_NR_def 
  SYS_OPENAT2_NR_def

section \<open>Registers and process state\<close>

record user_regs =
  orig_rax :: "64 word"
  rax :: "64 word"
  rdi :: "64 word"
  rsi :: "64 word"
  rdx :: "64 word"
  r10 :: "64 word"

text \<open>The casts of the code: to \<open>long\<close>, and to \<open>int\<close> by keeping the low 32 bits.\<close>

definition as_long :: "64 word \<Rightarrow> int" where "as_long w = sint w"

definition as_int :: "64 word \<Rightarrow> int" where "as_int w = sint (ucast w :: 32 word)"

datatype SyscallPhase = SC_PHASE_UNKNOWN | SC_PHASE_ENTRY_NEXT | SC_PHASE_EXIT_NEXT

record ProcessState =
  ps_pid :: int
  ps_ppid :: int
  ps_sc_phase :: SyscallPhase
  ps_exit_needed :: bool
  ps_pending_syscall :: int
  ps_path_addr :: "64 word"
  ps_path_addr2 :: "64 word"
  ps_flags :: int
  ps_traced :: bool
  ps_mem_fd :: int
  ps_cwd :: string
  ps_cmdline :: string
  ps_user_time :: int
  ps_sys_time :: int
  ps_peak_rss :: int
  ps_io_read :: int
  ps_io_write :: int

definition ProcessState_new :: "int \<Rightarrow> int \<Rightarrow> ProcessState" where
  "ProcessState_new p pp = \<lparr>ps_pid = p, ps_ppid = pp, ps_sc_phase = SC_PHASE_UNKNOWN,
     ps_exit_needed = False, ps_pending_syscall = -1, ps_path_addr = 0, ps_path_addr2 = 0,
     ps_flags = 0, ps_traced = False, ps_mem_fd = -1, ps_cwd = [], ps_cmdline = [],
     ps_user_time = 0, ps_sys_time = 0, ps_peak_rss = 0, ps_io_read = 0, ps_io_write = 0\<rparr>"

section \<open>Decoding a system call at its entry\<close>

definition O_WRONLY_CREAT_TRUNC :: int where "O_WRONLY_CREAT_TRUNC = 577"

text \<open>The addresses of the path arguments and the open flags, by system call.\<close>

definition decode_paths :: "user_regs \<Rightarrow> int \<Rightarrow> 64 word \<times> 64 word \<times> int" where
  "decode_paths regs nr =
    (if nr = SYS_OPEN_NR then (rdi regs, 0, as_int (rsi regs))
     else if nr = SYS_OPENAT_NR \<or> nr = SYS_OPENAT2_NR then (rsi regs, 0, as_int (rdx regs))
     else if nr = SYS_CREAT_NR then (rdi regs, 0, O_WRONLY_CREAT_TRUNC)
     else if nr \<in> {SYS_STAT_NR, SYS_LSTAT_NR, SYS_ACCESS_NR, SYS_CHDIR_NR, SYS_UNLINK_NR,
         SYS_MKDIR_NR, SYS_CHMOD_NR, SYS_CHOWN_NR, SYS_READLINK_NR, SYS_TRUNCATE_NR, SYS_MKNOD_NR,
         SYS_EXECVE_NR} then (rdi regs, 0, 0)
     else if nr \<in> {SYS_NEWFSTATAT_NR, SYS_FACCESSAT_NR, SYS_FACCESSAT2_NR, SYS_UNLINKAT_NR,
         SYS_MKDIRAT_NR, SYS_FCHMODAT_NR, SYS_FCHOWNAT_NR, SYS_READLINKAT_NR, SYS_UTIMENSAT_NR,
         SYS_MKNODAT_NR, SYS_EXECVEAT_NR, SYS_STATX_NR} then (rsi regs, 0, 0)
     else if nr \<in> {SYS_RENAME_NR, SYS_LINK_NR, SYS_SYMLINK_NR} then (rdi regs, rsi regs, 0)
     else if nr = SYS_RENAMEAT_NR \<or> nr = SYS_RENAMEAT2_NR then (rsi regs, r10 regs, 0)
     else if nr = SYS_LINKAT_NR then (rsi regs, r10 regs, 0)
     else if nr = SYS_SYMLINKAT_NR then (rdi regs, rdx regs, 0)
     else (0, 0, 0))"

definition decode_syscall_entry :: "user_regs \<Rightarrow> int \<Rightarrow> ProcessState \<Rightarrow> ProcessState" where
  "decode_syscall_entry regs nr ps =
    (case decode_paths regs nr of (addr, addr2, flags) \<Rightarrow>
       ps\<lparr>ps_pending_syscall := nr, ps_path_addr := addr, ps_path_addr2 := addr2, ps_flags := flags,
          ps_exit_needed := (addr \<noteq> 0 \<or> nr = SYS_FCHDIR_NR)\<rparr>)"

section \<open>The seccomp filter\<close>

definition BD_TRACED_SYSCALLS :: "int list" where
  "BD_TRACED_SYSCALLS =
    [SYS_OPEN_NR, SYS_CREAT_NR, SYS_OPENAT_NR, SYS_OPENAT2_NR,
     SYS_STAT_NR, SYS_LSTAT_NR, SYS_NEWFSTATAT_NR, SYS_STATX_NR,
     SYS_ACCESS_NR, SYS_FACCESSAT_NR, SYS_FACCESSAT2_NR, SYS_CHDIR_NR,
     SYS_FCHDIR_NR, SYS_RENAME_NR, SYS_RENAMEAT_NR, SYS_RENAMEAT2_NR,
     SYS_MKDIR_NR, SYS_MKDIRAT_NR, SYS_LINK_NR, SYS_LINKAT_NR,
     SYS_UNLINK_NR, SYS_UNLINKAT_NR, SYS_SYMLINK_NR, SYS_SYMLINKAT_NR,
     SYS_READLINK_NR, SYS_READLINKAT_NR, SYS_CHMOD_NR, SYS_FCHMODAT_NR,
     SYS_CHOWN_NR, SYS_FCHOWNAT_NR, SYS_MKNOD_NR, SYS_MKNODAT_NR,
     SYS_TRUNCATE_NR, SYS_UTIMENSAT_NR, SYS_EXECVE_NR, SYS_EXECVEAT_NR]"

definition BD_AUDIT_ARCH :: "32 word" where "BD_AUDIT_ARCH = 0xC000003E"
definition BD_SECCOMP_RET_TRACE :: "32 word" where "BD_SECCOMP_RET_TRACE = 0x7ff00000"
definition BD_SECCOMP_RET_ALLOW :: "32 word" where "BD_SECCOMP_RET_ALLOW = 0x7fff0000"
definition BD_BPF_LD_W_ABS :: "16 word" where "BD_BPF_LD_W_ABS = 0x20"
definition BD_BPF_JEQ_K :: "16 word" where "BD_BPF_JEQ_K = 0x15"
definition BD_BPF_RET_K :: "16 word" where "BD_BPF_RET_K = 0x06"

record bd_sock_filter =
  sf_code :: "16 word"
  sf_jt :: "8 word"
  sf_jf :: "8 word"
  sf_k :: "32 word"

text \<open>
  The program \<open>install_seccomp_filter\<close> fills in, instruction by instruction. The architecture and the table are
  arguments: the i386 build has others (\<open>Ptrace_I386\<close>).
\<close>

definition seccomp_program_for :: "32 word \<Rightarrow> int list \<Rightarrow> bd_sock_filter list" where
  "seccomp_program_for arch tab =
    (let n = length tab in
     [\<lparr>sf_code = BD_BPF_LD_W_ABS, sf_jt = 0, sf_jf = 0, sf_k = 4\<rparr>,
      \<lparr>sf_code = BD_BPF_JEQ_K, sf_jt = 0, sf_jf = of_nat (n + 1), sf_k = arch\<rparr>,
      \<lparr>sf_code = BD_BPF_LD_W_ABS, sf_jt = 0, sf_jf = 0, sf_k = 0\<rparr>]
     @ map (\<lambda>i. \<lparr>sf_code = BD_BPF_JEQ_K, sf_jt = of_nat (n - i), sf_jf = 0,
                   sf_k = word_of_int (tab ! i)\<rparr>) [0..<n]
     @ [\<lparr>sf_code = BD_BPF_RET_K, sf_jt = 0, sf_jf = 0, sf_k = BD_SECCOMP_RET_ALLOW\<rparr>,
        \<lparr>sf_code = BD_BPF_RET_K, sf_jt = 0, sf_jf = 0, sf_k = BD_SECCOMP_RET_TRACE\<rparr>])"

definition seccomp_program :: "bd_sock_filter list" where
  "seccomp_program = seccomp_program_for BD_AUDIT_ARCH BD_TRACED_SYSCALLS"

end
