(* ===== verification/Seccomp.thy ===== *)
theory Seccomp
  imports Ptrace_Defs
begin

text \<open>
  The seccomp fast path's filter. A classic BPF program is run by the kernel; what the filter
  relies on is stated as the locale \<open>bpf_machine\<close>: the documented effect of the three
  instructions it uses. The facts are proved from these laws and instantiated with \<open>bpf_run\<close>,
  which follows them.
\<close>

section \<open>The machine's interface\<close>

locale bpf_machine =
  fixes run :: "bd_sock_filter list \<Rightarrow> (32 word \<Rightarrow> 32 word) \<Rightarrow> nat \<Rightarrow> 32 word \<Rightarrow> 32 word option"
  assumes run_load: "pc < length prog \<Longrightarrow> sf_code (prog ! pc) = BD_BPF_LD_W_ABS \<Longrightarrow>
      run prog data pc a = run prog data (pc + 1) (data (sf_k (prog ! pc)))"
    and run_jeq: "pc < length prog \<Longrightarrow> sf_code (prog ! pc) = BD_BPF_JEQ_K \<Longrightarrow>
      run prog data pc a =
        run prog data (pc + 1 + unat (if a = sf_k (prog ! pc) then sf_jt (prog ! pc) else sf_jf (prog ! pc))) a"
    and run_ret: "pc < length prog \<Longrightarrow> sf_code (prog ! pc) = BD_BPF_RET_K \<Longrightarrow>
      run prog data pc a = Some (sf_k (prog ! pc))"
begin

lemma seccomp_length: "length (seccomp_program_for arch tab) = length tab + 5"
  by (simp add: seccomp_program_for_def Let_def)

lemma seccomp_nth:
  "seccomp_program_for arch tab ! 0 = \<lparr>sf_code = BD_BPF_LD_W_ABS, sf_jt = 0, sf_jf = 0, sf_k = 4\<rparr>"
  "seccomp_program_for arch tab ! 1 = \<lparr>sf_code = BD_BPF_JEQ_K, sf_jt = 0,
     sf_jf = of_nat (length tab + 1), sf_k = arch\<rparr>"
  "seccomp_program_for arch tab ! 2 = \<lparr>sf_code = BD_BPF_LD_W_ABS, sf_jt = 0, sf_jf = 0, sf_k = 0\<rparr>"
  "i < length tab \<Longrightarrow> seccomp_program_for arch tab ! (3 + i) = \<lparr>sf_code = BD_BPF_JEQ_K,
     sf_jt = of_nat (length tab - i), sf_jf = 0,
     sf_k = word_of_int (tab ! i)\<rparr>"
  "seccomp_program_for arch tab ! (3 + length tab) =
     \<lparr>sf_code = BD_BPF_RET_K, sf_jt = 0, sf_jf = 0, sf_k = BD_SECCOMP_RET_ALLOW\<rparr>"
  "seccomp_program_for arch tab ! (4 + length tab) =
     \<lparr>sf_code = BD_BPF_RET_K, sf_jt = 0, sf_jf = 0, sf_k = BD_SECCOMP_RET_TRACE\<rparr>"
  by (simp_all add: seccomp_program_for_def Let_def nth_append nth_Cons split: nat.split)

lemma run_allow: "run (seccomp_program_for arch tab) data (3 + length tab) a = Some BD_SECCOMP_RET_ALLOW"
  using run_ret [of "3 + length tab" "seccomp_program_for arch tab"] by (simp add: seccomp_nth seccomp_length)

lemma run_trace: "run (seccomp_program_for arch tab) data (4 + length tab) a = Some BD_SECCOMP_RET_TRACE"
  using run_ret [of "4 + length tab" "seccomp_program_for arch tab"] by (simp add: seccomp_nth seccomp_length)

text \<open>The jumps are bytes: the table may have up to 254 entries.\<close>

lemma run_table:
  "length tab < 255 \<Longrightarrow> i \<le> length tab \<Longrightarrow>
   run (seccomp_program_for arch tab) data (3 + i) a =
     Some (if a \<in> word_of_int ` set (drop i tab) then BD_SECCOMP_RET_TRACE else BD_SECCOMP_RET_ALLOW)"
proof (induction "length tab - i" arbitrary: i)
  case 0
  then show ?case using run_allow [of arch tab data a] by simp
next
  case (Suc k)
  then have i: "i < length tab" by simp
  have small: "unat (of_nat (length tab - i) :: 8 word) = length tab - i"
    using Suc.prems by (simp add: unat_of_nat del: of_nat_diff)
  have "run (seccomp_program_for arch tab) data (3 + i) a =
      run (seccomp_program_for arch tab) data
        (3 + i + 1 + (if a = word_of_int (tab ! i) then length tab - i else 0)) a"
    using run_jeq [of "3 + i" "seccomp_program_for arch tab" data a] i small by (simp add: seccomp_nth seccomp_length)
  also have "\<dots> = Some (if a \<in> word_of_int ` set (drop i tab) then BD_SECCOMP_RET_TRACE else BD_SECCOMP_RET_ALLOW)"
  proof (cases "a = word_of_int (tab ! i)")
    case True
    have "3 + i + 1 + (length tab - i) = 4 + length tab" using i by simp
    then show ?thesis using True run_trace i by (simp add: Cons_nth_drop_Suc [symmetric])
  next
    case False
    with Suc.hyps(1) [of "Suc i"] Suc.hyps(2) Suc.prems(1) i show ?thesis by (simp add: Cons_nth_drop_Suc [symmetric])
  qed
  finally show ?case .
qed

lemma run_filter:
  assumes "length tab < 255"
  shows "run (seccomp_program_for arch tab) data 0 a =
     Some (if data 4 = arch \<and> data 0 \<in> word_of_int ` set tab
           then BD_SECCOMP_RET_TRACE else BD_SECCOMP_RET_ALLOW)"
proof -
  have small: "unat (of_nat (length tab + 1) :: 8 word) = length tab + 1"
    using assms by (simp add: unat_of_nat del: of_nat_add of_nat_Suc)
  have "run (seccomp_program_for arch tab) data 0 a = run (seccomp_program_for arch tab) data 1 (data 4)"
    using run_load [of 0 "seccomp_program_for arch tab" data a] by (simp add: seccomp_nth seccomp_length)
  also have "\<dots> = run (seccomp_program_for arch tab) data
      (2 + (if data 4 = arch then 0 else length tab + 1)) (data 4)"
    using run_jeq [of 1 "seccomp_program_for arch tab" data "data 4"]
    using small by (simp add: seccomp_nth [simplified] seccomp_length)
  also have "\<dots> = (if data 4 = arch then run (seccomp_program_for arch tab) data 3 (data 0)
      else Some BD_SECCOMP_RET_ALLOW)"
  proof -
    have "run (seccomp_program_for arch tab) data 2 x = run (seccomp_program_for arch tab) data 3 (data 0)" for x
      using run_load [of 2 "seccomp_program_for arch tab" data x] by (simp add: seccomp_nth seccomp_length)
    moreover have "2 + (length tab + 1) = 3 + length tab" by simp
    ultimately show ?thesis using run_allow [of arch tab data "data 4"] by (simp only: add_0_right if_True if_False split: if_split) simp
  qed
  finally show ?thesis using run_table [of tab 0 arch data "data 0"] assms by simp
qed

end

section \<open>A machine\<close>

function bpf_run :: "bd_sock_filter list \<Rightarrow> (32 word \<Rightarrow> 32 word) \<Rightarrow> nat \<Rightarrow> 32 word \<Rightarrow> 32 word option" where
  "bpf_run prog data pc a =
    (if pc \<ge> length prog then None
     else
      let ins = prog ! pc in
      if sf_code ins = BD_BPF_LD_W_ABS then bpf_run prog data (pc + 1) (data (sf_k ins))
      else if sf_code ins = BD_BPF_JEQ_K
      then bpf_run prog data (pc + 1 + unat (if a = sf_k ins then sf_jt ins else sf_jf ins)) a
      else if sf_code ins = BD_BPF_RET_K then Some (sf_k ins)
      else None)"
  by pat_completeness auto
termination
  by (relation "measure (\<lambda>(prog, data, pc, a). length prog - pc)") auto

declare bpf_run.simps [simp del]

interpretation bpf: bpf_machine bpf_run
  by unfold_locales
    (simp_all add: bpf_run.simps Let_def BD_BPF_LD_W_ABS_def BD_BPF_JEQ_K_def BD_BPF_RET_K_def)

section \<open>Properties\<close>

lemma traced_length: "length BD_TRACED_SYSCALLS = 36"
  by (simp add: BD_TRACED_SYSCALLS_def)

text \<open>The seccomp program lets through every system call of a foreign architecture and stops the
  tracee at exactly the system calls of the table on the native one; none of its jumps leaves it.\<close>

theorem seccomp_filter_exact:
  "bpf_run seccomp_program data 0 0 =
     Some (if data 4 = BD_AUDIT_ARCH \<and> data 0 \<in> word_of_int ` set BD_TRACED_SYSCALLS
           then BD_SECCOMP_RET_TRACE else BD_SECCOMP_RET_ALLOW)"
  unfolding seccomp_program_def by (rule bpf.run_filter) (simp add: traced_length)

text \<open>The table of traced system calls is the right one: they are exactly the numbers for which
  \<open>decode_syscall_entry\<close> can ask for the exit stop. No access is missed by the filter and no
  system call stops the tracee in vain.\<close>

theorem traced_table_exact:
  "nr \<in> set BD_TRACED_SYSCALLS \<longleftrightarrow> (\<exists>regs. ps_exit_needed (decode_syscall_entry regs nr ps))"
proof
  assume nr: "nr \<in> set BD_TRACED_SYSCALLS"
  let ?regs = "\<lparr>orig_rax = 0, rax = 0, rdi = 1, rsi = 1, rdx = 1, r10 = 1\<rparr>"
  have "\<forall>nr \<in> set BD_TRACED_SYSCALLS. fst (decode_paths ?regs nr) \<noteq> 0 \<or> nr = SYS_FCHDIR_NR"
    by (simp add: BD_TRACED_SYSCALLS_def decode_paths_def sys_nrs)
  with nr have "ps_exit_needed (decode_syscall_entry ?regs nr ps)"
    by (auto simp: decode_syscall_entry_def split: prod.split)
  then show "\<exists>regs. ps_exit_needed (decode_syscall_entry regs nr ps)" ..
next
  assume "\<exists>regs. ps_exit_needed (decode_syscall_entry regs nr ps)"
  then obtain regs where "ps_exit_needed (decode_syscall_entry regs nr ps)" by blast
  then have "fst (decode_paths regs nr) \<noteq> 0 \<or> nr = SYS_FCHDIR_NR"
    by (cases "decode_paths regs nr") (simp add: decode_syscall_entry_def)
  moreover have "fst (decode_paths regs nr) = 0 \<and> nr \<noteq> SYS_FCHDIR_NR" if "nr \<notin> set BD_TRACED_SYSCALLS"
    using that by (simp add: decode_paths_def BD_TRACED_SYSCALLS_def)
  ultimately show "nr \<in> set BD_TRACED_SYSCALLS" by blast
qed

end
