(* ===== verification/Paths.thy ===== *)
theory Paths
  imports Prelude
begin

text \<open>
  \<open>normalize_path\<close> and \<open>should_filter_path\<close> of \<open>tracer/ptrace_backend.cpp\<close>. The components that
  the second loop of \<open>normalize_path\<close> collects are the model's intermediate value.
\<close>

section \<open>Definitions\<close>

text \<open>The first loop: is there a \<open>.\<close> or \<open>..\<close> component, or \<open>//\<close>? \<open>b\<close>: at the start of a component.\<close>

fun needs_normalize :: "bool \<Rightarrow> string \<Rightarrow> bool" where
  "needs_normalize b [] = False"
| "needs_normalize b (c # s) =
     (if c = CHR ''.'' then
        (if b \<and> (s = [] \<or> hd s = CHR ''/'') then True
         else if b \<and> hd s = CHR ''.'' \<and> (tl s = [] \<or> hd (tl s) = CHR ''/'') then True
         else needs_normalize False s)
      else if c = CHR ''/'' \<and> s \<noteq> [] \<and> hd s = CHR ''/'' then True
      else needs_normalize (c = CHR ''/'') s)"

text \<open>One component of the second loop.\<close>

definition push_comp :: "bool \<Rightarrow> string \<Rightarrow> string list \<Rightarrow> string list" where
  "push_comp absolute w parts =
     (if w = ''.'' then parts
      else if w = ''..'' then
        (if parts \<noteq> [] \<and> last parts \<noteq> ''..'' then butlast parts
         else if \<not> absolute then parts @ [w] else parts)
      else parts @ [w])"

lemma scan_comps_shorter:
  "s \<noteq> [] \<Longrightarrow> length (from_char c (skip_char c s)) < length s"
proof -
  assume "s \<noteq> []"
  show ?thesis
  proof (cases "skip_char c s")
    case Nil
    with \<open>s \<noteq> []\<close> show ?thesis by (simp del: dropWhile_eq_Nil_conv)
  next
    case (Cons x xs)
    then have "x \<noteq> c" using hd_dropWhile [of "\<lambda>x. x = c" s] by auto
    with Cons have "length (from_char c (skip_char c s)) \<le> length xs" by (simp add: length_dropWhile_le)
    also have "\<dots> < length (skip_char c s)" using Cons by simp
    also have "\<dots> \<le> length s" by (rule length_dropWhile_le)
    finally show ?thesis .
  qed
qed

function scan_comps :: "bool \<Rightarrow> string \<Rightarrow> string list \<Rightarrow> string list" where
  "scan_comps absolute s parts =
     (if s = [] then parts
      else
       let t = skip_char CHR ''/'' s;
           w = before_char CHR ''/'' t;
           rest = from_char CHR ''/'' t
       in scan_comps absolute rest (if w \<noteq> [] then push_comp absolute w parts else parts))"
  by pat_completeness auto

termination
  by (relation "measure (\<lambda>(absolute, s, parts). length s)") (auto simp: scan_comps_shorter)

declare scan_comps.simps [simp del]

text \<open>The third loop: the components with slashes between them.\<close>

fun join_comps :: "string list \<Rightarrow> string" where
  "join_comps [] = []"
| "join_comps [p] = p"
| "join_comps (p # q # ps) = p @ CHR ''/'' # join_comps (q # ps)"

definition normalize_path :: "string \<Rightarrow> string" where
  "normalize_path path =
     (if path = [] then path
      else if \<not> needs_normalize True path then path
      else
       let absolute = (hd path = CHR ''/'');
           parts = scan_comps absolute path [];
           result = (if absolute then ''/'' else []) @ join_comps parts
       in if result = [] then ''.'' else result)"

definition should_filter_path :: "string \<Rightarrow> bool" where
  "should_filter_path path \<longleftrightarrow>
     length path < 2 \<or> take 5 path = ''/dev/'' \<or> take 6 path = ''/proc/'' \<or> take 4 path = ''/sys/''"

text \<open>
  \<open>compare(0, 4, "/sys/")\<close> compares four characters with five and never finds them equal: the last test of the
  filter lets every path through.
\<close>

lemma sys_not_filtered: "\<not> should_filter_path (''/sys/'' @ path)"
  by (simp add: should_filter_path_def)

section \<open>Components\<close>

text \<open>The non-empty components of a path, as a specification.\<close>

fun comps_of :: "string \<Rightarrow> string \<Rightarrow> string list" where
  "comps_of acc [] = (if acc = [] then [] else [acc])"
| "comps_of acc (c # s) =
     (if c = CHR ''/'' then (if acc = [] then comps_of [] s else acc # comps_of [] s)
      else comps_of (acc @ [c]) s)"

definition comps :: "string \<Rightarrow> string list" where
  "comps s = comps_of [] s"

lemma comps_of_word: "CHR ''/'' \<notin> set w \<Longrightarrow> comps_of acc (w @ s) = comps_of (acc @ w) s"
  by (induction w arbitrary: acc) auto

lemma comps_skip: "comps (skip_char CHR ''/'' s) = comps s"
  by (induction s) (auto simp: comps_def)

lemma comps_split:
  assumes "t \<noteq> []" and "hd t \<noteq> CHR ''/''"
  shows "comps t = before_char CHR ''/'' t # comps (from_char CHR ''/'' t)"
proof -
  let ?w = "before_char CHR ''/'' t" and ?r = "from_char CHR ''/'' t"
  have t: "t = ?w @ ?r" by simp
  have w: "?w \<noteq> []" "CHR ''/'' \<notin> set ?w" using assms by (cases t; auto dest: set_takeWhileD)+
  have "comps t = comps_of ?w ?r" using comps_of_word [OF w(2), of "[]" ?r] by (simp add: comps_def)
  moreover have "comps_of ?w ?r = ?w # comps ?r"
  proof (cases ?r)
    case Nil
    with w show ?thesis by (simp add: comps_def del: dropWhile_eq_Nil_conv)
  next
    case (Cons c r)
    then have "c = CHR ''/''" using hd_dropWhile [of "\<lambda>x. x \<noteq> CHR ''/''" t] by auto
    with Cons w show ?thesis by (simp add: comps_def)
  qed
  ultimately show ?thesis by simp
qed

lemma scan_comps_fold: "scan_comps absolute s parts = fold (push_comp absolute) (comps s) parts"
proof (induction absolute s parts rule: scan_comps.induct)
  case (1 absolute s parts)
  show ?case
  proof (cases "s = []")
    case True
    then show ?thesis by (simp add: scan_comps.simps comps_def)
  next
    case False
    let ?t = "skip_char CHR ''/'' s"
    have IH: "scan_comps absolute s parts =
        fold (push_comp absolute) (comps (from_char CHR ''/'' ?t))
          (if before_char CHR ''/'' ?t \<noteq> [] then push_comp absolute (before_char CHR ''/'' ?t) parts else parts)"
      using 1 [OF False refl refl refl] False by (subst scan_comps.simps) (simp add: Let_def)
    show ?thesis
    proof (cases ?t)
      case Nil
      with IH show ?thesis using comps_skip [of s] by (simp add: comps_def del: dropWhile_eq_Nil_conv)
    next
      case (Cons c t)
      then have c: "c \<noteq> CHR ''/''" using hd_dropWhile [of "\<lambda>x. x = CHR ''/''" s] by auto
      with Cons comps_split [of ?t] have "comps s = before_char CHR ''/'' ?t # comps (from_char CHR ''/'' ?t)"
        using comps_skip [of s] by simp
      moreover have "before_char CHR ''/'' ?t \<noteq> []" using Cons c by simp
      ultimately show ?thesis using IH by simp
    qed
  qed
qed

lemma comps_elems: "w \<in> set (comps s) \<Longrightarrow> w \<noteq> [] \<and> CHR ''/'' \<notin> set w"
proof -
  have "w \<in> set (comps_of acc s) \<Longrightarrow> CHR ''/'' \<notin> set acc \<Longrightarrow> w \<noteq> [] \<and> CHR ''/'' \<notin> set w" for acc
    by (induction s arbitrary: acc) (force split: if_splits)+
  then show "w \<in> set (comps s) \<Longrightarrow> w \<noteq> [] \<and> CHR ''/'' \<notin> set w" by (simp add: comps_def)
qed

lemma comps_join:
  assumes "\<forall>w \<in> set ps. w \<noteq> [] \<and> CHR ''/'' \<notin> set w"
  shows "comps (join_comps ps) = ps" "comps (CHR ''/'' # join_comps ps) = ps"
proof -
  have 1: "comps (join_comps ps) = ps" if "\<forall>w \<in> set ps. w \<noteq> [] \<and> CHR ''/'' \<notin> set w" for ps
    using that
  proof (induction ps rule: join_comps.induct)
    case (2 p)
    then show ?case using comps_of_word [of p "[]" "[]"] by (simp add: comps_def)
  next
    case (3 p q ps)
    then show ?case using comps_of_word [of p "[]" "CHR ''/'' # join_comps (q # ps)"] by (simp add: comps_def)
  qed (simp add: comps_def)
  show "comps (join_comps ps) = ps" using 1 assms .
  then show "comps (CHR ''/'' # join_comps ps) = ps" by (simp add: comps_def)
qed

section \<open>The shortcut\<close>

lemma needs_word:
  assumes "CHR ''/'' \<notin> set w" and "\<not> needs_normalize False (w @ r)"
  shows "\<not> needs_normalize False r"
  using assms by (induction w) (auto split: if_splits)

lemma needs_from_start:
  assumes "\<not> needs_normalize True t" and "t \<noteq> []" and "hd t \<noteq> CHR ''/''"
  shows "before_char CHR ''/'' t \<notin> {''.'', ''..''}" and "\<not> needs_normalize False (from_char CHR ''/'' t)"
proof -
  obtain c s where t: "t = c # s" "c \<noteq> CHR ''/''" using assms by (cases t) auto
  have f: "\<not> needs_normalize False s" using assms(1) t by (auto split: if_splits)
  have "CHR ''/'' \<notin> set (before_char CHR ''/'' s)" by (auto dest: set_takeWhileD)
  from needs_word [OF this, of "from_char CHR ''/'' s"] f t
  show "\<not> needs_normalize False (from_char CHR ''/'' t)" by simp
  have "before_char CHR ''/'' t \<noteq> ''.''"
    using assms(1) t by (cases s) (auto split: if_splits)
  moreover have "before_char CHR ''/'' t \<noteq> ''..''"
  proof
    assume "before_char CHR ''/'' t = ''..''"
    with t obtain s' where s: "c = CHR ''.''" "s = CHR ''.'' # s'" "before_char CHR ''/'' s' = []"
      by (cases s) (auto split: if_splits)
    then have "s' = [] \<or> hd s' = CHR ''/''" by (cases s') (auto split: if_splits)
    with assms(1) t s show False by auto
  qed
  ultimately show "before_char CHR ''/'' t \<notin> {''.'', ''..''}" by simp
qed

text \<open>After a slash the scan is at the start of a component.\<close>

lemma needs_after_slash:
  assumes "\<not> needs_normalize b (CHR ''/'' # s)"
  shows "\<not> needs_normalize True s" and "s = [] \<or> hd s \<noteq> CHR ''/''"
  using assms by (auto split: if_splits)

lemma plain_comps:
  assumes "\<not> needs_normalize True t" and "t = [] \<or> hd t \<noteq> CHR ''/''"
  shows "set (comps t) \<inter> {''.'', ''..''} = {}
    \<and> (t \<noteq> [] \<longrightarrow> last t \<noteq> CHR ''/'' \<longrightarrow> join_comps (comps t) = t \<and> comps t \<noteq> [])"
  using assms
proof (induction "length t" arbitrary: t rule: less_induct)
  case less
  show ?case
  proof (cases "t = []")
    case True
    then show ?thesis by (simp add: comps_def)
  next
    case False
    with less.prems have hd: "hd t \<noteq> CHR ''/''" by simp
    define w q where "w = before_char CHR ''/'' t" and "q = from_char CHR ''/'' t"
    note w = needs_from_start [OF less.prems(1) False hd, folded w_def q_def]
    note split = comps_split [OF False hd, folded w_def q_def]
    have t: "t = w @ q" by (simp add: w_def q_def)
    have wne: "w \<noteq> []" using False hd by (cases t) (auto simp: w_def)
    show ?thesis
    proof (cases q)
      case Nil
      then have "comps t = [w]" using split by (simp add: comps_def)
      then show ?thesis using w(1) t Nil by auto
    next
      case (Cons c r)
      then have c: "c = CHR ''/''" using hd_dropWhile [of "\<lambda>x. x \<noteq> CHR ''/''" t] by (auto simp: q_def)
      with needs_after_slash [of False r] w(2) Cons have r: "\<not> needs_normalize True r" "r = [] \<or> hd r \<noteq> CHR ''/''" by simp_all
      have tr: "t = w @ CHR ''/'' # r" using t Cons c by simp
      then have "length r < length t" by simp
      from less.hyps [OF this r] have IH: "set (comps r) \<inter> {''.'', ''..''} = {}"
        "r \<noteq> [] \<longrightarrow> last r \<noteq> CHR ''/'' \<longrightarrow> join_comps (comps r) = r \<and> comps r \<noteq> []" by simp_all
      have cr: "comps t = w # comps r" using split Cons c by (simp add: comps_def)
      have "join_comps (comps t) = t" if "last t \<noteq> CHR ''/''"
      proof -
        from that have "r \<noteq> []" "last r \<noteq> CHR ''/''" by (auto simp: tr split: if_splits)
        with IH have "join_comps (comps r) = r" "comps r \<noteq> []" by simp_all
        then show ?thesis unfolding cr by (cases "comps r") (simp_all add: tr)
      qed
      with IH w(1) cr show ?thesis by auto
    qed
  qed
qed

lemma push_plain: "w \<notin> {''.'', ''..''} \<Longrightarrow> push_comp absolute w parts = parts @ [w]"
  by (simp add: push_comp_def)

lemma fold_push_plain:
  "set ws \<inter> {''.'', ''..''} = {} \<Longrightarrow> fold (push_comp absolute) ws parts = parts @ ws"
  by (induction ws arbitrary: parts) (auto simp: push_plain)

text \<open>What the last two loops alone compute.\<close>

definition render :: "bool \<Rightarrow> string list \<Rightarrow> string" where
  "render absolute parts =
     (let result = (if absolute then ''/'' else []) @ join_comps parts in if result = [] then ''.'' else result)"

definition normal_form :: "string \<Rightarrow> string" where
  "normal_form path =
     render (hd path = CHR ''/'') (fold (push_comp (hd path = CHR ''/'')) (comps path) [])"

lemma normalize_path_cases:
  "path \<noteq> [] \<Longrightarrow> normalize_path path = (if needs_normalize True path then normal_form path else path)"
  by (simp add: normalize_path_def normal_form_def render_def scan_comps_fold Let_def)

lemma plain_absolute:
  assumes "\<not> needs_normalize True (CHR ''/'' # s)"
  shows "set (comps (CHR ''/'' # s)) \<inter> {''.'', ''..''} = {}"
    and "s = [] \<or> last s \<noteq> CHR ''/'' \<Longrightarrow> CHR ''/'' # join_comps (comps (CHR ''/'' # s)) = CHR ''/'' # s"
  using plain_comps [OF needs_after_slash [OF assms]] by (cases "s = []"; simp add: comps_def)+

text \<open>The shortcut of \<open>normalize_path\<close> is an optimisation: on a path without a trailing slash
  (or the root) that the first loop finds nothing in, the other two loops would have returned
  the path unchanged.\<close>

lemma normalize_shortcut:
  assumes "path \<noteq> []" and "last path \<noteq> CHR ''/'' \<or> path = ''/''"
  shows "normalize_path path = normal_form path"
proof (cases "needs_normalize True path")
  case False
  note needs_normalize.simps [simp del]
  obtain c s where path: "path = c # s" using assms(1) by (cases path) auto
  have "normal_form path = path"
  proof (cases "c = CHR ''/''")
    case True
    have n: "\<not> needs_normalize True (CHR ''/'' # s)" using False path True by simp
    have "s = [] \<or> last s \<noteq> CHR ''/''" using assms(2) path by (cases "s = []") simp_all
    from plain_absolute(1) [OF n] plain_absolute(2) [OF n this]
    have plain: "set (comps path) \<inter> {''.'', ''..''} = {}" and join: "CHR ''/'' # join_comps (comps path) = path"
      by (simp_all only: path True)
    have "hd path = CHR ''/''" by (simp add: path True)
    then have "normal_form path = CHR ''/'' # join_comps (comps path)"
      by (simp add: normal_form_def fold_push_plain [OF plain] render_def)
    then show ?thesis by (simp only: join)
  next
    case rel: False
    have "\<not> needs_normalize True path" "path = [] \<or> hd path \<noteq> CHR ''/''" "path \<noteq> []" "last path \<noteq> CHR ''/''"
      using False path rel assms(2) by auto
    from plain_comps [OF this(1,2)] this(3,4)
    have plain: "set (comps path) \<inter> {''.'', ''..''} = {}" and join: "join_comps (comps path) = path" by blast+
    have "hd path \<noteq> CHR ''/''" by (simp add: path rel)
    then have "normal_form path = (if join_comps (comps path) = [] then ''.'' else join_comps (comps path))"
      by (simp add: normal_form_def fold_push_plain [OF plain] render_def)
    then show ?thesis by (simp only: join assms(1) if_False)
  qed
  with False assms(1) show ?thesis by (simp add: normalize_path_cases)
qed (simp add: normalize_path_cases assms(1))

section \<open>Normal forms\<close>

text \<open>Components that another pass leaves alone: only leading \<open>..\<close>, and none in an absolute path.\<close>

definition nf_parts :: "bool \<Rightarrow> string list \<Rightarrow> bool" where
  "nf_parts absolute ps \<longleftrightarrow>
     (\<forall>w \<in> set ps. w \<noteq> [] \<and> CHR ''/'' \<notin> set w \<and> w \<noteq> ''.'')
     \<and> (\<exists>k rest. ps = replicate k ''..'' @ rest \<and> ''..'' \<notin> set rest \<and> (absolute \<longrightarrow> k = 0))"

lemma nf_partsI:
  assumes "\<forall>w \<in> set ps. w \<noteq> [] \<and> CHR ''/'' \<notin> set w \<and> w \<noteq> ''.''"
    and "ps = replicate k ''..'' @ rest" and "''..'' \<notin> set rest" and "absolute \<longrightarrow> k = 0"
  shows "nf_parts absolute ps"
  unfolding nf_parts_def using assms by blast

lemma nf_push:
  assumes nf: "nf_parts absolute ps" and w: "w \<noteq> []" "CHR ''/'' \<notin> set w"
  shows "nf_parts absolute (push_comp absolute w ps)"
proof -
  from nf obtain k rest where ps: "ps = replicate k ''..'' @ rest" "''..'' \<notin> set rest" "absolute \<longrightarrow> k = 0"
    unfolding nf_parts_def by blast
  from nf have ok: "\<forall>w \<in> set ps. w \<noteq> [] \<and> CHR ''/'' \<notin> set w \<and> w \<noteq> ''.''" by (simp add: nf_parts_def)
  consider "w = ''.''" | "w = ''..''" "ps \<noteq> []" "last ps \<noteq> ''..''" | "w = ''..''" "ps = [] \<or> last ps = ''..''"
    | "w \<noteq> ''.''" "w \<noteq> ''..''" by blast
  then show ?thesis
  proof cases
    case 1
    with nf show ?thesis by (simp add: push_comp_def)
  next
    case 2
    have "rest \<noteq> []"
    proof
      assume "rest = []"
      with 2(2) ps(1) have "k \<noteq> 0" "ps = replicate k ''..''" by auto
      with 2(3) show False by simp
    qed
    then have "butlast ps = replicate k ''..'' @ butlast rest" by (simp add: ps(1) butlast_append)
    moreover have "''..'' \<notin> set (butlast rest)" using ps(2) in_set_butlastD by fastforce
    moreover have "\<forall>w \<in> set (butlast ps). w \<noteq> [] \<and> CHR ''/'' \<notin> set w \<and> w \<noteq> ''.''"
      using ok in_set_butlastD by fastforce
    ultimately have "nf_parts absolute (butlast ps)" using ps(3) by (intro nf_partsI)
    with 2 show ?thesis by (simp add: push_comp_def)
  next
    case 3
    have "rest = []"
    proof (rule ccontr)
      assume "rest \<noteq> []"
      then have "last ps \<in> set rest" "ps \<noteq> []" using ps(1) by simp_all
      with 3(2) ps(2) show False by metis
    qed
    then have "ps @ [''..''] = replicate (Suc k) ''..'' @ []" using ps(1) by (simp add: replicate_append_same)
    moreover have "\<forall>w \<in> set (ps @ [''..'']). w \<noteq> [] \<and> CHR ''/'' \<notin> set w \<and> w \<noteq> ''.''" using ok by simp
    ultimately have "nf_parts False (ps @ [''..''])" by (intro nf_partsI [where k = "Suc k" and rest = "[]"]) simp_all
    moreover have "push_comp absolute w ps = (if absolute then ps else ps @ [''..''])"
      using 3 by (auto simp: push_comp_def)
    ultimately show ?thesis using nf by (cases absolute) simp_all
  next
    case 4
    have "ps @ [w] = replicate k ''..'' @ (rest @ [w])" using ps(1) by simp
    moreover have "''..'' \<notin> set (rest @ [w])" using ps(2) 4 by simp
    moreover have "\<forall>w' \<in> set (ps @ [w]). w' \<noteq> [] \<and> CHR ''/'' \<notin> set w' \<and> w' \<noteq> ''.''" using ok w 4 by simp
    ultimately have "nf_parts absolute (ps @ [w])" using ps(3) by (intro nf_partsI)
    with 4 show ?thesis by (simp add: push_comp_def)
  qed
qed

lemma nf_fold:
  "nf_parts absolute ps \<Longrightarrow> \<forall>w \<in> set ws. w \<noteq> [] \<and> CHR ''/'' \<notin> set w \<Longrightarrow>
     nf_parts absolute (fold (push_comp absolute) ws ps)"
  by (induction ws arbitrary: ps) (auto intro: nf_push)

lemma nf_comps: "nf_parts absolute (fold (push_comp absolute) (comps path) [])"
  by (rule nf_fold) (auto simp: nf_parts_def dest: comps_elems)

lemma fold_push_dots: "fold (push_comp False) (replicate k ''..'') (replicate j ''..'') = replicate (j + k) ''..''"
proof (induction k arbitrary: j)
  case (Suc k)
  have "push_comp False ''..'' (replicate j ''..'') = replicate (Suc j) ''..''"
    by (cases j) (auto simp: push_comp_def replicate_append_same)
  with Suc [of "Suc j"] show ?case by simp
qed simp

lemma fold_push_nf: "nf_parts absolute ps \<Longrightarrow> fold (push_comp absolute) ps [] = ps"
proof -
  assume nf: "nf_parts absolute ps"
  then obtain k rest where ps: "ps = replicate k ''..'' @ rest" "''..'' \<notin> set rest" "absolute \<longrightarrow> k = 0"
    unfolding nf_parts_def by blast
  have "set rest \<inter> {''.'', ''..''} = {}" using nf ps(1,2) unfolding nf_parts_def by auto
  then have "fold (push_comp absolute) rest qs = qs @ rest" for qs by (rule fold_push_plain)
  then show ?thesis using ps(1,3) fold_push_dots [of k 0] by (cases absolute) auto
qed

lemma normal_form_parts:
  fixes path
  defines "absolute \<equiv> (hd path = CHR ''/'')"
  defines "ps \<equiv> fold (push_comp absolute) (comps path) []"
  shows "comps (normal_form path) = (if \<not> absolute \<and> ps = [] then [''.''] else ps)"
    and "hd (normal_form path) = CHR ''/'' \<longleftrightarrow> absolute" and "normal_form path \<noteq> []"
proof -
  have nf: "nf_parts absolute ps" unfolding ps_def by (rule nf_comps)
  then have ws: "\<forall>w \<in> set ps. w \<noteq> [] \<and> CHR ''/'' \<notin> set w" by (auto simp: nf_parts_def)
  have eq: "normal_form path = (if absolute then CHR ''/'' # join_comps ps else if join_comps ps = [] then ''.'' else join_comps ps)"
    by (simp add: normal_form_def render_def absolute_def ps_def Let_def)
  have empty: "join_comps ps = [] \<longleftrightarrow> ps = []" using ws by (cases ps rule: join_comps.cases) auto
  have hd_join: "ps \<noteq> [] \<Longrightarrow> hd (join_comps ps) \<noteq> CHR ''/''"
  proof (cases ps)
    case (Cons q qs)
    with ws have "q \<noteq> []" "CHR ''/'' \<notin> set q" by simp_all
    moreover from this have "hd (join_comps ps) = hd q" using Cons by (cases qs) simp_all
    ultimately show ?thesis using hd_in_set [of q] by metis
  qed simp
  have dot: "comps ''.'' = [''.'']" by (simp add: comps_def)
  show "comps (normal_form path) = (if \<not> absolute \<and> ps = [] then [''.''] else ps)"
    using comps_join [OF ws] by (cases absolute; cases "ps = []") (simp_all add: eq empty dot)
  show "hd (normal_form path) = CHR ''/'' \<longleftrightarrow> absolute"
    using hd_join by (cases absolute; cases "ps = []") (simp_all add: eq empty)
  show "normal_form path \<noteq> []" by (simp add: eq)
qed

lemma normal_form_idem: "normal_form (normal_form path) = normal_form path"
proof -
  let ?a = "hd path = CHR ''/''"
  let ?ps = "fold (push_comp ?a) (comps path) []"
  note parts = normal_form_parts [of path]
  have ps: "fold (push_comp ?a) (comps (normal_form path)) [] = ?ps"
  proof (cases "\<not> ?a \<and> ?ps = []")
    case True
    have dot: "comps (normal_form path) = [''.'']" unfolding parts(1) by (rule if_P) (rule True)
    have "fold (push_comp ?a) (comps (normal_form path)) [] = []" unfolding dot by (simp add: push_comp_def)
    also have "\<dots> = ?ps" by (rule True [THEN conjunct2, symmetric])
    finally show ?thesis .
  next
    case False
    then have "comps (normal_form path) = ?ps" using parts(1) by (simp only: if_False)
    then show ?thesis by (simp only: fold_push_nf [OF nf_comps])
  qed
  have "normal_form (normal_form path) = render (hd (normal_form path) = CHR ''/'')
      (fold (push_comp (hd (normal_form path) = CHR ''/'')) (comps (normal_form path)) [])"
    by (simp only: normal_form_def [of "normal_form path"])
  also have "\<dots> = normal_form path" by (simp only: parts(2) ps) (simp only: normal_form_def)
  finally show ?thesis .
qed

text \<open>Normalising is idempotent on every string.\<close>

theorem normalize_idempotent: "normalize_path (normalize_path path) = normalize_path path"
proof (cases "path = []")
  case False
  note parts = normal_form_parts(3) [of path]
  show ?thesis
    using False parts normal_form_idem [of path]
    by (simp add: normalize_path_cases)
qed (simp add: normalize_path_def)

text \<open>Walking an absolute path from the root: a name enters a directory, \<open>..\<close> leaves one.\<close>

definition walk :: "string \<Rightarrow> string list \<Rightarrow> string list" where
  "walk w dirs = (if w = ''.'' then dirs else if w = ''..'' then butlast dirs else dirs @ [w])"

lemma fold_push_walk:
  "''..'' \<notin> set ps \<Longrightarrow> fold (push_comp True) ws ps = fold walk ws ps"
proof (induction ws arbitrary: ps)
  case (Cons w ws)
  have "push_comp True w ps = walk w ps"
  proof -
    have "last ps \<noteq> ''..''" if "ps \<noteq> []" using last_in_set [OF that] Cons.prems by auto
    then show ?thesis by (cases "ps = []") (auto simp: push_comp_def walk_def)
  qed
  moreover have "''..'' \<notin> set (walk w ps)" using Cons.prems by (auto simp: walk_def dest: in_set_butlastD)
  ultimately show ?case using Cons.IH by simp
qed simp

text \<open>An absolute path normalises to an absolute path with the same destination: its components
  are the directories a walk along the original path from the root ends in (\<open>..\<close> at the root
  stays there), so none of them is \<open>.\<close> or \<open>..\<close>.\<close>

theorem normalize_absolute:
  assumes "path \<noteq> []" and "hd path = CHR ''/''"
  shows "hd (normalize_path path) = CHR ''/'' \<and> comps (normalize_path path) = fold walk (comps path) []
    \<and> set (comps (normalize_path path)) \<inter> {''.'', ''..''} = {}"
proof -
  have walk: "fold (push_comp True) (comps path) [] = fold walk (comps path) []" by (rule fold_push_walk) simp
  have "nf_parts True (fold (push_comp True) (comps path) [])" by (rule nf_comps)
  then have plain: "set (fold walk (comps path) []) \<inter> {''.'', ''..''} = {}" unfolding walk nf_parts_def by auto
  show ?thesis
  proof (cases "needs_normalize True path")
    case True
    with normal_form_parts [of path] assms walk plain show ?thesis by (simp add: normalize_path_cases)
  next
    case False
    obtain s where "path = CHR ''/'' # s" using assms by (cases path) auto
    with plain_absolute(1) [of s] False have "set (comps path) \<inter> {''.'', ''..''} = {}" by simp
    then have "fold (push_comp True) (comps path) [] = comps path" by (simp add: fold_push_plain)
    with walk plain False assms show ?thesis by (simp add: normalize_path_cases)
  qed
qed

section \<open>The properties at concrete paths\<close>

lemma normalize_shortcut_witness: "normal_form ''/usr/include/a.h'' = ''/usr/include/a.h''"
proof -
  have "normalize_path ''/usr/include/a.h'' = ''/usr/include/a.h''" by code_simp
  then show ?thesis using normalize_shortcut [of "''/usr/include/a.h''"] by simp
qed

theorem normalize_absolute_witness: "comps (normalize_path ''/a/./b/../../../c'') = [''c'']"
proof -
  have "fold walk (comps ''/a/./b/../../../c'') [] = [''c'']" by code_simp
  then show ?thesis using normalize_absolute [of "''/a/./b/../../../c''"] by simp
qed

text \<open>With a trailing slash the shortcut shows: the same directory has two normal forms.\<close>

lemma trailing_slash_kept:
  "normalize_path ''/usr/lib/'' = ''/usr/lib/''" "normalize_path ''/usr/lib/.'' = ''/usr/lib''"
  by code_simp+

end
