(* ===== verification/ProcFs.thy ===== *)
theory ProcFs
  imports Prelude
begin

text \<open>
  The readers of \<open>/proc\<close> files of \<open>tracer/ptrace_backend.cpp\<close>, as functions of the file's bytes
  (\<open>None\<close>: it could not be opened): \<open>read_proc_state\<close>, \<open>read_cmdline\<close>, \<open>read_proc_cpu\<close>,
  \<open>read_proc_peak_rss\<close>, \<open>read_proc_io\<close>. The scans of the code move a pointer over a
  NUL-terminated buffer; here the pointer is the rest of the buffer from it on.
\<close>

section \<open>The C library calls they use\<close>

text \<open>\<open>fgets\<close> with a buffer of \<open>size\<close> bytes: lines, those longer than \<open>size - 1\<close> in pieces.\<close>

function fgets_lines :: "nat \<Rightarrow> string \<Rightarrow> string list" where
  "fgets_lines sz s =
     (if s = [] \<or> sz \<le> 1 then []
      else
       let line = takeWhile (\<lambda>c. c \<noteq> CHR 0x0A) s;
           piece = take (sz - 1) (take (Suc (length line)) s)
       in piece # fgets_lines sz (drop (length piece) s))"
  by pat_completeness auto
termination
  by (relation "measure (\<lambda>(sz, s). length s)") (auto simp: neq_Nil_conv)

declare fgets_lines.simps [simp del]

definition is_space :: "char \<Rightarrow> bool" where
  "is_space c \<longleftrightarrow> c \<in> {CHR '' '', CHR 0x09, CHR 0x0A, CHR 0x0B, CHR 0x0C, CHR 0x0D}"

definition digit_val :: "char \<Rightarrow> nat option" where
  "digit_val c = (let n = of_char c :: nat in if 48 \<le> n \<and> n \<le> 57 then Some (n - 48) else None)"

fun digits_val :: "int \<Rightarrow> string \<Rightarrow> int \<times> string" where
  "digits_val acc [] = (acc, [])"
| "digits_val acc (c # s) =
     (case digit_val c of None \<Rightarrow> (acc, c # s) | Some d \<Rightarrow> digits_val (10 * acc + int d) s)"

definition clamp_long :: "int \<Rightarrow> int" where
  "clamp_long i = max (- (2 ^ 63)) (min (2 ^ 63 - 1) i)"

text \<open>\<open>strtol(s, &end, 10)\<close>: the value and the rest; without digits, 0 and the whole string.\<close>

definition strtol10 :: "string \<Rightarrow> int \<times> string" where
  "strtol10 s =
     (let t = dropWhile is_space s;
          (neg, u) = (case t of c # u \<Rightarrow> if c = CHR ''-'' then (True, u) else if c = CHR ''+'' then (False, u) else (False, t)
                      | [] \<Rightarrow> (False, t));
          (v, rest) = digits_val 0 u
      in if rest = u then (0, s) else (clamp_long (if neg then - v else v), rest))"

section \<open>The readers\<close>

definition read_proc_state :: "string option \<Rightarrow> string" where
  "read_proc_state file =
     (case file of None \<Rightarrow> []
      | Some s \<Rightarrow>
         (case find (\<lambda>line. starts_with line ''State:'') (fgets_lines 256 s) of
            None \<Rightarrow> []
          | Some line \<Rightarrow>
              let p = dropWhile (\<lambda>c. c = CHR '' '' \<or> c = CHR 0x09) (drop 6 line)
              in filter (\<lambda>c. c \<noteq> CHR '' '') (takeWhile (\<lambda>c. c \<noteq> CHR 0x0A \<and> c \<noteq> CHR 0x00) p)))"

text \<open>Only the first 4095 bytes are read; a NUL becomes a space, the last one nothing.\<close>

fun cmdline_bytes :: "string \<Rightarrow> string" where
  "cmdline_bytes [] = []"
| "cmdline_bytes (c # s) =
     (if c = CHR 0x00 then (if s \<noteq> [] then CHR '' '' # cmdline_bytes s else []) else c # cmdline_bytes s)"

definition read_cmdline :: "string option \<Rightarrow> string" where
  "read_cmdline file = (case file of None \<Rightarrow> [] | Some s \<Rightarrow> cmdline_bytes (take 4095 s))"

fun skip_fields :: "nat \<Rightarrow> string \<Rightarrow> string" where
  "skip_fields 0 p = p"
| "skip_fields (Suc k) p =
     (if p = [] then p else skip_fields k (from_char CHR '' '' (skip_char CHR '' '' p)))"

text \<open>User and system time in microseconds from \<open>/proc/<pid>/stat\<close>; \<open>ticks\<close> is \<open>_SC_CLK_TCK\<close>. The fields are not negative, so C division is \<open>div\<close>.\<close>

definition read_proc_cpu :: "int \<Rightarrow> string option \<Rightarrow> int \<times> int" where
  "read_proc_cpu ticks file =
     (case file of None \<Rightarrow> (0, 0)
      | Some s \<Rightarrow>
         let buf = c_str (take 1023 s) in
         if CHR '')'' \<notin> set buf then (0, 0)
         else
          let p = skip_fields 11 (after_last CHR '')'' buf);
              (utime, p1) = strtol10 (skip_char CHR '' '' p);
              (stime, _) = strtol10 (skip_char CHR '' '' p1);
              tps = (if ticks \<le> 0 then 100 else ticks)
          in (utime * 1000000 div tps, stime * 1000000 div tps))"

definition read_proc_peak_rss :: "string option \<Rightarrow> int" where
  "read_proc_peak_rss file =
     (case file of None \<Rightarrow> 0
      | Some s \<Rightarrow>
         (case find (\<lambda>line. starts_with line ''VmHWM:'') (fgets_lines 256 s) of
            None \<Rightarrow> 0
          | Some line \<Rightarrow> fst (strtol10 (c_str (drop 6 line)))))"

definition io_line :: "string \<Rightarrow> int \<times> int \<Rightarrow> int \<times> int" where
  "io_line line rw =
     (if starts_with line ''read_bytes:'' then (fst (strtol10 (c_str (drop 11 line))), snd rw)
      else if starts_with line ''write_bytes:'' then (fst rw, fst (strtol10 (c_str (drop 12 line))))
      else rw)"

definition read_proc_io :: "string option \<Rightarrow> int \<times> int" where
  "read_proc_io file = (case file of None \<Rightarrow> (0, 0) | Some s \<Rightarrow> fold io_line (fgets_lines 256 s) (0, 0))"

section \<open>What they return\<close>

lemma fgets_lines_concat: "2 \<le> sz \<Longrightarrow> concat (fgets_lines sz s) = s"
proof (induction sz s rule: fgets_lines.induct)
  case (1 sz s)
  show ?case
  proof (cases "s = []")
    case True
    then show ?thesis by (simp add: fgets_lines.simps)
  next
    case False
    define piece where "piece = take (sz - 1) (take (Suc (length (takeWhile (\<lambda>c. c \<noteq> CHR 0x0A) s))) s)"
    have "fgets_lines sz s = piece # fgets_lines sz (drop (length piece) s)"
      using False 1(2) by (subst fgets_lines.simps) (simp add: piece_def Let_def)
    moreover have "concat (fgets_lines sz (drop (length piece) s)) = drop (length piece) s"
      using 1(1) [OF _ refl refl] False 1(2) by (simp add: piece_def)
    moreover have "piece = take (length piece) s"
      unfolding piece_def by (metis append_eq_conv_conj append_take_drop_id take_take)
    ultimately show ?thesis by (metis append_take_drop_id concat.simps(2))
  qed
qed

lemma digit_val_digit: "d < 10 \<Longrightarrow> digit_val (digit_char d) = Some d"
  by (simp add: digit_val_def digit_char_def Let_def)

lemma digits_val_nat_digits:
  "digits_val acc (nat_digits n @ s) = digits_val (acc * 10 ^ length (nat_digits n) + int n) s"
proof (induction n arbitrary: acc s rule: nat_digits.induct)
  case (1 n)
  show ?case
  proof (cases "n < 10")
    case True
    then show ?thesis by (simp add: nat_digits.simps [of n] digit_val_digit algebra_simps)
  next
    case False
    have "digits_val acc (nat_digits n @ s) =
        digits_val (acc * 10 ^ length (nat_digits (n div 10)) + int (n div 10)) (digit_char (n mod 10) # s)"
      using 1 [OF False, of acc "digit_char (n mod 10) # s"] False by (simp add: nat_digits.simps [of n])
    also have "\<dots> = digits_val (10 * (acc * 10 ^ length (nat_digits (n div 10)) + int (n div 10)) + int (n mod 10)) s"
      by (simp add: digit_val_digit)
    also have "10 * (acc * 10 ^ length (nat_digits (n div 10)) + int (n div 10)) + int (n mod 10) =
        acc * 10 ^ length (nat_digits n) + int n"
    proof -
      have "n = 10 * (n div 10) + n mod 10" by simp
      then have "int n = 10 * int (n div 10) + int (n mod 10)" by (metis of_nat_add of_nat_mult of_nat_numeral)
      with False show ?thesis by (simp add: nat_digits.simps [of n] algebra_simps)
    qed
    finally show ?thesis .
  qed
qed

lemma nat_digits_first:
  "\<exists>d ds. d < 10 \<and> nat_digits n = digit_char d # ds"
proof (induction n rule: nat_digits.induct)
  case (1 n)
  then show ?case by (cases "n < 10") (auto simp: nat_digits.simps [of n])
qed

lemma digit_char_not_space: "d < 10 \<Longrightarrow> \<not> is_space (digit_char d) \<and> digit_char d \<notin> {CHR ''-'', CHR ''+'', CHR '' ''}"
  using digit_char_table [of d] by (auto simp: is_space_def)

lemma strtol10_nat_digits:
  assumes "n < 2 ^ 63" and "s = [] \<or> digit_val (hd s) = None"
  shows "strtol10 (nat_digits n @ s) = (int n, s)"
proof -
  obtain d ds where d: "d < 10" "nat_digits n = digit_char d # ds" using nat_digits_first by blast
  have "digits_val (int n) s = (int n, s)" using assms(2) by (cases s) auto
  with digits_val_nat_digits [of 0 n s] have "digits_val 0 (nat_digits n @ s) = (int n, s)" by simp
  moreover have "s \<noteq> nat_digits n @ s" using d by simp
  ultimately show ?thesis using d digit_char_not_space [OF d(1)] assms(1)
    by (simp add: strtol10_def clamp_long_def)
qed

lemma skip_fields_fields:
  assumes "\<forall>f \<in> set fs. f \<noteq> [] \<and> CHR '' '' \<notin> set f" and "length fs = k"
  shows "skip_fields k (concat (map (\<lambda>f. CHR '' '' # f) fs) @ CHR '' '' # s) = CHR '' '' # s"
  using assms
proof (induction fs arbitrary: k)
  case (Cons f fs)
  obtain c f' where f: "f = c # f'" "c \<noteq> CHR '' ''" using Cons.prems(1) by (cases f) auto
  have "from_char CHR '' '' (f @ concat (map (\<lambda>f. CHR '' '' # f) fs) @ CHR '' '' # s) =
      concat (map (\<lambda>f. CHR '' '' # f) fs) @ CHR '' '' # s"
  proof -
    have "from_char CHR '' '' (f @ t) = from_char CHR '' '' t" for t
      using Cons.prems(1) by (intro dropWhile_append2) auto
    then show ?thesis by (cases fs) auto
  qed
  moreover have "skip_char CHR '' '' (CHR '' '' # f @ t) = f @ t" for t using f by simp
  ultimately show ?case using Cons by auto
qed simp

text \<open>The CPU times are read correctly whatever the program is called: for a stat line whose
  command name is any text (spaces and closing parentheses included) and whose fields after it
  are words, the result is fields 14 and 15 in microseconds.\<close>

theorem read_proc_cpu_correct:
  assumes "\<forall>f \<in> set fs. f \<noteq> [] \<and> CHR '' '' \<notin> set f \<and> CHR '')'' \<notin> set f" and "length fs = 11"
    and "CHR '')'' \<notin> set rest" and "u < 2 ^ 63" and "s < 2 ^ 63" and "0 < ticks"
    and line: "line = pid @ '' ('' @ comm @ '')'' @ concat (map (\<lambda>f. CHR '' '' # f) fs) @
      CHR '' '' # nat_digits u @ CHR '' '' # nat_digits s @ CHR '' '' # rest"
    and "CHR 0x00 \<notin> set line" and "length line \<le> 1023"
  shows "read_proc_cpu ticks (Some line) = (int u * 1000000 div ticks, int s * 1000000 div ticks)"
proof -
  let ?tail = "concat (map (\<lambda>f. CHR '' '' # f) fs) @ CHR '' '' # nat_digits u @ CHR '' '' # nat_digits s @ CHR '' '' # rest"
  have digits: "CHR '')'' \<notin> set (nat_digits n)" for n
  proof (induction n rule: nat_digits.induct)
    case (1 n)
    have "CHR '')'' \<noteq> digit_char d" if "d < 10" for d using digit_char_table [OF that] by auto
    with 1 show ?case by (cases "n < 10") (auto simp: nat_digits.simps [of n])
  qed
  have "CHR '')'' \<notin> set ?tail" using assms(1,3) digits by auto
  then have "after_last CHR '')'' line = ?tail"
    using after_last_append [of "CHR '')''" ?tail "pid @ '' ('' @ comm"] by (simp add: line)
  moreover have "c_str (take 1023 line) = line" using assms by (simp add: c_str_id)
  moreover have "CHR '')'' \<in> set line" by (simp add: line)
  moreover have "skip_fields 11 ?tail = CHR '' '' # nat_digits u @ CHR '' '' # nat_digits s @ CHR '' '' # rest"
    by (rule skip_fields_fields) (use assms(1,2) in auto)
  moreover have "skip_char CHR '' '' (CHR '' '' # nat_digits n @ t) = nat_digits n @ t" for n t
    using nat_digits_first [of n] digit_char_not_space by auto
  moreover have "strtol10 (nat_digits n @ CHR '' '' # t) = (int n, CHR '' '' # t)" if "n < 2 ^ 63" for n t
    by (rule strtol10_nat_digits [OF that]) (simp add: digit_val_def Let_def)
  ultimately show ?thesis using assms(4-6) by (simp add: read_proc_cpu_def Let_def)
qed

theorem read_proc_cpu_correct_witness:
  "read_proc_cpu 100 (Some ''7 (a) b) S 1 2 3 4 5 6 7 8 9 0 250 40 0'') = (2500000, 400000)"
proof -
  have "nat_digits 250 = ''250''" "nat_digits 40 = ''40''" by code_simp+
  then show ?thesis
    using read_proc_cpu_correct [of "[''S'', ''1'', ''2'', ''3'', ''4'', ''5'', ''6'', ''7'', ''8'', ''9'', ''0'']"
        "''0''" 250 40 100 "''7 (a) b) S 1 2 3 4 5 6 7 8 9 0 250 40 0''" "''7''" "''a) b''"] by simp
qed

end
