(* ===== verification/Tracer.thy ===== *)
theory Tracer
  imports Session Seccomp Paths ProcFs
begin

text \<open>
  \<open>PtraceBackend\<close> of \<open>tracer/ptrace_backend.cpp\<close>. What the kernel answers while a stop is handled
  is the record \<open>kernel\<close>, a parameter of every handler; nothing is assumed about it. The
  tracer's members are the record \<open>tracer\<close>; what it does to the world is in two logs, the calls
  to the session (\<open>tb_calls\<close>, values of \<open>session_op\<close>) and the ptrace requests (\<open>tb_requests\<close>).
  A \<open>ProcessState&\<close> is the entry of its pid in the process map. Log output is left out.
\<close>

section \<open>The kernel and the tracer\<close>

record kernel =
  k_regs :: "int \<Rightarrow> user_regs option"
  k_open_mem :: "int \<Rightarrow> int"
  k_pread :: "int \<Rightarrow> 64 word \<Rightarrow> nat \<Rightarrow> string"
  k_peek :: "int \<Rightarrow> 64 word \<Rightarrow> string option"
  k_page :: nat
  k_link :: "int \<Rightarrow> string \<Rightarrow> string"
  k_file :: "int \<Rightarrow> string \<Rightarrow> string option"
  k_status :: "int \<Rightarrow> nat \<Rightarrow> string option"
  k_setopts :: "int \<Rightarrow> int \<Rightarrow> bool"
  k_queued :: "int \<Rightarrow> nat \<Rightarrow> bool"
  k_msg :: "int \<Rightarrow> int"
  k_now :: "nat \<Rightarrow> int"
  k_ticks :: int

datatype request = PTRACE_CONT int int | PTRACE_SYSCALL int int | PTRACE_SETOPTIONS int int | KILL int int

record tracer =
  tb_procs :: "(int, ProcessState) omap"
  tb_calls :: "session_op list"
  tb_requests :: "request list"
  tb_root_pid :: int
  tb_running :: bool
  tb_procs_only :: bool
  tb_seccomp_mode :: bool
  tb_drain_deadline :: int
  tb_last_event :: int
  tb_last_stall_report :: int
  tb_clock :: nat
  tb_drop_nth :: int
  tb_resume_count :: int
  cnt_fork_events :: nat
  cnt_exec_events :: nat
  cnt_sigstop_swallowed :: nat
  cnt_sig_reinjected :: nat
  cnt_sigstop_reinjected :: nat
  cnt_race_unknown_first :: nat
  cnt_mem_reads :: nat
  cnt_peek_fallbacks :: nat
  cnt_getregs_skipped :: nat
  cnt_phase_resyncs :: nat
  cnt_seccomp_stops :: nat
  cnt_plain_sigtrap :: nat
  cnt_stuck_kicked :: nat
  cnt_resume_retries :: nat
  cnt_sig_ignored :: nat
  cnt_stale_entries :: nat

definition PtraceBackend_new :: "bool \<Rightarrow> int \<Rightarrow> tracer" where
  "PtraceBackend_new procs_only drop_nth = \<lparr>tb_procs = [], tb_calls = [], tb_requests = [],
     tb_root_pid = 0, tb_running = False, tb_procs_only = procs_only, tb_seccomp_mode = False,
     tb_drain_deadline = 0, tb_last_event = 0, tb_last_stall_report = 0, tb_clock = 0,
     tb_drop_nth = drop_nth, tb_resume_count = 0, cnt_fork_events = 0, cnt_exec_events = 0,
     cnt_sigstop_swallowed = 0, cnt_sig_reinjected = 0, cnt_sigstop_reinjected = 0,
     cnt_race_unknown_first = 0, cnt_mem_reads = 0, cnt_peek_fallbacks = 0,
     cnt_getregs_skipped = 0, cnt_phase_resyncs = 0, cnt_seccomp_stops = 0, cnt_plain_sigtrap = 0,
     cnt_stuck_kicked = 0, cnt_resume_retries = 0, cnt_sig_ignored = 0, cnt_stale_entries = 0\<rparr>"

definition upd_ps :: "int \<Rightarrow> (ProcessState \<Rightarrow> ProcessState) \<Rightarrow> tracer \<Rightarrow> tracer" where
  "upd_ps pid f t =
     (case om_get (tb_procs t) pid of None \<Rightarrow> t | Some ps \<Rightarrow> t\<lparr>tb_procs := om_put pid (f ps) (tb_procs t)\<rparr>)"

definition call :: "session_op \<Rightarrow> tracer \<Rightarrow> tracer" where
  "call op t = t\<lparr>tb_calls := tb_calls t @ [op]\<rparr>"

definition req :: "request \<Rightarrow> tracer \<Rightarrow> tracer" where
  "req r t = t\<lparr>tb_requests := tb_requests t @ [r]\<rparr>"

definition now_us :: "kernel \<Rightarrow> tracer \<Rightarrow> int \<times> tracer" where
  "now_us K t = (k_now K (tb_clock t), t\<lparr>tb_clock := Suc (tb_clock t)\<rparr>)"

section \<open>Reading the tracee's memory\<close>

definition close_mem_fd :: "ProcessState \<Rightarrow> ProcessState" where
  "close_mem_fd ps = ps\<lparr>ps_mem_fd := -1\<rparr>"

text \<open>The chunk loop of \<open>read_string_mem\<close>; an empty read is \<open>n <= 0\<close>.\<close>

function mem_chunks :: "kernel \<Rightarrow> int \<Rightarrow> 64 word \<Rightarrow> nat \<Rightarrow> nat \<Rightarrow> bool \<Rightarrow> string \<Rightarrow> string option" where
  "mem_chunks K fd addr max_len off first out =
    (if off \<ge> max_len then Some out
     else
      let to_page_end = k_page K - unat (addr + of_nat off) mod k_page K;
          chunk = min (min (max_len - off) to_page_end) 4096;
          buf = k_pread K fd (addr + of_nat off) chunk
      in if buf = [] then (if first then None else Some out)
         else if CHR 0x00 \<in> set buf then Some (out @ c_str buf)
         else mem_chunks K fd addr max_len (off + length buf) False (out @ buf))"
  by pat_completeness auto
termination
  by (relation "measure (\<lambda>(K, fd, addr, max_len, off, first, out). max_len - off)")
    (auto intro!: diff_less_mono2)

declare mem_chunks.simps [simp del]

definition read_string_mem :: "kernel \<Rightarrow> ProcessState \<Rightarrow> 64 word \<Rightarrow> nat \<Rightarrow> ProcessState \<times> string option" where
  "read_string_mem K ps addr max_len =
    (if ps_mem_fd ps = -2 then (ps, None)
     else
      let ps1 = (if ps_mem_fd ps < 0 then ps\<lparr>ps_mem_fd := k_open_mem K (ps_pid ps)\<rparr> else ps)
      in if ps_mem_fd ps1 < 0 then (ps1\<lparr>ps_mem_fd := -2\<rparr>, None)
         else (ps1, mem_chunks K (ps_mem_fd ps1) addr max_len 0 True []))"

text \<open>The \<open>PTRACE_PEEKDATA\<close> loop: \<open>words\<close> bounds the words up to \<open>max_len\<close>.\<close>

fun peek_words :: "kernel \<Rightarrow> int \<Rightarrow> 64 word \<Rightarrow> nat \<Rightarrow> string \<Rightarrow> string" where
  "peek_words K pid addr 0 out = out"
| "peek_words K pid addr (Suc words) out =
     (case k_peek K pid addr of
        None \<Rightarrow> out
      | Some w \<Rightarrow> if CHR 0x00 \<in> set w then out @ c_str w else peek_words K pid (addr + 8) words (out @ w))"

definition read_string :: "kernel \<Rightarrow> int \<Rightarrow> 64 word \<Rightarrow> tracer \<Rightarrow> string \<times> tracer" where
  "read_string K pid addr t =
    (if addr = 0 then ([], t)
     else
      let (fast, t1) =
        (case om_get (tb_procs t) pid of
           None \<Rightarrow> (None, t)
         | Some ps \<Rightarrow> (case read_string_mem K ps addr 4096 of (ps', r) \<Rightarrow> (r, upd_ps pid (\<lambda>_. ps') t)))
      in case fast of
           Some s \<Rightarrow> (s, t1\<lparr>cnt_mem_reads := Suc (cnt_mem_reads t1)\<rparr>)
         | None \<Rightarrow> (peek_words K pid addr 512 [], t1\<lparr>cnt_peek_fallbacks := Suc (cnt_peek_fallbacks t1)\<rparr>))"

text \<open>A kernel where nothing is found, as the base of concrete instances.\<close>

definition no_kernel :: kernel where
  "no_kernel = \<lparr>k_regs = (\<lambda>_. None), k_open_mem = (\<lambda>_. -1), k_pread = (\<lambda>_ _ _. []),
     k_peek = (\<lambda>_ _. None), k_page = 4096, k_link = (\<lambda>_ _. []), k_file = (\<lambda>_ _. None),
     k_status = (\<lambda>_ _. None), k_setopts = (\<lambda>_ _. True), k_queued = (\<lambda>_ _. False), k_msg = (\<lambda>_. 0),
     k_now = int, k_ticks = 100\<rparr>"

section \<open>Recording an access\<close>

definition resolve_path_cached :: "kernel \<Rightarrow> int \<Rightarrow> string \<Rightarrow> tracer \<Rightarrow> string \<times> tracer" where
  "resolve_path_cached K pid path t =
    (if path = [] then (path, t)
     else if hd path = CHR ''/'' then (normalize_path path, t)
     else
      let (cwd, t1) =
        (case om_get (tb_procs t) pid of
           Some ps \<Rightarrow> if ps_cwd ps \<noteq> [] then (ps_cwd ps, t)
                      else (k_link K pid ''cwd'', upd_ps pid (\<lambda>p. p\<lparr>ps_cwd := k_link K pid ''cwd''\<rparr>) t)
         | None \<Rightarrow> (k_link K pid ''cwd'', t))
      in if cwd = [] then (path, t1) else (normalize_path (cwd @ CHR ''/'' # path), t1))"

text \<open>The path of an access worth recording: read, filtered, resolved, filtered again.\<close>

definition access_path :: "kernel \<Rightarrow> int \<Rightarrow> 64 word \<Rightarrow> tracer \<Rightarrow> string option \<times> tracer" where
  "access_path K pid addr t =
    (case read_string K pid addr t of (path, t1) \<Rightarrow>
       if path \<noteq> [] \<and> \<not> should_filter_path path
       then (case resolve_path_cached K pid path t1 of (full, t2) \<Rightarrow>
               if should_filter_path full then (None, t2) else (Some full, t2))
       else (None, t1))"

definition record_access :: "kernel \<Rightarrow> int \<Rightarrow> 64 word \<Rightarrow> FileAccessMode \<Rightarrow> int \<Rightarrow> tracer \<Rightarrow> tracer" where
  "record_access K pid addr mode fd t =
    (case access_path K pid addr t of
       (None, t1) \<Rightarrow> t1
     | (Some path, t1) \<Rightarrow>
        (case now_us K t1 of (now, t2) \<Rightarrow>
           call (Access \<lparr>fa_pid = pid, fa_filename = path, fa_mode = mode_val mode, fa_fd = fd,
                         fa_timestamp = now\<rparr>) t2))"

definition record_failed_access :: "kernel \<Rightarrow> int \<Rightarrow> 64 word \<Rightarrow> FileAccessMode \<Rightarrow> int \<Rightarrow> tracer \<Rightarrow> tracer" where
  "record_failed_access K pid addr mode errno t =
    (case access_path K pid addr t of
       (None, t1) \<Rightarrow> t1
     | (Some path, t1) \<Rightarrow>
        (case now_us K t1 of (now, t2) \<Rightarrow>
           call (Failed \<lparr>fl_pid = pid, fl_filename = path, fl_mode = mode_val mode, fl_errno = errno,
                         fl_timestamp = now\<rparr>) t2))"

section \<open>Resuming\<close>

definition resume_request :: "tracer \<Rightarrow> int \<Rightarrow> int \<Rightarrow> request" where
  "resume_request t pid sig =
     (if tb_procs_only t \<or> tb_seccomp_mode t then PTRACE_CONT pid sig else PTRACE_SYSCALL pid sig)"

text \<open>The three attempts of \<open>kick_if_stuck\<close>: \<open>look\<close> numbers the looks at the tracee's state.\<close>

fun kick_attempts :: "kernel \<Rightarrow> int \<Rightarrow> int \<Rightarrow> nat \<Rightarrow> nat \<Rightarrow> bool \<Rightarrow> tracer \<Rightarrow> bool \<times> tracer" where
  "kick_attempts K pid sig 0 look kicked t = (kicked, t)"
| "kick_attempts K pid sig (Suc n) look kicked t =
     (if \<not> (\<exists>i \<le> length (read_proc_state (k_status K pid look)).
              starts_with (drop i (read_proc_state (k_status K pid look))) ''tracing'') then (kicked, t)
      else if k_queued K pid look then (kicked, t)
      else kick_attempts K pid sig n (Suc look) True
             (req (resume_request t pid sig) (t\<lparr>cnt_resume_retries := Suc (cnt_resume_retries t)\<rparr>)))"

definition kick_if_stuck :: "kernel \<Rightarrow> int \<Rightarrow> int \<Rightarrow> tracer \<Rightarrow> bool \<times> tracer" where
  "kick_if_stuck K pid sig t = kick_attempts K pid sig 3 1 False t"

text \<open>\<open>tb_drop_nth\<close> is \<open>BDTRACE_TEST_DROP_RESUME\<close>, -1 when it is not set.\<close>

definition resume :: "kernel \<Rightarrow> int \<Rightarrow> int \<Rightarrow> tracer \<Rightarrow> tracer" where
  "resume K pid sig t =
    (let t1 = (if tb_drop_nth t \<ge> 0 then t\<lparr>tb_resume_count := tb_resume_count t + 1\<rparr> else t);
         t2 = (if tb_drop_nth t \<ge> 0 \<and> tb_resume_count t1 = tb_drop_nth t then t1
               else req (resume_request t1 pid sig) t1)
     in if tb_procs_only t2 then snd (kick_if_stuck K pid sig t2) else t2)"

section \<open>Options of a tracee\<close>

definition PTRACE_O_BASE :: int where "PTRACE_O_BASE = 0x5f"
definition PTRACE_O_TRACESECCOMP :: int where "PTRACE_O_TRACESECCOMP = 0x80"
definition PTRACE_O_EXITKILL :: int where "PTRACE_O_EXITKILL = 0x100000"

definition set_options :: "kernel \<Rightarrow> int \<Rightarrow> int \<Rightarrow> tracer \<Rightarrow> bool \<times> tracer" where
  "set_options K pid opts t = (k_setopts K pid opts, req (PTRACE_SETOPTIONS pid opts) t)"

definition set_ptrace_options :: "kernel \<Rightarrow> int \<Rightarrow> tracer \<Rightarrow> bool \<times> tracer" where
  "set_ptrace_options K pid t =
    (if tb_seccomp_mode t
     then (case set_options K pid (PTRACE_O_BASE + PTRACE_O_TRACESECCOMP + PTRACE_O_EXITKILL) t of
             (True, t1) \<Rightarrow> (True, t1)
           | (False, t1) \<Rightarrow> set_options K pid (PTRACE_O_BASE + PTRACE_O_TRACESECCOMP) t1)
     else set_options K pid PTRACE_O_BASE t)"

definition setup_child :: "kernel \<Rightarrow> int \<Rightarrow> tracer \<Rightarrow> tracer" where
  "setup_child K pid t = snd (set_ptrace_options K pid t)"

section \<open>System call stops\<close>

definition open_mode :: "int \<Rightarrow> FileAccessMode" where
  "open_mode flags =
    (if and flags 3 = 0 then FA_READ else if and flags 3 = 1 then FA_WRITE else FA_RDWR)"

text \<open>The branches of a system call exit: \<open>rv\<close> is the return register, \<open>ps\<close> the entry as it is then.\<close>

definition record_one :: "kernel \<Rightarrow> int \<Rightarrow> int \<Rightarrow> 64 word \<Rightarrow> FileAccessMode \<Rightarrow> tracer \<Rightarrow> tracer" where
  "record_one K pid rv addr mode t =
     (if rv \<ge> 0 \<and> addr \<noteq> 0 then record_access K pid addr mode (-1) t else t)"

definition record_two ::
  "kernel \<Rightarrow> int \<Rightarrow> int \<Rightarrow> ProcessState \<Rightarrow> FileAccessMode \<Rightarrow> FileAccessMode \<Rightarrow> tracer \<Rightarrow> tracer" where
  "record_two K pid rv ps m1 m2 t =
     record_one K pid rv (ps_path_addr2 ps) m2 (record_one K pid rv (ps_path_addr ps) m1 t)"

definition record_both ::
  "kernel \<Rightarrow> int \<Rightarrow> 64 word \<Rightarrow> ProcessState \<Rightarrow> FileAccessMode \<Rightarrow> int \<Rightarrow> tracer \<Rightarrow> tracer" where
  "record_both K pid rv ps mode fd t =
     (if ps_path_addr ps = 0 then t
      else if as_long rv \<ge> 0 then record_access K pid (ps_path_addr ps) mode fd t
      else record_failed_access K pid (ps_path_addr ps) mode (as_int (- rv)) t)"

definition record_fchdir :: "kernel \<Rightarrow> int \<Rightarrow> tracer \<Rightarrow> tracer" where
  "record_fchdir K pid t =
    (let cwd = k_link K pid ''cwd'';
         t1 = upd_ps pid (\<lambda>ps. ps\<lparr>ps_cwd := cwd\<rparr>) t
     in if cwd \<noteq> [] \<and> \<not> should_filter_path cwd
        then (case now_us K t1 of (now, t2) \<Rightarrow>
                call (Access \<lparr>fa_pid = pid, fa_filename = cwd, fa_mode = mode_val FA_CHDIR,
                              fa_fd = -1, fa_timestamp = now\<rparr>) t2)
        else t1)"

definition record_exit :: "kernel \<Rightarrow> int \<Rightarrow> 64 word \<Rightarrow> ProcessState \<Rightarrow> tracer \<Rightarrow> tracer" where
  "record_exit K pid rv ps t =
    (let sc = ps_pending_syscall ps; r = as_long rv; a = ps_path_addr ps in
     if sc \<in> {SYS_OPEN_NR, SYS_OPENAT_NR, SYS_OPENAT2_NR, SYS_CREAT_NR}
       then record_both K pid rv ps (open_mode (ps_flags ps)) (as_int rv) t
     else if sc \<in> {SYS_STAT_NR, SYS_LSTAT_NR, SYS_NEWFSTATAT_NR, SYS_STATX_NR}
       then record_both K pid rv ps FA_STAT (-1) t
     else if sc \<in> {SYS_ACCESS_NR, SYS_FACCESSAT_NR, SYS_FACCESSAT2_NR}
       then record_both K pid rv ps FA_ACCESS (-1) t
     else if sc \<in> {SYS_EXECVE_NR, SYS_EXECVEAT_NR}
       then (if r < 0 \<and> a \<noteq> 0 then record_access K pid a FA_EXEC (-1) t else t)
     else if sc \<in> {SYS_UNLINK_NR, SYS_UNLINKAT_NR} then record_one K pid r a FA_UNLINK t
     else if sc \<in> {SYS_RENAME_NR, SYS_RENAMEAT_NR, SYS_RENAMEAT2_NR}
       then record_two K pid r ps FA_RENAME_SRC FA_RENAME_DST t
     else if sc \<in> {SYS_LINK_NR, SYS_LINKAT_NR}
       then record_two K pid r ps FA_LINK_SRC FA_LINK_DST t
     else if sc \<in> {SYS_SYMLINK_NR, SYS_SYMLINKAT_NR}
       then record_two K pid r ps FA_SYMLINK_TARGET FA_SYMLINK_LINK t
     else if sc \<in> {SYS_READLINK_NR, SYS_READLINKAT_NR} then record_one K pid r a FA_READLINK t
     else if sc \<in> {SYS_MKDIR_NR, SYS_MKDIRAT_NR} then record_one K pid r a FA_MKDIR t
     else if sc \<in> {SYS_CHMOD_NR, SYS_FCHMODAT_NR} then record_one K pid r a FA_CHMOD t
     else if sc \<in> {SYS_CHOWN_NR, SYS_FCHOWNAT_NR} then record_one K pid r a FA_CHOWN t
     else if sc = SYS_TRUNCATE_NR then record_one K pid r a FA_TRUNCATE t
     else if sc \<in> {SYS_MKNOD_NR, SYS_MKNODAT_NR} then record_one K pid r a FA_MKNOD t
     else if sc = SYS_UTIMENSAT_NR then record_one K pid r a FA_UTIMENS t
     else if sc = SYS_CHDIR_NR
       then (if r \<ge> 0 \<and> a \<noteq> 0
             then upd_ps pid (\<lambda>p. p\<lparr>ps_cwd := k_link K pid ''cwd''\<rparr>) (record_access K pid a FA_CHDIR (-1) t)
             else t)
     else if sc = SYS_FCHDIR_NR then (if r \<ge> 0 then record_fchdir K pid t else t)
     else t)"

definition ENOSYS :: int where "ENOSYS = 38"

definition reset_pending :: "ProcessState \<Rightarrow> ProcessState" where
  "reset_pending ps = ps\<lparr>ps_pending_syscall := -1, ps_path_addr := 0, ps_path_addr2 := 0,
     ps_exit_needed := False\<rparr>"

text \<open>The part of \<open>handle_syscall_stop\<close> after \<open>PTRACE_GETREGS\<close>.\<close>

definition syscall_stop_regs :: "kernel \<Rightarrow> int \<Rightarrow> ProcessState \<Rightarrow> user_regs \<Rightarrow> tracer \<Rightarrow> tracer" where
  "syscall_stop_regs K pid ps regs t =
    (let is_entry = (as_long (rax regs) = - ENOSYS);
         t1 = (if ps_sc_phase ps = SC_PHASE_ENTRY_NEXT \<and> \<not> is_entry
                  \<or> ps_sc_phase ps = SC_PHASE_EXIT_NEXT \<and> is_entry
               then t\<lparr>cnt_phase_resyncs := Suc (cnt_phase_resyncs t)\<rparr> else t);
         phase = (if is_entry then SC_PHASE_EXIT_NEXT else SC_PHASE_ENTRY_NEXT);
         t2 = upd_ps pid (\<lambda>p. p\<lparr>ps_sc_phase := phase\<rparr>) t1
     in if is_entry then upd_ps pid (decode_syscall_entry regs (as_long (orig_rax regs))) t2
        else upd_ps pid reset_pending (record_exit K pid (rax regs) ps t2))"

definition handle_syscall_stop :: "kernel \<Rightarrow> int \<Rightarrow> tracer \<Rightarrow> tracer" where
  "handle_syscall_stop K pid t =
    (case om_get (tb_procs t) pid of
       None \<Rightarrow> t
     | Some ps \<Rightarrow>
        if ps_sc_phase ps = SC_PHASE_EXIT_NEXT \<and> \<not> ps_exit_needed ps
        then upd_ps pid (\<lambda>p. p\<lparr>ps_sc_phase := SC_PHASE_ENTRY_NEXT, ps_pending_syscall := -1\<rparr>)
               (t\<lparr>cnt_getregs_skipped := Suc (cnt_getregs_skipped t)\<rparr>)
        else (case k_regs K pid of None \<Rightarrow> t | Some regs \<Rightarrow> syscall_stop_regs K pid ps regs t))"

definition handle_seccomp_stop :: "kernel \<Rightarrow> int \<Rightarrow> tracer \<Rightarrow> tracer" where
  "handle_seccomp_stop K pid t =
    (case k_regs K pid of
       None \<Rightarrow> req (PTRACE_CONT pid 0) t
     | Some regs \<Rightarrow>
        (case om_get (tb_procs t) pid of
           None \<Rightarrow> t
         | Some ps \<Rightarrow>
            let ps1 = decode_syscall_entry regs (as_long (orig_rax regs)) ps in
            if ps_exit_needed ps1
            then req (PTRACE_SYSCALL pid 0) (upd_ps pid (\<lambda>_. ps1\<lparr>ps_sc_phase := SC_PHASE_EXIT_NEXT\<rparr>) t)
            else req (PTRACE_CONT pid 0)
                   (upd_ps pid (\<lambda>_. ps1\<lparr>ps_sc_phase := SC_PHASE_ENTRY_NEXT, ps_pending_syscall := -1\<rparr>) t)))"

end
