(* ===== verification/Tracer_Loop.thy ===== *)
theory Tracer_Loop
  imports Tracer
begin

text \<open>
  The ptrace events of \<open>tracer/ptrace_backend.cpp\<close>, the dispatch of a wait status, the iteration
  of \<open>run_event_loop\<close>, the stall check and the parent's part of \<open>start\<close>. What an iteration
  meets (a signal to the tracer, the result of \<open>waitpid\<close>) is its argument.
\<close>

section \<open>Fork, exec and exit events\<close>

text \<open>The child's working directory and command line: the parent's caches, or \<open>/proc\<close>.\<close>

definition inherited_cwd :: "kernel \<Rightarrow> int \<Rightarrow> int \<Rightarrow> tracer \<Rightarrow> string" where
  "inherited_cwd K pid child t =
    (case om_get (tb_procs t) pid of
       Some ps \<Rightarrow> if ps_cwd ps \<noteq> [] then ps_cwd ps else k_link K child ''cwd''
     | None \<Rightarrow> k_link K child ''cwd'')"

definition inherited_cmdline :: "kernel \<Rightarrow> int \<Rightarrow> int \<Rightarrow> tracer \<Rightarrow> string" where
  "inherited_cmdline K pid child t =
    (case om_get (tb_procs t) pid of
       Some ps \<Rightarrow> if ps_cmdline ps \<noteq> [] then ps_cmdline ps else read_cmdline (k_file K child ''cmdline'')
     | None \<Rightarrow> read_cmdline (k_file K child ''cmdline''))"

definition drop_stale :: "int \<Rightarrow> tracer \<Rightarrow> tracer" where
  "drop_stale child t =
    (case om_get (tb_procs t) child of
       Some ps \<Rightarrow> if ps_ppid ps \<noteq> 0
                  then t\<lparr>tb_procs := om_del child (tb_procs t), cnt_stale_entries := Suc (cnt_stale_entries t)\<rparr>
                  else t
     | None \<Rightarrow> t)"

definition register_child :: "int \<Rightarrow> int \<Rightarrow> string \<Rightarrow> string \<Rightarrow> tracer \<Rightarrow> tracer" where
  "register_child child pid cwd cmdline t =
    (let ps0 = (case om_get (tb_procs t) child of Some ps \<Rightarrow> ps | None \<Rightarrow> ProcessState_new child pid)
     in t\<lparr>tb_procs := om_put child (ps0\<lparr>ps_ppid := pid, ps_cwd := cwd, ps_cmdline := cmdline\<rparr>) (tb_procs t)\<rparr>)"

definition handle_fork_event :: "kernel \<Rightarrow> int \<Rightarrow> tracer \<Rightarrow> tracer" where
  "handle_fork_event K pid t =
    (let child = k_msg K pid in
     if child = 0 then t
     else
      let cwd = inherited_cwd K pid child t;
          cmdline = inherited_cmdline K pid child t;
          t1 = register_child child pid cwd cmdline (drop_stale child t)
      in case now_us K t1 of (now, t2) \<Rightarrow>
           call (Start (ProcessRecord_default\<lparr>pr_pid := child, pr_ppid := pid, pr_cmdline := cmdline,
                                              pr_cwd := cwd, pr_start := now\<rparr>)) t2)"

definition record_exe :: "kernel \<Rightarrow> int \<Rightarrow> tracer \<Rightarrow> tracer" where
  "record_exe K pid t =
    (let exe = k_link K pid ''exe'' in
     if exe \<noteq> [] \<and> \<not> should_filter_path exe
     then (case now_us K t of (now, t1) \<Rightarrow>
             call (Access \<lparr>fa_pid = pid, fa_filename = exe, fa_mode = mode_val FA_EXEC, fa_fd = -1,
                           fa_timestamp = now\<rparr>) t1)
     else t)"

definition exec_ps :: "string \<Rightarrow> string \<Rightarrow> ProcessState \<Rightarrow> ProcessState" where
  "exec_ps cwd cmdline ps =
     (close_mem_fd (ps\<lparr>ps_pending_syscall := -1, ps_path_addr := 0, ps_path_addr2 := 0, ps_exit_needed := False\<rparr>))
       \<lparr>ps_cwd := cwd, ps_cmdline := cmdline\<rparr>"

definition handle_exec_event :: "kernel \<Rightarrow> int \<Rightarrow> tracer \<Rightarrow> tracer" where
  "handle_exec_event K pid t =
    (let cmdline = read_cmdline (k_file K pid ''cmdline'');
         cwd = k_link K pid ''cwd'';
         t1 = upd_ps pid (exec_ps cwd cmdline) (record_exe K pid t);
         ppid = (case om_get (tb_procs t1) pid of Some ps \<Rightarrow> ps_ppid ps | None \<Rightarrow> 0)
     in case now_us K t1 of (now, t2) \<Rightarrow>
          call (Start (ProcessRecord_default\<lparr>pr_pid := pid, pr_ppid := ppid, pr_cmdline := cmdline,
                                             pr_cwd := cwd, pr_start := now\<rparr>))
            (call (Delete pid) t2))"

definition handle_exit_event :: "kernel \<Rightarrow> int \<Rightarrow> tracer \<Rightarrow> tracer" where
  "handle_exit_event K pid t =
    (case read_proc_cpu (k_ticks K) (k_file K pid ''stat'') of (user, sys) \<Rightarrow>
     case read_proc_io (k_file K pid ''io'') of (io_r, io_w) \<Rightarrow>
       upd_ps pid (\<lambda>ps. ps\<lparr>ps_user_time := user, ps_sys_time := sys,
         ps_peak_rss := read_proc_peak_rss (k_file K pid ''status''), ps_io_read := io_r, ps_io_write := io_w\<rparr>) t)"

section \<open>Dispatch of a wait status\<close>

datatype wait_status = Exited int | Signaled int | Stopped int int | Continued

text \<open>The macros of \<open>sys/wait.h\<close>, and the event in the third byte of the status.\<close>

definition wait_of :: "int \<Rightarrow> wait_status" where
  "wait_of status =
    (if status mod 128 = 0 then Exited ((status div 256) mod 256)
     else if status mod 256 = 127 then Stopped ((status div 256) mod 256) ((status div 65536) mod 256)
     else if status mod 128 < 127 then Signaled (status mod 128)
     else Continued)"

definition PTRACE_EVENT_FORK :: int where "PTRACE_EVENT_FORK = 1"
definition PTRACE_EVENT_VFORK :: int where "PTRACE_EVENT_VFORK = 2"
definition PTRACE_EVENT_CLONE :: int where "PTRACE_EVENT_CLONE = 3"
definition PTRACE_EVENT_EXEC :: int where "PTRACE_EVENT_EXEC = 4"
definition PTRACE_EVENT_EXIT :: int where "PTRACE_EVENT_EXIT = 6"
definition PTRACE_EVENT_SECCOMP :: int where "PTRACE_EVENT_SECCOMP = 7"
definition SIGTRAP :: int where "SIGTRAP = 5"
definition SIGSTOP :: int where "SIGSTOP = 19"

lemmas event_numbers =
  PTRACE_EVENT_FORK_def PTRACE_EVENT_VFORK_def PTRACE_EVENT_CLONE_def PTRACE_EVENT_EXEC_def
  PTRACE_EVENT_EXIT_def PTRACE_EVENT_SECCOMP_def SIGTRAP_def SIGSTOP_def

text \<open>The entry of a pid that was not registered yet.\<close>

definition ensure_known :: "kernel \<Rightarrow> int \<Rightarrow> wait_status \<Rightarrow> tracer \<Rightarrow> tracer" where
  "ensure_known K pid st t =
    (case om_get (tb_procs t) pid of
       Some ps \<Rightarrow> t
     | None \<Rightarrow>
        let t1 = t\<lparr>tb_procs := om_put pid (ProcessState_new pid 0) (tb_procs t)\<rparr>;
            t2 = (case st of Stopped sg ev \<Rightarrow> setup_child K pid t1 | _ \<Rightarrow> t1)
        in t2\<lparr>cnt_race_unknown_first := Suc (cnt_race_unknown_first t2)\<rparr>)"

definition handle_death :: "kernel \<Rightarrow> int \<Rightarrow> int \<Rightarrow> tracer \<Rightarrow> tracer" where
  "handle_death K pid exit_code t =
    (case om_get (tb_procs t) pid of
       None \<Rightarrow> t
     | Some ps \<Rightarrow>
        (case now_us K t of (now, t1) \<Rightarrow>
           (call (Exit pid now exit_code (ps_user_time ps) (ps_sys_time ps) (ps_peak_rss ps)
                    (ps_io_read ps) (ps_io_write ps)) t1)
             \<lparr>tb_procs := om_del pid (tb_procs t)\<rparr>))"

definition handle_sigstop :: "kernel \<Rightarrow> int \<Rightarrow> tracer \<Rightarrow> tracer" where
  "handle_sigstop K pid t =
    (let t1 = upd_ps pid (\<lambda>ps. ps\<lparr>ps_traced := True\<rparr>) (setup_child K pid t);
         t2 = resume K pid 0 (t1\<lparr>cnt_sigstop_swallowed := Suc (cnt_sigstop_swallowed t1)\<rparr>)
     in if \<not> tb_procs_only t2 then snd (kick_if_stuck K pid 0 t2) else t2)"

definition reinject :: "kernel \<Rightarrow> int \<Rightarrow> int \<Rightarrow> tracer \<Rightarrow> tracer" where
  "reinject K pid sig t =
    (let t1 = (if sig = SIGSTOP then t\<lparr>cnt_sigstop_reinjected := Suc (cnt_sigstop_reinjected t)\<rparr> else t)
     in resume K pid sig (t1\<lparr>cnt_sig_reinjected := Suc (cnt_sig_reinjected t1)\<rparr>))"

definition is_traced :: "int \<Rightarrow> tracer \<Rightarrow> bool" where
  "is_traced pid t = (case om_get (tb_procs t) pid of Some ps \<Rightarrow> ps_traced ps | None \<Rightarrow> False)"

definition handle_stop :: "kernel \<Rightarrow> int \<Rightarrow> int \<Rightarrow> int \<Rightarrow> tracer \<Rightarrow> tracer" where
  "handle_stop K pid sig event t =
    (if event = PTRACE_EVENT_FORK \<or> event = PTRACE_EVENT_VFORK \<or> event = PTRACE_EVENT_CLONE
     then resume K pid 0 (handle_fork_event K pid (t\<lparr>cnt_fork_events := Suc (cnt_fork_events t)\<rparr>))
     else if event = PTRACE_EVENT_EXEC
     then resume K pid 0 (handle_exec_event K pid (t\<lparr>cnt_exec_events := Suc (cnt_exec_events t)\<rparr>))
     else if event = PTRACE_EVENT_EXIT then resume K pid 0 (handle_exit_event K pid t)
     else if event = PTRACE_EVENT_SECCOMP
     then handle_seccomp_stop K pid (t\<lparr>cnt_seccomp_stops := Suc (cnt_seccomp_stops t)\<rparr>)
     else if sig = SIGTRAP + 0x80 then resume K pid 0 (handle_syscall_stop K pid t)
     else if sig = SIGTRAP then resume K pid 0 (t\<lparr>cnt_plain_sigtrap := Suc (cnt_plain_sigtrap t)\<rparr>)
     else if sig = SIGSTOP \<and> \<not> is_traced pid t then handle_sigstop K pid t
     else reinject K pid sig t)"

text \<open>From the lookup of the pid to the end of the loop body.\<close>

definition handle_status :: "kernel \<Rightarrow> int \<Rightarrow> wait_status \<Rightarrow> tracer \<Rightarrow> tracer" where
  "handle_status K pid st t =
    (let t1 = ensure_known K pid st t in
     case st of
       Exited code \<Rightarrow> handle_death K pid code t1
     | Signaled sg \<Rightarrow> handle_death K pid (- sg) t1
     | Stopped sig event \<Rightarrow> handle_stop K pid sig event t1
     | Continued \<Rightarrow> t1)"

section \<open>The stall check\<close>

definition WATCHDOG_TICK_US :: int where "WATCHDOG_TICK_US = 500000"
definition STALL_THRESHOLD_US :: int where "STALL_THRESHOLD_US = 10000000"
definition STALL_REPEAT_US :: int where "STALL_REPEAT_US = 30000000"

definition recover_one :: "kernel \<Rightarrow> int \<Rightarrow> tracer \<Rightarrow> tracer" where
  "recover_one K pid t =
    (if \<exists>i \<le> length (read_proc_state (k_status K pid 0)).
           starts_with (drop i (read_proc_state (k_status K pid 0))) ''tracing''
     then (case kick_if_stuck K pid 0 t of
             (True, t1) \<Rightarrow> t1\<lparr>cnt_stuck_kicked := Suc (cnt_stuck_kicked t1)\<rparr>
           | (False, t1) \<Rightarrow> t1)
     else t)"

definition check_stall :: "kernel \<Rightarrow> tracer \<Rightarrow> tracer" where
  "check_stall K t =
    (if tb_procs t = [] then t
     else
      case now_us K t of (now, t0) \<Rightarrow>
      let gap = now - tb_last_event t0;
          t1 = fold (recover_one K) (om_keys (take 256 (tb_procs t0))) t0
      in if gap < STALL_THRESHOLD_US then t1
         else if \<not> tb_running t1 then t1
         else if tb_last_stall_report t1 \<noteq> 0 \<and> now - tb_last_stall_report t1 < STALL_REPEAT_US then t1
         else t1\<lparr>tb_last_stall_report := now\<rparr>)"

section \<open>The event loop\<close>

datatype wait_result = Report int int | NoChildren | Interrupted bool | WaitFailed

text \<open>A pending signal is its number, the sender's pid and \<open>si_code\<close>.\<close>

definition from_tracee :: "int \<Rightarrow> int \<Rightarrow> tracer \<Rightarrow> bool" where
  "from_tracee spid scode t \<longleftrightarrow> scode \<le> 0 \<and> spid > 0 \<and> om_get (tb_procs t) spid \<noteq> None"

definition handle_signal :: "kernel \<Rightarrow> (int \<times> int \<times> int) option \<Rightarrow> tracer \<Rightarrow> bool \<times> tracer" where
  "handle_signal K sig t =
    (case sig of
       None \<Rightarrow> (True, t)
     | Some (snum, spid, scode) \<Rightarrow>
        if from_tracee spid scode t then (True, t\<lparr>cnt_sig_ignored := Suc (cnt_sig_ignored t)\<rparr>)
        else if tb_running t
        then (case now_us K (req (KILL (tb_root_pid t) snum) (t\<lparr>tb_running := False\<rparr>)) of
                (now, t1) \<Rightarrow> (True, t1\<lparr>tb_drain_deadline := now + 30000000\<rparr>))
        else (False, t))"

definition drain_expired :: "kernel \<Rightarrow> tracer \<Rightarrow> bool \<times> tracer" where
  "drain_expired K t =
    (if \<not> tb_running t \<and> tb_drain_deadline t \<noteq> 0
     then (case now_us K t of (now, t1) \<Rightarrow> (now > tb_drain_deadline t, t1)) else (False, t))"

definition handle_wait :: "kernel \<Rightarrow> wait_result \<Rightarrow> tracer \<Rightarrow> bool \<times> tracer" where
  "handle_wait K w t =
    (case w of
       NoChildren \<Rightarrow> (False, t)
     | Interrupted alarm \<Rightarrow> (True, if alarm then check_stall K t else t)
     | WaitFailed \<Rightarrow> (False, t)
     | Report pid status \<Rightarrow>
        (case now_us K t of (now, t1) \<Rightarrow>
           (True, handle_status K pid (wait_of status)
                    (t1\<lparr>tb_last_event := now, tb_last_stall_report := 0\<rparr>))))"

record loop_input =
  li_kernel :: kernel
  li_fatal :: bool
  li_signal :: "(int \<times> int \<times> int) option"
  li_wait :: wait_result

text \<open>One iteration; the result says whether the loop goes on. The progress report is left out, its clock reading is not.\<close>

definition loop_iteration :: "loop_input \<Rightarrow> tracer \<Rightarrow> bool \<times> tracer" where
  "loop_iteration i t =
    (let K = li_kernel i; t0 = snd (now_us K t) in
     if li_fatal i then (False, t0)
     else
      case handle_signal K (li_signal i) t0 of
        (False, t1) \<Rightarrow> (False, t1)
      | (True, t1) \<Rightarrow>
         (case drain_expired K t1 of
            (True, t2) \<Rightarrow> (False, t2)
          | (False, t2) \<Rightarrow> handle_wait K (li_wait i) t2))"

text \<open>The loop over the inputs it meets: the number of inputs is the fuel. The flag says whether the loop ended by itself.\<close>

fun event_loop :: "loop_input list \<Rightarrow> tracer \<Rightarrow> bool \<times> tracer" where
  "event_loop [] t = (tb_procs t = [], t)"
| "event_loop (i # is) t =
     (if tb_procs t = [] then (True, t)
      else case loop_iteration i t of (True, t1) \<Rightarrow> event_loop is t1 | (False, t1) \<Rightarrow> (True, t1))"

definition run_event_loop :: "loop_input list \<Rightarrow> tracer \<Rightarrow> bool \<times> tracer" where
  "run_event_loop is t =
     (case is of
        [] \<Rightarrow> event_loop [] t
      | i # _ \<Rightarrow> (case now_us (li_kernel i) t of (now, t1) \<Rightarrow> event_loop is (t1\<lparr>tb_last_event := now\<rparr>)))"

definition stop :: "tracer \<Rightarrow> tracer" where
  "stop t = t\<lparr>tb_running := False\<rparr>"

section \<open>Start\<close>

text \<open>\<open>sscanf(release, "%d.%d", ...)\<close> of \<open>kernel_supports_seccomp_trace\<close>: a conversion needs a digit.\<close>

definition scan_d :: "string \<Rightarrow> (int \<times> string) option" where
  "scan_d s = (case strtol10 s of (v, rest) \<Rightarrow> if rest = s then None else Some (v, rest))"

definition kernel_supports_seccomp_trace :: "string option \<Rightarrow> bool" where
  "kernel_supports_seccomp_trace release =
    (case release of None \<Rightarrow> False
     | Some s \<Rightarrow>
        (case scan_d s of None \<Rightarrow> False
         | Some (maj, rest) \<Rightarrow>
            if rest = [] \<or> hd rest \<noteq> CHR ''.'' then False
            else (case scan_d (tl rest) of None \<Rightarrow> False
                  | Some (mnr, _) \<Rightarrow> if maj > 3 then True else maj = 3 \<and> mnr \<ge> 5)))"

text \<open>The parent's part, after the first stop of the child; \<open>ack\<close> is the byte read from the child, if it was asked to install the filter.\<close>

definition start_options :: "kernel \<Rightarrow> bool \<Rightarrow> char option \<Rightarrow> int \<Rightarrow> tracer \<Rightarrow> bool \<times> tracer" where
  "start_options K attempt_seccomp ack pid t =
    (if attempt_seccomp \<and> ack = Some CHR ''S''
     then (case set_ptrace_options K pid (t\<lparr>tb_seccomp_mode := True\<rparr>) of
             (True, t1) \<Rightarrow> (True, t1) | (False, t1) \<Rightarrow> (False, req (KILL pid 9) t1))
     else (True, setup_child K pid t))"

definition start :: "kernel \<Rightarrow> bool \<Rightarrow> char option \<Rightarrow> int \<Rightarrow> int \<Rightarrow> tracer \<Rightarrow> int \<times> tracer" where
  "start K attempt_seccomp ack self pid t =
    (case start_options K attempt_seccomp ack pid (t\<lparr>tb_root_pid := pid\<rparr>) of
       (False, t1) \<Rightarrow> (-1, t1)
     | (True, t1) \<Rightarrow>
        let cwd = k_link K pid ''cwd'';
            cmdline = read_cmdline (k_file K pid ''cmdline'');
            ps = (ProcessState_new pid self)\<lparr>ps_cwd := cwd, ps_cmdline := cmdline\<rparr>;
            t2 = t1\<lparr>tb_procs := om_put pid ps (tb_procs t1)\<rparr>
        in case now_us K t2 of (now, t3) \<Rightarrow>
             let t4 = call (Start (ProcessRecord_default\<lparr>pr_pid := pid, pr_ppid := self,
                        pr_cmdline := cmdline, pr_cwd := cwd, pr_start := now\<rparr>)) t3
             in (0, (resume K pid 0 t4)\<lparr>tb_running := True\<rparr>))"

end
