(* ===== verification/Tracer_Memory.thy ===== *)
theory Tracer_Memory
  imports Tracer
begin

text \<open>
  Reading a string of the tracee: whatever chunks \<open>pread\<close> returns, and whether the memory file
  can be opened or not, \<open>read_string\<close> returns the string up to its NUL.
\<close>

text \<open>\<open>buf\<close> and \<open>s\<close> agree as far as both go.\<close>

definition agrees :: "string \<Rightarrow> string \<Rightarrow> bool" where
  "agrees buf s \<longleftrightarrow> take (length s) buf = take (length buf) s"

text \<open>
  The string \<open>s\<close> and its NUL lie at \<open>addr\<close>: a read inside one page returns at least one byte of
  them, and so does a read of a word that starts at a multiple of eight from \<open>addr\<close>.
\<close>

definition holds_string :: "kernel \<Rightarrow> int \<Rightarrow> 64 word \<Rightarrow> string \<Rightarrow> bool" where
  "holds_string K pid addr s \<longleftrightarrow>
     CHR 0x00 \<notin> set s \<and> 0 < k_page K
     \<and> (\<forall>fd j n. 0 \<le> fd \<and> j \<le> length s \<and> 0 < n \<and> n \<le> k_page K - unat (addr + of_nat j) mod k_page K
          \<longrightarrow> k_pread K fd (addr + of_nat j) n \<noteq> [] \<and> length (k_pread K fd (addr + of_nat j) n) \<le> n
              \<and> agrees (k_pread K fd (addr + of_nat j) n) (drop j s @ [CHR 0x00]))
     \<and> (\<forall>j. 8 * j \<le> length s \<longrightarrow>
          (\<exists>w. k_peek K pid (addr + of_nat (8 * j)) = Some w \<and> length w = 8
               \<and> agrees w (drop (8 * j) s @ [CHR 0x00])))"

lemma agrees_nul:
  assumes "agrees buf (u @ [CHR 0x00])" and "CHR 0x00 \<notin> set u"
  shows "CHR 0x00 \<in> set buf \<Longrightarrow> c_str buf = u"
    and "CHR 0x00 \<notin> set buf \<Longrightarrow> buf = take (length buf) u \<and> length buf \<le> length u"
proof -
  have ag: "take (Suc (length u)) buf = take (length buf) (u @ [CHR 0x00])"
    using assms(1) by (simp add: agrees_def)
  {
    assume nul: "CHR 0x00 \<in> set buf"
    have "Suc (length u) \<le> length buf"
    proof (rule ccontr)
      assume "\<not> Suc (length u) \<le> length buf"
      then have "buf = take (length buf) u" using ag by simp
      then have "set buf \<subseteq> set u" by (metis set_take_subset)
      with nul assms(2) show False by blast
    qed
    then have "take (Suc (length u)) buf = u @ [CHR 0x00]" using ag by simp
    then obtain r where "buf = u @ CHR 0x00 # r"
      by (metis append_take_drop_id append.assoc append_Cons append_Nil)
    then show "c_str buf = u" by (simp add: c_str_def takeWhile_neq_append assms(2))
  next
    assume nul: "CHR 0x00 \<notin> set buf"
    have len: "length buf \<le> length u"
    proof (rule ccontr)
      assume "\<not> length buf \<le> length u"
      then have "take (Suc (length u)) buf = u @ [CHR 0x00]" using ag by simp
      then have "CHR 0x00 \<in> set (take (Suc (length u)) buf)" by simp
      with nul show False by (meson in_set_takeD)
    qed
    then show "buf = take (length buf) u \<and> length buf \<le> length u" using ag by simp
  }
qed

lemma mem_chunks_string:
  assumes "holds_string K pid addr s" and "0 \<le> fd" and "length s < max_len" and "off \<le> length s"
  shows "mem_chunks K fd addr max_len off first (take off s) = Some s"
  using assms(4)
proof (induction "length s - off" arbitrary: off first rule: less_induct)
  case less
  define chunk where
    "chunk = min (min (max_len - off) (k_page K - unat (addr + of_nat off) mod k_page K)) 4096"
  define buf where "buf = k_pread K fd (addr + of_nat off) chunk"
  have page: "0 < k_page K" and ns: "CHR 0x00 \<notin> set s" using assms(1) by (simp_all add: holds_string_def)
  have "unat (addr + of_nat off) mod k_page K < k_page K" using page by simp
  then have chunk: "0 < chunk" "chunk \<le> k_page K - unat (addr + of_nat off) mod k_page K"
    using assms(3) less.prems by (auto simp: chunk_def)
  with assms(1,2) less.prems have buf: "buf \<noteq> []" "agrees buf (drop off s @ [CHR 0x00])"
    unfolding holds_string_def buf_def by blast+
  have nd: "CHR 0x00 \<notin> set (drop off s)" using ns by (meson in_set_dropD)
  have lt: "\<not> off \<ge> max_len" using assms(3) less.prems by simp
  have step: "mem_chunks K fd addr max_len off first (take off s) =
      (if CHR 0x00 \<in> set buf then Some (take off s @ c_str buf)
       else mem_chunks K fd addr max_len (off + length buf) False (take off s @ buf))"
    using lt buf(1) by (subst mem_chunks.simps) (simp add: Let_def buf_def chunk_def)
  show ?case
  proof (cases "CHR 0x00 \<in> set buf")
    case True
    with agrees_nul(1) [OF buf(2) nd] show ?thesis by (simp add: step)
  next
    case False
    from agrees_nul(2) [OF buf(2) nd False]
    have b: "buf = take (length buf) (drop off s)" "off + length buf \<le> length s" using less.prems by auto
    then have "take off s @ buf = take (off + length buf) s" by (metis take_add)
    moreover have "length s - (off + length buf) < length s - off" using b(2) buf(1) by (cases buf) auto
    ultimately show ?thesis using False less.hyps [of "off + length buf" False] b(2) by (simp add: step)
  qed
qed

lemma peek_words_string:
  assumes "holds_string K pid addr s" and "length s < 8 * (j + n)" and "8 * j \<le> length s"
  shows "peek_words K pid (addr + of_nat (8 * j)) n (take (8 * j) s) = s"
  using assms(2,3)
proof (induction n arbitrary: j)
  case (Suc n)
  from assms(1) Suc.prems(2) obtain w where w: "k_peek K pid (addr + of_nat (8 * j)) = Some w" "length w = 8"
      "agrees w (drop (8 * j) s @ [CHR 0x00])" unfolding holds_string_def by blast
  have nd: "CHR 0x00 \<notin> set (drop (8 * j) s)" using assms(1) unfolding holds_string_def by (meson in_set_dropD)
  show ?case
  proof (cases "CHR 0x00 \<in> set w")
    case True
    with agrees_nul(1) [OF w(3) nd] show ?thesis by (simp add: w(1) del: of_nat_mult)
  next
    case False
    from agrees_nul(2) [OF w(3) nd False] w(2)
    have b: "w = take 8 (drop (8 * j) s)" "8 * Suc j \<le> length s" using Suc.prems(2) by auto
    have "8 * Suc j = 8 * j + 8" by simp
    then have app: "take (8 * j) s @ w = take (8 * Suc j) s" using b(1) by (metis take_add)
    have ad: "addr + of_nat (8 * j) + 8 = addr + of_nat (8 * Suc j)" by simp
    have "length s < 8 * (Suc j + n)" using Suc.prems(1) by simp
    from Suc.IH [OF this b(2)]
    show ?thesis using False by (simp only: peek_words.simps w(1) option.case if_False ad app)
  qed
qed simp

lemma read_string_value:
  assumes "holds_string K pid addr s" and "addr \<noteq> 0" and "length s < 4096"
  shows "fst (read_string K pid addr t) = s"
proof -
  have mem: "snd (read_string_mem K ps addr 4096) \<in> {None, Some s}" for ps
    using mem_chunks_string [OF assms(1) _ assms(3), of _ 0 True]
    by (auto simp: read_string_mem_def Let_def)
  have peek: "peek_words K pid addr 512 [] = s"
    using peek_words_string [OF assms(1), of 0 512] assms(3) by simp
  show ?thesis
  proof (cases "om_get (tb_procs t) pid")
    case None
    then show ?thesis using assms(2) peek by (simp add: read_string_def)
  next
    case (Some ps)
    obtain ps' r where "read_string_mem K ps addr 4096 = (ps', r)" by fastforce
    with mem [of ps] Some assms(2) peek show ?thesis by (auto simp: read_string_def)
  qed
qed

text \<open>C18. A path argument is read correctly: if the tracee holds a string shorter than 4096 bytes and
  its NUL at the address, \<open>read_string\<close> returns exactly that string, however the reads of
  \<open>/proc/<pid>/mem\<close> are split and whether that file can be opened or the words are peeked.\<close>

theorem read_string_correct:
  assumes "holds_string K pid addr s" and "addr \<noteq> 0" and "length s < 4096"
  shows "fst (read_string K pid addr t) = s"
  by (rule read_string_value [OF assms])

text \<open>A kernel with one string in the tracee's memory, read at most three bytes at a time.\<close>

definition memory_kernel :: "64 word \<Rightarrow> string \<Rightarrow> kernel" where
  "memory_kernel addr s = no_kernel\<lparr>k_open_mem := (\<lambda>_. 5),
     k_pread := (\<lambda>_ a n. take (min n 3) (drop (unat (a - addr)) s @ [CHR 0x00])),
     k_peek := (\<lambda>_ a. Some (take 8 (drop (unat (a - addr)) s @ replicate 8 CHR 0x00)))\<rparr>"

lemma agrees_take: "agrees (take m x) x"
  by (simp add: agrees_def min.commute)

lemma agrees_pad: "agrees (take 8 (u @ replicate 8 c)) (u @ [c])"
proof (cases "length u < 8")
  case True
  then obtain k where k: "8 - length u = Suc k" by (cases "8 - length u") simp_all
  have "take 8 (u @ replicate 8 c) = u @ c # replicate k c" using True k by (simp add: take_Cons' min.absorb2)
  then show ?thesis using True k by (simp add: agrees_def)
next
  case False
  then show ?thesis by (simp add: agrees_def min_def)
qed

lemma memory_kernel_holds:
  assumes "CHR 0x00 \<notin> set s" and "length s < 2 ^ 64"
  shows "holds_string (memory_kernel addr s) pid addr s"
proof -
  have idx: "unat (of_nat j :: 64 word) = j" if "j \<le> length s" for j
    using that assms(2) by (simp add: unat_of_nat take_bit_nat_eq_self)
  have "agrees (take (min n 3) (drop j s @ [CHR 0x00])) (drop j s @ [CHR 0x00])" for n j
    by (rule agrees_take)
  moreover have "agrees (take 8 (drop j s @ replicate 8 CHR 0x00)) (drop j s @ [CHR 0x00])" if "j \<le> length s" for j
    by (rule agrees_pad)
  moreover have "take (min n 3) (drop j s @ [CHR 0x00]) \<noteq> []" if "0 < n" for n j
    using that by simp
  moreover have idx8: "unat (8 * of_nat j :: 64 word) = 8 * j" if "8 * j \<le> length s" for j
    using idx [of "8 * j"] that by simp
  ultimately show ?thesis
    using assms(1) by (auto simp: holds_string_def memory_kernel_def no_kernel_def idx idx8 simp del: take_append)
qed

lemma read_string_correct_witness:
  "fst (read_string (memory_kernel 0x1000 ''/etc/hosts'') 7 0x1000 (PtraceBackend_new False (-1))) = ''/etc/hosts''"
  by (rule read_string_correct [OF memory_kernel_holds]) simp_all

end
