(* ===== verification/Tracer_Proofs.thy ===== *)
theory Tracer_Proofs
  imports Tracer_Loop Tracer_Memory
begin

text \<open>
  What the tracer's steps keep and what they do: which parts of the state a step leaves alone,
  the invariant of the process map, the resume that every stop gets, the equivalence of the two
  tracing modes, and the order of a child's first stop and its parent's fork event.
\<close>

section \<open>Frames\<close>

text \<open>\<open>same_mode t t'\<close>: the parts that no handling of a stop changes.\<close>

definition same_mode :: "tracer \<Rightarrow> tracer \<Rightarrow> bool" where
  "same_mode t t' \<longleftrightarrow>
     tb_procs_only t' = tb_procs_only t \<and> tb_seccomp_mode t' = tb_seccomp_mode t
     \<and> tb_drop_nth t' = tb_drop_nth t \<and> tb_running t' = tb_running t
     \<and> tb_root_pid t' = tb_root_pid t \<and> tb_drain_deadline t' = tb_drain_deadline t"

lemma same_mode_refl [simp]: "same_mode t t"
  by (simp add: same_mode_def)

lemma same_mode_trans: "same_mode a b \<Longrightarrow> same_mode b c \<Longrightarrow> same_mode a c"
  by (simp add: same_mode_def)

lemma frame_upd_ps [frame_simps]:
  "tb_calls (upd_ps pid f t) = tb_calls t" "tb_requests (upd_ps pid f t) = tb_requests t"
  "tb_clock (upd_ps pid f t) = tb_clock t" "same_mode t (upd_ps pid f t)"
  "tb_procs_only (upd_ps pid f t) = tb_procs_only t" "tb_seccomp_mode (upd_ps pid f t) = tb_seccomp_mode t"
  "tb_drop_nth (upd_ps pid f t) = tb_drop_nth t"
  by (simp_all add: upd_ps_def same_mode_def split: option.splits)

lemma upd_ps_get [frame_simps]:
  "om_get (tb_procs (upd_ps pid f t)) p =
     (if p = pid then map_option f (om_get (tb_procs t) pid) else om_get (tb_procs t) p)"
  by (simp add: upd_ps_def om_get_put split: option.splits)

lemma frame_call [frame_simps]:
  "tb_calls (call op t) = tb_calls t @ [op]" "tb_requests (call op t) = tb_requests t"
  "tb_procs (call op t) = tb_procs t" "tb_clock (call op t) = tb_clock t" "same_mode t (call op t)"
  by (simp_all add: call_def same_mode_def)

lemma frame_req [frame_simps]:
  "tb_calls (req r t) = tb_calls t" "tb_requests (req r t) = tb_requests t @ [r]"
  "tb_procs (req r t) = tb_procs t" "tb_clock (req r t) = tb_clock t" "same_mode t (req r t)"
  "tb_procs_only (req r t) = tb_procs_only t" "tb_seccomp_mode (req r t) = tb_seccomp_mode t"
  "tb_drop_nth (req r t) = tb_drop_nth t"
  by (simp_all add: req_def same_mode_def)

text \<open>Reading a path changes only the caches and counters.\<close>

lemma frame_read_string [frame_simps]:
  "tb_calls (snd (read_string K pid addr t)) = tb_calls t"
  "tb_requests (snd (read_string K pid addr t)) = tb_requests t"
  "same_mode t (snd (read_string K pid addr t))"
  by (auto simp: read_string_def Let_def same_mode_def upd_ps_def split: prod.splits option.splits)

lemma frame_resolve [frame_simps]:
  "tb_calls (snd (resolve_path_cached K pid path t)) = tb_calls t"
  "tb_requests (snd (resolve_path_cached K pid path t)) = tb_requests t"
  "same_mode t (snd (resolve_path_cached K pid path t))"
  by (auto simp: resolve_path_cached_def Let_def same_mode_def upd_ps_def split: prod.splits option.splits)

lemma frame_access_path [frame_simps]:
  "tb_calls (snd (access_path K pid addr t)) = tb_calls t"
  "tb_requests (snd (access_path K pid addr t)) = tb_requests t"
  "same_mode t (snd (access_path K pid addr t))"
proof -
  obtain p t1 where 1: "read_string K pid addr t = (p, t1)" by fastforce
  obtain q t2 where 2: "resolve_path_cached K pid p t1 = (q, t2)" by fastforce
  note frame_read_string [where K = K and pid = pid and addr = addr and t = t]
    frame_resolve [where K = K and pid = pid and path = p and t = t1]
  then have *: "tb_calls t1 = tb_calls t" "tb_calls t2 = tb_calls t" "tb_requests t1 = tb_requests t"
    "tb_requests t2 = tb_requests t" "same_mode t t1" "same_mode t t2"
    using same_mode_trans by (auto simp: 1 2)
  show "tb_calls (snd (access_path K pid addr t)) = tb_calls t"
    "tb_requests (snd (access_path K pid addr t)) = tb_requests t"
    "same_mode t (snd (access_path K pid addr t))"
    by (simp_all add: access_path_def 1 2 *)
qed

text \<open>\<open>adds ops t t'\<close>: a step that only adds calls with the property, and no requests.\<close>

definition adds :: "(session_op \<Rightarrow> bool) \<Rightarrow> tracer \<Rightarrow> tracer \<Rightarrow> bool" where
  "adds P t t' \<longleftrightarrow> same_mode t t' \<and> tb_requests t' = tb_requests t
     \<and> (\<exists>ops. tb_calls t' = tb_calls t @ ops \<and> list_all P ops)"

lemma adds_refl [simp]: "adds P t t"
  by (simp add: adds_def)

lemma adds_trans: "adds P a b \<Longrightarrow> adds P b c \<Longrightarrow> adds P a c"
  unfolding adds_def by (auto dest: same_mode_trans)

lemma adds_call: "P op \<Longrightarrow> adds P t (call op t)"
  by (simp add: adds_def frame_simps)

lemma adds_upd_ps: "adds P t (upd_ps pid f t)"
  by (simp add: adds_def frame_simps)

lemma adds_call_after: "adds P a b \<Longrightarrow> P op \<Longrightarrow> adds P a (call op b)"
  using adds_trans [OF _ adds_call] .

lemma adds_upd_after: "adds P a b \<Longrightarrow> adds P a (upd_ps pid f b)"
  using adds_trans [OF _ adds_upd_ps] .

lemma adds_now: "adds P t (snd (now_us K t))"
  by (simp add: adds_def now_us_def same_mode_def)

text \<open>What the tracer reports: accesses to paths it does not filter, in one of the modes, and the calls about processes.\<close>

fun access_report :: "session_op \<Rightarrow> bool" where
  "access_report (Access rec) \<longleftrightarrow> \<not> should_filter_path (fa_filename rec) \<and> fa_mode rec \<in> range mode_val"
| "access_report (Failed rec) \<longleftrightarrow> \<not> should_filter_path (fl_filename rec) \<and> fl_mode rec \<in> range mode_val"
| "access_report _ \<longleftrightarrow> False"

fun process_report :: "session_op \<Rightarrow> bool" where
  "process_report (Access rec) \<longleftrightarrow> False"
| "process_report (Failed rec) \<longleftrightarrow> False"
| "process_report _ \<longleftrightarrow> True"

definition report_ok :: "session_op \<Rightarrow> bool" where
  "report_ok op \<longleftrightarrow> access_report op \<or> process_report op"

lemma report_ok_simps [simp]:
  "access_report op \<Longrightarrow> report_ok op" "process_report op \<Longrightarrow> report_ok op"
  by (simp_all add: report_ok_def)

lemma adds_mono: "adds P t t' \<Longrightarrow> (\<And>op. P op \<Longrightarrow> Q op) \<Longrightarrow> adds Q t t'"
  unfolding adds_def by (fastforce simp: list_all_iff)

lemma adds_report: "adds access_report t t' \<Longrightarrow> adds report_ok t t'"
  by (erule adds_mono) simp

lemma access_path_ok: "access_path K pid addr t = (Some p, t1) \<Longrightarrow> \<not> should_filter_path p"
  by (auto simp: access_path_def split: prod.splits if_splits)

lemma adds_record_access: "adds access_report t (record_access K pid addr mode fd t)"
proof -
  obtain r t1 where r: "access_path K pid addr t = (r, t1)" by fastforce
  with frame_access_path [where K = K and pid = pid and addr = addr and t = t] have t1: "adds access_report t t1" by (simp add: adds_def)
  show ?thesis
  proof (cases r)
    case (Some p)
    with r have "\<not> should_filter_path p" using access_path_ok by blast
    then have "adds access_report t1 (record_access K pid addr mode fd t)"
      using Some r adds_now [of _ t1 K] by (auto simp: record_access_def split: prod.splits intro: adds_call_after)
    with t1 show ?thesis by (rule adds_trans)
  qed (simp add: record_access_def r t1)
qed

lemma adds_record_failed_access: "adds access_report t (record_failed_access K pid addr mode e t)"
proof -
  obtain r t1 where r: "access_path K pid addr t = (r, t1)" by fastforce
  with frame_access_path [where K = K and pid = pid and addr = addr and t = t] have t1: "adds access_report t t1" by (simp add: adds_def)
  show ?thesis
  proof (cases r)
    case (Some p)
    with r have "\<not> should_filter_path p" using access_path_ok by blast
    then have "adds access_report t1 (record_failed_access K pid addr mode e t)"
      using Some r adds_now [of _ t1 K]
      by (auto simp: record_failed_access_def split: prod.splits intro: adds_call_after)
    with t1 show ?thesis by (rule adds_trans)
  qed (simp add: record_failed_access_def r t1)
qed

lemma adds_access_after: "adds access_report a t \<Longrightarrow> adds access_report a (record_access K pid addr mode fd t)"
  using adds_trans [OF _ adds_record_access] .

lemma adds_failed_after: "adds access_report a t \<Longrightarrow> adds access_report a (record_failed_access K pid addr mode e t)"
  using adds_trans [OF _ adds_record_failed_access] .

lemma adds_now_call: "P (f (fst (now_us K t))) \<Longrightarrow> adds P t (case now_us K t of (now, t2) \<Rightarrow> call (f now) t2)"
  using adds_now [of P t K] by (auto split: prod.splits intro: adds_call_after)

lemmas adds_intros = adds_refl adds_upd_after adds_access_after adds_failed_after adds_call_after

lemma adds_record_one: "adds access_report a t \<Longrightarrow> adds access_report a (record_one K pid rv addr mode t)"
  by (simp add: record_one_def adds_intros)

lemma adds_record_two: "adds access_report t (record_two K pid rv ps m1 m2 t)"
  by (simp add: record_two_def adds_record_one)

lemma adds_record_both: "adds access_report t (record_both K pid rv ps mode fd t)"
  by (simp add: record_both_def adds_intros)

lemma adds_record_fchdir: "adds access_report t (record_fchdir K pid t)"
proof -
  define t1 where "t1 = upd_ps pid (\<lambda>ps. ps\<lparr>ps_cwd := k_link K pid ''cwd''\<rparr>) t"
  have t1: "adds access_report t t1" by (simp add: t1_def adds_upd_ps)
  have "adds access_report t1 (record_fchdir K pid t)"
    by (auto simp: record_fchdir_def t1_def [symmetric] Let_def simp del: mode_val.simps intro!: adds_now_call)
  with t1 show ?thesis by (rule adds_trans)
qed

lemma adds_if: "(b \<Longrightarrow> adds P t x) \<Longrightarrow> (\<not> b \<Longrightarrow> adds P t y) \<Longrightarrow> adds P t (if b then x else y)"
  by simp

lemma adds_record_exit: "adds access_report t (record_exit K pid rv ps t)"
  unfolding record_exit_def Let_def
  by (intro adds_if adds_refl adds_record_one adds_record_two adds_record_both
      adds_record_fchdir adds_upd_after adds_record_access)

lemma adds_record_exit_after:
  "adds access_report a t \<Longrightarrow> adds access_report a (record_exit K pid rv ps t)"
  using adds_trans [OF _ adds_record_exit] .

lemma adds_resync: "adds P t (t\<lparr>cnt_phase_resyncs := n\<rparr>)"
  by (simp add: adds_def same_mode_def)

lemma adds_syscall_stop_regs: "adds access_report t (syscall_stop_regs K pid ps regs t)"
  unfolding syscall_stop_regs_def Let_def
  by (intro adds_if adds_refl adds_resync adds_record_exit_after adds_upd_after)

lemma adds_handle_syscall_stop: "adds access_report t (handle_syscall_stop K pid t)"
proof -
  have "adds access_report t (upd_ps pid f (t\<lparr>cnt_getregs_skipped := n\<rparr>))" for f n
    by (rule adds_upd_after) (simp add: adds_def same_mode_def)
  then show ?thesis
    by (auto simp: handle_syscall_stop_def adds_syscall_stop_regs split: option.splits)
qed

lemma adds_handle_fork_event: "adds report_ok t (handle_fork_event K pid t)"
proof -
  have "adds report_ok t (register_child c pid cwd cmd (drop_stale c t))" for c cwd cmd
    by (auto simp: register_child_def drop_stale_def adds_def same_mode_def Let_def split: option.splits)
  then show ?thesis
    by (auto simp: handle_fork_event_def Let_def intro!: adds_trans [OF _ adds_now_call])
qed

lemma adds_record_exe: "adds access_report t (record_exe K pid t)"
  by (auto simp: record_exe_def Let_def simp del: mode_val.simps intro!: adds_now_call)

lemma adds_handle_exec_event: "adds report_ok t (handle_exec_event K pid t)"
proof -
  have "adds report_ok t (upd_ps pid f (record_exe K pid t))" for f
    by (rule adds_upd_after [OF adds_report [OF adds_record_exe]])
  then have "adds report_ok t (snd (now_us K (upd_ps pid f (record_exe K pid t))))" for f
    by (rule adds_trans [OF _ adds_now])
  then show ?thesis
    by (simp add: handle_exec_event_def Let_def split_beta adds_call_after)
qed

lemma adds_handle_exit_event: "adds report_ok t (handle_exit_event K pid t)"
  by (simp add: handle_exit_event_def adds_upd_ps split: prod.splits)

section \<open>Every stop is resumed\<close>

fun is_resume :: "int \<Rightarrow> request \<Rightarrow> bool" where
  "is_resume pid (PTRACE_CONT p sig) = (p = pid)"
| "is_resume pid (PTRACE_SYSCALL p sig) = (p = pid)"
| "is_resume pid _ = False"

text \<open>No resume of the pid is lost: whenever it is looked at, it is not in a tracing stop.\<close>

definition looks_running :: "kernel \<Rightarrow> int \<Rightarrow> bool" where
  "looks_running K pid \<longleftrightarrow>
     (\<forall>n. \<not> (\<exists>i \<le> length (read_proc_state (k_status K pid n)).
               starts_with (drop i (read_proc_state (k_status K pid n))) ''tracing''))"

lemma kick_running: "looks_running K pid \<Longrightarrow> kick_if_stuck K pid sig t = (False, t)"
  unfolding kick_if_stuck_def numeral_3_eq_3 kick_attempts.simps looks_running_def by simp

lemma resume_running:
  "looks_running K pid \<Longrightarrow> tb_drop_nth t < 0 \<Longrightarrow> resume K pid sig t = req (resume_request t pid sig) t"
  by (simp add: resume_def Let_def kick_running)

text \<open>Between two logs: only requests that resume nobody.\<close>

definition quiet :: "tracer \<Rightarrow> tracer \<Rightarrow> bool" where
  "quiet t t' \<longleftrightarrow> same_mode t t'
     \<and> (\<exists>pre. tb_requests t' = tb_requests t @ pre \<and> list_all (\<lambda>r. \<forall>pid. \<not> is_resume pid r) pre)"

lemma quiet_refl [simp]: "quiet t t"
  by (simp add: quiet_def)

lemma quiet_trans: "quiet a b \<Longrightarrow> quiet b c \<Longrightarrow> quiet a c"
  unfolding quiet_def by (auto dest: same_mode_trans)

lemma quiet_adds: "adds P t t' \<Longrightarrow> quiet t t'"
  by (simp add: quiet_def adds_def)

lemma setup_child_frame [frame_simps]:
  "tb_procs (setup_child K pid t) = tb_procs t" "tb_calls (setup_child K pid t) = tb_calls t"
  "tb_clock (setup_child K pid t) = tb_clock t"
  by (simp_all add: setup_child_def set_ptrace_options_def set_options_def frame_simps split: bool.splits)

lemma quiet_setup_child: "quiet t (setup_child K pid t)"
proof -
  have "quiet t (req (PTRACE_SETOPTIONS pid o1) t)" for o1 t
    by (simp add: quiet_def frame_simps)
  then show ?thesis
    using quiet_trans
    by (simp add: setup_child_def set_ptrace_options_def set_options_def split: bool.splits) blast
qed

lemma quiet_ensure_known: "quiet t (ensure_known K pid st t)"
proof -
  have "quiet t (t\<lparr>tb_procs := m\<rparr>)" "quiet t (t\<lparr>cnt_race_unknown_first := n\<rparr>)" for m n and t :: tracer
    by (simp_all add: quiet_def same_mode_def)
  then show ?thesis
    using quiet_trans [OF _ quiet_setup_child] quiet_trans
    by (simp add: ensure_known_def Let_def split: option.splits wait_status.splits) blast
qed

lemma ensure_known_get: "om_get (tb_procs (ensure_known K pid st t)) pid \<noteq> None"
  by (auto simp: ensure_known_def Let_def om_get_put frame_simps split: option.splits wait_status.splits)

text \<open>The signal a stop passes on.\<close>

definition delivered :: "int \<Rightarrow> int \<Rightarrow> bool \<Rightarrow> int" where
  "delivered sig event traced =
    (if event \<in> {PTRACE_EVENT_FORK, PTRACE_EVENT_VFORK, PTRACE_EVENT_CLONE, PTRACE_EVENT_EXEC,
                 PTRACE_EVENT_EXIT, PTRACE_EVENT_SECCOMP}
        \<or> sig = SIGTRAP + 0x80 \<or> sig = SIGTRAP \<or> sig = SIGSTOP \<and> \<not> traced
     then 0 else sig)"

text \<open>\<open>resumed pid sig t t'\<close>: exactly one resume of the pid, at the end, with the signal.\<close>

definition resumed :: "int \<Rightarrow> int \<Rightarrow> tracer \<Rightarrow> tracer \<Rightarrow> bool" where
  "resumed pid sig t t' \<longleftrightarrow>
     (\<exists>pre r. tb_requests t' = tb_requests t @ pre @ [r] \<and> r \<in> {PTRACE_CONT pid sig, PTRACE_SYSCALL pid sig}
        \<and> (\<forall>x \<in> set pre. \<not> is_resume pid x))"

lemma resumed_req: "quiet t t' \<Longrightarrow> r \<in> {PTRACE_CONT pid sig, PTRACE_SYSCALL pid sig} \<Longrightarrow> resumed pid sig t (req r t')"
  unfolding quiet_def resumed_def list_all_iff by (fastforce simp: frame_simps)

lemma resumed_resume:
  assumes "looks_running K pid" and "tb_drop_nth t < 0" and "quiet t t'"
  shows "resumed pid sig t (resume K pid sig t')"
proof -
  have "tb_drop_nth t' < 0" using assms(2,3) by (simp add: quiet_def same_mode_def)
  then have "resume K pid sig t' = req (resume_request t' pid sig) t'" using assms(1) by (rule resume_running [rotated])
  moreover have "resume_request t' pid sig \<in> {PTRACE_CONT pid sig, PTRACE_SYSCALL pid sig}"
    by (simp add: resume_request_def)
  ultimately show ?thesis using resumed_req [OF assms(3)] by simp
qed

lemma quiet_counter:
  "quiet t (t\<lparr>cnt_fork_events := n\<rparr>)" "quiet t (t\<lparr>cnt_exec_events := n\<rparr>)"
  "quiet t (t\<lparr>cnt_plain_sigtrap := n\<rparr>)" "quiet t (t\<lparr>cnt_sigstop_swallowed := n\<rparr>)"
  "quiet t (t\<lparr>cnt_sig_reinjected := n\<rparr>)" "quiet t (t\<lparr>cnt_sigstop_reinjected := n\<rparr>)"
  "quiet t (t\<lparr>cnt_seccomp_stops := n\<rparr>)"
  by (simp_all add: quiet_def same_mode_def)

lemma resumed_seccomp:
  assumes "om_get (tb_procs t') pid \<noteq> None" and "quiet t t'"
  shows "resumed pid 0 t (handle_seccomp_stop K pid t')"
proof -
  have "quiet t (upd_ps pid f t')" for f
    using quiet_trans [OF assms(2) quiet_adds [OF adds_upd_ps]] .
  with assms show ?thesis
    by (auto simp: handle_seccomp_stop_def Let_def resumed_req split: option.splits)
qed

lemma resumed_stop:
  assumes run: "looks_running K pid" and drop: "tb_drop_nth t < 0" and known: "om_get (tb_procs t) pid \<noteq> None"
  shows "resumed pid (delivered sig ev (is_traced pid t)) t (handle_stop K pid sig ev t)"
proof -
  note go = resumed_resume [OF run drop]
  note q = quiet_adds quiet_trans [OF quiet_counter(1) quiet_adds [OF adds_handle_fork_event]]
    quiet_trans [OF quiet_counter(2) quiet_adds [OF adds_handle_exec_event]]
    quiet_adds [OF adds_handle_exit_event] quiet_adds [OF adds_handle_syscall_stop] quiet_counter
  have "resumed pid 0 t (handle_sigstop K pid t)"
  proof -
    define t1 where "t1 = upd_ps pid (\<lambda>ps. ps\<lparr>ps_traced := True\<rparr>) (setup_child K pid t)"
    have "quiet t (t1\<lparr>cnt_sigstop_swallowed := Suc (cnt_sigstop_swallowed t1)\<rparr>)"
      unfolding t1_def by (rule quiet_trans [OF quiet_trans [OF quiet_setup_child quiet_adds [OF adds_upd_ps]] quiet_counter(4)])
    from go [OF this] show ?thesis
      by (simp add: handle_sigstop_def t1_def [symmetric] Let_def kick_running [OF run])
  qed
  moreover have "resumed pid 0 t (handle_seccomp_stop K pid (t\<lparr>cnt_seccomp_stops := n\<rparr>))" for n
    by (rule resumed_seccomp) (use known in \<open>simp_all add: quiet_counter\<close>)
  moreover have "resumed pid sig t (reinject K pid sig t)"
    unfolding reinject_def Let_def
    by (intro go quiet_trans [OF _ quiet_counter(5)]) (simp add: quiet_counter)
  ultimately show ?thesis
    by (auto simp: handle_stop_def delivered_def intro!: go q)
qed


lemma no_kernel_running: "looks_running no_kernel pid"
  by (simp add: looks_running_def no_kernel_def read_proc_state_def starts_with_def)


end
