(* ===== verification/Tracer_Inv.thy ===== *)
theory Tracer_Inv
  imports Tracer_Proofs
begin

text \<open>
  The invariant of the tracer's process map, over every handler and the whole loop, and what it
  gives: the fast path that skips \<open>PTRACE_GETREGS\<close> loses nothing.
\<close>

section \<open>The invariant of the process map\<close>

text \<open>An entry whose exit need not be inspected has no saved path and no pending \<open>fchdir\<close>.\<close>

definition ps_ok :: "ProcessState \<Rightarrow> bool" where
  "ps_ok ps \<longleftrightarrow> (ps_exit_needed ps \<or> ps_path_addr ps = 0 \<and> ps_pending_syscall ps \<noteq> SYS_FCHDIR_NR)"

definition procs_ok :: "(int, ProcessState) omap \<Rightarrow> bool" where
  "procs_ok m \<longleftrightarrow> om_inv m \<and> (\<forall>p ps. om_get m p = Some ps \<longrightarrow> ps_pid ps = p \<and> ps_ok ps)"

lemma procs_ok_Nil [simp]: "procs_ok []"
  by (simp add: procs_ok_def)

lemma procs_ok_put: "procs_ok m \<Longrightarrow> ps_pid ps = p \<Longrightarrow> ps_ok ps \<Longrightarrow> procs_ok (om_put p ps m)"
  by (simp add: procs_ok_def om_simps)

lemma procs_ok_del: "procs_ok m \<Longrightarrow> procs_ok (om_del p m)"
  by (simp add: procs_ok_def om_simps)

lemma procs_ok_get: "procs_ok m \<Longrightarrow> om_get m p = Some ps \<Longrightarrow> ps_pid ps = p \<and> ps_ok ps"
  by (simp add: procs_ok_def)

text \<open>\<open>good t\<close>: the state invariant of the loop.\<close>

definition good :: "tracer \<Rightarrow> bool" where
  "good t \<longleftrightarrow> procs_ok (tb_procs t) \<and> list_all report_ok (tb_calls t)"

definition good_upd :: "(ProcessState \<Rightarrow> ProcessState) \<Rightarrow> bool" where
  "good_upd f \<longleftrightarrow> (\<forall>ps. ps_pid (f ps) = ps_pid ps \<and> (ps_ok ps \<longrightarrow> ps_ok (f ps)))"

lemma procs_ok_upd_ps:
  assumes "procs_ok (tb_procs t)"
    and "\<And>ps. om_get (tb_procs t) pid = Some ps \<Longrightarrow> ps_pid (f ps) = ps_pid ps \<and> ps_ok (f ps)"
  shows "procs_ok (tb_procs (upd_ps pid f t))"
  using assms procs_ok_get [OF assms(1)]
  by (auto simp: upd_ps_def split: option.splits intro!: procs_ok_put)

lemma procs_ok_good_upd:
  "procs_ok (tb_procs t) \<Longrightarrow> good_upd f \<Longrightarrow> procs_ok (tb_procs (upd_ps pid f t))"
  by (rule procs_ok_upd_ps) (auto simp: good_upd_def dest: procs_ok_get)

lemma good_upds:
  "good_upd (\<lambda>ps. ps\<lparr>ps_cwd := c\<rparr>)" "good_upd (\<lambda>ps. ps\<lparr>ps_sc_phase := ph\<rparr>)"
  "good_upd (\<lambda>ps. ps\<lparr>ps_traced := b\<rparr>)" "good_upd (decode_syscall_entry regs nr)"
  "good_upd reset_pending" "good_upd (exec_ps cwd cmd)"
  "good_upd (\<lambda>ps. ps\<lparr>ps_sc_phase := ph, ps_pending_syscall := -1\<rparr>)"
  "good_upd (\<lambda>ps. ps\<lparr>ps_user_time := u, ps_sys_time := s, ps_peak_rss := r, ps_io_read := i, ps_io_write := w\<rparr>)"
  by (auto simp: good_upd_def ps_ok_def decode_syscall_entry_def reset_pending_def exec_ps_def close_mem_fd_def
      sys_nrs split: prod.splits)

text \<open>Recording an access changes the caches of the entries only.\<close>

definition uncache :: "ProcessState \<Rightarrow> ProcessState" where
  "uncache ps = ps\<lparr>ps_mem_fd := 0, ps_cwd := []\<rparr>"

definition caches :: "tracer \<Rightarrow> tracer \<Rightarrow> bool" where
  "caches t t' \<longleftrightarrow> (om_inv (tb_procs t) \<longrightarrow> om_inv (tb_procs t'))
     \<and> (\<forall>p. map_option uncache (om_get (tb_procs t') p) = map_option uncache (om_get (tb_procs t) p))"

lemma caches_refl [simp]: "caches t t"
  by (simp add: caches_def)

lemma caches_trans: "caches a b \<Longrightarrow> caches b c \<Longrightarrow> caches a c"
  by (simp add: caches_def)

lemma caches_procs: "tb_procs t' = tb_procs t \<Longrightarrow> caches t t'"
  by (simp add: caches_def)

lemma caches_upd:
  assumes "\<And>ps. om_get (tb_procs t) pid = Some ps \<Longrightarrow> uncache (f ps) = uncache ps"
  shows "caches t (upd_ps pid f t)"
  using assms by (auto simp: caches_def upd_ps_def om_simps split: option.splits)

lemma caches_cwd: "caches a t \<Longrightarrow> caches a (upd_ps pid (\<lambda>ps. ps\<lparr>ps_cwd := c\<rparr>) t)"
  by (erule caches_trans, rule caches_upd) (simp add: uncache_def)

lemma caches_read_string: "caches t (snd (read_string K pid addr t))"
proof -
  have ps: "uncache (fst (read_string_mem K ps addr n)) = uncache ps" for ps n
    by (simp add: read_string_mem_def Let_def uncache_def)
  have "caches t (upd_ps pid (\<lambda>_. ps') t)"
    if "om_get (tb_procs t) pid = Some ps" "read_string_mem K ps addr n = (ps', r)" for ps ps' n r
    by (rule caches_upd) (use that ps [of ps n] in auto)
  moreover have "caches t (u\<lparr>cnt_mem_reads := i\<rparr>)" "caches t (u\<lparr>cnt_peek_fallbacks := i\<rparr>)" if "caches t u" for u i
    using that by (simp_all add: caches_def)
  ultimately show ?thesis by (auto simp: read_string_def Let_def split: prod.splits option.splits)
qed

lemma caches_resolve: "caches t (snd (resolve_path_cached K pid path t))"
  by (auto simp: resolve_path_cached_def Let_def caches_cwd split: prod.splits option.splits)

lemma caches_access_path: "caches t (snd (access_path K pid addr t))"
proof -
  obtain p t1 where 1: "read_string K pid addr t = (p, t1)" by fastforce
  obtain q t2 where 2: "resolve_path_cached K pid p t1 = (q, t2)" by fastforce
  have "caches t t1" using caches_read_string [of t K pid addr] 1 by simp
  moreover have "caches t1 t2" using caches_resolve [of t1 K pid p] 2 by simp
  ultimately show ?thesis by (auto simp: access_path_def 1 2 intro: caches_trans)
qed

lemma procs_now [simp]: "tb_procs (snd (now_us K t)) = tb_procs t"
  by (simp add: now_us_def)

lemma caches_now_call: "caches a t \<Longrightarrow> caches a (case now_us K t of (now, t2) \<Rightarrow> call (f now) t2)"
  by (simp add: caches_def frame_simps split_beta)

lemma caches_call: "caches a t \<Longrightarrow> caches a (call op (snd (now_us K t)))"
  by (simp add: caches_def frame_simps)

lemma caches_record_access: "caches a t \<Longrightarrow> caches a (record_access K pid addr mode fd t)"
  using caches_trans [OF _ caches_access_path [of t K pid addr]]
  by (simp add: record_access_def split_beta caches_call split: option.split)

lemma caches_record_failed: "caches a t \<Longrightarrow> caches a (record_failed_access K pid addr mode e t)"
  using caches_trans [OF _ caches_access_path [of t K pid addr]]
  by (simp add: record_failed_access_def split_beta caches_call split: option.split)

lemma caches_if: "(b \<Longrightarrow> caches a x) \<Longrightarrow> (\<not> b \<Longrightarrow> caches a y) \<Longrightarrow> caches a (if b then x else y)"
  by simp

lemma caches_record_one: "caches a t \<Longrightarrow> caches a (record_one K pid rv addr mode t)"
  by (simp add: record_one_def caches_record_access)

lemma caches_record_two: "caches a t \<Longrightarrow> caches a (record_two K pid rv ps m1 m2 t)"
  by (simp add: record_two_def caches_record_one)

lemma caches_record_both: "caches a t \<Longrightarrow> caches a (record_both K pid rv ps mode fd t)"
  by (simp add: record_both_def caches_record_access caches_record_failed)

lemma caches_record_fchdir: "caches a t \<Longrightarrow> caches a (record_fchdir K pid t)"
  by (simp add: record_fchdir_def Let_def caches_now_call caches_cwd)

lemma caches_record_exit: "caches t (record_exit K pid rv ps t)"
  unfolding record_exit_def Let_def
  by (intro caches_if caches_record_one caches_record_two caches_record_both caches_record_fchdir
      caches_record_access caches_cwd caches_refl)

lemma procs_ok_caches:
  assumes "caches t t'" and "procs_ok (tb_procs t)"
  shows "procs_ok (tb_procs t')"
  unfolding procs_ok_def
proof (intro conjI allI impI)
  show "om_inv (tb_procs t')" using assms by (simp add: caches_def procs_ok_def)
  fix p x assume "om_get (tb_procs t') p = Some x"
  with assms(1) obtain y where y: "om_get (tb_procs t) p = Some y" "uncache x = uncache y"
    unfolding caches_def by (metis (no_types, lifting) map_option_eq_Some option.simps(9))
  then have "ps_pid x = ps_pid y" "ps_ok x = ps_ok y"
    by (cases x; cases y; simp add: uncache_def ps_ok_def)+
  with procs_ok_get [OF assms(2) y(1)] show "ps_pid x = p" "ps_ok x" by simp_all
qed

lemma procs_ok_record_exit: "procs_ok (tb_procs t) \<Longrightarrow> procs_ok (tb_procs (record_exit K pid rv ps t))"
  by (rule procs_ok_caches [OF caches_record_exit])

lemma procs_ok_syscall_stop: "procs_ok (tb_procs t) \<Longrightarrow> procs_ok (tb_procs (handle_syscall_stop K pid t))"
  by (auto simp: handle_syscall_stop_def syscall_stop_regs_def Let_def
      intro!: procs_ok_good_upd procs_ok_record_exit good_upds split: option.splits)

lemma procs_ok_seccomp_stop: "procs_ok (tb_procs t) \<Longrightarrow> procs_ok (tb_procs (handle_seccomp_stop K pid t))"
  by (auto simp: handle_seccomp_stop_def Let_def frame_simps decode_syscall_entry_def ps_ok_def sys_nrs
      procs_ok_get intro!: procs_ok_upd_ps split: option.splits prod.splits)

lemma procs_ok_fork: "procs_ok (tb_procs t) \<Longrightarrow> procs_ok (tb_procs (handle_fork_event K pid t))"
proof -
  assume ok: "procs_ok (tb_procs t)"
  have stale: "procs_ok (tb_procs (drop_stale c t))" for c
    using ok by (simp add: drop_stale_def procs_ok_del split: option.splits)
  have "procs_ok (tb_procs (register_child c pid cwd cmd u))" if "procs_ok (tb_procs u)" for c cwd cmd u
    using that procs_ok_get [OF that, of c]
    by (auto simp: register_child_def Let_def ProcessState_new_def ps_ok_def sys_nrs split: option.splits intro!: procs_ok_put)
  with ok stale show ?thesis by (simp add: handle_fork_event_def Let_def now_us_def frame_simps)
qed

lemma procs_ok_exec: "procs_ok (tb_procs t) \<Longrightarrow> procs_ok (tb_procs (handle_exec_event K pid t))"
proof -
  assume ok: "procs_ok (tb_procs t)"
  then have "procs_ok (tb_procs (record_exe K pid t))" by (simp add: record_exe_def Let_def now_us_def frame_simps)
  then have "procs_ok (tb_procs (upd_ps pid (exec_ps c d) (record_exe K pid t)))" for c d
    by (intro procs_ok_good_upd good_upds)
  then show ?thesis by (simp add: handle_exec_event_def Let_def now_us_def frame_simps)
qed

lemma procs_ok_exit_event: "procs_ok (tb_procs t) \<Longrightarrow> procs_ok (tb_procs (handle_exit_event K pid t))"
  by (auto simp: handle_exit_event_def intro!: procs_ok_good_upd good_upds split: prod.splits)

section \<open>The whole loop\<close>

lemma kick_frame: "tb_procs (snd (kick_attempts K pid sig n look k t)) = tb_procs t
    \<and> tb_calls (snd (kick_attempts K pid sig n look k t)) = tb_calls t"
  by (induction n arbitrary: look k t) (simp_all add: frame_simps)

lemma resume_frame [frame_simps]:
  "tb_procs (snd (kick_if_stuck K pid sig t)) = tb_procs t" "tb_calls (snd (kick_if_stuck K pid sig t)) = tb_calls t"
  "tb_procs (resume K pid sig t) = tb_procs t" "tb_calls (resume K pid sig t) = tb_calls t"
  by (simp_all add: resume_def Let_def kick_if_stuck_def kick_frame frame_simps)

lemma good_adds: "good t \<Longrightarrow> adds report_ok t t' \<Longrightarrow> procs_ok (tb_procs t') \<Longrightarrow> good t'"
  by (auto simp: good_def adds_def)

lemma good_same: "good t \<Longrightarrow> tb_procs t' = tb_procs t \<Longrightarrow> tb_calls t' = tb_calls t \<Longrightarrow> good t'"
  by (simp add: good_def)

lemma good_procs: "good t \<Longrightarrow> procs_ok (tb_procs t)"
  by (simp add: good_def)

lemma good_resume [simp]: "good (resume K pid sig t) = good t"
  by (simp add: good_def frame_simps)

lemma good_handlers:
  assumes "good t"
  shows "good (handle_syscall_stop K pid t)" "good (handle_fork_event K pid t)"
    "good (handle_exec_event K pid t)" "good (handle_exit_event K pid t)"
  by (rule good_adds [OF assms], rule adds_report [OF adds_handle_syscall_stop] adds_handle_fork_event adds_handle_exec_event
      adds_handle_exit_event, rule procs_ok_syscall_stop procs_ok_fork procs_ok_exec procs_ok_exit_event,
      rule good_procs [OF assms])+

lemma good_seccomp: "good t \<Longrightarrow> good (handle_seccomp_stop K pid t)"
  using procs_ok_seccomp_stop [of t K pid]
  by (auto simp: good_def handle_seccomp_stop_def Let_def frame_simps split: option.splits)

lemma good_counter:
  assumes "good t"
  shows "good (t\<lparr>cnt_fork_events := n\<rparr>)" "good (t\<lparr>cnt_exec_events := n\<rparr>)" "good (t\<lparr>cnt_plain_sigtrap := n\<rparr>)"
    "good (t\<lparr>cnt_seccomp_stops := n\<rparr>)" "good (t\<lparr>cnt_sigstop_swallowed := n\<rparr>)" "good (t\<lparr>cnt_sig_ignored := n\<rparr>)"
    "good (t\<lparr>cnt_sigstop_reinjected := n\<rparr>)" "good (t\<lparr>cnt_sig_reinjected := n\<rparr>)"
    "good (t\<lparr>tb_last_event := i, tb_last_stall_report := j\<rparr>)" "good (t\<lparr>tb_last_stall_report := j\<rparr>)"
  using assms by (simp_all add: good_def)

lemma good_sigstop: "good t \<Longrightarrow> good (handle_sigstop K pid t)"
proof -
  assume "good t"
  then have "good (upd_ps pid (\<lambda>ps. ps\<lparr>ps_traced := True\<rparr>) (setup_child K pid t))"
    by (simp add: good_def frame_simps procs_ok_good_upd good_upds)
  then show ?thesis by (simp add: handle_sigstop_def Let_def good_def frame_simps)
qed

lemma good_stop: "good t \<Longrightarrow> good (handle_stop K pid sig ev t)"
proof -
  assume g: "good t"
  have "good (reinject K pid sig t)" using g by (simp add: reinject_def Let_def good_def frame_simps)
  then show ?thesis
    unfolding handle_stop_def using g
    by (simp add: good_handlers good_seccomp good_counter good_sigstop)
qed

lemma good_ensure_known: "good t \<Longrightarrow> good (ensure_known K pid st t)"
proof -
  assume g: "good t"
  have "procs_ok (om_put pid (ProcessState_new pid 0) (tb_procs t))"
    using good_procs [OF g] by (rule procs_ok_put) (simp_all add: ProcessState_new_def ps_ok_def sys_nrs)
  with g show ?thesis
    by (simp add: ensure_known_def Let_def good_def frame_simps split: option.splits wait_status.splits)
qed

lemma good_death: "good t \<Longrightarrow> good (handle_death K pid c t)"
  by (simp add: handle_death_def now_us_def good_def frame_simps procs_ok_del split: option.splits)

lemma good_status: "good t \<Longrightarrow> good (handle_status K pid st t)"
  using good_ensure_known [of t K pid]
  by (simp add: handle_status_def Let_def good_death good_stop split: wait_status.splits)

lemma good_check_stall: "good t \<Longrightarrow> good (check_stall K t)"
proof -
  assume g: "good t"
  have one: "good (recover_one K pid u)" if "good u" for pid u
    using resume_frame(1,2) [of K pid 0 u] that
    by (auto simp: recover_one_def good_def split: prod.splits bool.splits)
  have "good (snd (now_us K t))" using g by (simp add: now_us_def good_def)
  then have "good (fold (recover_one K) ps (snd (now_us K t)))" for ps
    by (rule fold_keeps) (rule one)
  with g show ?thesis by (simp add: check_stall_def Let_def split_beta good_counter)
qed

lemma good_now: "good t \<Longrightarrow> good (snd (now_us K t))"
  by (simp add: now_us_def good_def)

lemma good_signal: "good t \<Longrightarrow> good (snd (handle_signal K s t))"
  by (auto simp: handle_signal_def now_us_def good_def frame_simps split: option.splits prod.splits)

lemma good_drain: "good t \<Longrightarrow> good (snd (drain_expired K t))"
  by (simp add: drain_expired_def now_us_def good_def)

lemma good_wait: "good t \<Longrightarrow> good (snd (handle_wait K w t))"
  using good_status [OF good_counter(9) [OF good_now [of t K]]]
  by (simp add: handle_wait_def good_check_stall split_beta split: wait_result.splits)

lemma good_iteration: "good t \<Longrightarrow> good (snd (loop_iteration i t))"
proof -
  assume "good t"
  from good_signal [OF good_now [OF this]] have 1: "good (snd (handle_signal K s (snd (now_us K t))))" for K s .
  from good_drain [OF 1] have 2: "good (snd (drain_expired K (snd (handle_signal K s (snd (now_us K t))))))" for K s .
  from good_wait [OF 2] 1 2 good_now [OF \<open>good t\<close>] show ?thesis
    unfolding loop_iteration_def Let_def
    by (simp add: split_beta split: bool.splits)
qed

lemma good_event_loop: "good t \<Longrightarrow> good (snd (event_loop is t))"
proof (induction "is" t rule: event_loop.induct)
  case (2 i "is" t)
  from good_iteration [OF 2(2), of i] 2 show ?case
    by (cases "loop_iteration i t") (auto split: bool.splits)
qed simp

lemma good_run_event_loop: "good t \<Longrightarrow> good (snd (run_event_loop is t))"
proof -
  assume g: "good t"
  then have "good (t\<lparr>tb_clock := c, tb_last_event := n\<rparr>)" for c n by (simp add: good_def)
  with g show ?thesis
    by (simp add: run_event_loop_def now_us_def good_event_loop del: event_loop.simps split: list.splits)
qed

lemma good_start: "good (snd (start K a ack self pid (PtraceBackend_new po dn)))"
proof -
  have opts: "tb_procs (snd (set_ptrace_options K pid t)) = tb_procs t"
    "tb_calls (snd (set_ptrace_options K pid t)) = tb_calls t" for t
    using setup_child_frame(1,2) [of K pid t] by (simp_all add: setup_child_def)
  have "tb_procs (snd (start_options K a ack pid t)) = tb_procs t \<and> tb_calls (snd (start_options K a ack pid t)) = tb_calls t" for t
    using opts [of "t\<lparr>tb_seccomp_mode := True\<rparr>"]
    by (auto simp: start_options_def frame_simps split: prod.splits bool.splits)
  then have "good (snd (start_options K a ack pid ((PtraceBackend_new po dn)\<lparr>tb_root_pid := pid\<rparr>)))"
    by (simp add: good_def PtraceBackend_new_def)
  moreover have "procs_ok (om_put pid ((ProcessState_new pid self)\<lparr>ps_cwd := c, ps_cmdline := d\<rparr>) m)"
    if "procs_ok m" for m c d
    using that by (rule procs_ok_put) (simp_all add: ProcessState_new_def ps_ok_def sys_nrs)
  ultimately show ?thesis
    by (auto simp: start_def Let_def now_us_def good_def frame_simps split: prod.splits bool.splits)
qed

text \<open>C14. Whatever the kernel reports, in any order: after \<open>start\<close> and the event loop, the tracer has
  never reported an access to a path it filters (\<open>/dev/\<close>, \<open>/proc/\<close>, or shorter than two characters; the test
  for \<open>/sys/\<close> never holds) or in a mode that is none of the enumeration, its process map is ordered and keyed by each entry's own pid, and an entry whose
  exit need not be inspected has nothing pending.\<close>

theorem tracer_invariant:
  "good (snd (run_event_loop is (snd (start K a ack self pid (PtraceBackend_new po dn)))))"
  by (rule good_run_event_loop [OF good_start])

section \<open>The fast path\<close>

lemma record_exit_nothing:
  assumes "ps_path_addr ps = 0" and "ps_pending_syscall ps \<noteq> SYS_FCHDIR_NR" and "as_long rv < 0 \<or> ps_path_addr2 ps = 0"
  shows "record_exit K pid rv ps t = t"
proof -
  have skip: "(b \<Longrightarrow> x = t) \<Longrightarrow> (\<not> b \<Longrightarrow> y = t) \<Longrightarrow> (if b then x else y) = t" for b and x y :: tracer by simp
  have one: "record_one K pid (as_long rv) (ps_path_addr ps) m t = t" for m using assms(1) by (simp add: record_one_def)
  have two: "record_two K pid (as_long rv) ps m m' t = t" for m m'
    using assms(1,3) by (auto simp: record_two_def record_one_def)
  have both: "record_both K pid rv ps m fd t = t" for m fd using assms(1) by (simp add: record_both_def)
  show ?thesis unfolding record_exit_def Let_def
    by (intro skip one two both refl) (use assms(1,2) in simp_all)
qed

text \<open>What the slow path and the fast path leave in the process map differs in the dead second address only.\<close>

lemma fast_slow_procs:
  assumes "om_get m pid = Some ps" and "ps_path_addr ps = 0" and "\<not> ps_exit_needed ps"
  shows "reset_pending (ps\<lparr>ps_sc_phase := SC_PHASE_ENTRY_NEXT\<rparr>) =
    ps\<lparr>ps_sc_phase := SC_PHASE_ENTRY_NEXT, ps_pending_syscall := -1, ps_path_addr2 := 0\<rparr>"
  using assms(2,3) by (simp add: reset_pending_def)

lemma om_put_put: "om_put k v (om_put k w m) = om_put k v m"
  by (induction m) auto

text \<open>C21. Skipping \<open>PTRACE_GETREGS\<close> at the exit of a system call that is not recorded is an
  optimisation: in every state of the loop, the handler reports the same calls as it would after
  reading the registers, and leaves the same process map but for an address nobody reads.\<close>

theorem fast_path_equivalent:
  assumes "good t" and "om_get (tb_procs t) pid = Some ps"
    and "ps_sc_phase ps = SC_PHASE_EXIT_NEXT" and "\<not> ps_exit_needed ps"
    and "as_long (rax regs) \<noteq> - ENOSYS" and "as_long (rax regs) < 0 \<or> ps_path_addr2 ps = 0"
  shows "tb_calls (handle_syscall_stop K pid t) = tb_calls (syscall_stop_regs K pid ps regs t)
    \<and> tb_procs (upd_ps pid (\<lambda>p. p\<lparr>ps_path_addr2 := 0\<rparr>) (handle_syscall_stop K pid t)) =
       tb_procs (syscall_stop_regs K pid ps regs t)"
proof
  have ok: "ps_path_addr ps = 0" "ps_pending_syscall ps \<noteq> SYS_FCHDIR_NR"
    using procs_ok_get [OF good_procs [OF assms(1)] assms(2)] assms(4) by (simp_all add: ps_ok_def)
  note idle = record_exit_nothing [OF ok assms(6)]
  show "tb_calls (handle_syscall_stop K pid t) = tb_calls (syscall_stop_regs K pid ps regs t)"
    using assms(2-5) by (simp add: handle_syscall_stop_def syscall_stop_regs_def idle frame_simps Let_def)
  show "tb_procs (upd_ps pid (\<lambda>p. p\<lparr>ps_path_addr2 := 0\<rparr>) (handle_syscall_stop K pid t)) =
      tb_procs (syscall_stop_regs K pid ps regs t)"
    using assms(2-5) fast_slow_procs [OF assms(2) ok(1) assms(4)]
    by (simp add: handle_syscall_stop_def syscall_stop_regs_def idle upd_ps_def om_get_put om_put_put Let_def)
qed

definition idle_ps :: "int \<Rightarrow> SyscallPhase \<Rightarrow> ProcessState" where
  "idle_ps pid phase = (ProcessState_new pid 1)\<lparr>ps_sc_phase := phase, ps_cwd := ''/w'', ps_traced := True\<rparr>"

definition idle_tracer :: "int \<Rightarrow> SyscallPhase \<Rightarrow> tracer" where
  "idle_tracer pid phase = (PtraceBackend_new False (-1))\<lparr>tb_procs := [(pid, idle_ps pid phase)]\<rparr>"

lemma idle_get [simp]: "om_get (tb_procs (idle_tracer pid phase)) p = (if p = pid then Some (idle_ps pid phase) else None)"
  by (simp add: idle_tracer_def om_get_def)

lemma idle_tracer_good: "good (idle_tracer pid phase)"
  by (simp add: idle_tracer_def good_def procs_ok_def om_inv_def om_get_def idle_ps_def ProcessState_new_def ps_ok_def
      PtraceBackend_new_def sys_nrs)

lemma fast_path_equivalent_witness:
  "tb_calls (handle_syscall_stop no_kernel 7 (idle_tracer 7 SC_PHASE_EXIT_NEXT)) =
   tb_calls (syscall_stop_regs no_kernel 7 (idle_ps 7 SC_PHASE_EXIT_NEXT)
      \<lparr>orig_rax = 39, rax = 7, rdi = 0, rsi = 0, rdx = 0, r10 = 0\<rparr> (idle_tracer 7 SC_PHASE_EXIT_NEXT))"
  by (rule fast_path_equivalent [OF idle_tracer_good, THEN conjunct1])
    (simp_all add: idle_ps_def ProcessState_new_def as_long_def ENOSYS_def)

end
