(* ===== verification/Tracer_Modes.thy ===== *)
theory Tracer_Modes
  imports Tracer_Inv
begin

text \<open>
  The two ways to trace system calls report the same: \<open>PTRACE_SYSCALL\<close> with a stop at every
  entry and exit, and the seccomp filter with a stop at the entry of the calls of its table only.
\<close>

section \<open>What recording depends on\<close>

text \<open>An entry without the fields that hold the system call in progress.\<close>

definition strip :: "ProcessState \<Rightarrow> ProcessState" where
  "strip ps = ps\<lparr>ps_sc_phase := SC_PHASE_UNKNOWN, ps_exit_needed := False, ps_pending_syscall := -1,
     ps_path_addr := 0, ps_path_addr2 := 0, ps_flags := 0\<rparr>"

definition strip_map :: "(int, ProcessState) omap \<Rightarrow> (int, ProcessState) omap" where
  "strip_map m = map (\<lambda>(p, ps). (p, strip ps)) m"

lemma strip_idem [simp]: "strip (strip ps) = strip ps"
  by (simp add: strip_def)

lemma strip_map_get: "om_get (strip_map m) k = map_option strip (om_get m k)"
  unfolding strip_map_def om_get_def by (induction m) auto

lemma strip_map_put: "strip_map (om_put k v m) = om_put k (strip v) (strip_map m)"
  unfolding strip_map_def by (induction m) auto

lemma strip_sel:
  "strip x = strip y \<Longrightarrow> ps_mem_fd x = ps_mem_fd y \<and> ps_pid x = ps_pid y \<and> ps_cwd x = ps_cwd y"
  by (cases x; cases y) (simp add: strip_def)

lemma strip_upd:
  "strip (ps\<lparr>ps_cwd := c\<rparr>) = (strip ps)\<lparr>ps_cwd := c\<rparr>"
  "strip (ps\<lparr>ps_mem_fd := fd\<rparr>) = (strip ps)\<lparr>ps_mem_fd := fd\<rparr>"
  "strip (ps\<lparr>ps_sc_phase := ph\<rparr>) = strip ps"
  "strip (ps\<lparr>ps_sc_phase := ph, ps_pending_syscall := n\<rparr>) = strip ps"
  "strip (decode_syscall_entry regs nr ps) = strip ps"
  "strip (reset_pending ps) = strip ps"
  by (simp_all add: strip_def decode_syscall_entry_def reset_pending_def split: prod.splits)

definition same_view :: "tracer \<Rightarrow> tracer \<Rightarrow> bool" where
  "same_view a b \<longleftrightarrow> strip_map (tb_procs a) = strip_map (tb_procs b) \<and> tb_calls a = tb_calls b
     \<and> tb_clock a = tb_clock b"

lemma same_view_refl [simp]: "same_view t t"
  by (simp add: same_view_def)

lemma same_view_sym: "same_view a b \<Longrightarrow> same_view b a"
  by (simp add: same_view_def)

lemma same_view_trans: "same_view a b \<Longrightarrow> same_view b c \<Longrightarrow> same_view a c"
  by (simp add: same_view_def)

lemma same_view_get:
  assumes "same_view a b"
  obtains (none) "om_get (tb_procs a) p = None" "om_get (tb_procs b) p = None"
  | (some) x y where "om_get (tb_procs a) p = Some x" "om_get (tb_procs b) p = Some y" "strip x = strip y"
proof -
  have "map_option strip (om_get (tb_procs a) p) = map_option strip (om_get (tb_procs b) p)"
    using assms by (simp add: same_view_def flip: strip_map_get)
  with that show thesis by (cases "om_get (tb_procs a) p"; cases "om_get (tb_procs b) p") auto
qed

lemma same_view_upd:
  assumes "same_view a b" and "\<And>x y. strip x = strip y \<Longrightarrow> strip (f x) = strip (g y)"
  shows "same_view (upd_ps p f a) (upd_ps p g b)"
  using assms(1)
proof (cases rule: same_view_get [of a b p])
  case (some x y)
  from assms(2) [OF some(3)] show ?thesis
    using assms(1) some(1,2) by (simp add: same_view_def upd_ps_def strip_map_put)
qed (use assms(1) in \<open>simp_all add: upd_ps_def\<close>)

text \<open>An update of the stripped fields alone, on a map that is ordered.\<close>

lemma om_put_same: "om_inv m \<Longrightarrow> om_get m k = Some v \<Longrightarrow> om_put k v m = m"
proof (induction m)
  case (Cons a m)
  obtain k' v' where a: "a = (k', v')" by fastforce
  have inv: "om_inv m" using Cons.prems(1) by (simp add: om_inv_def)
  show ?case
  proof (cases "k = k'")
    case False
    with Cons.prems(2) a have g: "om_get m k = Some v" by (simp add: om_get_def)
    then have "k \<in> fst ` set m" unfolding om_get_def by (force dest: map_of_SomeD)
    with Cons.prems(1) a have "k' < k" by (auto simp: om_inv_def)
    then show ?thesis using Cons.IH [OF inv g] a False by simp
  qed (use Cons.prems(2) a in \<open>simp add: om_get_def\<close>)
qed (simp add: om_get_def)

lemma same_view_id_upd:
  assumes "same_view a b" and "om_inv (tb_procs a)" and "\<And>x. strip (f x) = strip x"
  shows "same_view (upd_ps p f a) b"
proof -
  have "om_inv (strip_map (tb_procs a))"
    using assms(2) by (simp add: om_inv_def strip_map_def split_beta comp_def)
  then have "strip_map (tb_procs (upd_ps p f a)) = strip_map (tb_procs a)"
    using assms(3) by (simp add: upd_ps_def strip_map_put om_put_same strip_map_get split: option.splits)
  with assms(1) show ?thesis by (simp add: same_view_def frame_simps)
qed

section \<open>Recording respects the view\<close>

lemma view_now: "same_view a b \<Longrightarrow> fst (now_us K a) = fst (now_us K b) \<and> same_view (snd (now_us K a)) (snd (now_us K b))"
  by (simp add: now_us_def same_view_def)

lemma view_call: "same_view a b \<Longrightarrow> same_view (call op a) (call op b)"
  by (simp add: same_view_def frame_simps)

lemma view_if: "(c \<Longrightarrow> same_view x x') \<Longrightarrow> (\<not> c \<Longrightarrow> same_view y y') \<Longrightarrow>
    same_view (if c then x else y) (if c then x' else y')"
  by simp

lemma view_now_call:
  "same_view a b \<Longrightarrow> same_view (case now_us K a of (n, a1) \<Rightarrow> call (f n) a1) (case now_us K b of (n, b1) \<Rightarrow> call (f n) b1)"
  using view_now [of a b K] by (simp add: split_beta view_call)

lemma strip_read_mem:
  assumes "strip x = strip y"
  shows "snd (read_string_mem K x addr n) = snd (read_string_mem K y addr n)"
    and "strip (fst (read_string_mem K x addr n)) = strip (fst (read_string_mem K y addr n))"
proof -
  note sel = strip_sel [OF assms]
  show "snd (read_string_mem K x addr n) = snd (read_string_mem K y addr n)"
    using sel by (simp add: read_string_mem_def Let_def)
  have "strip (x\<lparr>ps_mem_fd := fd\<rparr>) = strip (y\<lparr>ps_mem_fd := fd\<rparr>)" for fd
    using assms by (simp add: strip_upd)
  then show "strip (fst (read_string_mem K x addr n)) = strip (fst (read_string_mem K y addr n))"
    using sel assms by (simp add: read_string_mem_def Let_def)
qed

lemma view_counters:
  assumes "same_view a b"
  shows "same_view (a\<lparr>cnt_mem_reads := i\<rparr>) (b\<lparr>cnt_mem_reads := j\<rparr>)"
    and "same_view (a\<lparr>cnt_peek_fallbacks := i\<rparr>) (b\<lparr>cnt_peek_fallbacks := j\<rparr>)"
  using assms by (simp_all add: same_view_def)

lemma view_read_string:
  assumes "same_view a b"
  shows "fst (read_string K pid addr a) = fst (read_string K pid addr b)
    \<and> same_view (snd (read_string K pid addr a)) (snd (read_string K pid addr b))"
  using assms
proof (cases rule: same_view_get [of a b pid])
  case none
  with view_counters [OF assms] assms show ?thesis by (simp add: read_string_def)
next
  case (some x y)
  obtain x' r where x: "read_string_mem K x addr 4096 = (x', r)" by fastforce
  obtain y' where y: "read_string_mem K y addr 4096 = (y', r)" and strip: "strip x' = strip y'"
    using strip_read_mem [OF some(3), of K addr 4096] x by (cases "read_string_mem K y addr 4096") auto
  have "same_view (upd_ps pid (\<lambda>_. x') a) (upd_ps pid (\<lambda>_. y') b)"
    by (rule same_view_upd [OF assms]) (rule strip)
  from view_counters [OF this] assms show ?thesis
    by (simp add: read_string_def some x y split: option.split)
qed

lemma view_resolve:
  assumes "same_view a b"
  shows "fst (resolve_path_cached K pid path a) = fst (resolve_path_cached K pid path b)
    \<and> same_view (snd (resolve_path_cached K pid path a)) (snd (resolve_path_cached K pid path b))"
  using assms
proof (cases rule: same_view_get [of a b pid])
  case none
  with assms show ?thesis by (simp add: resolve_path_cached_def)
next
  case (some x y)
  have "same_view (upd_ps pid (\<lambda>p. p\<lparr>ps_cwd := c\<rparr>) a) (upd_ps pid (\<lambda>p. p\<lparr>ps_cwd := c\<rparr>) b)" for c
    by (rule same_view_upd [OF assms]) (simp add: strip_upd)
  with assms strip_sel [OF some(3)] show ?thesis by (simp add: resolve_path_cached_def some)
qed

lemma view_access_path:
  assumes "same_view a b"
  shows "fst (access_path K pid addr a) = fst (access_path K pid addr b)
    \<and> same_view (snd (access_path K pid addr a)) (snd (access_path K pid addr b))"
proof -
  obtain p a1 where a1: "read_string K pid addr a = (p, a1)" by fastforce
  with view_read_string [OF assms, of K pid addr] obtain b1 where b1: "read_string K pid addr b = (p, b1)" and v1: "same_view a1 b1"
    by (cases "read_string K pid addr b") auto
  obtain q a2 where a2: "resolve_path_cached K pid p a1 = (q, a2)" by fastforce
  with view_resolve [OF v1, of K pid p] obtain b2 where "resolve_path_cached K pid p b1 = (q, b2)" "same_view a2 b2"
    by (cases "resolve_path_cached K pid p b1") auto
  with a1 a2 b1 v1 show ?thesis by (simp add: access_path_def)
qed

lemma view_snd:
  assumes "fst x = fst y \<and> same_view (snd x) (snd y)"
  shows "fst (now_us K (snd x)) = fst (now_us K (snd y)) \<and> same_view (snd (now_us K (snd x))) (snd (now_us K (snd y)))"
  using assms view_now by blast

lemma view_record_access:
  "same_view a b \<Longrightarrow> same_view (record_access K pid addr mode fd a) (record_access K pid addr mode fd b)"
  using view_access_path [of a b K pid addr] view_snd [OF view_access_path]
  by (simp add: record_access_def split_beta view_call view_now split: option.split)

lemma view_record_failed:
  "same_view a b \<Longrightarrow> same_view (record_failed_access K pid addr mode e a) (record_failed_access K pid addr mode e b)"
  using view_access_path [of a b K pid addr] view_snd [OF view_access_path]
  by (simp add: record_failed_access_def split_beta view_call view_now split: option.split)

lemma view_record_one:
  "same_view a b \<Longrightarrow> same_view (record_one K pid rv addr mode a) (record_one K pid rv addr mode b)"
  by (simp add: record_one_def view_record_access)

text \<open>The system call in progress, as far as its exit reads it.\<close>

definition same_pending :: "ProcessState \<Rightarrow> ProcessState \<Rightarrow> bool" where
  "same_pending x y \<longleftrightarrow> ps_pending_syscall x = ps_pending_syscall y \<and> ps_path_addr x = ps_path_addr y
     \<and> ps_path_addr2 x = ps_path_addr2 y \<and> ps_flags x = ps_flags y"

lemma view_record_exit:
  assumes "same_view a b" and "same_pending x y"
  shows "same_view (record_exit K pid rv x a) (record_exit K pid rv y b)"
proof -
  have upd: "same_view (upd_ps pid (\<lambda>p. p\<lparr>ps_cwd := c\<rparr>) u) (upd_ps pid (\<lambda>p. p\<lparr>ps_cwd := c\<rparr>) v)" if "same_view u v" for u v c
    by (rule same_view_upd [OF that]) (simp add: strip_upd)
  have two: "same_view (record_two K pid rv' x m m' a) (record_two K pid rv' y m m' b)" for rv' m m'
    using assms by (simp add: record_two_def same_pending_def view_record_one)
  have both: "same_view (record_both K pid rv x m fd a) (record_both K pid rv y m fd b)" for m fd
    using assms by (simp add: record_both_def same_pending_def view_record_access view_record_failed)
  have fchdir: "same_view (record_fchdir K pid a) (record_fchdir K pid b)"
    using upd [OF assms(1)] by (simp add: record_fchdir_def Let_def view_now_call)
  have eq: "ps_pending_syscall x = ps_pending_syscall y" "ps_path_addr x = ps_path_addr y" "ps_flags x = ps_flags y"
    using assms(2) by (simp_all add: same_pending_def)
  show ?thesis
    unfolding record_exit_def Let_def eq
    by (intro view_if two both fchdir upd view_record_one view_record_access assms(1))
qed

section \<open>One system call in both modes\<close>

definition with_regs :: "kernel \<Rightarrow> user_regs \<Rightarrow> kernel" where
  "with_regs K regs = K\<lparr>k_regs := (\<lambda>_. Some regs)\<rparr>"

text \<open>A system call as the kernel runs it: the registers at its entry and at its exit.\<close>

record syscall_run =
  sr_kernel :: kernel
  sr_pid :: int
  sr_entry :: user_regs
  sr_exit :: user_regs

definition classic_syscall :: "syscall_run \<Rightarrow> tracer \<Rightarrow> tracer" where
  "classic_syscall r t =
     handle_syscall_stop (with_regs (sr_kernel r) (sr_exit r)) (sr_pid r)
       (handle_syscall_stop (with_regs (sr_kernel r) (sr_entry r)) (sr_pid r) t)"

text \<open>What the filter reads: the number at offset 0 and the architecture at offset 4.\<close>

definition seccomp_data :: "user_regs \<Rightarrow> 32 word \<Rightarrow> 32 word" where
  "seccomp_data regs off = (if off = 0 then ucast (orig_rax regs) else if off = 4 then BD_AUDIT_ARCH else 0)"

text \<open>In seccomp mode the filter decides about the entry stop, and the request made there about the exit stop.\<close>

definition seccomp_syscall :: "syscall_run \<Rightarrow> tracer \<Rightarrow> tracer" where
  "seccomp_syscall r t =
    (if bpf_run seccomp_program (seccomp_data (sr_entry r)) 0 0 = Some BD_SECCOMP_RET_TRACE
     then
      let t1 = handle_seccomp_stop (with_regs (sr_kernel r) (sr_entry r)) (sr_pid r) t
      in if last (tb_requests t1) = PTRACE_SYSCALL (sr_pid r) 0
         then handle_syscall_stop (with_regs (sr_kernel r) (sr_exit r)) (sr_pid r) t1 else t1
     else t)"

text \<open>The kernel's side of the protocol: -ENOSYS at the entry, another value at the exit.\<close>

definition proper_run :: "syscall_run \<Rightarrow> bool" where
  "proper_run r \<longleftrightarrow> as_long (rax (sr_entry r)) = - ENOSYS \<and> as_long (rax (sr_exit r)) \<noteq> - ENOSYS
     \<and> unat (orig_rax (sr_entry r)) < 2 ^ 31"

definition run_nr :: "syscall_run \<Rightarrow> int" where
  "run_nr r = as_long (orig_rax (sr_entry r))"

lemma unat_uint_less: "unat (w :: 64 word) < 2 ^ 31 \<Longrightarrow> uint w < 2 ^ 31"
  by (metis of_nat_less_iff of_nat_numeral of_nat_power uint_nat)

lemma small_sint: "uint (w :: 64 word) < 2 ^ 31 \<Longrightarrow> sint w = uint w"
  unfolding sint_uint
  by (rule signed_take_bit_int_eq_self) (simp_all add: order_trans [OF _ uint_ge_0])

lemma small_take_bit: "0 \<le> (a :: int) \<Longrightarrow> a < 2 ^ 31 \<Longrightarrow> take_bit 32 a = a"
  by (rule take_bit_int_eq_self) simp_all

lemma small_word_inj:
  "0 \<le> a \<Longrightarrow> a < 2 ^ 31 \<Longrightarrow> 0 \<le> b \<Longrightarrow> b < 2 ^ 31 \<Longrightarrow> (word_of_int a :: 32 word) = word_of_int b \<longleftrightarrow> a = b"
  using small_take_bit [of a] small_take_bit [of b] word_of_int_eq_iff [where ?'a = 32, of a b] by simp

lemma run_nr_range: "proper_run r \<Longrightarrow> 0 \<le> run_nr r \<and> run_nr r < 2 ^ 31 \<and> run_nr r = uint (orig_rax (sr_entry r))"
  unfolding proper_run_def run_nr_def as_long_def
  using unat_uint_less small_sint by (metis uint_ge_0)

lemma table_range: "nr \<in> set BD_TRACED_SYSCALLS \<Longrightarrow> 0 \<le> nr \<and> nr < 2 ^ 31"
  by (auto simp: BD_TRACED_SYSCALLS_def sys_nrs)

lemma data_number: "proper_run r \<Longrightarrow> seccomp_data (sr_entry r) 0 = word_of_int (run_nr r)"
  using run_nr_range [of r] by (simp add: seccomp_data_def)

lemma table_member:
  assumes "proper_run r"
  shows "word_of_int (run_nr r) \<in> (word_of_int :: int \<Rightarrow> 32 word) ` set BD_TRACED_SYSCALLS \<longleftrightarrow> run_nr r \<in> set BD_TRACED_SYSCALLS"
proof
  assume "word_of_int (run_nr r) \<in> (word_of_int :: int \<Rightarrow> 32 word) ` set BD_TRACED_SYSCALLS"
  then obtain nr where nr: "nr \<in> set BD_TRACED_SYSCALLS" "(word_of_int (run_nr r) :: 32 word) = word_of_int nr"
    by (rule imageE) blast
  then have "run_nr r = nr"
    using small_word_inj run_nr_range [OF assms] table_range [OF nr(1)] by blast
  with nr(1) show "run_nr r \<in> set BD_TRACED_SYSCALLS" by blast
qed (rule imageI)

lemma filter_verdict:
  assumes "proper_run r"
  shows "bpf_run seccomp_program (seccomp_data (sr_entry r)) 0 0 = Some BD_SECCOMP_RET_TRACE
    \<longleftrightarrow> run_nr r \<in> set BD_TRACED_SYSCALLS"
proof -
  have arch: "seccomp_data (sr_entry r) 4 = BD_AUDIT_ARCH" by (simp add: seccomp_data_def)
  have short: "length BD_TRACED_SYSCALLS < 255" by (simp add: traced_length)
  have ne: "BD_SECCOMP_RET_ALLOW \<noteq> BD_SECCOMP_RET_TRACE"
    by (simp add: BD_SECCOMP_RET_TRACE_def BD_SECCOMP_RET_ALLOW_def)
  show ?thesis
    unfolding seccomp_program_def bpf.run_filter [OF short] arch data_number [OF assms] table_member [OF assms] using ne by simp
qed

section \<open>The simulation\<close>

text \<open>The two forms of an entry stop.\<close>

definition entered :: "syscall_run \<Rightarrow> ProcessState \<Rightarrow> ProcessState" where
  "entered r ps = decode_syscall_entry (sr_entry r) (run_nr r) (ps\<lparr>ps_sc_phase := SC_PHASE_EXIT_NEXT\<rparr>)"

lemma entered_fields:
  "ps_sc_phase (entered r ps) = SC_PHASE_EXIT_NEXT"
  "ps_exit_needed (entered r ps) = ps_exit_needed (decode_syscall_entry (sr_entry r) (run_nr r) ps)"
  "strip (entered r ps) = strip ps" "same_pending (entered r x) (entered r y)"
  "(decode_syscall_entry (sr_entry r) (run_nr r) ps)\<lparr>ps_sc_phase := SC_PHASE_EXIT_NEXT\<rparr> = entered r ps"
  by (simp_all add: entered_def same_pending_def decode_syscall_entry_def strip_def split: prod.split)

lemma classic_entry:
  assumes "proper_run r" and "om_get (tb_procs t) (sr_pid r) = Some ps" and "ps_sc_phase ps \<noteq> SC_PHASE_EXIT_NEXT"
  shows "handle_syscall_stop (with_regs (sr_kernel r) (sr_entry r)) (sr_pid r) t = upd_ps (sr_pid r) (entered r) t"
  using assms
  by (simp add: handle_syscall_stop_def syscall_stop_regs_def with_regs_def proper_run_def Let_def upd_ps_def
      om_get_put om_put_put entered_def run_nr_def)

lemma slow_exit:
  assumes "proper_run r" and "om_get (tb_procs t) (sr_pid r) = Some ps" and "ps_sc_phase ps = SC_PHASE_EXIT_NEXT"
    and "ps_exit_needed ps"
  shows "handle_syscall_stop (with_regs (sr_kernel r) (sr_exit r)) (sr_pid r) t =
    upd_ps (sr_pid r) reset_pending (record_exit (with_regs (sr_kernel r) (sr_exit r)) (sr_pid r) (rax (sr_exit r)) ps
      (upd_ps (sr_pid r) (\<lambda>p. p\<lparr>ps_sc_phase := SC_PHASE_ENTRY_NEXT\<rparr>) t))"
proof -
  have k: "k_regs (with_regs (sr_kernel r) (sr_exit r)) p = Some (sr_exit r)" for p by (simp add: with_regs_def)
  show ?thesis
    using assms by (simp add: handle_syscall_stop_def syscall_stop_regs_def proper_run_def Let_def k)
qed

lemma fast_exit:
  assumes "om_get (tb_procs t) pid = Some ps" and "ps_sc_phase ps = SC_PHASE_EXIT_NEXT" and "\<not> ps_exit_needed ps"
  shows "handle_syscall_stop K pid t = upd_ps pid (\<lambda>p. p\<lparr>ps_sc_phase := SC_PHASE_ENTRY_NEXT, ps_pending_syscall := -1\<rparr>)
    (t\<lparr>cnt_getregs_skipped := Suc (cnt_getregs_skipped t)\<rparr>)"
  using assms by (simp add: handle_syscall_stop_def)

lemma seccomp_entry:
  assumes "om_get (tb_procs t) (sr_pid r) = Some ps"
  shows "handle_seccomp_stop (with_regs (sr_kernel r) (sr_entry r)) (sr_pid r) t =
    (if ps_exit_needed (entered r ps)
     then req (PTRACE_SYSCALL (sr_pid r) 0) (upd_ps (sr_pid r) (entered r) t)
     else req (PTRACE_CONT (sr_pid r) 0) (upd_ps (sr_pid r) (\<lambda>p. (decode_syscall_entry (sr_entry r) (run_nr r) p)
        \<lparr>ps_sc_phase := SC_PHASE_ENTRY_NEXT, ps_pending_syscall := -1\<rparr>) t))"
  using assms entered_fields(2,5)
  by (simp add: handle_seccomp_stop_def with_regs_def Let_def upd_ps_def run_nr_def)

text \<open>An exit leaves the entry of its pid waiting for an entry stop.\<close>

lemma om_inv_upd_ps: "om_inv (tb_procs t) \<Longrightarrow> om_inv (tb_procs (upd_ps pid f t))"
  by (simp add: upd_ps_def om_inv_put split: option.split)

lemma phase_caches:
  assumes "caches t t'"
  shows "map_option ps_sc_phase (om_get (tb_procs t') p) = map_option ps_sc_phase (om_get (tb_procs t) p)"
proof -
  have u: "ps_sc_phase (uncache ps) = ps_sc_phase ps" for ps by (simp add: uncache_def)
  have m: "map_option ps_sc_phase v = map_option ps_sc_phase (map_option uncache v)" for v
    by (simp add: option.map_comp comp_def u)
  from assms show ?thesis
    by (subst (1 2) m) (simp add: caches_def)
qed

definition no_exit_due :: "tracer \<Rightarrow> bool" where
  "no_exit_due t \<longleftrightarrow> (\<forall>p ps. om_get (tb_procs t) p = Some ps \<longrightarrow> ps_sc_phase ps \<noteq> SC_PHASE_EXIT_NEXT)"

lemma no_exit_due_alt: "no_exit_due t \<longleftrightarrow> (\<forall>p. map_option ps_sc_phase (om_get (tb_procs t) p) \<noteq> Some SC_PHASE_EXIT_NEXT)"
  by (auto simp: no_exit_due_def)

lemma no_exit_due_caches: "caches t t' \<Longrightarrow> no_exit_due t \<Longrightarrow> no_exit_due t'"
  by (simp add: no_exit_due_alt phase_caches)

lemma no_exit_due_upd:
  assumes "\<And>p ps. p \<noteq> pid \<Longrightarrow> om_get (tb_procs t) p = Some ps \<Longrightarrow> ps_sc_phase ps \<noteq> SC_PHASE_EXIT_NEXT"
    and "\<And>ps. om_get (tb_procs t) pid = Some ps \<Longrightarrow> ps_sc_phase (f ps) \<noteq> SC_PHASE_EXIT_NEXT"
  shows "no_exit_due (upd_ps pid f t)"
  using assms by (auto simp: no_exit_due_def upd_ps_get split: if_splits)

lemma upd_upd: "upd_ps p f (upd_ps p g t) = upd_ps p (\<lambda>x. f (g x)) t"
  by (simp add: upd_ps_def om_get_put om_put_put split: option.split)

text \<open>What remains of an exit, with the phase already set back.\<close>

definition exit_work :: "syscall_run \<Rightarrow> ProcessState \<Rightarrow> tracer \<Rightarrow> tracer" where
  "exit_work r ps t = upd_ps (sr_pid r) reset_pending
     (record_exit (with_regs (sr_kernel r) (sr_exit r)) (sr_pid r) (rax (sr_exit r)) ps t)"

lemma exit_work_inv: "om_inv (tb_procs t) \<Longrightarrow> om_inv (tb_procs (exit_work r ps t))"
  unfolding exit_work_def by (rule om_inv_upd_ps) (use caches_record_exit in \<open>auto simp: caches_def\<close>)

lemma exit_work_due: "no_exit_due t \<Longrightarrow> no_exit_due (exit_work r ps t)"
proof -
  assume "no_exit_due t"
  then have "no_exit_due (record_exit K pid rv ps t)" for K pid rv by (rule no_exit_due_caches [OF caches_record_exit])
  then show ?thesis
    unfolding exit_work_def by (intro no_exit_due_upd) (auto simp: no_exit_due_def reset_pending_def)
qed

lemma exit_work_view:
  "same_view a b \<Longrightarrow> same_pending x y \<Longrightarrow> same_view (exit_work r x a) (exit_work r y b)"
  unfolding exit_work_def
  by (intro same_view_upd view_record_exit) (simp_all add: strip_upd)

text \<open>The two modes, as an update of the entry followed by the same work.\<close>

definition returned :: "syscall_run \<Rightarrow> ProcessState \<Rightarrow> ProcessState" where
  "returned r ps = (entered r ps)\<lparr>ps_sc_phase := SC_PHASE_ENTRY_NEXT\<rparr>"

lemma classic_recorded:
  assumes "proper_run r" and "om_get (tb_procs t) (sr_pid r) = Some ps" and "ps_sc_phase ps \<noteq> SC_PHASE_EXIT_NEXT"
    and "ps_exit_needed (entered r ps)"
  shows "classic_syscall r t = exit_work r (entered r ps) (upd_ps (sr_pid r) (returned r) t)"
proof -
  have "om_get (tb_procs (upd_ps (sr_pid r) (entered r) t)) (sr_pid r) = Some (entered r ps)"
    using assms(2) by (simp add: upd_ps_get)
  note exit = slow_exit [OF assms(1) this entered_fields(1) assms(4)]
  have "returned r = (\<lambda>x. (entered r x)\<lparr>ps_sc_phase := SC_PHASE_ENTRY_NEXT\<rparr>)"
    by (simp add: fun_eq_iff returned_def)
  then show ?thesis
    by (simp add: classic_syscall_def classic_entry [OF assms(1-3)] exit exit_work_def upd_upd)
qed

lemma classic_unrecorded:
  assumes "proper_run r" and "om_get (tb_procs t) (sr_pid r) = Some ps" and "ps_sc_phase ps \<noteq> SC_PHASE_EXIT_NEXT"
    and "\<not> ps_exit_needed (entered r ps)"
  shows "\<exists>n f. classic_syscall r t = upd_ps (sr_pid r) f (t\<lparr>cnt_getregs_skipped := n\<rparr>)
    \<and> (\<forall>x. strip (f x) = strip x \<and> ps_sc_phase (f x) = SC_PHASE_ENTRY_NEXT)"
proof -
  let ?u = "upd_ps (sr_pid r) (entered r) t"
  let ?f = "\<lambda>x. (entered r x)\<lparr>ps_sc_phase := SC_PHASE_ENTRY_NEXT, ps_pending_syscall := -1\<rparr>"
  have "om_get (tb_procs ?u) (sr_pid r) = Some (entered r ps)" using assms(2) by (simp add: upd_ps_get)
  from fast_exit [OF this entered_fields(1) assms(4)]
  have "classic_syscall r t = upd_ps (sr_pid r) ?f (t\<lparr>cnt_getregs_skipped := Suc (cnt_getregs_skipped t)\<rparr>)"
    using assms(2) by (simp add: classic_syscall_def classic_entry [OF assms(1-3)] upd_ps_def om_get_put om_put_put)
  moreover have "strip (?f x) = strip x" "ps_sc_phase (?f x) = SC_PHASE_ENTRY_NEXT" for x
    by (simp_all add: strip_upd entered_fields)
  ultimately show ?thesis by blast
qed

lemma seccomp_recorded:
  assumes "proper_run r" and "om_get (tb_procs t) (sr_pid r) = Some ps" and "run_nr r \<in> set BD_TRACED_SYSCALLS"
    and "ps_exit_needed (entered r ps)"
  shows "seccomp_syscall r t = exit_work r (entered r ps)
    (upd_ps (sr_pid r) (\<lambda>p. p\<lparr>ps_sc_phase := SC_PHASE_ENTRY_NEXT\<rparr>)
      (req (PTRACE_SYSCALL (sr_pid r) 0) (upd_ps (sr_pid r) (entered r) t)))"
proof -
  let ?u = "req (PTRACE_SYSCALL (sr_pid r) 0) (upd_ps (sr_pid r) (entered r) t)"
  have "om_get (tb_procs ?u) (sr_pid r) = Some (entered r ps)" using assms(2) by (simp add: frame_simps)
  from slow_exit [OF assms(1) this entered_fields(1) assms(4)] assms show ?thesis
    by (simp add: seccomp_syscall_def filter_verdict seccomp_entry Let_def frame_simps exit_work_def)
qed

text \<open>Between two system calls: the same view, ordered maps, and no exit stop due in the classic run.\<close>

definition between :: "tracer \<Rightarrow> tracer \<Rightarrow> bool" where
  "between a b \<longleftrightarrow> same_view a b \<and> om_inv (tb_procs a) \<and> om_inv (tb_procs b) \<and> no_exit_due a"

lemma entered_needed_eq: "ps_exit_needed (entered r x) = ps_exit_needed (entered r y)"
  by (simp add: entered_def decode_syscall_entry_def split: prod.split)

lemma unneeded_untraced: "ps_exit_needed (entered r ps) \<Longrightarrow> run_nr r \<in> set BD_TRACED_SYSCALLS"
  unfolding entered_fields(2)
  by (rule ccontr) (auto simp: decode_syscall_entry_def decode_paths_def BD_TRACED_SYSCALLS_def split: if_splits)

lemma step_recorded:
  assumes btw: "between a b" and run: "proper_run r" and a: "om_get (tb_procs a) (sr_pid r) = Some x"
    and b: "om_get (tb_procs b) (sr_pid r) = Some y" and need: "ps_exit_needed (entered r x)"
  shows "between (classic_syscall r a) (seccomp_syscall r b)"
proof -
  from btw a have phase: "ps_sc_phase x \<noteq> SC_PHASE_EXIT_NEXT" by (auto simp: between_def no_exit_due_def)
  have need': "ps_exit_needed (entered r y)" using need entered_needed_eq by blast
  define a1 b1 where "a1 = upd_ps (sr_pid r) (returned r) a"
    and "b1 = upd_ps (sr_pid r) (\<lambda>p. p\<lparr>ps_sc_phase := SC_PHASE_ENTRY_NEXT\<rparr>)
      (req (PTRACE_SYSCALL (sr_pid r) 0) (upd_ps (sr_pid r) (entered r) b))"
  have ca: "classic_syscall r a = exit_work r (entered r x) a1"
    using classic_recorded [OF run a phase need] by (simp add: a1_def)
  have cb: "seccomp_syscall r b = exit_work r (entered r y) b1"
    using seccomp_recorded [OF run b unneeded_untraced [OF need'] need'] by (simp add: b1_def)
  have "same_view (upd_ps (sr_pid r) (returned r) a) (upd_ps (sr_pid r) (returned r) b)"
    using btw by (intro same_view_upd) (auto simp: between_def returned_def strip_upd entered_fields)
  moreover have "same_view (upd_ps (sr_pid r) (returned r) b) b1"
    using b by (simp add: b1_def same_view_def upd_ps_def req_def om_get_put om_put_put returned_def)
  ultimately have v: "same_view a1 b1" unfolding a1_def by (rule same_view_trans)
  have inv: "om_inv (tb_procs a1)" "om_inv (tb_procs b1)"
    using btw by (auto simp: a1_def b1_def between_def frame_simps intro!: om_inv_upd_ps)
  have "no_exit_due a1"
    using btw by (auto simp: a1_def between_def no_exit_due_def upd_ps_get returned_def split: if_splits)
  with v inv show ?thesis
    unfolding ca cb between_def by (simp add: exit_work_view exit_work_inv exit_work_due entered_fields)
qed

lemma step_unrecorded:
  assumes btw: "between a b" and run: "proper_run r" and a: "om_get (tb_procs a) (sr_pid r) = Some x"
    and b: "om_get (tb_procs b) (sr_pid r) = Some y" and need: "\<not> ps_exit_needed (entered r x)"
  shows "between (classic_syscall r a) (seccomp_syscall r b)"
proof -
  from btw a have phase: "ps_sc_phase x \<noteq> SC_PHASE_EXIT_NEXT" by (auto simp: between_def no_exit_due_def)
  have need': "\<not> ps_exit_needed (entered r y)" using need entered_needed_eq by blast
  obtain n f where ca: "classic_syscall r a = upd_ps (sr_pid r) f (a\<lparr>cnt_getregs_skipped := n\<rparr>)"
    and f: "\<And>x. strip (f x) = strip x" "\<And>x. ps_sc_phase (f x) = SC_PHASE_ENTRY_NEXT"
    using classic_unrecorded [OF run a phase need] by blast
  have "same_view (a\<lparr>cnt_getregs_skipped := n\<rparr>) b" using btw by (simp add: between_def same_view_def)
  then have va: "same_view (classic_syscall r a) b"
    unfolding ca using btw f(1) by (intro same_view_id_upd) (simp_all add: between_def)
  have ia: "om_inv (tb_procs (classic_syscall r a))" "no_exit_due (classic_syscall r a)"
    unfolding ca using btw f(2) by (auto simp: between_def no_exit_due_def upd_ps_get intro!: om_inv_upd_ps split: if_splits)
  define g where "g = (\<lambda>p. (decode_syscall_entry (sr_entry r) (run_nr r) p)
        \<lparr>ps_sc_phase := SC_PHASE_ENTRY_NEXT, ps_pending_syscall := -1\<rparr>)"
  have g: "strip (g x) = strip x" for x by (simp add: g_def strip_upd)
  have "seccomp_syscall r b = b \<or> seccomp_syscall r b = req (PTRACE_CONT (sr_pid r) 0) (upd_ps (sr_pid r) g b)"
    using seccomp_entry [OF b] need' by (simp add: seccomp_syscall_def Let_def g_def frame_simps)
  moreover have "same_view (upd_ps (sr_pid r) g b) b"
    by (rule same_view_id_upd) (use btw g in \<open>auto simp: between_def\<close>)
  ultimately have "same_view (seccomp_syscall r b) b \<and> om_inv (tb_procs (seccomp_syscall r b))"
    using btw by (auto simp: between_def same_view_def frame_simps intro!: om_inv_upd_ps)
  with va ia show ?thesis unfolding between_def using same_view_sym same_view_trans by blast
qed

lemma step_between:
  assumes "between a b" and "proper_run r" and "om_get (tb_procs a) (sr_pid r) \<noteq> None"
  shows "between (classic_syscall r a) (seccomp_syscall r b)"
proof -
  from assms(1,3) obtain x y where "om_get (tb_procs a) (sr_pid r) = Some x" "om_get (tb_procs b) (sr_pid r) = Some y"
    by (auto simp: between_def elim!: same_view_get)
  with step_recorded [OF assms(1,2)] step_unrecorded [OF assms(1,2)] show ?thesis by blast
qed

lemma caches_dom: "caches t t' \<Longrightarrow> om_get (tb_procs t') p = None \<longleftrightarrow> om_get (tb_procs t) p = None"
  unfolding caches_def by (metis option.map_disc_iff)

lemma syscall_stop_dom: "om_get (tb_procs (handle_syscall_stop K pid t)) p = None \<longleftrightarrow> om_get (tb_procs t) p = None"
proof -
  have exit: "om_get (tb_procs (record_exit K pid rv ps u)) p = None \<longleftrightarrow> om_get (tb_procs u) p = None" for K rv ps u
    by (rule caches_dom [OF caches_record_exit])
  have upd: "om_get (tb_procs (upd_ps q f u)) p = None \<longleftrightarrow> om_get (tb_procs u) p = None" for q f u
    by (simp add: upd_ps_get)
  show ?thesis
    by (simp add: handle_syscall_stop_def syscall_stop_regs_def Let_def upd exit split: option.split)
qed

lemma runs_between:
  assumes "between a b" and "\<forall>r \<in> set rs. proper_run r \<and> om_get (tb_procs a) (sr_pid r) \<noteq> None"
  shows "between (fold classic_syscall rs a) (fold seccomp_syscall rs b)"
  using assms
proof (induction rs arbitrary: a b)
  case (Cons r rs)
  then have "between (classic_syscall r a) (seccomp_syscall r b)" by (simp add: step_between)
  moreover have "\<forall>r' \<in> set rs. proper_run r' \<and> om_get (tb_procs (classic_syscall r a)) (sr_pid r') \<noteq> None"
    using Cons.prems by (simp add: classic_syscall_def syscall_stop_dom)
  ultimately show ?case by (simp add: Cons.IH)
qed simp


text \<open>An \<open>openat\<close> that returns descriptor 3, and a \<open>getpid\<close>.\<close>

definition example_runs :: "syscall_run list" where
  "example_runs =
    [\<lparr>sr_kernel = memory_kernel 0x1000 ''a.c'', sr_pid = 7,
      sr_entry = \<lparr>orig_rax = 257, rax = - 38, rdi = 0, rsi = 0x1000, rdx = 0, r10 = 0\<rparr>,
      sr_exit = \<lparr>orig_rax = 257, rax = 3, rdi = 0, rsi = 0x1000, rdx = 0, r10 = 0\<rparr>\<rparr>,
     \<lparr>sr_kernel = no_kernel, sr_pid = 7,
      sr_entry = \<lparr>orig_rax = 39, rax = - 38, rdi = 0, rsi = 0, rdx = 0, r10 = 0\<rparr>,
      sr_exit = \<lparr>orig_rax = 39, rax = 7, rdi = 0, rsi = 0, rdx = 0, r10 = 0\<rparr>\<rparr>]"


end
