(* ===== verification/Tracer_Events.thy ===== *)
theory Tracer_Events
  imports Tracer_Modes
begin

text \<open>
  What the tracer reports for the events of a process's life: an opened file, a new child whose
  first stop and fork event come in either order, the death of a process, the end of the loop.
\<close>

section \<open>Opening a file\<close>

definition full_path :: "ProcessState \<Rightarrow> string \<Rightarrow> string" where
  "full_path ps s = (if hd s = CHR ''/'' then normalize_path s else normalize_path (ps_cwd ps @ CHR ''/'' # s))"

lemma access_path_string:
  assumes "holds_string K pid addr s" and "addr \<noteq> 0" and "length s < 4096"
    and "om_get (tb_procs t) pid = Some ps" and "ps_cwd ps \<noteq> []"
    and "s \<noteq> []" and "\<not> should_filter_path s" and "\<not> should_filter_path (full_path ps s)"
  shows "fst (access_path K pid addr t) = Some (full_path ps s) \<and> tb_clock (snd (access_path K pid addr t)) = tb_clock t"
proof -
  have str: "fst (read_string K pid addr t) = s" by (rule read_string_value [OF assms(1-3)])
  obtain t1 where t1: "read_string K pid addr t = (s, t1)" using str by (cases "read_string K pid addr t") auto
  have clock: "tb_clock t1 = tb_clock t"
    using t1 assms(2) by (auto simp: read_string_def Let_def upd_ps_def split: prod.splits option.splits if_splits)
  obtain ps' r where mem: "read_string_mem K ps addr 4096 = (ps', r)" by fastforce
  then have cwd: "ps_cwd ps' = ps_cwd ps" by (auto simp: read_string_mem_def Let_def split: if_splits)
  have "om_get (tb_procs t1) pid = Some ps'"
    using t1 assms(2,4) mem by (auto simp: read_string_def upd_ps_def om_get_put split: option.splits)
  then have "resolve_path_cached K pid s t1 = (full_path ps s, t1)"
    using assms(5,6) cwd by (simp add: resolve_path_cached_def full_path_def)
  with assms(6-8) t1 clock show ?thesis by (simp add: access_path_def)
qed

text \<open>What the exit of an opening call with return value \<open>rv\<close> reports.\<close>

definition open_report :: "int \<Rightarrow> string \<Rightarrow> int \<Rightarrow> 64 word \<Rightarrow> int \<Rightarrow> session_op" where
  "open_report pid path flags rv now =
    (if as_long rv \<ge> 0
     then Access \<lparr>fa_pid = pid, fa_filename = path, fa_mode = mode_val (open_mode flags), fa_fd = as_int rv, fa_timestamp = now\<rparr>
     else Failed \<lparr>fl_pid = pid, fl_filename = path, fl_mode = mode_val (open_mode flags), fl_errno = as_int (- rv),
                  fl_timestamp = now\<rparr>)"

lemma record_both_string:
  assumes "holds_string K pid (ps_path_addr x) s" and "ps_path_addr x \<noteq> 0" and "length s < 4096"
    and "om_get (tb_procs t) pid = Some ps" and "ps_cwd ps \<noteq> []"
    and "s \<noteq> []" and "\<not> should_filter_path s" and "\<not> should_filter_path (full_path ps s)"
  shows "tb_calls (record_both K pid rv x (open_mode (ps_flags x)) (as_int rv) t) =
    tb_calls t @ [open_report pid (full_path ps s) (ps_flags x) rv (k_now K (tb_clock t))]"
proof -
  obtain t1 where t1: "access_path K pid (ps_path_addr x) t = (Some (full_path ps s), t1)" "tb_clock t1 = tb_clock t"
    using access_path_string [OF assms] by (cases "access_path K pid (ps_path_addr x) t") auto
  have "tb_calls t1 = tb_calls t" using frame_access_path(1) [where K = K and pid = pid and addr = "ps_path_addr x" and t = t] t1 by simp
  with t1 assms(2) show ?thesis
    by (simp add: record_both_def record_access_def record_failed_access_def open_report_def now_us_def frame_simps)
qed


lemma holds_with_regs: "holds_string (with_regs K e) pid addr s = holds_string K pid addr s"
  by (simp add: holds_string_def with_regs_def)


section \<open>A new child\<close>

lemma clock_frames [frame_simps]:
  "tb_clock (snd (kick_if_stuck K pid sig t)) = tb_clock t" "tb_clock (resume K pid sig t) = tb_clock t"
proof -
  have "tb_clock (snd (kick_attempts K pid sig n look k u)) = tb_clock u" for n look k u
    by (induction n arbitrary: look k u) (simp_all add: frame_simps)
  then show 1: "tb_clock (snd (kick_if_stuck K pid sig t)) = tb_clock t" for t by (simp add: kick_if_stuck_def)
  show "tb_clock (resume K pid sig t) = tb_clock t" by (simp add: resume_def Let_def 1 frame_simps)
qed

text \<open>The part of the state that a child's first stop changes.\<close>

lemma sigstop_effect:
  assumes "\<not> is_traced c (ensure_known K c (Stopped SIGSTOP 0) t)"
  shows "tb_procs (handle_status K c (Stopped SIGSTOP 0) t) =
      (case om_get (tb_procs t) c of
         None \<Rightarrow> om_put c ((ProcessState_new c 0)\<lparr>ps_traced := True\<rparr>) (tb_procs t)
       | Some ps \<Rightarrow> om_put c (ps\<lparr>ps_traced := True\<rparr>) (tb_procs t))"
    and "tb_calls (handle_status K c (Stopped SIGSTOP 0) t) = tb_calls t"
    and "tb_clock (handle_status K c (Stopped SIGSTOP 0) t) = tb_clock t"
  using assms
  by (auto simp: handle_status_def handle_stop_def event_numbers handle_sigstop_def ensure_known_def Let_def
      frame_simps resume_frame upd_ps_def om_get_put om_put_put split: option.splits)

text \<open>The child's record and entry that a fork event of \<open>p\<close> makes.\<close>

definition forked :: "int \<Rightarrow> kernel \<Rightarrow> int \<Rightarrow> tracer \<Rightarrow> ProcessState \<Rightarrow> ProcessState" where
  "forked c K p t ps = ps\<lparr>ps_ppid := p, ps_cwd := inherited_cwd K p c t, ps_cmdline := inherited_cmdline K p c t\<rparr>"

definition fork_start :: "int \<Rightarrow> kernel \<Rightarrow> int \<Rightarrow> tracer \<Rightarrow> session_op" where
  "fork_start c K p t = Start (ProcessRecord_default\<lparr>pr_pid := c, pr_ppid := p,
     pr_cmdline := inherited_cmdline K p c t, pr_cwd := inherited_cwd K p c t, pr_start := k_now K (tb_clock t)\<rparr>)"

lemma fork_effect:
  assumes "ev \<in> {PTRACE_EVENT_FORK, PTRACE_EVENT_VFORK, PTRACE_EVENT_CLONE}" and "k_msg K p = c" and "c \<noteq> 0"
    and "om_get (tb_procs t) p \<noteq> None" and "\<And>ps. om_get (tb_procs t) c = Some ps \<Longrightarrow> ps_ppid ps = 0"
  shows "tb_procs (handle_status K p (Stopped SIGTRAP ev) t) =
      om_put c (forked c K p t (case om_get (tb_procs t) c of None \<Rightarrow> ProcessState_new c p | Some ps \<Rightarrow> ps)) (tb_procs t)"
    and "tb_calls (handle_status K p (Stopped SIGTRAP ev) t) = tb_calls t @ [fork_start c K p t]"
proof -
  define u where "u = t\<lparr>cnt_fork_events := Suc (cnt_fork_events t)\<rparr>"
  have "ensure_known K p (Stopped SIGTRAP ev) t = t" using assms(4) by (auto simp: ensure_known_def)
  with assms(1) have h: "handle_status K p (Stopped SIGTRAP ev) t = resume K p 0 (handle_fork_event K p u)"
    by (auto simp: handle_status_def handle_stop_def u_def)
  have "drop_stale c u = u" using assms(5) by (auto simp: drop_stale_def u_def split: option.split)
  moreover have "inherited_cwd K p c u = inherited_cwd K p c t" "inherited_cmdline K p c u = inherited_cmdline K p c t"
    by (simp_all add: inherited_cwd_def inherited_cmdline_def u_def)
  ultimately have "tb_procs (handle_fork_event K p u) =
      om_put c (forked c K p t (case om_get (tb_procs t) c of None \<Rightarrow> ProcessState_new c p | Some ps \<Rightarrow> ps)) (tb_procs t)
    \<and> tb_calls (handle_fork_event K p u) = tb_calls t @ [fork_start c K p t]"
    using assms(2,3)
    by (simp add: handle_fork_event_def register_child_def now_us_def frame_simps Let_def forked_def fork_start_def u_def)
  then show "tb_procs (handle_status K p (Stopped SIGTRAP ev) t) =
      om_put c (forked c K p t (case om_get (tb_procs t) c of None \<Rightarrow> ProcessState_new c p | Some ps \<Rightarrow> ps)) (tb_procs t)"
    and "tb_calls (handle_status K p (Stopped SIGTRAP ev) t) = tb_calls t @ [fork_start c K p t]"
    by (simp_all add: h resume_frame)
qed

text \<open>C17. The order of a new child's first stop and its parent's fork event does not matter: either way
  the process is reported once, with the same parent, directory, command line and time; its entry
  is the same; and the first \<open>SIGSTOP\<close> counts as its attachment, so that it is not re-injected.\<close>

theorem fork_race_confluent:
  assumes "ev \<in> {PTRACE_EVENT_FORK, PTRACE_EVENT_VFORK, PTRACE_EVENT_CLONE}" and "k_msg K p = c" and "c \<noteq> 0"
    and "om_get (tb_procs t) p \<noteq> None" and "om_get (tb_procs t) c = None"
  shows "let child_first = handle_status K p (Stopped SIGTRAP ev) (handle_status K' c (Stopped SIGSTOP 0) t);
             parent_first = handle_status K' c (Stopped SIGSTOP 0) (handle_status K p (Stopped SIGTRAP ev) t)
    in tb_calls child_first = tb_calls t @ [fork_start c K p t] \<and> tb_calls parent_first = tb_calls child_first
      \<and> tb_procs parent_first = tb_procs child_first \<and> is_traced c parent_first"
proof -
  define child_first where "child_first = handle_status K p (Stopped SIGTRAP ev) (handle_status K' c (Stopped SIGSTOP 0) t)"
  define parent_first where "parent_first = handle_status K' c (Stopped SIGSTOP 0) (handle_status K p (Stopped SIGTRAP ev) t)"
  have pc: "p \<noteq> c" using assms(4,5) by auto
  define s where "s = handle_status K' c (Stopped SIGSTOP 0) t"
  have new: "\<not> is_traced c (ensure_known K' c (Stopped SIGSTOP 0) t)"
    using assms(5) by (simp add: is_traced_def ensure_known_def Let_def frame_simps om_get_put ProcessState_new_def)
  have s: "tb_procs s = om_put c ((ProcessState_new c 0)\<lparr>ps_traced := True\<rparr>) (tb_procs t)" "tb_calls s = tb_calls t"
    "tb_clock s = tb_clock t" using sigstop_effect [OF new] assms(5) by (simp_all add: s_def)
  have inh: "inherited_cwd K p c s = inherited_cwd K p c t" "inherited_cmdline K p c s = inherited_cmdline K p c t"
    using pc by (simp_all add: inherited_cwd_def inherited_cmdline_def s(1) om_get_put)
  have cf: "tb_procs child_first = om_put c (forked c K p t ((ProcessState_new c 0)\<lparr>ps_traced := True\<rparr>)) (tb_procs t)"
    "tb_calls child_first = tb_calls t @ [fork_start c K p t]"
    using fork_effect [OF assms(1-3), of s] assms(4) pc
    by (simp_all add: child_first_def s_def [symmetric] s om_get_put om_put_put forked_def fork_start_def inh ProcessState_new_def)
  define f where "f = handle_status K p (Stopped SIGTRAP ev) t"
  have f: "tb_procs f = om_put c (forked c K p t (ProcessState_new c p)) (tb_procs t)"
    "tb_calls f = tb_calls t @ [fork_start c K p t]"
    using fork_effect [OF assms(1-4)] assms(5) by (simp_all add: f_def)
  have old: "\<not> is_traced c (ensure_known K' c (Stopped SIGSTOP 0) f)"
    by (simp add: is_traced_def ensure_known_def f om_get_put forked_def ProcessState_new_def)
  have pf: "tb_procs parent_first = om_put c ((forked c K p t (ProcessState_new c p))\<lparr>ps_traced := True\<rparr>) (tb_procs t)"
    "tb_calls parent_first = tb_calls t @ [fork_start c K p t]"
    using sigstop_effect [OF old] f by (simp_all add: parent_first_def f_def [symmetric] om_get_put om_put_put)
  have "tb_calls parent_first = tb_calls child_first \<and> tb_procs parent_first = tb_procs child_first \<and> is_traced c parent_first"
    by (simp add: cf pf is_traced_def om_get_put) (simp add: forked_def ProcessState_new_def)
  with cf(2) show ?thesis
    by (simp only: Let_def child_first_def [symmetric] parent_first_def [symmetric])
qed

lemma fork_race_confluent_witness:
  "let t = idle_tracer 7 SC_PHASE_ENTRY_NEXT; K = no_kernel\<lparr>k_msg := (\<lambda>_. 8)\<rparr>;
       child_first = handle_status K 7 (Stopped SIGTRAP PTRACE_EVENT_CLONE) (handle_status no_kernel 8 (Stopped SIGSTOP 0) t);
       parent_first = handle_status no_kernel 8 (Stopped SIGSTOP 0) (handle_status K 7 (Stopped SIGTRAP PTRACE_EVENT_CLONE) t)
   in tb_calls child_first = tb_calls t @ [fork_start 8 K 7 t] \<and> tb_calls parent_first = tb_calls child_first
      \<and> tb_procs parent_first = tb_procs child_first \<and> is_traced 8 parent_first"
  unfolding Let_def
  by (rule fork_race_confluent [unfolded Let_def]) simp_all

section \<open>Death\<close>

text \<open>The report of a death, with the figures of the \<open>/proc\<close> files at the exit event.\<close>

definition exit_report :: "kernel \<Rightarrow> int \<Rightarrow> int \<Rightarrow> int \<Rightarrow> session_op" where
  "exit_report K pid now code =
     Exit pid now code
       (fst (read_proc_cpu (k_ticks K) (k_file K pid ''stat''))) (snd (read_proc_cpu (k_ticks K) (k_file K pid ''stat'')))
       (read_proc_peak_rss (k_file K pid ''status''))
       (fst (read_proc_io (k_file K pid ''io''))) (snd (read_proc_io (k_file K pid ''io'')))"

lemma death_known:
  assumes "om_get (tb_procs t) pid = Some ps"
  shows "tb_calls (handle_death K pid c t) = tb_calls t @ [Exit pid (k_now K (tb_clock t)) c (ps_user_time ps)
      (ps_sys_time ps) (ps_peak_rss ps) (ps_io_read ps) (ps_io_write ps)]"
    and "tb_procs (handle_death K pid c t) = om_del pid (tb_procs t)"
  using assms by (simp_all add: handle_death_def now_us_def frame_simps)

lemma ensure_known_frame: "tb_calls (ensure_known K pid st t) = tb_calls t \<and> tb_clock (ensure_known K pid st t) = tb_clock t"
  by (simp add: ensure_known_def Let_def frame_simps split: option.split wait_status.split)

text \<open>The death of a process is recorded once, with its exit code (the negated signal number when a
  signal killed it) and the times, memory and I/O figures its \<open>/proc\<close> files had at the exit event,
  known process or not; after that the process is forgotten.\<close>

theorem exit_usage_recorded:
  "let t1 = handle_status K pid (Stopped SIGTRAP PTRACE_EVENT_EXIT) t;
       exited = handle_status K' pid (Exited code) t1;
       killed = handle_status K' pid (Signaled sg) t1
   in tb_calls exited = tb_calls t @ [exit_report K pid (k_now K' (tb_clock t)) code]
      \<and> tb_calls killed = tb_calls t @ [exit_report K pid (k_now K' (tb_clock t)) (- sg)]
      \<and> om_get (tb_procs exited) pid = None \<and> om_get (tb_procs killed) pid = None"
proof -
  define u where "u = ensure_known K pid (Stopped SIGTRAP PTRACE_EVENT_EXIT) t"
  define t1 where "t1 = handle_status K pid (Stopped SIGTRAP PTRACE_EVENT_EXIT) t"
  have t1: "t1 = resume K pid 0 (handle_exit_event K pid u)"
    by (simp add: t1_def handle_status_def handle_stop_def u_def event_numbers)
  obtain ps where "om_get (tb_procs u) pid = Some ps" using ensure_known_get [of K pid _ t] by (auto simp: u_def)
  moreover obtain user sys where cpu: "read_proc_cpu (k_ticks K) (k_file K pid ''stat'') = (user, sys)" by fastforce
  moreover obtain ir iw where io: "read_proc_io (k_file K pid ''io'') = (ir, iw)" by fastforce
  ultimately obtain ps' where ps': "om_get (tb_procs t1) pid = Some ps'"
    "(ps_user_time ps', ps_sys_time ps') = read_proc_cpu (k_ticks K) (k_file K pid ''stat'')"
    "ps_peak_rss ps' = read_proc_peak_rss (k_file K pid ''status'')"
    "(ps_io_read ps', ps_io_write ps') = read_proc_io (k_file K pid ''io'')"
    by (simp add: t1 handle_exit_event_def resume_frame upd_ps_get)
  have same: "tb_calls t1 = tb_calls t" "tb_clock t1 = tb_clock t"
    using ensure_known_frame [of K pid _ t]
    by (simp_all add: t1 handle_exit_event_def resume_frame frame_simps u_def split: prod.split)
  have "ensure_known K' pid st t1 = t1" for st using ps'(1) by (simp add: ensure_known_def)
  moreover have "Exit pid now c (ps_user_time ps') (ps_sys_time ps') (ps_peak_rss ps') (ps_io_read ps') (ps_io_write ps') =
      exit_report K pid now c" for now c
    by (simp add: exit_report_def ps'(3) ps'(2) [symmetric] ps'(4) [symmetric])
  ultimately have dead: "tb_calls (handle_status K' pid st t1) = tb_calls t @ [exit_report K pid (k_now K' (tb_clock t)) c]
      \<and> om_get (tb_procs (handle_status K' pid st t1)) pid = None"
    if "st = Exited c \<or> (\<exists>g. st = Signaled g \<and> c = - g)" for st c
    using that death_known [OF ps'(1)] same by (auto simp: handle_status_def om_get_del)
  show ?thesis
    using dead [of "Exited code" code] dead [of "Signaled sg" "- sg"] by (simp only: Let_def t1_def [symmetric]) simp
qed

section \<open>The end of the loop\<close>

text \<open>An iteration that meets no signal and no write failure, and the pid whose death it reports.\<close>

definition calm :: "loop_input \<Rightarrow> bool" where
  "calm i \<longleftrightarrow> \<not> li_fatal i \<and> li_signal i = None"

definition death_of :: "loop_input \<Rightarrow> int option" where
  "death_of i = (case li_wait i of
     Report pid status \<Rightarrow> (case wait_of status of Exited _ \<Rightarrow> Some pid | Signaled _ \<Rightarrow> Some pid | _ \<Rightarrow> None)
   | _ \<Rightarrow> None)"

fun exit_pid :: "session_op \<Rightarrow> int option" where
  "exit_pid (Exit pid _ _ _ _ _ _ _) = Some pid"
| "exit_pid _ = None"

lemma death_iteration:
  assumes "calm i" and "death_of i = Some pid" and "tb_running t" and "om_get (tb_procs t) pid \<noteq> None"
  obtains t' op where "loop_iteration i t = (True, t')" and "tb_procs t' = om_del pid (tb_procs t)"
    and "tb_running t'" and "tb_calls t' = tb_calls t @ [op]" and "exit_pid op = Some pid"
proof -
  let ?K = "li_kernel i"
  obtain status where w: "li_wait i = Report pid status"
    and st: "\<exists>c. wait_of status = Exited c \<or> wait_of status = Signaled c"
    using assms(2) by (auto simp: death_of_def split: wait_result.splits wait_status.splits)
  define u where "u = (snd (now_us ?K (snd (now_us ?K t))))
    \<lparr>tb_last_event := k_now ?K (Suc (tb_clock t)), tb_last_stall_report := 0\<rparr>"
  have u: "tb_procs u = tb_procs t" "tb_calls u = tb_calls t" "tb_running u = tb_running t"
    by (simp_all add: u_def now_us_def)
  have "loop_iteration i t = (True, handle_status ?K pid (wait_of status) u)"
    using assms(1,3) w
    by (simp add: loop_iteration_def calm_def handle_signal_def drain_expired_def handle_wait_def now_us_def u_def Let_def)
  moreover obtain c where "handle_status ?K pid (wait_of status) u = handle_death ?K pid c u"
    using st assms(4) u(1) by (auto simp: handle_status_def ensure_known_def)
  moreover obtain ps where "om_get (tb_procs u) pid = Some ps" using assms(4) u(1) by auto
  moreover have "tb_running (handle_death ?K pid c u)" for c
    using assms(3) u(3) by (simp add: handle_death_def now_us_def call_def split: option.split)
  ultimately show thesis using that death_known u by (metis exit_pid.simps(1))
qed

lemma om_del_keys: "om_keys (om_del k m) = filter (\<lambda>x. x \<noteq> k) (om_keys m)"
  unfolding om_keys_def om_del_def by (induction m) auto

lemma all_deaths:
  assumes "tb_running t" and "\<forall>i \<in> set is. calm i" and "map death_of is = map Some ps" and "distinct ps"
    and "set ps = set (om_keys (tb_procs t))"
  shows "\<exists>t' ops. event_loop is t = (True, t') \<and> tb_procs t' = [] \<and> tb_calls t' = tb_calls t @ ops
    \<and> map exit_pid ops = map Some ps"
  using assms
proof (induction "is" arbitrary: t ps)
  case Nil
  then have "tb_procs t = []" by (auto simp: om_keys_def)
  with Nil show ?case by auto
next
  case (Cons i "is")
  then obtain pid qs where ps: "ps = pid # qs" "death_of i = Some pid" "map death_of is = map Some qs" by (cases ps) auto
  then have "om_get (tb_procs t) pid \<noteq> None" using Cons.prems(5) by (auto simp: om_keys_set)
  moreover from this have ne: "tb_procs t \<noteq> []" by auto
  moreover have "calm i" using Cons.prems(2) by simp
  ultimately obtain u op where u: "loop_iteration i t = (True, u)" "tb_procs u = om_del pid (tb_procs t)"
    "tb_running u" "tb_calls u = tb_calls t @ [op]" "exit_pid op = Some pid"
    using death_iteration ps(2) Cons.prems(1) by metis
  have "set qs = set (om_keys (tb_procs u))" using Cons.prems(4,5) by (auto simp: u(2) om_del_keys ps(1))
  then obtain t' ops where "event_loop is u = (True, t')" "tb_procs t' = []" "tb_calls t' = tb_calls u @ ops"
    "map exit_pid ops = map Some qs"
    using Cons.IH [OF u(3), of qs] Cons.prems(2,4) ps by auto
  with u ne ps(1) show ?case by (intro exI [of _ t'] exI [of _ "op # ops"]) simp
qed

text \<open>C19. The loop ends by itself when the traced tree is gone: once the kernel has reported the death
  of every tracked process, in any order, no process is left and the loop is over, and exactly
  one exit has been recorded for each, in that order.\<close>

theorem event_loop_ends:
  assumes "tb_running t" and "\<forall>i \<in> set is. calm i" and "map death_of is = map Some ps" and "distinct ps"
    and "set ps = set (om_keys (tb_procs t))"
  shows "\<exists>t' ops. event_loop is t = (True, t') \<and> tb_procs t' = [] \<and> tb_calls t' = tb_calls t @ ops
    \<and> map exit_pid ops = map Some ps"
  by (rule all_deaths [OF assms])

lemma event_loop_ends_witness:
  "\<exists>t' ops. event_loop [\<lparr>li_kernel = no_kernel, li_fatal = False, li_signal = None, li_wait = Report 7 256\<rparr>]
      ((idle_tracer 7 SC_PHASE_ENTRY_NEXT)\<lparr>tb_running := True\<rparr>) = (True, t') \<and> tb_procs t' = []
    \<and> tb_calls t' = tb_calls ((idle_tracer 7 SC_PHASE_ENTRY_NEXT)\<lparr>tb_running := True\<rparr>) @ ops \<and> map exit_pid ops = map Some [7]"
  by (rule event_loop_ends) (simp_all add: calm_def death_of_def wait_of_def idle_tracer_def om_keys_def)

section \<open>A child that executes before its fork event\<close>

lemma exec_effect:
  assumes "om_get (tb_procs t) c = Some ps"
  shows "\<exists>exe rec ps'. tb_calls (handle_status K c (Stopped SIGTRAP PTRACE_EVENT_EXEC) t) =
        tb_calls t @ exe @ [Delete c, Start rec]
      \<and> (exe = [] \<or> (\<exists>a. exe = [Access a])) \<and> pr_pid rec = c \<and> pr_ppid rec = ps_ppid ps
      \<and> om_get (tb_procs (handle_status K c (Stopped SIGTRAP PTRACE_EVENT_EXEC) t)) c = Some ps' \<and> ps_ppid ps' = ps_ppid ps"
proof -
  define u where "u = t\<lparr>cnt_exec_events := Suc (cnt_exec_events t)\<rparr>"
  define v where "v = record_exe K c u"
  have h: "handle_status K c (Stopped SIGTRAP PTRACE_EVENT_EXEC) t = resume K c 0 (handle_exec_event K c u)"
    using assms by (simp add: handle_status_def handle_stop_def ensure_known_def u_def event_numbers)
  have v: "\<exists>exe. tb_calls v = tb_calls t @ exe \<and> (exe = [] \<or> (\<exists>a. exe = [Access a]))" "tb_procs v = tb_procs t"
    by (auto simp: v_def record_exe_def u_def Let_def now_us_def frame_simps)
  then obtain exe where "tb_calls v = tb_calls t @ exe" "exe = [] \<or> (\<exists>a. exe = [Access a])" by blast
  moreover have "ps_ppid (exec_ps cwd cmd ps) = ps_ppid ps" for cwd cmd by (simp add: exec_ps_def close_mem_fd_def)
  ultimately show ?thesis
    using assms v(2)
    by (simp add: h resume_frame handle_exec_event_def v_def [symmetric] Let_def now_us_def frame_simps ProcessRecord_default_def)
qed

text \<open>A child whose first stop and exec event are handled before its parent's fork event is reported
  twice: deleted and started with parent 0, then started again as the parent's child.\<close>

theorem exec_before_fork_twice:
  assumes "ev \<in> {PTRACE_EVENT_FORK, PTRACE_EVENT_VFORK, PTRACE_EVENT_CLONE}" and "k_msg K p = c" and "c \<noteq> 0"
    and "om_get (tb_procs t) p \<noteq> None" and "om_get (tb_procs t) c = None"
  shows "\<exists>exe r1 r2. tb_calls (handle_status K p (Stopped SIGTRAP ev)
      (handle_status K2 c (Stopped SIGTRAP PTRACE_EVENT_EXEC) (handle_status K1 c (Stopped SIGSTOP 0) t))) =
        tb_calls t @ exe @ [Delete c, Start r1, Start r2]
      \<and> pr_pid r1 = c \<and> pr_ppid r1 = 0 \<and> pr_pid r2 = c \<and> pr_ppid r2 = p"
proof -
  have pc: "p \<noteq> c" using assms(4,5) by auto
  define s where "s = handle_status K1 c (Stopped SIGSTOP 0) t"
  define x where "x = handle_status K2 c (Stopped SIGTRAP PTRACE_EVENT_EXEC) s"
  have new: "\<not> is_traced c (ensure_known K1 c (Stopped SIGSTOP 0) t)"
    using assms(5) by (simp add: is_traced_def ensure_known_def Let_def frame_simps om_get_put ProcessState_new_def)
  have s: "tb_procs s = om_put c ((ProcessState_new c 0)\<lparr>ps_traced := True\<rparr>) (tb_procs t)" "tb_calls s = tb_calls t"
    using sigstop_effect [OF new] assms(5) by (simp_all add: s_def)
  then have "om_get (tb_procs s) c = Some ((ProcessState_new c 0)\<lparr>ps_traced := True\<rparr>)" by (simp add: om_get_put)
  from exec_effect [OF this, of K2] obtain exe r1 ps' where x: "tb_calls x = tb_calls t @ exe @ [Delete c, Start r1]"
    "pr_pid r1 = c" "pr_ppid r1 = 0" "om_get (tb_procs x) c = Some ps'" "ps_ppid ps' = 0"
    by (auto simp: x_def s(2) ProcessState_new_def)
  have other: "om_get (tb_procs (handle_status K2 c (Stopped SIGTRAP PTRACE_EVENT_EXEC) s)) p = om_get (tb_procs s) p"
  proof -
    have "tb_procs (record_exe K2 c u) = tb_procs u" for u by (simp add: record_exe_def Let_def now_us_def frame_simps)
    then show ?thesis using pc \<open>om_get (tb_procs s) c = _\<close>
      by (simp add: handle_status_def handle_stop_def ensure_known_def event_numbers resume_frame handle_exec_event_def
          Let_def now_us_def frame_simps)
  qed
  have "om_get (tb_procs x) p \<noteq> None" using assms(4) pc other by (simp add: x_def s(1) om_get_put)
  from fork_effect(2) [OF assms(1-3) this] x(4,5)
  have "tb_calls (handle_status K p (Stopped SIGTRAP ev) x) = tb_calls x @ [fork_start c K p x]" by simp
  moreover have "\<exists>r2. fork_start c K p x = Start r2 \<and> pr_pid r2 = c \<and> pr_ppid r2 = p"
    by (simp add: fork_start_def ProcessRecord_default_def)
  ultimately show ?thesis using x(1-3) unfolding x_def s_def by auto
qed

lemma exec_before_fork_twice_witness:
  "\<exists>exe r1 r2. tb_calls (handle_status (no_kernel\<lparr>k_msg := (\<lambda>_. 8)\<rparr>) 7 (Stopped SIGTRAP PTRACE_EVENT_FORK)
      (handle_status no_kernel 8 (Stopped SIGTRAP PTRACE_EVENT_EXEC)
        (handle_status no_kernel 8 (Stopped SIGSTOP 0) (idle_tracer 7 SC_PHASE_ENTRY_NEXT)))) =
      tb_calls (idle_tracer 7 SC_PHASE_ENTRY_NEXT) @ exe @ [Delete 8, Start r1, Start r2]
      \<and> pr_pid r1 = 8 \<and> pr_ppid r1 = 0 \<and> pr_pid r2 = 8 \<and> pr_ppid r2 = 7"
  by (rule exec_before_fork_twice) simp_all

text \<open>What the session makes of these calls: it takes the second start for the re-insertion that the
  deletion announced, keeps the key, and the database refuses the row. One write error, and the
  record that stays has parent 0.\<close>

lemma session_refuses_second_start:
  "let start = (\<lambda>ppid. Start (ProcessRecord_default\<lparr>pr_pid := 8, pr_ppid := ppid\<rparr>));
       s = fold session_op [Delete 8, start 0, start 7] (session_init (db_empty (\<lambda>_. True)) False)
   in w_write_error_count (ss_writer s) = 1
      \<and> map (\<lambda>(k, rec). (k, pr_ppid rec)) (db_processes (w_db (ss_writer s))) = [(8, 0)]"
  by code_simp

end
