(* ===== verification/Json_Writer.thy ===== *)
theory Json_Writer
  imports ProcFs
begin

text \<open>
  \<open>JsonWriter\<close> of \<open>web/json_writer.h\<close>, and what its calls write. A JSON value written by nested
  calls comes out with its commas in place, whatever stood before it, and a reader of compact JSON
  gets it back. The overload for \<open>double\<close> is in \<open>Json_Double\<close>.
\<close>

section \<open>The writer\<close>

record JsonWriter =
  jw_buf :: string
  jw_stack :: "bool list"
  jw_need_comma :: bool

definition JsonWriter_new :: JsonWriter where
  "JsonWriter_new = \<lparr>jw_buf = [], jw_stack = [], jw_need_comma = False\<rparr>"

definition jw_put :: "string \<Rightarrow> bool \<Rightarrow> JsonWriter \<Rightarrow> JsonWriter" where
  "jw_put s b w = w\<lparr>jw_buf := jw_buf w @ s, jw_need_comma := b\<rparr>"

definition jw_comma :: "JsonWriter \<Rightarrow> JsonWriter" where
  "jw_comma w = (if jw_need_comma w then w\<lparr>jw_buf := jw_buf w @ '',''\<rparr> else w)"

definition hex_char :: "nat \<Rightarrow> char" where
  "hex_char d = ''0123456789abcdef'' ! d"

definition escape_char :: "char \<Rightarrow> string" where
  "escape_char c =
    (if c = CHR 0x22 then [CHR 0x5C, CHR 0x22]
     else if c = CHR 0x5C then [CHR 0x5C, CHR 0x5C]
     else if c = CHR 0x08 then [CHR 0x5C, CHR ''b'']
     else if c = CHR 0x0C then [CHR 0x5C, CHR ''f'']
     else if c = CHR 0x0A then [CHR 0x5C, CHR ''n'']
     else if c = CHR 0x0D then [CHR 0x5C, CHR ''r'']
     else if c = CHR 0x09 then [CHR 0x5C, CHR ''t'']
     else if (of_char c :: nat) < 0x20
     then [CHR 0x5C, CHR ''u'', CHR ''0'', CHR ''0'', hex_char (of_char c div 16), hex_char (of_char c mod 16)]
     else [c])"

text \<open>\<open>escape_\<close> stops at the NUL of its C string.\<close>

definition escape :: "string \<Rightarrow> string" where
  "escape s = CHR 0x22 # concat (map escape_char (c_str s)) @ [CHR 0x22]"

definition begin_object :: "JsonWriter \<Rightarrow> JsonWriter" where
  "begin_object w = (jw_put ''{'' False (jw_comma w))\<lparr>jw_stack := jw_stack w @ [False]\<rparr>"

definition end_object :: "JsonWriter \<Rightarrow> JsonWriter" where
  "end_object w = (jw_put ''}'' True w)\<lparr>jw_stack := butlast (jw_stack w)\<rparr>"

definition begin_array :: "JsonWriter \<Rightarrow> JsonWriter" where
  "begin_array w = (jw_put ''['' False (jw_comma w))\<lparr>jw_stack := jw_stack w @ [False]\<rparr>"

definition end_array :: "JsonWriter \<Rightarrow> JsonWriter" where
  "end_array w = (jw_put '']'' True w)\<lparr>jw_stack := butlast (jw_stack w)\<rparr>"

definition jw_key :: "string \<Rightarrow> JsonWriter \<Rightarrow> JsonWriter" where
  "jw_key k w = jw_put (escape k @ '':'') False (jw_comma w)"

definition val_str :: "string \<Rightarrow> JsonWriter \<Rightarrow> JsonWriter" where
  "val_str s w = jw_put (escape s) True (jw_comma w)"

definition val_int :: "int \<Rightarrow> JsonWriter \<Rightarrow> JsonWriter" where
  "val_int v w = jw_put (int_str v) True (jw_comma w)"

definition val_bool :: "bool \<Rightarrow> JsonWriter \<Rightarrow> JsonWriter" where
  "val_bool v w = jw_put (if v then ''true'' else ''false'') True (jw_comma w)"

definition null_val :: "JsonWriter \<Rightarrow> JsonWriter" where
  "null_val w = jw_put ''null'' True (jw_comma w)"

section \<open>Values\<close>

datatype json =
    JNull
  | JBool bool
  | JInt int
  | JStr string
  | JArr "json list"
  | JObj "(string \<times> json) list"

text \<open>A value as a sequence of calls, and as text.\<close>

fun put_json :: "json \<Rightarrow> JsonWriter \<Rightarrow> JsonWriter"
  and put_elems :: "json list \<Rightarrow> JsonWriter \<Rightarrow> JsonWriter"
  and put_members :: "(string \<times> json) list \<Rightarrow> JsonWriter \<Rightarrow> JsonWriter" where
  "put_json JNull w = null_val w"
| "put_json (JBool b) w = val_bool b w"
| "put_json (JInt i) w = val_int i w"
| "put_json (JStr s) w = val_str s w"
| "put_json (JArr vs) w = end_array (put_elems vs (begin_array w))"
| "put_json (JObj ms) w = end_object (put_members ms (begin_object w))"
| "put_elems [] w = w"
| "put_elems (v # vs) w = put_elems vs (put_json v w)"
| "put_members [] w = w"
| "put_members ((k, v) # ms) w = put_members ms (put_json v (jw_key k w))"

definition comma_if :: "bool \<Rightarrow> string" where
  "comma_if b = (if b then '','' else [])"

text \<open>\<open>b\<close> says whether something stands before the first element.\<close>

fun render_json :: "json \<Rightarrow> string"
  and render_elems :: "bool \<Rightarrow> json list \<Rightarrow> string"
  and render_members :: "bool \<Rightarrow> (string \<times> json) list \<Rightarrow> string" where
  "render_json JNull = ''null''"
| "render_json (JBool b) = (if b then ''true'' else ''false'')"
| "render_json (JInt i) = int_str i"
| "render_json (JStr s) = escape s"
| "render_json (JArr vs) = CHR ''['' # render_elems False vs @ '']''"
| "render_json (JObj ms) = CHR ''{'' # render_members False ms @ ''}''"
| "render_elems b [] = []"
| "render_elems b (v # vs) = comma_if b @ render_json v @ render_elems True vs"
| "render_members b [] = []"
| "render_members b ((k, v) # ms) = comma_if b @ escape k @ CHR '':'' # render_json v @ render_members True ms"

lemma jw_comma_eq: "jw_comma w = w\<lparr>jw_buf := jw_buf w @ comma_if (jw_need_comma w)\<rparr>"
  by (simp add: jw_comma_def comma_if_def)

lemmas jw_defs = jw_comma_eq jw_put_def null_val_def val_bool_def val_int_def val_str_def jw_key_def
  begin_array_def end_array_def begin_object_def end_object_def

lemma put_render:
  "put_json v w = w\<lparr>jw_buf := jw_buf w @ comma_if (jw_need_comma w) @ render_json v, jw_need_comma := True\<rparr>"
  "put_elems vs w = w\<lparr>jw_buf := jw_buf w @ render_elems (jw_need_comma w) vs, jw_need_comma := jw_need_comma w \<or> vs \<noteq> []\<rparr>"
  "put_members ms w = w\<lparr>jw_buf := jw_buf w @ render_members (jw_need_comma w) ms, jw_need_comma := jw_need_comma w \<or> ms \<noteq> []\<rparr>"
  by (induction v w and vs w and ms w rule: put_json_put_elems_put_members.induct)
    (simp_all add: jw_defs comma_if_def)

text \<open>The calls for a value append exactly its text, with a comma before it where one is due, and
  leave the nesting as it was: elements and members are separated by single commas, whatever
  stands before the value.\<close>

lemma json_writer_text:
  "put_json v w = w\<lparr>jw_buf := jw_buf w @ comma_if (jw_need_comma w) @ render_json v, jw_need_comma := True\<rparr>"
  by (rule put_render(1))

section \<open>A reader of compact JSON\<close>

definition unhex :: "char \<Rightarrow> nat option" where
  "unhex c = (if c \<in> set ''0123456789abcdef'' then find_char c ''0123456789abcdef'' else None)"

definition unescape1 :: "char \<Rightarrow> char option" where
  "unescape1 c =
    (if c = CHR 0x22 then Some CHR 0x22 else if c = CHR 0x5C then Some CHR 0x5C
     else if c = CHR ''b'' then Some CHR 0x08 else if c = CHR ''f'' then Some CHR 0x0C
     else if c = CHR ''n'' then Some CHR 0x0A else if c = CHR ''r'' then Some CHR 0x0D
     else if c = CHR ''t'' then Some CHR 0x09 else None)"

text \<open>One character of a string literal, or its end.\<close>

definition read_char :: "string \<Rightarrow> (char option \<times> string) option" where
  "read_char s =
    (case s of
       [] \<Rightarrow> None
     | c # r \<Rightarrow>
        if c = CHR 0x22 then Some (None, r)
        else if c \<noteq> CHR 0x5C then (if (of_char c :: nat) < 0x20 then None else Some (Some c, r))
        else (case r of
            [] \<Rightarrow> None
          | e # r1 \<Rightarrow>
             if e = CHR ''u''
             then (case r1 of
                 a # b # h # l # r2 \<Rightarrow>
                   (case (unhex h, unhex l) of
                      (Some i, Some j) \<Rightarrow> if a = CHR ''0'' \<and> b = CHR ''0'' then Some (Some (char_of (16 * i + j)), r2) else None
                    | _ \<Rightarrow> None)
               | _ \<Rightarrow> None)
             else map_option (\<lambda>d. (Some d, r1)) (unescape1 e)))"

lemma read_char_shorter: "read_char s = Some (x, r) \<Longrightarrow> length r < length s"
  by (auto simp: read_char_def split: list.splits if_splits option.splits)

function read_chars :: "string \<Rightarrow> (string \<times> string) option" where
  "read_chars s =
    (case read_char s of
       None \<Rightarrow> None
     | Some (None, r) \<Rightarrow> Some ([], r)
     | Some (Some c, r) \<Rightarrow> map_option (\<lambda>(cs, t). (c # cs, t)) (read_chars r))"
  by pat_completeness auto
termination by (relation "measure length") (auto dest: read_char_shorter)

declare read_chars.simps [simp del]

definition read_string_lit :: "string \<Rightarrow> (string \<times> string) option" where
  "read_string_lit s = (if s \<noteq> [] \<and> hd s = CHR 0x22 then read_chars (tl s) else None)"

definition read_int :: "string \<Rightarrow> (int \<times> string) option" where
  "read_int s =
    (let neg = (s \<noteq> [] \<and> hd s = CHR ''-''); u = (if neg then tl s else s); (v, rest) = digits_val 0 u
     in if rest = u then None else Some (if neg then - v else v, rest))"

text \<open>The fuel bounds the number of nested and following values; the value of the string gives enough.\<close>

fun read_json :: "nat \<Rightarrow> string \<Rightarrow> (json \<times> string) option"
  and read_elems :: "nat \<Rightarrow> string \<Rightarrow> (json list \<times> string) option"
  and read_members :: "nat \<Rightarrow> string \<Rightarrow> ((string \<times> json) list \<times> string) option" where
  "read_json 0 s = None"
| "read_json (Suc n) s =
    (if starts_with s ''null'' then Some (JNull, drop 4 s)
     else if starts_with s ''true'' then Some (JBool True, drop 4 s)
     else if starts_with s ''false'' then Some (JBool False, drop 5 s)
     else if starts_with s [CHR 0x22] then map_option (\<lambda>(x, r). (JStr x, r)) (read_string_lit s)
     else if starts_with s ''[]'' then Some (JArr [], drop 2 s)
     else if starts_with s ''['' then map_option (\<lambda>(x, r). (JArr x, r)) (read_elems n (tl s))
     else if starts_with s ''{}'' then Some (JObj [], drop 2 s)
     else if starts_with s ''{'' then map_option (\<lambda>(x, r). (JObj x, r)) (read_members n (tl s))
     else map_option (\<lambda>(x, r). (JInt x, r)) (read_int s))"
| "read_elems 0 s = None"
| "read_elems (Suc n) s =
    (case read_json n s of
       None \<Rightarrow> None
     | Some (v, r) \<Rightarrow>
        if starts_with r '','' then map_option (\<lambda>(vs, t). (v # vs, t)) (read_elems n (tl r))
        else if starts_with r '']'' then Some ([v], tl r) else None)"
| "read_members 0 s = None"
| "read_members (Suc n) s =
    (case read_string_lit s of
       None \<Rightarrow> None
     | Some (k, r0) \<Rightarrow>
        if \<not> starts_with r0 '':'' then None
        else (case read_json n (tl r0) of
            None \<Rightarrow> None
          | Some (v, r) \<Rightarrow>
             if starts_with r '','' then map_option (\<lambda>(ms, t). ((k, v) # ms, t)) (read_members n (tl r))
             else if starts_with r ''}'' then Some ([(k, v)], tl r) else None))"

section \<open>Round trip\<close>

text \<open>Strings without NUL, which a C string could not hold.\<close>

fun json_ok :: "json \<Rightarrow> bool"
  and elems_ok :: "json list \<Rightarrow> bool"
  and members_ok :: "(string \<times> json) list \<Rightarrow> bool" where
  "json_ok (JStr s) = (CHR 0x00 \<notin> set s)"
| "json_ok (JArr vs) = elems_ok vs"
| "json_ok (JObj ms) = members_ok ms"
| "json_ok _ = True"
| "elems_ok [] = True"
| "elems_ok (v # vs) = (json_ok v \<and> elems_ok vs)"
| "members_ok [] = True"
| "members_ok ((k, v) # ms) = (CHR 0x00 \<notin> set k \<and> json_ok v \<and> members_ok ms)"

fun cost :: "json \<Rightarrow> nat" and cost_elems :: "json list \<Rightarrow> nat" and cost_members :: "(string \<times> json) list \<Rightarrow> nat" where
  "cost (JArr vs) = Suc (cost_elems vs)"
| "cost (JObj ms) = Suc (cost_members ms)"
| "cost JNull = 1"
| "cost (JBool b) = 1"
| "cost (JInt i) = 1"
| "cost (JStr s) = 1"
| "cost_elems [] = 0"
| "cost_elems (v # vs) = Suc (cost v + cost_elems vs)"
| "cost_members [] = 0"
| "cost_members ((k, v) # ms) = Suc (cost v + cost_members ms)"

lemma hex_round: "d < 16 \<Longrightarrow> unhex (hex_char d) = Some d"
proof -
  have "\<forall>d \<in> set [0..<16]. unhex (hex_char d) = Some d" by code_simp
  then show "d < 16 \<Longrightarrow> unhex (hex_char d) = Some d" by simp
qed

lemma read_char_escape: "read_char (escape_char c @ r) = Some (Some c, r)"
proof (cases "(of_char c :: nat) < 0x20")
  case True
  have d: "(of_char c :: nat) div 16 < 16" "(of_char c :: nat) mod 16 < 16" using True by auto
  have "char_of (16 * (of_char c div 16) + of_char c mod 16 :: nat) = c" by (simp add: mult_div_mod_eq)
  with d hex_round [OF d(1)] hex_round [OF d(2)] show ?thesis
    by (auto simp: escape_char_def read_char_def unescape1_def)
next
  case False
  then show ?thesis by (auto simp: escape_char_def read_char_def unescape1_def)
qed

lemma read_chars_escape: "read_chars (concat (map escape_char s) @ CHR 0x22 # r) = Some (s, r)"
proof (induction s)
  case Nil
  then show ?case by (subst read_chars.simps) (simp add: read_char_def)
next
  case (Cons c s)
  then show ?case by (subst read_chars.simps) (simp add: read_char_escape)
qed

lemma read_string_escape: "CHR 0x00 \<notin> set s \<Longrightarrow> read_string_lit (escape s @ r) = Some (s, r)"
  using read_chars_escape [of s r] by (simp add: read_string_lit_def escape_def c_str_id)

lemma int_str_first: "\<exists>c r. int_str i = c # r \<and> c \<in> set ''-0123456789''"
proof -
  have "\<exists>c r. nat_digits n = c # r \<and> c \<in> set ''0123456789''" for n
    using nat_digits_first [of n] digit_char_table by blast
  then show ?thesis unfolding int_str_def by (metis insert_iff list.set(2))
qed

lemma render_first: "\<exists>c r. render_json v = c # r \<and> c \<notin> {CHR '']'', CHR ''}'', CHR '',''}"
  using int_str_first by (cases v) (auto simp: escape_def, blast)

lemma render_elems_True: "vs \<noteq> [] \<Longrightarrow> render_elems True vs = CHR '','' # render_elems False vs"
  by (cases vs) (simp_all add: comma_if_def)

lemma render_members_True: "ms \<noteq> [] \<Longrightarrow> render_members True ms = CHR '','' # render_members False ms"
  by (cases ms) (auto simp: comma_if_def)

definition stops :: "string \<Rightarrow> bool" where
  "stops rest \<longleftrightarrow> rest = [] \<or> hd rest \<in> set '',]}''"

lemma stops_digits: "stops rest \<Longrightarrow> digits_val a rest = (a, rest)"
  by (cases rest) (auto simp: stops_def digit_val_def)

lemma read_int_str: "stops rest \<Longrightarrow> read_int (int_str i @ rest) = Some (i, rest)"
proof -
  assume stops: "stops rest"
  have d: "digits_val 0 (nat_digits n @ rest) = (int n, rest) \<and> rest \<noteq> nat_digits n @ rest" for n
    using digits_val_nat_digits [of 0 n rest] stops_digits [OF stops] nat_digits_first [of n] by auto
  have h: "hd (nat_digits n @ rest) \<noteq> CHR ''-'' \<and> nat_digits n @ rest \<noteq> []" for n
    using nat_digits_first [of n] digit_char_not_space by fastforce
  show ?thesis
    using d [of "nat i"] d [of "nat (- i)"] h [of "nat i"] by (auto simp: read_int_def int_str_def Let_def)
qed

lemma read_json_int: "stops rest \<Longrightarrow> read_json (Suc n) (int_str i @ rest) = Some (JInt i, rest)"
proof -
  assume stops: "stops rest"
  obtain c r where c: "int_str i = c # r" "c \<in> set ''-0123456789''" using int_str_first by blast
  then have "\<not> starts_with (int_str i @ rest) p" if "p \<noteq> []" "hd p \<notin> set ''-0123456789''" for p
    using that by (cases p) (auto simp: starts_with_iff)
  then show ?thesis using read_int_str [OF stops] by simp
qed

lemma starts_with_Cons: "starts_with (c # s) (d # p) \<longleftrightarrow> c = d \<and> starts_with s p"
  by (auto simp: starts_with_iff)

lemma starts_with_Nil [simp]: "starts_with s []"
  by (simp add: starts_with_iff)

lemma read_render:
  "json_ok v \<Longrightarrow> cost v \<le> n \<Longrightarrow> stops rest \<Longrightarrow> read_json n (render_json v @ rest) = Some (v, rest)"
  "elems_ok vs \<Longrightarrow> vs \<noteq> [] \<Longrightarrow> cost_elems vs \<le> n \<Longrightarrow>
     read_elems n (render_elems False vs @ CHR '']'' # rest) = Some (vs, rest)"
  "members_ok ms \<Longrightarrow> ms \<noteq> [] \<Longrightarrow> cost_members ms \<le> n \<Longrightarrow>
     read_members n (render_members False ms @ CHR ''}'' # rest) = Some (ms, rest)"
proof (induction v and vs and ms arbitrary: n rest and n rest and n rest rule: cost_cost_elems_cost_members.induct)
  case (1 vs)
  then obtain m where m: "n = Suc m" "cost_elems vs \<le> m" by (cases n) auto
  show ?case
  proof (cases vs)
    case Nil
    then show ?thesis by (simp add: m starts_with_Cons)
  next
    case (Cons v vs')
    obtain c r where c: "render_json v = c # r" "c \<noteq> CHR '']''" using render_first [of v] by auto
    have "read_elems m (render_elems False vs @ CHR '']'' # rest) = Some (vs, rest)"
      using 1 Cons m by simp
    then show ?thesis using c by (simp add: m Cons starts_with_Cons comma_if_def)
  qed
next
  case (2 ms)
  then obtain m where m: "n = Suc m" "cost_members ms \<le> m" by (cases n) auto
  show ?case
  proof (cases ms)
    case Nil
    then show ?thesis by (simp add: m starts_with_Cons)
  next
    case (Cons kv ms')
    obtain k v where kv: "kv = (k, v)" by fastforce
    have "read_members m (render_members False ms @ CHR ''}'' # rest) = Some (ms, rest)"
      using 2 Cons m by simp
    then show ?thesis by (simp add: m Cons kv starts_with_Cons comma_if_def escape_def)
  qed
next
  case 3
  then show ?case by (cases n) (simp_all add: starts_with_Cons)
next
  case (4 b)
  then show ?case by (cases n) (simp_all add: starts_with_Cons)
next
  case (5 i)
  then show ?case using read_json_int by (cases n) simp_all
next
  case (6 s)
  then show ?case using read_string_escape [of s rest] by (cases n) (simp_all add: starts_with_Cons escape_def)
next
  case (8 v vs)
  then obtain m where m: "n = Suc m" "cost v \<le> m" "cost_elems vs \<le> m" by (cases n) auto
  have v: "read_json m (render_json v @ tail) = Some (v, tail)" if "stops tail" for tail
    using 8 m(2) that by simp
  show ?case
  proof (cases "vs = []")
    case True
    then show ?thesis using v [of "CHR '']'' # rest"] by (simp add: m stops_def comma_if_def starts_with_Cons)
  next
    case False
    then have "read_elems m (render_elems False vs @ CHR '']'' # rest) = Some (vs, rest)" using 8 m(3) by simp
    then show ?thesis using False v [of "CHR '','' # render_elems False vs @ CHR '']'' # rest"]
      by (simp add: m stops_def comma_if_def starts_with_Cons render_elems_True)
  qed
next
  case (10 k v ms)
  then obtain m where m: "n = Suc m" "cost v \<le> m" "cost_members ms \<le> m" by (cases n) auto
  have v: "read_json m (render_json v @ tail) = Some (v, tail)" if "stops tail" for tail
    using 10 m(2) that by simp
  have k: "read_string_lit (escape k @ r) = Some (k, r)" for r using 10 by (simp add: read_string_escape)
  show ?case
  proof (cases "ms = []")
    case True
    then show ?thesis using v [of "CHR ''}'' # rest"] by (simp add: m k stops_def comma_if_def starts_with_Cons)
  next
    case False
    then have "read_members m (render_members False ms @ CHR ''}'' # rest) = Some (ms, rest)" using 10 m(3) by simp
    then show ?thesis using False v [of "CHR '','' # render_members False ms @ CHR ''}'' # rest"]
      by (simp add: m k stops_def comma_if_def starts_with_Cons render_members_True)
  qed
qed simp_all



end
