(* ===== verification/Compaction.thy ===== *)
theory Compaction
  imports Types
begin

text \<open>
  \<open>compact_runs\<close> of \<open>common/view_helpers.cpp\<close>: the idle time between separate runs of the tracer
  is cut out of the times that are shown. A run \<open>first..last\<close> is the slice of the sorted
  vector it delimits (\<open>cr_procs\<close>). The results are about traces of finished processes with
  different pids; the code shifts by pid.
\<close>

section \<open>Runs\<close>

record CompactRun =
  cr_procs :: "ProcessRecord list"
  cr_min_start :: int
  cr_max_end :: int

definition proc_start_less :: "ProcessRecord \<Rightarrow> ProcessRecord \<Rightarrow> bool" where
  "proc_start_less a b \<longleftrightarrow> pr_start a < pr_start b"

definition GAP_THRESHOLD_US :: int where
  "GAP_THRESHOLD_US = 1000000"

definition new_run :: "ProcessRecord \<Rightarrow> CompactRun" where
  "new_run p = \<lparr>cr_procs = [p], cr_min_start = pr_start p, cr_max_end = pr_end p\<rparr>"

fun scan_runs :: "CompactRun \<Rightarrow> ProcessRecord list \<Rightarrow> CompactRun list" where
  "scan_runs cur [] = [cur]"
| "scan_runs cur (p # ps) =
     (if pr_start p > cr_max_end cur + GAP_THRESHOLD_US
      then cur # scan_runs (new_run p) ps
      else scan_runs
        (cur\<lparr>cr_procs := cr_procs cur @ [p],
             cr_max_end := (if pr_end p > cr_max_end cur then pr_end p else cr_max_end cur)\<rparr>) ps)"

text \<open>The map from pids to shifts: \<open>cum\<close> is \<open>cumulative_gap\<close>, \<open>prev\<close> is \<open>runs[r - 1]\<close>.\<close>

fun shift_runs :: "int \<Rightarrow> CompactRun \<Rightarrow> CompactRun list \<Rightarrow> (int, int) omap \<Rightarrow> (int, int) omap" where
  "shift_runs cum prev [] pid_shift = pid_shift"
| "shift_runs cum prev (r # rs) pid_shift =
     (let cum' = cum + (cr_min_start r - cr_max_end prev)
      in shift_runs cum' r rs (fold (\<lambda>p. om_put (pr_pid p) cum') (cr_procs r) pid_shift))"

definition apply_shift :: "(int, int) omap \<Rightarrow> ProcessRecord \<Rightarrow> ProcessRecord" where
  "apply_shift pid_shift p =
    (case om_get pid_shift (pr_pid p) of
       Some s \<Rightarrow> p\<lparr>pr_start := pr_start p - s, pr_end := pr_end p - s\<rparr>
     | None \<Rightarrow> p)"

definition compact_runs :: "ProcessRecord list \<Rightarrow> ProcessRecord list" where
  "compact_runs procs =
    (if length procs \<le> 1 then procs
     else
      let sorted = std_sort proc_start_less procs;
          runs = scan_runs (new_run (hd sorted)) (tl sorted)
      in if length runs \<le> 1 then procs
         else map (apply_shift (shift_runs 0 (hd runs) (tl runs) [])) procs)"

section \<open>What a run is\<close>

text \<open>A run spans its processes and leaves no idle time above the threshold.\<close>

definition run_ok :: "CompactRun \<Rightarrow> bool" where
  "run_ok r \<longleftrightarrow> cr_procs r \<noteq> [] \<and>
     (\<forall>p \<in> set (cr_procs r). cr_min_start r \<le> pr_start p \<and> pr_start p \<le> cr_max_end r \<and> pr_end p \<le> cr_max_end r)
     \<and> (\<forall>t. cr_min_start r \<le> t \<longrightarrow> t \<le> cr_max_end r + GAP_THRESHOLD_US \<longrightarrow>
          (\<exists>p \<in> set (cr_procs r). pr_start p \<le> t \<and> t \<le> pr_end p + GAP_THRESHOLD_US))"

fun runs_apart :: "CompactRun list \<Rightarrow> bool" where
  "runs_apart (a # b # rs) \<longleftrightarrow> cr_max_end a + GAP_THRESHOLD_US < cr_min_start b \<and> runs_apart (b # rs)"
| "runs_apart _ \<longleftrightarrow> True"

definition finished :: "ProcessRecord \<Rightarrow> bool" where
  "finished p \<longleftrightarrow> pr_start p \<le> pr_end p"

lemma run_ok_new: "finished p \<Longrightarrow> run_ok (new_run p)"
  by (simp add: run_ok_def new_run_def finished_def)

lemma run_ok_add:
  assumes r: "run_ok r" and p: "finished p" "cr_min_start r \<le> pr_start p"
    "pr_start p \<le> cr_max_end r + GAP_THRESHOLD_US"
  shows "run_ok (r\<lparr>cr_procs := cr_procs r @ [p],
             cr_max_end := (if pr_end p > cr_max_end r then pr_end p else cr_max_end r)\<rparr>)"
    (is "run_ok ?r")
proof -
  have "\<exists>q \<in> set (cr_procs ?r). pr_start q \<le> t \<and> t \<le> pr_end q + GAP_THRESHOLD_US"
    if t: "cr_min_start r \<le> t" "t \<le> cr_max_end ?r + GAP_THRESHOLD_US" for t
  proof (cases "t \<le> cr_max_end r + GAP_THRESHOLD_US")
    case True
    with r t(1) show ?thesis by (auto simp: run_ok_def)
  next
    case False
    with t(2) p have "pr_start p \<le> t \<and> t \<le> pr_end p + GAP_THRESHOLD_US" by (auto split: if_splits)
    then show ?thesis by auto
  qed
  with r p show ?thesis by (auto simp: run_ok_def finished_def)
qed

lemma scan_runs_not_Nil [simp]: "scan_runs cur ps \<noteq> []"
  by (induction cur ps rule: scan_runs.induct) auto

lemma scan_runs_procs: "concat (map cr_procs (scan_runs cur ps)) = cr_procs cur @ ps"
  by (induction cur ps rule: scan_runs.induct) (auto simp: new_run_def)

lemma scan_runs_hd_min: "cr_min_start (hd (scan_runs cur ps)) = cr_min_start cur"
  by (induction cur ps rule: scan_runs.induct) auto

lemma runs_apart_Cons: "rs \<noteq> [] \<Longrightarrow>
  runs_apart (a # rs) \<longleftrightarrow> cr_max_end a + GAP_THRESHOLD_US < cr_min_start (hd rs) \<and> runs_apart rs"
  by (cases rs) auto

lemma scan_runs_ok:
  assumes "sorted_wrt (\<lambda>a b. pr_start a \<le> pr_start b) ps"
    and "\<And>p. p \<in> set ps \<Longrightarrow> finished p \<and> cr_min_start cur \<le> pr_start p" and "run_ok cur"
  shows "(\<forall>r \<in> set (scan_runs cur ps). run_ok r) \<and> runs_apart (scan_runs cur ps)"
  using assms
proof (induction cur ps rule: scan_runs.induct)
  case (2 cur p ps)
  show ?case
  proof (cases "pr_start p > cr_max_end cur + GAP_THRESHOLD_US")
    case True
    have "(\<forall>r \<in> set (scan_runs (new_run p) ps). run_ok r) \<and> runs_apart (scan_runs (new_run p) ps)"
      using 2 True by (intro "2.IH"(1)) (auto simp: run_ok_new, auto simp: new_run_def)
    with True "2.prems"(3) show ?thesis
      by (auto simp: runs_apart_Cons scan_runs_hd_min) (simp add: new_run_def)
  next
    case False
    with 2 show ?thesis
      using run_ok_add [of cur p] by (simp add: not_less)
  qed
qed simp

section \<open>The shifts\<close>

lemma fold_put_same:
  "om_get (fold (\<lambda>p. om_put (pr_pid p) c) ps m) k = (if k \<in> pr_pid ` set ps then Some c else om_get m k)"
  by (induction ps arbitrary: m) (auto simp: om_get_put)

definition shift_at :: "(int, int) omap \<Rightarrow> ProcessRecord \<Rightarrow> int" where
  "shift_at m p = (case om_get m (pr_pid p) of None \<Rightarrow> 0 | Some s \<Rightarrow> s)"

lemma apply_shift_simps [simp]:
  "pr_start (apply_shift m p) = pr_start p - shift_at m p"
  "pr_end (apply_shift m p) = pr_end p - shift_at m p"
  "pr_duration (apply_shift m p) = pr_duration p"
  "pr_pid (apply_shift m p) = pr_pid p"
  by (auto simp: apply_shift_def shift_at_def pr_duration_def split: option.split)

abbreviation run_pids :: "CompactRun list \<Rightarrow> int list" where
  "run_pids rs \<equiv> map pr_pid (concat (map cr_procs rs))"

lemma shift_runs_other: "k \<notin> set (run_pids rs) \<Longrightarrow> om_get (shift_runs cum prev rs m) k = om_get m k"
  by (induction cum prev rs m rule: shift_runs.induct) (auto simp: Let_def fold_put_same)

text \<open>
  What the shifts of the runs after \<open>prev\<close> do, when the processes of \<open>prev\<close> move by \<open>cum\<close>: a later
  process never starts before \<open>prev\<close> has ended, the order of starts is kept, and the runs close up.
\<close>

definition shifts_ok :: "int \<Rightarrow> CompactRun \<Rightarrow> CompactRun list \<Rightarrow> (int, int) omap \<Rightarrow> bool" where
  "shifts_ok cum prev rs m \<longleftrightarrow>
     (\<forall>p \<in> set (concat (map cr_procs rs)).
        cum \<le> shift_at m p \<and> cr_max_end prev - cum \<le> pr_start p - shift_at m p)
     \<and> (\<forall>p \<in> set (concat (map cr_procs rs)). \<forall>q \<in> set (concat (map cr_procs rs)).
          pr_start p \<le> pr_start q \<longrightarrow> pr_start p - shift_at m p \<le> pr_start q - shift_at m q)
     \<and> (\<forall>q \<in> set (concat (map cr_procs rs)). \<forall>t.
          cr_max_end prev - cum \<le> t \<longrightarrow> t \<le> pr_start q - shift_at m q \<longrightarrow>
          (\<exists>p \<in> set (concat (map cr_procs rs)).
             pr_start p - shift_at m p \<le> t \<and> t \<le> pr_end p - shift_at m p + GAP_THRESHOLD_US))"

lemma shifts_okI:
  assumes r: "run_ok r" and apart: "cr_max_end prev + GAP_THRESHOLD_US < cr_min_start r"
    and cum': "cum' = cum + (cr_min_start r - cr_max_end prev)"
    and here: "\<And>p. p \<in> set (cr_procs r) \<Longrightarrow> shift_at m p = cum'"
    and later: "\<And>p q. p \<in> set (cr_procs r) \<Longrightarrow> q \<in> set (concat (map cr_procs rs)) \<Longrightarrow> pr_start p < pr_start q"
    and rest: "shifts_ok cum' r rs m"
  shows "shifts_ok cum prev (r # rs) m"
proof -
  let ?L = "set (concat (map cr_procs rs))"
  have up: "cr_min_start r - cum' = cr_max_end prev - cum" "cum \<le> cum'"
    using cum' apart by (simp_all add: GAP_THRESHOLD_US_def)
  have span: "cr_min_start r \<le> pr_start p" "pr_start p \<le> cr_max_end r" if "p \<in> set (cr_procs r)" for p
    using r that by (auto simp: run_ok_def)
  have "cr_min_start r \<le> cr_max_end r"
    using r span [of "hd (cr_procs r)"] unfolding run_ok_def by (meson hd_in_set order_trans)
  then have low: "cr_max_end prev - cum \<le> cr_max_end r - cum'" using up by simp
  have R: "cum' \<le> shift_at m p" "cr_max_end r - cum' \<le> pr_start p - shift_at m p" if "p \<in> ?L" for p
    using rest that by (auto simp: shifts_ok_def)
  have K: "\<exists>p \<in> set (cr_procs r). pr_start p - shift_at m p \<le> t \<and> t \<le> pr_end p - shift_at m p + GAP_THRESHOLD_US"
    if t: "cr_max_end prev - cum \<le> t" "t \<le> cr_max_end r - cum'" for t
  proof -
    have "cr_min_start r \<le> t + cum'" "t + cum' \<le> cr_max_end r + GAP_THRESHOLD_US"
      using t up by (simp_all add: GAP_THRESHOLD_US_def)
    with r obtain p where "p \<in> set (cr_procs r)" "pr_start p \<le> t + cum'" "t + cum' \<le> pr_end p + GAP_THRESHOLD_US"
      unfolding run_ok_def by blast
    then show ?thesis using here [of p] by (intro bexI [of _ p]) simp_all
  qed
  have bounds: "cum \<le> shift_at m p \<and> cr_max_end prev - cum \<le> pr_start p - shift_at m p"
    if "p \<in> set (cr_procs r) \<union> ?L" for p
    using that
  proof
    assume p: "p \<in> set (cr_procs r)"
    show ?thesis using here [OF p] span [OF p] up by simp
  next
    assume p: "p \<in> ?L"
    show ?thesis using R [OF p] low up by simp
  qed
  have order: "pr_start p - shift_at m p \<le> pr_start q - shift_at m q"
    if pq: "p \<in> set (cr_procs r) \<union> ?L" "q \<in> set (cr_procs r) \<union> ?L" "pr_start p \<le> pr_start q" for p q
  proof -
    consider "p \<in> set (cr_procs r)" "q \<in> set (cr_procs r)" | "p \<in> set (cr_procs r)" "q \<in> ?L"
      | "p \<in> ?L" "q \<in> set (cr_procs r)" | "p \<in> ?L" "q \<in> ?L" using pq by blast
    then show ?thesis
    proof cases
      case 1
      then show ?thesis using here [of p] here [of q] pq(3) by simp
    next
      case 2
      then show ?thesis using here [of p] span [of p] R [of q] by simp
    next
      case 3
      then show ?thesis using later [of q p] pq(3) by simp
    next
      case 4
      then show ?thesis using rest pq(3) unfolding shifts_ok_def by blast
    qed
  qed
  have cover: "\<exists>p \<in> set (cr_procs r) \<union> ?L. pr_start p - shift_at m p \<le> t \<and> t \<le> pr_end p - shift_at m p + GAP_THRESHOLD_US"
    if q: "q \<in> set (cr_procs r) \<union> ?L" and t: "cr_max_end prev - cum \<le> t" "t \<le> pr_start q - shift_at m q" for q t
  proof (cases "t \<le> cr_max_end r - cum'")
    case True
    then show ?thesis using K [OF t(1)] by blast
  next
    case False
    then have "q \<notin> set (cr_procs r)" using span [of q] here [of q] t(2) by auto
    with q have "q \<in> ?L" by blast
    with rest t(2) False show ?thesis unfolding shifts_ok_def by (meson UnCI linear)
  qed
  show ?thesis
    unfolding shifts_ok_def using bounds order cover by simp
qed

text \<open>The processes of a run start before those of the runs that follow.\<close>

lemma runs_later:
  assumes "\<forall>r \<in> set (r # rs). run_ok r" and "runs_apart (r # rs)"
    and "p \<in> set (cr_procs r)" and "q \<in> set (concat (map cr_procs rs))"
  shows "pr_start p < pr_start q"
  using assms
proof (induction rs arbitrary: r p)
  case (Cons s rs)
  have s: "cr_procs s \<noteq> []" "\<And>x. x \<in> set (cr_procs s) \<Longrightarrow> pr_start p < pr_start x"
    using Cons.prems(1-3) by (auto simp: run_ok_def GAP_THRESHOLD_US_def) fastforce
  show ?case
  proof (cases "q \<in> set (cr_procs s)")
    case True
    then show ?thesis by (rule s)
  next
    case False
    then have "pr_start (hd (cr_procs s)) < pr_start q" using Cons s(1) by auto
    with s show ?thesis by (meson hd_in_set less_trans)
  qed
qed simp

lemma shift_runs_ok:
  assumes "\<forall>r \<in> set (prev # rs). run_ok r" and "runs_apart (prev # rs)" and "distinct (run_pids rs)"
  shows "shifts_ok cum prev rs (shift_runs cum prev rs m)"
  using assms
proof (induction cum prev rs m rule: shift_runs.induct)
  case (2 cum prev r rs m)
  let ?cum = "cum + (cr_min_start r - cr_max_end prev)"
  let ?m = "shift_runs ?cum r rs (fold (\<lambda>p. om_put (pr_pid p) ?cum) (cr_procs r) m)"
  have m: "shift_runs cum prev (r # rs) m = ?m" by (simp add: Let_def)
  show ?case
    unfolding m
  proof (rule shifts_okI [where cum' = ?cum])
    show "shifts_ok ?cum r rs ?m" using 2 by (intro "2.IH") auto
    show "shift_at ?m p = ?cum" if p: "p \<in> set (cr_procs r)" for p
    proof -
      have "pr_pid p \<notin> set (run_pids rs)" using "2.prems"(3) p by auto
      with p show ?thesis by (simp add: shift_at_def shift_runs_other fold_put_same)
    qed
    show "pr_start p < pr_start q" if "p \<in> set (cr_procs r)" "q \<in> set (concat (map cr_procs rs))" for p q
      using "2.prems" that by (intro runs_later [of r rs]) auto
  qed (use "2.prems" in auto)
qed (simp add: shifts_ok_def)

section \<open>Properties\<close>

definition runs_of :: "ProcessRecord list \<Rightarrow> CompactRun list" where
  "runs_of procs = scan_runs (new_run (hd (std_sort proc_start_less procs))) (tl (std_sort proc_start_less procs))"

definition pid_shifts :: "ProcessRecord list \<Rightarrow> (int, int) omap" where
  "pid_shifts procs = shift_runs 0 (hd (runs_of procs)) (tl (runs_of procs)) []"

lemma compact_runs_eq: "compact_runs procs = map (apply_shift (pid_shifts procs)) procs"
proof -
  have no_shift: "map (apply_shift []) procs = procs" by (simp add: apply_shift_def map_idI)
  consider "length (runs_of procs) \<le> 1" | "length procs \<le> 1" | "1 < length (runs_of procs)" "1 < length procs"
    by linarith
  then show ?thesis
  proof cases
    case 1
    then have "tl (runs_of procs) = []" by (cases "runs_of procs") auto
    then have "pid_shifts procs = []" by (simp add: pid_shifts_def)
    with 1 no_shift show ?thesis by (auto simp: compact_runs_def Let_def runs_of_def)
  next
    case 2
    then have "length (tl (std_sort proc_start_less procs)) = 0" by simp
    then have "tl (std_sort proc_start_less procs) = []" by (simp only: length_0_conv)
    then have "pid_shifts procs = []" by (simp add: pid_shifts_def runs_of_def)
    with 2 no_shift show ?thesis by (simp add: compact_runs_def)
  next
    case 3
    then show ?thesis by (simp add: compact_runs_def Let_def runs_of_def pid_shifts_def)
  qed
qed

definition same_but_times :: "ProcessRecord \<Rightarrow> ProcessRecord \<Rightarrow> bool" where
  "same_but_times p p' \<longleftrightarrow> p' = p\<lparr>pr_start := pr_start p', pr_end := pr_end p'\<rparr> \<and> pr_duration p' = pr_duration p"

lemma apply_shift_same: "same_but_times p (apply_shift m p)"
  by (cases "om_get m (pr_pid p)") (simp_all add: same_but_times_def apply_shift_def pr_duration_def)

lemma compact_runs_same: "list_all2 same_but_times procs (compact_runs procs)"
  by (simp add: compact_runs_eq list_all2_conv_all_nth apply_shift_same)

text \<open>Over the whole trace: the processes of the first run stay, so they end up in \<open>shifts_ok\<close> too.\<close>

lemma pid_shifts_ok:
  assumes "procs \<noteq> []" and "distinct (map pr_pid procs)" and "\<And>p. p \<in> set procs \<Longrightarrow> finished p"
  shows "\<exists>prev c. shifts_ok c prev (runs_of procs) (pid_shifts procs)
    \<and> (\<forall>p \<in> set procs. cr_max_end prev - c \<le> pr_start p - shift_at (pid_shifts procs) p \<and> 0 \<le> shift_at (pid_shifts procs) p)
    \<and> set (concat (map cr_procs (runs_of procs))) = set procs"
proof -
  let ?s = "std_sort proc_start_less procs"
  obtain p ps where s: "?s = p # ps" using assms(1) by (cases ?s) auto
  have sorted: "sorted_wrt (\<lambda>a b. pr_start a \<le> pr_start b) ?s"
    using std_sort_sorted [OF weak_order_key [of pr_start], of procs]
    by (simp add: proc_start_less_def [abs_def] not_less)
  have fin: "finished q" if "q \<in> set ?s" for q using that assms(3) by simp
  have "(\<forall>r \<in> set (runs_of procs). run_ok r) \<and> runs_apart (runs_of procs)"
    unfolding runs_of_def s list.sel
    by (rule scan_runs_ok) (use sorted s fin in \<open>auto simp: new_run_def intro: run_ok_new [unfolded new_run_def]\<close>)
  moreover obtain r rs where rs: "runs_of procs = r # rs" by (cases "runs_of procs") (auto simp: runs_of_def)
  ultimately have ok: "\<forall>r \<in> set (r # rs). run_ok r" "runs_apart (r # rs)" by simp_all
  have cat: "concat (map cr_procs (r # rs)) = ?s"
    unfolding rs [symmetric] runs_of_def s list.sel scan_runs_procs by (simp add: new_run_def)
  have dist: "distinct (run_pids (r # rs))"
    unfolding cat using assms(2) mset_eq_imp_distinct_iff [of "map pr_pid ?s" "map pr_pid procs"] by simp
  then have "distinct (run_pids rs)" by simp
  with ok have rest: "shifts_ok 0 r rs (shift_runs 0 r rs [])" by (intro shift_runs_ok) auto
  have m: "pid_shifts procs = shift_runs 0 r rs []" by (simp add: pid_shifts_def rs)
  have here: "shift_at (shift_runs 0 r rs []) q = 0" if "q \<in> set (cr_procs r)" for q
  proof -
    have "pr_pid q \<notin> set (run_pids rs)" using dist that by auto
    then show ?thesis by (simp add: shift_at_def shift_runs_other)
  qed
  define prev where "prev = r\<lparr>cr_max_end := cr_min_start r - GAP_THRESHOLD_US - 1\<rparr>"
  have all: "shifts_ok (- GAP_THRESHOLD_US - 1) prev (r # rs) (shift_runs 0 r rs [])"
  proof (rule shifts_okI [where cum' = 0])
    show "run_ok r" using ok(1) by simp
    show "pr_start p < pr_start q" if "p \<in> set (cr_procs r)" "q \<in> set (concat (map cr_procs rs))" for p q
      using that by (rule runs_later [OF ok])
  qed (simp_all add: prev_def here rest)
  have "0 \<le> shift_at (shift_runs 0 r rs []) q" if "q \<in> set procs" for q
  proof -
    have "set procs = set (concat (map cr_procs (r # rs)))" unfolding cat by simp
    with that have "q \<in> set (cr_procs r) \<or> q \<in> set (concat (map cr_procs rs))" by simp
    then show ?thesis using here rest by (auto simp: shifts_ok_def)
  qed
  moreover have "set (concat (map cr_procs (r # rs))) = set procs" unfolding cat by simp
  ultimately show ?thesis
    using all unfolding rs m by (intro exI [of _ prev] exI [of _ "- GAP_THRESHOLD_US - 1"]) (simp add: shifts_ok_def)
qed

definition no_idle :: "ProcessRecord list \<Rightarrow> bool" where
  "no_idle ps \<longleftrightarrow>
     (\<forall>p \<in> set ps. \<forall>q \<in> set ps. \<forall>t. pr_start p \<le> t \<longrightarrow> t \<le> pr_start q \<longrightarrow>
        (\<exists>r \<in> set ps. pr_start r \<le> t \<and> t \<le> pr_end r + GAP_THRESHOLD_US))"


definition two_runs :: "ProcessRecord list" where
  "two_runs =
     [ProcessRecord_default\<lparr>pr_pid := 2, pr_start := 9000000, pr_end := 9000007\<rparr>,
      ProcessRecord_default\<lparr>pr_pid := 1, pr_start := 5, pr_end := 25\<rparr>]"


end
