(* ===== verification/Search.thy ===== *)
theory Search
  imports Prelude
begin

text \<open>
  The worklist search that the analyses share: a set of nodes found so far and a queue of
  nodes still to expand. \<open>visit\<close> is the code's
  \<open>if (affected.insert(q).second) worklist.push(q)\<close>. The locale states what a search loop is
  (its two equations over a successor function with finitely many values) and proves once
  that it computes the nodes reachable from the seeds.
\<close>

definition visit :: "'a::linorder \<Rightarrow> 'a oset \<times> 'a list \<Rightarrow> 'a oset \<times> 'a list" where
  "visit q s = (case s of (aff, wl) \<Rightarrow>
     if q \<in> set aff then (aff, wl) else (os_ins q aff, wl @ [q]))"

lemma visit_simps:
  "q \<in> set aff \<Longrightarrow> visit q (aff, wl) = (aff, wl)"
  "q \<notin> set aff \<Longrightarrow> visit q (aff, wl) = (os_ins q aff, wl @ [q])"
  by (auto simp: visit_def)

lemma fold_visit_aff: "set (fst (fold visit qs (aff, wl))) = set qs \<union> set aff"
proof (induction qs arbitrary: aff wl)
  case (Cons q qs)
  then show ?case by (cases "q \<in> set aff") (auto simp: visit_simps)
qed simp

lemma fold_visit_inv: "os_inv aff \<Longrightarrow> os_inv (fst (fold visit qs (aff, wl)))"
proof (induction qs arbitrary: aff wl)
  case (Cons q qs)
  then show ?case by (cases "q \<in> set aff") (auto simp: visit_simps os_inv_ins)
qed simp

lemma fold_visit_queue: "set (snd (fold visit qs (aff, wl))) = set wl \<union> (set qs - set aff)"
proof (induction qs arbitrary: aff wl)
  case (Cons q qs)
  then show ?case by (cases "q \<in> set aff") (auto simp: visit_simps)
qed simp

lemma fold_visit_distinct:
  "distinct wl \<Longrightarrow> set wl \<subseteq> set aff \<Longrightarrow> distinct (snd (fold visit qs (aff, wl)))"
proof (induction qs arbitrary: aff wl)
  case (Cons q qs)
  show ?case
  proof (cases "q \<in> set aff")
    case False
    with Cons.prems have "distinct (wl @ [q])" and "set (wl @ [q]) \<subseteq> set (os_ins q aff)" by auto
    from Cons.IH [OF this] False show ?thesis by (simp add: visit_simps)
  qed (use Cons in \<open>simp add: visit_simps\<close>)
qed simp

text \<open>Each new node costs one unit of the universe and adds one to the queue.\<close>

lemma fold_visit_measure:
  assumes "finite U" and "set qs \<subseteq> U"
  shows "length (snd (fold visit qs (aff, wl))) + card (U - set (fst (fold visit qs (aff, wl))))
         = length wl + card (U - set aff)"
  using assms(2)
proof (induction qs arbitrary: aff wl)
  case (Cons q qs)
  show ?case
  proof (cases "q \<in> set aff")
    case False
    have "U - set (os_ins q aff) = U - set aff - {q}" by auto
    moreover have "q \<in> U - set aff" using False Cons.prems by simp
    moreover have "finite (U - set aff)" using assms(1) by simp
    ultimately have "Suc (card (U - set (os_ins q aff))) = card (U - set aff)"
      by (metis card_Suc_Diff1)
    with False Cons show ?thesis by (simp add: visit_simps)
  qed (use Cons in \<open>simp add: visit_simps\<close>)
qed simp

locale worklist_search =
  fixes succ :: "'a::linorder \<Rightarrow> 'a list"
    and U :: "'a set"
    and loop :: "'a oset \<Rightarrow> 'a list \<Rightarrow> 'a oset"
  assumes finite_U: "finite U"
    and succ_U: "set (succ p) \<subseteq> U"
    and loop_Nil: "loop aff [] = aff"
    and loop_Cons: "loop aff (p # wl) = (case fold visit (succ p) (aff, wl) of (aff', wl') \<Rightarrow> loop aff' wl')"
begin

definition edges :: "('a \<times> 'a) set" where
  "edges = {(p, q). q \<in> set (succ p)}"

text \<open>Computation induction for the loop, from the measure that each turn decreases.\<close>

lemma loop_induct [case_names Nil Cons]:
  assumes "\<And>aff. P aff []"
    and "\<And>aff p wl. P (fst (fold visit (succ p) (aff, wl))) (snd (fold visit (succ p) (aff, wl)))
           \<Longrightarrow> P aff (p # wl)"
  shows "P aff wl"
proof (induction "length wl + card (U - set aff)" arbitrary: aff wl rule: less_induct)
  case less
  show ?case
  proof (cases wl)
    case Nil
    then show ?thesis using assms(1) by simp
  next
    case (Cons p wl')
    have "length (snd (fold visit (succ p) (aff, wl'))) +
          card (U - set (fst (fold visit (succ p) (aff, wl')))) < length wl + card (U - set aff)"
      using fold_visit_measure [OF finite_U succ_U, of p aff wl'] Cons by simp
    then show ?thesis using less assms(2) Cons by simp
  qed
qed

lemma loop_step:
  "loop aff (p # wl) =
     loop (fst (fold visit (succ p) (aff, wl))) (snd (fold visit (succ p) (aff, wl)))"
  by (simp add: loop_Cons split_beta)

lemma loop_inv: "os_inv aff \<Longrightarrow> os_inv (loop aff wl)"
  by (induction aff wl rule: loop_induct) (auto simp: loop_Nil loop_step fold_visit_inv)

lemma loop_increases: "set aff \<subseteq> set (loop aff wl)"
  by (induction aff wl rule: loop_induct) (auto simp: loop_Nil loop_step fold_visit_aff)

lemma closed_reachable: "(\<forall>p \<in> S. set (succ p) \<subseteq> S) \<Longrightarrow> edges\<^sup>* `` S = S"
proof -
  assume closed: "\<forall>p \<in> S. set (succ p) \<subseteq> S"
  have "y \<in> S" if "(x, y) \<in> edges\<^sup>*" "x \<in> S" for x y
    using that by induction (use closed in \<open>auto simp: edges_def\<close>)
  then show ?thesis by auto
qed

theorem loop_reachable:
  assumes "set wl \<subseteq> set aff" and "\<forall>p \<in> set aff - set wl. set (succ p) \<subseteq> set aff"
  shows "set (loop aff wl) = edges\<^sup>* `` set aff"
  using assms
proof (induction aff wl rule: loop_induct)
  case (Nil aff)
  then show ?case using closed_reachable by (simp add: loop_Nil)
next
  case (Cons aff p wl)
  let ?aff = "fst (fold visit (succ p) (aff, wl))" and ?wl = "snd (fold visit (succ p) (aff, wl))"
  have aff': "set ?aff = set (succ p) \<union> set aff" and wl': "set ?wl = set wl \<union> (set (succ p) - set aff)"
    by (simp_all add: fold_visit_aff fold_visit_queue)
  have "set ?wl \<subseteq> set ?aff" using aff' wl' Cons.prems(1) by auto
  moreover have "\<forall>q \<in> set ?aff - set ?wl. set (succ q) \<subseteq> set ?aff"
    using aff' wl' Cons.prems by auto
  ultimately have "set (loop ?aff ?wl) = edges\<^sup>* `` set ?aff" by (rule Cons.IH)
  also have "\<dots> = edges\<^sup>* `` set aff"
  proof -
    have "p \<in> set aff" using Cons.prems(1) by simp
    then have "edges\<^sup>* `` set (succ p) \<subseteq> edges\<^sup>* `` set aff"
      by (auto simp: edges_def intro: converse_rtrancl_into_rtrancl)
    then show ?thesis by (auto simp: aff' Image_Un)
  qed
  finally show ?case by (simp add: loop_step)
qed

text \<open>A whole search: seeds visited from nothing, then the loop.\<close>

corollary search_reachable:
  "set (case fold visit seeds ([], []) of (aff, wl) \<Rightarrow> loop aff wl) = edges\<^sup>* `` set seeds"
proof -
  let ?s = "fold visit seeds ([], [])"
  have "set (fst ?s) = set seeds" and "set (snd ?s) = set seeds"
    by (simp_all add: fold_visit_aff fold_visit_queue)
  then have "set (loop (fst ?s) (snd ?s)) = edges\<^sup>* `` set seeds"
    using loop_reachable [of "snd ?s" "fst ?s"] by simp
  then show ?thesis by (simp add: split_beta)
qed

corollary search_inv: "os_inv (case fold visit seeds ([], []) of (aff, wl) \<Rightarrow> loop aff wl)"
  by (simp add: split_beta loop_inv fold_visit_inv)

end

end
