(* ===== verification/DepGraph.thy ===== *)
theory DepGraph
  imports Database Search
begin

text \<open>
  The dependency graph of \<open>common/view_helpers.cpp\<close> and the rebuild analyses over it:
  \<open>build_dependency_graph\<close> with its shell-redirect fixup, \<open>rebuild_bfs\<close>,
  \<open>rebuild_bfs_reasons\<close>, \<open>compute_rebuild_estimate\<close> and \<open>classify_process_io\<close>. The five
  \<open>std::map\<close>s of \<open>DependencyGraph\<close> are the fields of \<open>dep_graph\<close>; a nested loop over a
  process's outputs and each output's readers is one loop over their concatenation.
\<close>

section \<open>Graph construction\<close>

record dep_graph =
  file_to_readers :: "(string, int oset) omap"
  pid_to_outputs :: "(int, string oset) omap"
  file_to_writers :: "(string, int oset) omap"
  proc_map :: "(int, ProcessRecord) omap"
  pid_children :: "(int, int list) omap"

definition dep_graph_empty :: dep_graph where
  "dep_graph_empty = \<lparr>file_to_readers = [], pid_to_outputs = [], file_to_writers = [],
     proc_map = [], pid_children = []\<rparr>"

definition readers_of :: "dep_graph \<Rightarrow> string \<Rightarrow> int oset" where
  "readers_of g f = (case om_get (file_to_readers g) f of None \<Rightarrow> [] | Some rs \<Rightarrow> rs)"

definition writers_of :: "dep_graph \<Rightarrow> string \<Rightarrow> int oset" where
  "writers_of g f = (case om_get (file_to_writers g) f of None \<Rightarrow> [] | Some ws \<Rightarrow> ws)"

definition outputs_of :: "dep_graph \<Rightarrow> int \<Rightarrow> string oset" where
  "outputs_of g p = (case om_get (pid_to_outputs g) p of None \<Rightarrow> [] | Some fs \<Rightarrow> fs)"

definition children_of :: "dep_graph \<Rightarrow> int \<Rightarrow> int list" where
  "children_of g p = (case om_get (pid_children g) p of None \<Rightarrow> [] | Some cs \<Rightarrow> cs)"

definition add_access :: "FileAccessRecord \<Rightarrow> dep_graph \<Rightarrow> dep_graph" where
  "add_access fa g =
    (let g1 = (if is_input_mode (fa_mode fa)
               then g\<lparr>file_to_readers := om_upd [] (os_ins (fa_pid fa)) (fa_filename fa) (file_to_readers g)\<rparr>
               else g)
     in if is_output_mode (fa_mode fa)
        then g1\<lparr>pid_to_outputs := om_upd [] (os_ins (fa_filename fa)) (fa_pid fa) (pid_to_outputs g1),
                file_to_writers := om_upd [] (os_ins (fa_pid fa)) (fa_filename fa) (file_to_writers g1)\<rparr>
        else g1)"

definition add_process :: "ProcessRecord \<Rightarrow> dep_graph \<Rightarrow> dep_graph" where
  "add_process p g =
     g\<lparr>proc_map := om_put (pr_pid p) p (proc_map g),
       pid_children := om_upd [] (\<lambda>cs. cs @ [pr_pid p]) (pr_ppid p) (pid_children g)\<rparr>"

definition pid_reads_any :: "dep_graph \<Rightarrow> int oset" where
  "pid_reads_any g = fold (\<lambda>(_, rs) acc. fold os_ins rs acc) (file_to_readers g) []"

definition add_output :: "int \<Rightarrow> string \<Rightarrow> dep_graph \<Rightarrow> dep_graph" where
  "add_output child f g =
     g\<lparr>pid_to_outputs := om_upd [] (os_ins f) child (pid_to_outputs g),
       file_to_writers := om_upd [] (os_ins child) f (file_to_writers g)\<rparr>"

definition fixup_child :: "int oset \<Rightarrow> string oset \<Rightarrow> int \<Rightarrow> dep_graph \<Rightarrow> dep_graph" where
  "fixup_child reads_any pouts child g =
    (if om_get (pid_to_outputs g) child \<noteq> None then g
     else if child \<notin> set reads_any then g
     else fold (add_output child) pouts g)"

definition fixup_parent :: "int oset \<Rightarrow> int \<times> int list \<Rightarrow> dep_graph \<Rightarrow> dep_graph" where
  "fixup_parent reads_any pit g =
    (case om_get (pid_to_outputs g) (fst pit) of
       None \<Rightarrow> g
     | Some pouts \<Rightarrow> fold (fixup_child reads_any pouts) (snd pit) g)"

definition build_dependency_graph :: "sq_db \<Rightarrow> dep_graph \<Rightarrow> dep_graph" where
  "build_dependency_graph db g =
    (let g1 = fold add_access (get_all_file_accesses db) g;
         g2 = fold add_process (get_all_processes db) g1
     in fold (fixup_parent (pid_reads_any g2)) (pid_children g2) g2)"

section \<open>Facts about the graph\<close>

text \<open>The two sides of the write relation agree, and all five maps are ordered.\<close>

definition graph_ok :: "dep_graph \<Rightarrow> bool" where
  "graph_ok g \<longleftrightarrow>
     (\<forall>p f. p \<in> set (writers_of g f) \<longleftrightarrow> f \<in> set (outputs_of g p))
     \<and> om_inv (file_to_readers g) \<and> om_inv (pid_to_outputs g) \<and> om_inv (file_to_writers g)
     \<and> om_inv (proc_map g) \<and> om_inv (pid_children g)
     \<and> (\<forall>f. os_inv (readers_of g f)) \<and> (\<forall>f. os_inv (writers_of g f))
     \<and> (\<forall>p. os_inv (outputs_of g p))"

lemma graph_ok_empty: "graph_ok dep_graph_empty"
  by (simp add: graph_ok_def dep_graph_empty_def writers_of_def outputs_of_def readers_of_def)

lemma readers_of_add_access:
  "readers_of (add_access fa g) f =
     (if is_input_mode (fa_mode fa) \<and> f = fa_filename fa
      then os_ins (fa_pid fa) (readers_of g f) else readers_of g f)"
  by (auto simp: add_access_def readers_of_def Let_def om_get_upd split: option.splits)

lemma outputs_of_add_access:
  "outputs_of (add_access fa g) p =
     (if is_output_mode (fa_mode fa) \<and> p = fa_pid fa
      then os_ins (fa_filename fa) (outputs_of g p) else outputs_of g p)"
  by (auto simp: add_access_def outputs_of_def Let_def om_get_upd split: option.splits)

lemma writers_of_add_access:
  "writers_of (add_access fa g) f =
     (if is_output_mode (fa_mode fa) \<and> f = fa_filename fa
      then os_ins (fa_pid fa) (writers_of g f) else writers_of g f)"
  by (auto simp: add_access_def writers_of_def Let_def om_get_upd split: option.splits)

lemma maps_inv_add_access:
  "om_inv (file_to_readers g) \<Longrightarrow> om_inv (file_to_readers (add_access fa g))"
  "om_inv (pid_to_outputs g) \<Longrightarrow> om_inv (pid_to_outputs (add_access fa g))"
  "om_inv (file_to_writers g) \<Longrightarrow> om_inv (file_to_writers (add_access fa g))"
  "proc_map (add_access fa g) = proc_map g" "pid_children (add_access fa g) = pid_children g"
  by (auto simp: add_access_def Let_def om_simps)

lemma graph_ok_add_access: "graph_ok g \<Longrightarrow> graph_ok (add_access fa g)"
  unfolding graph_ok_def
  by (simp add: readers_of_add_access outputs_of_add_access writers_of_add_access
      maps_inv_add_access os_inv_ins)

lemma add_process_frame [frame_simps]:
  "readers_of (add_process p g) = readers_of g" "outputs_of (add_process p g) = outputs_of g"
  "writers_of (add_process p g) = writers_of g"
  "file_to_readers (add_process p g) = file_to_readers g"
  "pid_to_outputs (add_process p g) = pid_to_outputs g"
  "file_to_writers (add_process p g) = file_to_writers g"
  by (auto simp: add_process_def readers_of_def outputs_of_def writers_of_def fun_eq_iff)

lemma graph_ok_add_process: "graph_ok g \<Longrightarrow> graph_ok (add_process p g)"
  unfolding graph_ok_def by (simp add: frame_simps) (simp add: add_process_def om_simps)

lemma add_output_frame [frame_simps]:
  "readers_of (add_output c f g) = readers_of g"
  "file_to_readers (add_output c f g) = file_to_readers g"
  "proc_map (add_output c f g) = proc_map g" "pid_children (add_output c f g) = pid_children g"
  by (auto simp: add_output_def readers_of_def fun_eq_iff)

lemma outputs_of_add_output:
  "outputs_of (add_output c f g) p = (if p = c then os_ins f (outputs_of g p) else outputs_of g p)"
  by (auto simp: add_output_def outputs_of_def om_get_upd split: option.splits)

lemma writers_of_add_output:
  "writers_of (add_output c f g) f' = (if f' = f then os_ins c (writers_of g f') else writers_of g f')"
  by (auto simp: add_output_def writers_of_def om_get_upd split: option.splits)

lemma graph_ok_add_output: "graph_ok g \<Longrightarrow> graph_ok (add_output c f g)"
  unfolding graph_ok_def
  by (simp add: frame_simps outputs_of_add_output writers_of_add_output os_inv_ins)
    (auto simp: add_output_def om_simps)

text \<open>A property that every \<open>add_output\<close> keeps, the whole fixup keeps.\<close>

lemma fixup_child_keeps:
  assumes "P g" and "\<And>f g. P g \<Longrightarrow> P (add_output child f g)"
  shows "P (fixup_child ra pouts child g)"
  using fold_keeps [where P = P and h = "add_output child", OF assms] assms(1)
  by (simp add: fixup_child_def)

lemma fixup_parent_keeps:
  assumes "P g" and step: "\<And>c f g. P g \<Longrightarrow> P (add_output c f g)"
  shows "P (fixup_parent ra pit g)"
proof -
  have "P (fold (fixup_child ra pouts) cs g)" for pouts cs
    by (rule fold_keeps [where P = P, OF assms(1)], rule fixup_child_keeps [where P = P], assumption, rule step)
  then show ?thesis by (simp add: fixup_parent_def assms(1) split: option.split)
qed

lemma fixup_keeps:
  assumes "P g" and step: "\<And>c f g. P g \<Longrightarrow> P (add_output c f g)"
  shows "P (fold (fixup_parent ra) pits g)"
  by (rule fold_keeps [where P = P, OF assms(1)], rule fixup_parent_keeps [where P = P], assumption, rule step)

lemma fold_add_access_ok: "graph_ok g \<Longrightarrow> graph_ok (fold add_access accs g)"
  by (induction accs arbitrary: g) (auto intro: graph_ok_add_access)

lemma fold_add_process_ok: "graph_ok g \<Longrightarrow> graph_ok (fold add_process ps g)"
  by (induction ps arbitrary: g) (auto intro: graph_ok_add_process)

lemma build_graph_ok: "graph_ok g \<Longrightarrow> graph_ok (build_dependency_graph db g)"
  unfolding build_dependency_graph_def Let_def
  by (intro fixup_keeps [where P = graph_ok] graph_ok_add_output fold_add_process_ok fold_add_access_ok)

lemma fold_add_access_readers:
  "p \<in> set (readers_of (fold add_access accs g) f) \<longleftrightarrow>
     p \<in> set (readers_of g f) \<or>
     (\<exists>a \<in> set accs. is_input_mode (fa_mode a) \<and> fa_filename a = f \<and> fa_pid a = p)"
  by (induction accs arbitrary: g) (auto simp: readers_of_add_access)

lemma fold_add_access_outputs:
  "f \<in> set (outputs_of (fold add_access accs g) p) \<longleftrightarrow>
     f \<in> set (outputs_of g p) \<or>
     (\<exists>a \<in> set accs. is_output_mode (fa_mode a) \<and> fa_filename a = f \<and> fa_pid a = p)"
  by (induction accs arbitrary: g) (auto simp: outputs_of_add_access)

lemma fold_add_process_frame [frame_simps]:
  "readers_of (fold add_process ps g) = readers_of g"
  "outputs_of (fold add_process ps g) = outputs_of g"
  by (induction ps arbitrary: g) (auto simp: frame_simps)

lemma build_readers:
  "readers_of (build_dependency_graph db g) = readers_of (fold add_access (get_all_file_accesses db) g)"
proof -
  let ?r = "readers_of (fold add_access (get_all_file_accesses db) g)"
  have "readers_of (fold (fixup_parent ra) pits g') = ?r" if "readers_of g' = ?r" for ra pits g'
    by (rule fixup_keeps [where P = "\<lambda>g. readers_of g = ?r", OF that]) (simp add: frame_simps)
  then show ?thesis
    by (simp add: build_dependency_graph_def Let_def frame_simps)
qed

text \<open>The fixup only ever adds outputs, and only to processes that had none.\<close>

lemma fold_add_output_outputs:
  "set (outputs_of (fold (add_output c) fs g) p) =
     (if p = c then set fs \<union> set (outputs_of g p) else set (outputs_of g p))"
  by (induction fs arbitrary: g) (auto simp: outputs_of_add_output)

lemma fixup_child_outputs:
  "set (outputs_of (fixup_child ra pouts c g) p) =
     (if p = c \<and> om_get (pid_to_outputs g) c = None \<and> c \<in> set ra then set pouts
      else set (outputs_of g p))"
  by (auto simp: fixup_child_def fold_add_output_outputs)
    (auto simp: outputs_of_def)

lemma add_output_has: "om_get (pid_to_outputs g) p \<noteq> None \<Longrightarrow> om_get (pid_to_outputs (add_output c f g)) p \<noteq> None"
  by (auto simp: add_output_def om_get_upd)

lemma fixup_child_own:
  assumes "om_get (pid_to_outputs g) p = Some fs"
  shows "om_get (pid_to_outputs (fixup_child ra pouts c g)) p = Some fs"
proof (cases "om_get (pid_to_outputs g) c \<noteq> None")
  case False
  with assms have "p \<noteq> c" by auto
  then have "om_get (pid_to_outputs (fold (add_output c) pouts g)) p = om_get (pid_to_outputs g) p"
    by (induction pouts arbitrary: g) (auto simp: add_output_def om_get_upd)
  with assms show ?thesis by (simp add: fixup_child_def)
qed (use assms in \<open>simp add: fixup_child_def\<close>)

lemma fixup_parent_own:
  assumes "om_get (pid_to_outputs g) p = Some fs"
  shows "om_get (pid_to_outputs (fixup_parent ra pit g)) p = Some fs"
proof -
  have "om_get (pid_to_outputs (fold (fixup_child ra pouts) cs g)) p = Some fs" for pouts cs
    using assms by (induction cs arbitrary: g) (auto intro: fixup_child_own)
  then show ?thesis by (simp add: fixup_parent_def assms split: option.split)
qed

lemma fixup_own:
  "om_get (pid_to_outputs g) p = Some fs \<Longrightarrow>
     om_get (pid_to_outputs (fold (fixup_parent ra) pits g)) p = Some fs"
  by (induction pits arbitrary: g) (auto intro: fixup_parent_own)

end
