(* ===== verification/Rebuild.thy ===== *)
theory Rebuild
  imports DepGraph
begin

text \<open>
  \<open>rebuild_bfs\<close>, \<open>rebuild_bfs_reasons\<close> and \<open>compute_rebuild_estimate\<close> of
  \<open>common/view_helpers.cpp\<close>. The two searches are loops over a queue; both stop because a pid
  enters the queue only when it enters the set of affected pids, and only readers of some
  file do. \<open>affects g\<close> is the abstract relation: \<open>p\<close> writes a file that \<open>q\<close> reads.
\<close>

section \<open>The searches\<close>

definition rebuild_succ :: "dep_graph \<Rightarrow> int \<Rightarrow> int list" where
  "rebuild_succ g p = concat (map (readers_of g) (outputs_of g p))"

definition all_readers :: "dep_graph \<Rightarrow> int set" where
  "all_readers g = (\<Union>(_, rs) \<in> set (file_to_readers g). set rs)"

lemma finite_all_readers: "finite (all_readers g)"
  unfolding all_readers_def by auto

lemma readers_of_all: "set (readers_of g f) \<subseteq> all_readers g"
  unfolding readers_of_def all_readers_def
  by (cases "om_get (file_to_readers g) f") (force dest: om_get_SomeD)+

lemma rebuild_succ_all: "set (rebuild_succ g p) \<subseteq> all_readers g"
  using readers_of_all by (fastforce simp: rebuild_succ_def)

lemma rebuild_turn_measure:
  assumes "fold visit (rebuild_succ g pid) (aff, wl) = (aff', wl')"
  shows "length wl' + card (all_readers g - set aff') < Suc (length wl + card (all_readers g - set aff))"
  using fold_visit_measure [OF finite_all_readers rebuild_succ_all, of g pid aff wl] assms by simp

function rebuild_loop :: "dep_graph \<Rightarrow> int oset \<Rightarrow> int list \<Rightarrow> int oset" where
  "rebuild_loop g aff [] = aff"
| "rebuild_loop g aff (pid # wl) =
     (case fold visit (rebuild_succ g pid) (aff, wl) of (aff', wl') \<Rightarrow> rebuild_loop g aff' wl')"
  by pat_completeness auto
termination
  by (relation "measure (\<lambda>(g, aff, wl). length wl + card (all_readers g - set aff))")
    (auto split: prod.split simp: rebuild_turn_measure)

definition rebuild_bfs :: "dep_graph \<Rightarrow> string oset \<Rightarrow> int oset" where
  "rebuild_bfs g changed_files =
     (case fold visit (concat (map (readers_of g) changed_files)) ([], []) of
        (affected, worklist) \<Rightarrow> rebuild_loop g affected worklist)"

text \<open>A reason: the trigger file, and 0 for a changed file or the pid whose output it is.\<close>

type_synonym reason = "string \<times> int"
type_synonym reason_map = "(int, reason list) omap"

definition visit_reason ::
  "int \<Rightarrow> string \<times> int \<Rightarrow> (int oset \<times> int list) \<times> reason_map \<Rightarrow> (int oset \<times> int list) \<times> reason_map" where
  "visit_reason src fr s =
     (case fr of (f, r) \<Rightarrow> (visit r (fst s), om_upd [] (\<lambda>rs. rs @ [(f, src)]) r (snd s)))"

definition file_readers :: "dep_graph \<Rightarrow> string list \<Rightarrow> (string \<times> int) list" where
  "file_readers g fs = concat (map (\<lambda>f. map (Pair f) (readers_of g f)) fs)"

lemma fold_visit_reason_fst:
  "fst (fold (visit_reason src) frs s) = fold visit (map snd frs) (fst s)"
  by (induction frs arbitrary: s) (auto simp: visit_reason_def split: prod.splits)

lemma file_readers_snd: "map snd (file_readers g fs) = concat (map (readers_of g) fs)"
  by (induction fs) (auto simp: file_readers_def comp_def)

lemma reasons_turn_measure:
  assumes "fold (visit_reason pid) (file_readers g (outputs_of g pid)) ((aff, wl), rm) = ((aff', wl'), rm')"
  shows "length wl' + card (all_readers g - set aff') < Suc (length wl + card (all_readers g - set aff))"
proof -
  have "fold visit (rebuild_succ g pid) (aff, wl) = (aff', wl')"
    using fold_visit_reason_fst [of pid "file_readers g (outputs_of g pid)" "((aff, wl), rm)"] assms
    by (simp add: file_readers_snd rebuild_succ_def)
  then show ?thesis by (rule rebuild_turn_measure)
qed

function reasons_loop :: "dep_graph \<Rightarrow> int oset \<Rightarrow> int list \<Rightarrow> reason_map \<Rightarrow> reason_map" where
  "reasons_loop g aff [] rm = rm"
| "reasons_loop g aff (pid # wl) rm =
     (case fold (visit_reason pid) (file_readers g (outputs_of g pid)) ((aff, wl), rm) of
        ((aff', wl'), rm') \<Rightarrow> reasons_loop g aff' wl' rm')"
  by pat_completeness auto
termination
  by (relation "measure (\<lambda>(g, aff, wl, rm). length wl + card (all_readers g - set aff))")
    (auto split: prod.split dest!: reasons_turn_measure [OF sym])

definition rebuild_bfs_reasons :: "dep_graph \<Rightarrow> string oset \<Rightarrow> reason_map" where
  "rebuild_bfs_reasons g changed_files =
     (case fold (visit_reason 0) (file_readers g changed_files) (([], []), []) of
        ((affected, worklist), rm) \<Rightarrow> reasons_loop g affected worklist rm)"

section \<open>The set of affected processes is the reachable set\<close>

definition affects :: "dep_graph \<Rightarrow> (int \<times> int) set" where
  "affects g = {(p, q). \<exists>f. f \<in> set (outputs_of g p) \<and> q \<in> set (readers_of g f)}"

text \<open>The instance of the search interface, for the model's own loop over any graph.\<close>

interpretation rebuild_search:
  worklist_search "rebuild_succ g" "all_readers g" "rebuild_loop g" for g
  by unfold_locales (simp_all add: finite_all_readers rebuild_succ_all)

lemma rebuild_edges: "rebuild_search.edges g = affects g"
  by (auto simp: rebuild_search.edges_def affects_def rebuild_succ_def)

lemma rebuild_bfs_set:
  "set (rebuild_bfs g changed) = (affects g)\<^sup>* `` (\<Union>f \<in> set changed. set (readers_of g f))"
  unfolding rebuild_bfs_def using rebuild_search.search_reachable
  by (simp add: rebuild_edges)

lemma rebuild_bfs_inv: "os_inv (rebuild_bfs g changed)"
  unfolding rebuild_bfs_def by (rule rebuild_search.search_inv)

text \<open>The affected set is the least one that holds the readers and is closed under \<open>affects\<close>.\<close>

lemma rebuild_bfs_least:
  assumes "\<And>f. f \<in> set changed \<Longrightarrow> set (readers_of g f) \<subseteq> S"
    and "\<And>p q. p \<in> S \<Longrightarrow> (p, q) \<in> affects g \<Longrightarrow> q \<in> S"
  shows "set (rebuild_bfs g changed) \<subseteq> S"
proof -
  have "y \<in> S" if "(x, y) \<in> (affects g)\<^sup>*" "x \<in> S" for x y
    using that by induction (use assms(2) in auto)
  then show ?thesis using assms(1) by (fastforce simp: rebuild_bfs_set)
qed

section \<open>Reasons\<close>

definition reasons_at :: "reason_map \<Rightarrow> int \<Rightarrow> reason list" where
  "reasons_at rm p = (case om_get rm p of None \<Rightarrow> [] | Some rs \<Rightarrow> rs)"

lemma fold_visit_reason_keys:
  "set (om_keys (snd (fold (visit_reason src) frs (s, rm)))) = snd ` set frs \<union> set (om_keys rm)"
proof (induction frs arbitrary: s rm)
  case (Cons fr frs)
  then show ?case
    by (cases fr) (auto simp: visit_reason_def om_upd_def om_keys_put_set)
qed simp

lemma fold_visit_reason_inv:
  "om_inv rm \<Longrightarrow> om_inv (snd (fold (visit_reason src) frs (s, rm)))"
proof (induction frs arbitrary: s rm)
  case (Cons fr frs)
  then show ?case by (cases fr) (auto simp: visit_reason_def om_inv_upd)
qed simp

lemma fold_visit_reason_at:
  "reasons_at (snd (fold (visit_reason src) frs (s, rm))) p =
     reasons_at rm p @ map (\<lambda>(f, _). (f, src)) (filter (\<lambda>(_, r). r = p) frs)"
proof (induction frs arbitrary: s rm)
  case (Cons fr frs)
  obtain f r where fr: "fr = (f, r)" by (cases fr)
  have "reasons_at (om_upd [] (\<lambda>rs. rs @ [(f, src)]) r rm) p =
      reasons_at rm p @ (if r = p then [(f, src)] else [])"
    by (auto simp: reasons_at_def om_get_upd split: option.splits)
  with Cons fr show ?case by (simp add: visit_reason_def)
qed simp

lemma file_readers_filter:
  "map (\<lambda>(f, _). (f, src)) (filter (\<lambda>(_, r). r = p) (file_readers g fs)) =
     concat (map (\<lambda>f. map (\<lambda>_. (f, src)) (filter (\<lambda>r. r = p) (readers_of g f))) fs)"
  by (induction fs) (auto simp: file_readers_def filter_map comp_def)

lemma file_readers_reasons_set:
  "set (map (\<lambda>(f, _). (f, src)) (filter (\<lambda>(_, r). r = p) (file_readers g fs))) =
     {(f, src) | f. f \<in> set fs \<and> p \<in> set (readers_of g f)}"
  by (auto simp: file_readers_filter)

text \<open>One turn of the two loops does the same to the affected set and the queue.\<close>

lemma reasons_turn:
  "fold (visit_reason pid) (file_readers g (outputs_of g pid)) ((aff, wl), rm) =
     (fold visit (rebuild_succ g pid) (aff, wl),
      snd (fold (visit_reason pid) (file_readers g (outputs_of g pid)) ((aff, wl), rm)))"
  using fold_visit_reason_fst [of pid "file_readers g (outputs_of g pid)" "((aff, wl), rm)"]
  by (simp add: prod_eq_iff file_readers_snd rebuild_succ_def)

lemma reasons_loop_step:
  "reasons_loop g aff (pid # wl) rm =
     reasons_loop g (fst (fold visit (rebuild_succ g pid) (aff, wl)))
       (snd (fold visit (rebuild_succ g pid) (aff, wl)))
       (snd (fold (visit_reason pid) (file_readers g (outputs_of g pid)) ((aff, wl), rm)))"
  by (subst reasons_loop.simps, subst reasons_turn) (simp add: split_beta)

lemma reasons_loop_keys:
  "set (om_keys rm) = set aff \<Longrightarrow> set (om_keys (reasons_loop g aff wl rm)) = set (rebuild_loop g aff wl)"
proof (induction aff wl arbitrary: rm rule: rebuild_search.loop_induct [where g = g])
  case (Nil aff)
  then show ?case by simp
next
  case (Cons aff p wl)
  let ?rm = "snd (fold (visit_reason p) (file_readers g (outputs_of g p)) ((aff, wl), rm))"
  have "set (om_keys ?rm) = set (fst (fold visit (rebuild_succ g p) (aff, wl)))"
    using Cons.prems
    by (simp add: fold_visit_reason_keys fold_visit_aff rebuild_succ_def flip: file_readers_snd)
  from Cons.IH [OF this] show ?case by (simp only: reasons_loop_step rebuild_search.loop_step)
qed

lemma reasons_loop_inv: "om_inv rm \<Longrightarrow> om_inv (reasons_loop g aff wl rm)"
  by (induction aff wl arbitrary: rm rule: rebuild_search.loop_induct [where g = g])
    (simp_all only: reasons_loop_step reasons_loop.simps(1) fold_visit_reason_inv)

lemma rebuild_bfs_reasons_eq:
  "rebuild_bfs_reasons g changed =
     reasons_loop g (fst (fold visit (concat (map (readers_of g) changed)) ([], [])))
       (snd (fold visit (concat (map (readers_of g) changed)) ([], [])))
       (snd (fold (visit_reason 0) (file_readers g changed) (([], []), [])))"
proof -
  have "fst (fold (visit_reason 0) (file_readers g changed) (([], []), [])) =
      fold visit (concat (map (readers_of g) changed)) ([], [])"
    by (simp add: fold_visit_reason_fst file_readers_snd)
  then show ?thesis by (simp add: rebuild_bfs_reasons_def split_beta)
qed

lemma rebuild_bfs_eq:
  "rebuild_bfs g changed =
     rebuild_loop g (fst (fold visit (concat (map (readers_of g) changed)) ([], [])))
       (snd (fold visit (concat (map (readers_of g) changed)) ([], [])))"
  by (simp add: rebuild_bfs_def split_beta)

lemma reasons_keys_set: "set (om_keys (rebuild_bfs_reasons g changed)) = set (rebuild_bfs g changed)"
  unfolding rebuild_bfs_reasons_eq rebuild_bfs_eq
proof (rule reasons_loop_keys)
  have "set (om_keys ([] :: reason_map)) = {}" by (simp add: om_keys_def)
  then show "set (om_keys (snd (fold (visit_reason 0) (file_readers g changed) (([], []), [])))) =
      set (fst (fold visit (concat (map (readers_of g) changed)) ([], [])))"
    by (simp only: fold_visit_reason_keys fold_visit_aff set_map list.set Un_empty_right
        flip: file_readers_snd)
qed

lemma reasons_inv: "om_inv (rebuild_bfs_reasons g changed)"
  unfolding rebuild_bfs_reasons_eq by (simp add: reasons_loop_inv fold_visit_reason_inv)

text \<open>
  The reasons the loop adds come from the processes it expands: those in the final set that
  were not already expanded when it started.
\<close>

definition reasons_from :: "dep_graph \<Rightarrow> int set \<Rightarrow> int \<Rightarrow> reason set" where
  "reasons_from g Q p = {(f, q) | f q. q \<in> Q \<and> f \<in> set (outputs_of g q) \<and> p \<in> set (readers_of g f)}"

lemma reasons_from_insert:
  "reasons_from g (insert q Q) p =
     {(f, q) | f. f \<in> set (outputs_of g q) \<and> p \<in> set (readers_of g f)} \<union> reasons_from g Q p"
  by (auto simp: reasons_from_def)

lemma reasons_loop_at:
  assumes "distinct wl" and "set wl \<subseteq> set aff"
  shows "set (reasons_at (reasons_loop g aff wl rm) p) =
     set (reasons_at rm p) \<union> reasons_from g (set (rebuild_loop g aff wl) - (set aff - set wl)) p"
  using assms
proof (induction aff wl arbitrary: rm rule: rebuild_search.loop_induct [where g = g])
  case (Nil aff)
  then show ?case by (simp add: reasons_from_def)
next
  case (Cons aff q wl)
  let ?s = "fold visit (rebuild_succ g q) (aff, wl)"
  let ?rm = "snd (fold (visit_reason q) (file_readers g (outputs_of g q)) ((aff, wl), rm))"
  have aff': "set (fst ?s) = set (rebuild_succ g q) \<union> set aff"
    and wl': "set (snd ?s) = set wl \<union> (set (rebuild_succ g q) - set aff)"
    by (simp_all add: fold_visit_aff fold_visit_queue)
  have "distinct (snd ?s)" using Cons.prems by (intro fold_visit_distinct) auto
  moreover have "set (snd ?s) \<subseteq> set (fst ?s)" using aff' wl' Cons.prems by auto
  ultimately have IH: "set (reasons_at (reasons_loop g (fst ?s) (snd ?s) ?rm) p) =
      set (reasons_at ?rm p) \<union>
      reasons_from g (set (rebuild_loop g (fst ?s) (snd ?s)) - (set (fst ?s) - set (snd ?s))) p"
    by (rule Cons.IH)
  let ?R = "set (rebuild_loop g (fst ?s) (snd ?s))"
  have "q \<in> ?R" using rebuild_search.loop_increases [of "fst ?s" g "snd ?s"] aff' Cons.prems by auto
  moreover have "set (fst ?s) - set (snd ?s) = insert q (set aff - set (q # wl))"
    using aff' wl' Cons.prems by auto
  ultimately have Q: "?R - (set aff - set (q # wl)) = insert q (?R - (set (fst ?s) - set (snd ?s)))"
    using Cons.prems by auto
  have "set (reasons_at ?rm p) = set (reasons_at rm p) \<union>
      {(f, q) | f. f \<in> set (outputs_of g q) \<and> p \<in> set (readers_of g f)}"
    by (simp only: fold_visit_reason_at set_append file_readers_reasons_set)
  with IH Q show ?case
    by (simp only: reasons_loop_step rebuild_search.loop_step reasons_from_insert) blast
qed

lemma rebuild_reasons_at:
  "set (reasons_at (rebuild_bfs_reasons g changed) p) =
     {(f, 0) | f. f \<in> set changed \<and> p \<in> set (readers_of g f)}
     \<union> reasons_from g (set (rebuild_bfs g changed)) p"
proof -
  let ?s = "fold visit (concat (map (readers_of g) changed)) ([], [])"
  let ?rm = "snd (fold (visit_reason 0) (file_readers g changed) (([], []), []))"
  have "distinct (snd ?s)" by (rule fold_visit_distinct) auto
  moreover have eq: "set (snd ?s) = set (fst ?s)" by (simp add: fold_visit_aff fold_visit_queue)
  ultimately have "set (reasons_at (rebuild_bfs_reasons g changed) p) =
      set (reasons_at ?rm p) \<union> reasons_from g (set (rebuild_bfs g changed)) p"
    using reasons_loop_at [of "snd ?s" "fst ?s" g ?rm p]
    by (simp add: rebuild_bfs_reasons_eq rebuild_bfs_eq)
  moreover have "reasons_at [] p = []" by (simp add: reasons_at_def)
  ultimately show ?thesis
    by (simp only: fold_visit_reason_at append_Nil file_readers_reasons_set)
qed

section \<open>Rebuild estimate\<close>

record RebuildEstimate =
  re_affected_count :: int
  re_serial :: int
  re_longest :: int

definition estimate_step :: "dep_graph \<Rightarrow> int \<Rightarrow> RebuildEstimate \<Rightarrow> RebuildEstimate" where
  "estimate_step g pid est =
    (case om_get (proc_map g) pid of
       None \<Rightarrow> est
     | Some p \<Rightarrow>
        let dur = pr_end p - pr_start p in
        if dur > 0
        then est\<lparr>re_serial := re_serial est + dur,
                 re_longest := (if dur > re_longest est then dur else re_longest est)\<rparr>
        else est)"

definition compute_rebuild_estimate :: "dep_graph \<Rightarrow> int oset \<Rightarrow> RebuildEstimate" where
  "compute_rebuild_estimate g affected =
     fold (estimate_step g) affected
       \<lparr>re_affected_count = int (length affected), re_serial = 0, re_longest = 0\<rparr>"

text \<open>The time a pid counts for: its duration when it has a row with a positive one.\<close>

definition counted_time :: "dep_graph \<Rightarrow> int \<Rightarrow> int" where
  "counted_time g pid = (case om_get (proc_map g) pid of None \<Rightarrow> 0 | Some p \<Rightarrow> max 0 (pr_duration p))"

lemma counted_time_nonneg: "0 \<le> counted_time g pid"
  by (simp add: counted_time_def split: option.split)

lemma estimate_step_simps:
  "re_serial (estimate_step g pid e) = re_serial e + counted_time g pid"
  "0 \<le> re_longest e \<Longrightarrow> re_longest (estimate_step g pid e) = max (re_longest e) (counted_time g pid)"
  "re_affected_count (estimate_step g pid e) = re_affected_count e"
  by (auto simp: estimate_step_def counted_time_def pr_duration_def Let_def split: option.split)

lemma fold_estimate:
  assumes "0 \<le> re_longest e"
  shows "re_serial (fold (estimate_step g) ps e) = re_serial e + sum_list (map (counted_time g) ps)"
    and "re_longest (fold (estimate_step g) ps e) = fold max (map (counted_time g) ps) (re_longest e)"
    and "re_affected_count (fold (estimate_step g) ps e) = re_affected_count e"
proof -
  have "0 \<le> re_longest e \<Longrightarrow>
      re_serial (fold (estimate_step g) ps e) = re_serial e + sum_list (map (counted_time g) ps)
      \<and> re_longest (fold (estimate_step g) ps e) = fold max (map (counted_time g) ps) (re_longest e)
      \<and> re_affected_count (fold (estimate_step g) ps e) = re_affected_count e"
    by (induction ps arbitrary: e) (simp_all add: estimate_step_simps max.commute)
  with assms show
    "re_serial (fold (estimate_step g) ps e) = re_serial e + sum_list (map (counted_time g) ps)"
    "re_longest (fold (estimate_step g) ps e) = fold max (map (counted_time g) ps) (re_longest e)"
    "re_affected_count (fold (estimate_step g) ps e) = re_affected_count e"
    by blast+
qed

lemma fold_max_bounds:
  fixes xs :: "int list"
  assumes "\<forall>x \<in> set xs. 0 \<le> x" and "0 \<le> m"
  shows "m \<le> fold max xs m" and "fold max xs m \<le> m + sum_list xs"
    and "\<forall>x \<in> set xs. x \<le> fold max xs m"
proof -
  have "m \<le> fold max xs m \<and> fold max xs m \<le> m + sum_list xs \<and> (\<forall>x \<in> set xs. x \<le> fold max xs m)"
    using assms
  proof (induction xs arbitrary: m)
    case (Cons x xs)
    then have "0 \<le> x" and "\<forall>y \<in> set xs. 0 \<le> y" by simp_all
    with Cons.IH [of "max x m"] Cons.prems
    have "max x m \<le> fold max xs (max x m)" "fold max xs (max x m) \<le> max x m + sum_list xs"
      "\<forall>y \<in> set xs. y \<le> fold max xs (max x m)" by auto
    with \<open>0 \<le> x\<close> Cons.prems(2) show ?case
      by (cases "x \<le> m") (auto simp: max_absorb1 max_absorb2)
  qed simp
  then show "m \<le> fold max xs m" "fold max xs m \<le> m + sum_list xs" "\<forall>x \<in> set xs. x \<le> fold max xs m"
    by blast+
qed

section \<open>Properties\<close>

text \<open>C4. The set of processes to run again is exact, for any graph: \<open>rebuild_bfs\<close> returns, sorted
  and without repetition, the processes that some reader of a changed file leads to by a chain of
  "writes a file that is read by"; it stops on every graph, cycles included.\<close>

theorem rebuild_exact:
  "os_inv (rebuild_bfs g changed)
   \<and> (\<forall>p. p \<in> set (rebuild_bfs g changed) \<longleftrightarrow>
        (\<exists>f r. f \<in> set changed \<and> r \<in> set (readers_of g f) \<and> (r, p) \<in> (affects g)\<^sup>*))"
  by (auto simp: rebuild_bfs_set rebuild_bfs_inv)

lemma om_keys_inv: "om_inv m \<Longrightarrow> os_inv (om_keys m)"
  by (simp add: om_inv_def os_inv_def om_keys_def)

lemma os_ext: "os_inv xs \<Longrightarrow> os_inv ys \<Longrightarrow> set xs = set ys \<Longrightarrow> xs = ys"
  unfolding os_inv_def by (rule omap.sorted_less_unique)

text \<open>C6. The search that records reasons explains the search that does not: it returns the same
  processes, and the reasons of a process are exactly the changed files it reads (from source 0)
  and the files it reads that an affected process writes, with that process.\<close>

theorem reasons_exact:
  "om_keys (rebuild_bfs_reasons g changed) = rebuild_bfs g changed
   \<and> set (reasons_at (rebuild_bfs_reasons g changed) p) =
       {(f, 0) | f. f \<in> set changed \<and> p \<in> set (readers_of g f)}
       \<union> {(f, q) | f q. q \<in> set (rebuild_bfs g changed) \<and> f \<in> set (outputs_of g q) \<and> p \<in> set (readers_of g f)}"
proof
  show "om_keys (rebuild_bfs_reasons g changed) = rebuild_bfs g changed"
    by (rule os_ext) (simp_all add: om_keys_inv reasons_inv rebuild_bfs_inv reasons_keys_set)
qed (simp add: rebuild_reasons_at reasons_from_def)

text \<open>The estimate adds up: the serial time is the sum of the positive durations of the
  affected processes that have a row, the longest is the maximum of these durations (0 for none),
  and it never exceeds the serial time.\<close>

lemma estimate_correct:
  "let e = compute_rebuild_estimate g affected; ts = map (counted_time g) affected in
     re_affected_count e = int (length affected)
     \<and> re_serial e = sum_list ts
     \<and> re_longest e \<in> insert 0 (set ts) \<and> set ts \<subseteq> {0..re_longest e}
     \<and> 0 \<le> re_longest e \<and> re_longest e \<le> re_serial e"
proof -
  have mem: "fold max xs m \<in> insert m (set xs)" for xs and m :: int
    by (induction xs arbitrary: m) (auto simp: max_def)
  show ?thesis
    using fold_max_bounds [of "map (counted_time g) affected" 0] mem [of "map (counted_time g) affected" 0]
    by (auto simp: compute_rebuild_estimate_def fold_estimate counted_time_nonneg Let_def intro!: antisym)
qed

section \<open>Shell redirects\<close>

text \<open>
  A process without an output of its own that reads something takes over its parent's outputs.
  The loop over the parents keeps: outputs are the recorded ones, or those of a parent.
\<close>

definition inherits :: "dep_graph \<Rightarrow> int oset \<Rightarrow> dep_graph \<Rightarrow> bool" where
  "inherits g0 ra g \<longleftrightarrow>
     (\<forall>p. set (outputs_of g p) = set (outputs_of g0 p)
       \<or> om_get (pid_to_outputs g0) p = None \<and> p \<in> set ra
         \<and> (\<exists>pp. p \<in> set (children_of g0 pp) \<and> om_get (pid_to_outputs g) pp \<noteq> None
                \<and> set (outputs_of g p) = set (outputs_of g pp)))
     \<and> (\<forall>p. om_get (pid_to_outputs g0) p \<noteq> None \<longrightarrow> om_get (pid_to_outputs g) p = om_get (pid_to_outputs g0) p)"

lemma inherits_refl: "inherits g ra g"
  by (simp add: inherits_def)

lemma outputs_kept:
  "om_get (pid_to_outputs g) p \<noteq> None \<Longrightarrow>
     om_get (pid_to_outputs (fixup_child ra pouts c g)) p = om_get (pid_to_outputs g) p"
  using fixup_child_own by (metis option.exhaust)

lemma inherits_child:
  assumes inv: "inherits g0 ra g" and pp: "om_get (pid_to_outputs g) pp = Some pouts"
    and c: "c \<in> set (children_of g0 pp)"
  shows "inherits g0 ra (fixup_child ra pouts c g)"
proof (cases "om_get (pid_to_outputs g) c = None \<and> c \<in> set ra")
  case False
  then have "fixup_child ra pouts c g = g" by (auto simp: fixup_child_def)
  with inv show ?thesis by simp
next
  case True
  let ?g = "fixup_child ra pouts c g"
  have kept: "om_get (pid_to_outputs ?g) q = om_get (pid_to_outputs g) q" if "om_get (pid_to_outputs g) q \<noteq> None" for q
    using that by (rule outputs_kept)
  then have keptset: "set (outputs_of ?g q) = set (outputs_of g q)" if "om_get (pid_to_outputs g) q \<noteq> None" for q
    using that by (simp add: outputs_of_def)
  have outs: "set (outputs_of ?g q) = (if q = c then set pouts else set (outputs_of g q))" for q
    using fixup_child_outputs [of ra pouts c g q] True by simp
  have none0: "om_get (pid_to_outputs g0) c = None" using inv True by (auto simp: inherits_def)
  have "set (outputs_of ?g c) = set (outputs_of ?g pp)" using outs [of c] keptset [of pp] pp by (simp add: outputs_of_def)
  moreover have "om_get (pid_to_outputs ?g) pp \<noteq> None" using kept [of pp] pp by simp
  ultimately have at_c: "\<exists>pp. c \<in> set (children_of g0 pp) \<and> om_get (pid_to_outputs ?g) pp \<noteq> None
      \<and> set (outputs_of ?g c) = set (outputs_of ?g pp)" using c by blast
  have "set (outputs_of ?g p) = set (outputs_of g0 p)
       \<or> om_get (pid_to_outputs g0) p = None \<and> p \<in> set ra
         \<and> (\<exists>pp. p \<in> set (children_of g0 pp) \<and> om_get (pid_to_outputs ?g) pp \<noteq> None
                \<and> set (outputs_of ?g p) = set (outputs_of ?g pp))" for p
  proof (cases "p = c")
    case True
    with at_c none0 \<open>om_get (pid_to_outputs g) c = None \<and> c \<in> set ra\<close> show ?thesis by blast
  next
    case False
    with outs have "set (outputs_of ?g p) = set (outputs_of g p)" by simp
    with inv kept keptset show ?thesis unfolding inherits_def by metis
  qed
  moreover have "om_get (pid_to_outputs ?g) p = om_get (pid_to_outputs g0) p" if "om_get (pid_to_outputs g0) p \<noteq> None" for p
    using that inv kept [of p] by (auto simp: inherits_def)
  ultimately show ?thesis by (simp add: inherits_def)
qed

lemma inherits_parent:
  assumes inv: "inherits g0 ra g" and cs: "set cs \<subseteq> set (children_of g0 pp)"
  shows "inherits g0 ra (fixup_parent ra (pp, cs) g)"
proof (cases "om_get (pid_to_outputs g) pp")
  case (Some pouts)
  have "inherits g0 ra (fold (fixup_child ra pouts) cs g)
      \<and> om_get (pid_to_outputs (fold (fixup_child ra pouts) cs g)) pp = Some pouts"
    using inv Some cs
    by (induction cs arbitrary: g) (auto simp: inherits_child fixup_child_own)
  with Some show ?thesis by (simp add: fixup_parent_def)
qed (use inv in \<open>simp add: fixup_parent_def\<close>)

lemma inherits_fixup:
  assumes "om_inv (pid_children g0)" and "set pits \<subseteq> set (pid_children g0)" and "inherits g0 ra g"
  shows "inherits g0 ra (fold (fixup_parent ra) pits g)"
  using assms(2,3)
proof (induction pits arbitrary: g)
  case (Cons pit pits)
  obtain pp cs where pit: "pit = (pp, cs)" by fastforce
  with Cons.prems(1) assms(1) om_get_iff [of "pid_children g0" pp cs] have "children_of g0 pp = cs"
    by (simp add: children_of_def)
  with Cons pit show ?case by (simp add: inherits_parent)
qed simp

lemma children_of_fold:
  "c \<in> set (children_of (fold add_process ps g) pp) \<longleftrightarrow>
     c \<in> set (children_of g pp) \<or> (\<exists>r \<in> set ps. pr_pid r = c \<and> pr_ppid r = pp)"
proof (induction ps arbitrary: g)
  case (Cons r ps)
  have "c \<in> set (children_of (add_process r g) pp) \<longleftrightarrow>
      c \<in> set (children_of g pp) \<or> (pr_pid r = c \<and> pr_ppid r = pp)"
    by (auto simp: children_of_def add_process_def om_get_upd split: option.split)
  with Cons.IH show ?case by auto
qed simp

lemma reads_any_set: "om_inv (file_to_readers g) \<Longrightarrow>
  p \<in> set (pid_reads_any g) \<longleftrightarrow> (\<exists>f. p \<in> set (readers_of g f))"
proof -
  assume inv: "om_inv (file_to_readers g)"
  have "set (fold (\<lambda>(_, rs) acc. fold os_ins rs acc) m acc) = set acc \<union> (\<Union>(_, rs) \<in> set m. set rs)"
    for m :: "(string, int oset) omap" and acc
    by (induction m arbitrary: acc) (auto simp: fold_os_ins_set)
  then have "p \<in> set (pid_reads_any g) \<longleftrightarrow> (\<exists>f rs. (f, rs) \<in> set (file_to_readers g) \<and> p \<in> set rs)"
    by (auto simp: pid_reads_any_def)
  also have "\<dots> \<longleftrightarrow> (\<exists>f. p \<in> set (readers_of g f))"
    unfolding om_get_iff [OF inv, symmetric] by (auto simp: readers_of_def split: option.splits) metis+
  finally show ?thesis .
qed

definition own_outputs :: "sq_db \<Rightarrow> int \<Rightarrow> string set" where
  "own_outputs db p = {fa_filename a | a. a \<in> set (get_all_file_accesses db) \<and> is_output_mode (fa_mode a) \<and> fa_pid a = p}"

definition input_pids :: "sq_db \<Rightarrow> string \<Rightarrow> int set" where
  "input_pids db f = {fa_pid a | a. a \<in> set (get_all_file_accesses db) \<and> is_input_mode (fa_mode a) \<and> fa_filename a = f}"

text \<open>The graph before the fixup.\<close>

definition recorded_graph :: "sq_db \<Rightarrow> dep_graph" where
  "recorded_graph db = fold add_process (get_all_processes db)
     (fold add_access (get_all_file_accesses db) dep_graph_empty)"

lemma recorded_graph_ok: "graph_ok (recorded_graph db)"
  unfolding recorded_graph_def by (intro fold_add_process_ok fold_add_access_ok graph_ok_empty)

lemma empty_graph [simp]:
  "readers_of dep_graph_empty f = []" "outputs_of dep_graph_empty p = []" "children_of dep_graph_empty p = []"
  by (simp_all add: dep_graph_empty_def readers_of_def outputs_of_def children_of_def)

lemma recorded_readers: "set (readers_of (recorded_graph db) f) = input_pids db f"
  by (auto simp: recorded_graph_def frame_simps fold_add_access_readers input_pids_def)

lemma recorded_outputs: "set (outputs_of (recorded_graph db) p) = own_outputs db p"
  by (auto simp: recorded_graph_def frame_simps fold_add_access_outputs own_outputs_def)

lemma recorded_children:
  "c \<in> set (children_of (recorded_graph db) pp) \<longleftrightarrow>
     (\<exists>r \<in> set (get_all_processes db). pr_pid r = c \<and> pr_ppid r = pp)"
proof -
  have "pid_children (fold add_access accs dep_graph_empty) = []" for accs
    by (rule fold_keeps [where P = "\<lambda>g. pid_children g = []"])
      (simp_all add: dep_graph_empty_def maps_inv_add_access)
  then have "children_of (fold add_access accs dep_graph_empty) pp = []" for accs pp
    by (simp add: children_of_def)
  then show ?thesis by (simp add: recorded_graph_def children_of_fold)
qed

lemma build_recorded:
  "build_dependency_graph db dep_graph_empty =
     fold (fixup_parent (pid_reads_any (recorded_graph db))) (pid_children (recorded_graph db)) (recorded_graph db)"
  by (simp only: build_dependency_graph_def recorded_graph_def Let_def)

lemma build_inherits:
  "inherits (recorded_graph db) (pid_reads_any (recorded_graph db)) (build_dependency_graph db dep_graph_empty)"
  unfolding build_recorded
  by (rule inherits_fixup) (use recorded_graph_ok in \<open>simp_all add: graph_ok_def inherits_refl\<close>)

lemma graph_as_recorded:
  "let g = build_dependency_graph db dep_graph_empty in
     set (readers_of g f) = input_pids db f
     \<and> (p \<in> set (writers_of g f) \<longleftrightarrow> f \<in> set (outputs_of g p))
     \<and> (set (outputs_of g p) = own_outputs db p
        \<or> own_outputs db p = {} \<and> (\<exists>f. p \<in> input_pids db f)
          \<and> (\<exists>r. r \<in> set (get_all_processes db) \<and> pr_pid r = p
                \<and> set (outputs_of g p) = set (outputs_of g (pr_ppid r))))"
proof -
  let ?g = "build_dependency_graph db dep_graph_empty" and ?h = "recorded_graph db"
  have "om_get (pid_to_outputs ?h) p = None \<Longrightarrow> own_outputs db p = {}"
    using recorded_outputs [of db p] by (simp add: outputs_of_def)
  moreover have "p \<in> set (pid_reads_any ?h) \<longleftrightarrow> (\<exists>f. p \<in> input_pids db f)"
    using reads_any_set [of ?h p] recorded_graph_ok [of db] by (simp add: graph_ok_def recorded_readers)
  moreover have "set (outputs_of ?g p) = own_outputs db p
       \<or> om_get (pid_to_outputs ?h) p = None \<and> p \<in> set (pid_reads_any ?h)
         \<and> (\<exists>pp. p \<in> set (children_of ?h pp) \<and> set (outputs_of ?g p) = set (outputs_of ?g pp))"
    using build_inherits [of db] unfolding inherits_def recorded_outputs by blast
  ultimately have outs: "set (outputs_of ?g p) = own_outputs db p
        \<or> own_outputs db p = {} \<and> (\<exists>f. p \<in> input_pids db f)
          \<and> (\<exists>r. r \<in> set (get_all_processes db) \<and> pr_pid r = p
                \<and> set (outputs_of ?g p) = set (outputs_of ?g (pr_ppid r)))"
    unfolding recorded_children by auto
  have "set (readers_of ?g f) = input_pids db f"
    using recorded_readers [of db f] by (simp add: build_readers recorded_graph_def frame_simps)
  moreover have "p \<in> set (writers_of ?g f) \<longleftrightarrow> f \<in> set (outputs_of ?g p)"
    using build_graph_ok [OF graph_ok_empty, of db] by (simp add: graph_ok_def)
  ultimately show ?thesis unfolding Let_def using outs by blast
qed


end
