(* ===== verification/Process_IO.thy ===== *)
theory Process_IO
  imports Rebuild
begin

text \<open>
  What a process, or the tree under it, reads and writes: \<open>collect_descendant_pids\<close> and
  \<open>classify_process_io\<close> of \<open>common/view_helpers.cpp\<close>. The recursion over children is a loop
  over the children still to look at (the flattened call stack), in the order of the calls.
\<close>

section \<open>Descendants\<close>

definition child_pids :: "dep_graph \<Rightarrow> int set" where
  "child_pids g = (\<Union>(_, cs) \<in> set (pid_children g). set cs)"

lemma finite_child_pids: "finite (child_pids g)"
  by (auto simp: child_pids_def)

lemma children_of_sub: "set (children_of g p) \<subseteq> child_pids g"
  unfolding children_of_def child_pids_def
  by (cases "om_get (pid_children g) p") (force dest: om_get_SomeD)+

text \<open>A pid that is in no list of children can only be a starting point, so it is counted with them.\<close>

function collect_children :: "dep_graph \<Rightarrow> int oset \<Rightarrow> int list \<Rightarrow> int oset" where
  "collect_children g pids [] = pids"
| "collect_children g pids (c # cs) =
     (if c \<in> set pids then collect_children g pids cs
      else collect_children g (os_ins c pids) (children_of g c @ cs))"
  by pat_completeness auto
termination
proof (relation "measures [\<lambda>(g, pids, cs). card ((child_pids g \<union> set cs) - set pids), \<lambda>(g, pids, cs). length cs]")
  fix g and pids :: "int oset" and c cs
  assume c: "c \<in> set pids"
  show "((g, pids, cs), (g, pids, c # cs)) \<in>
      measures [\<lambda>(g, pids, cs). card ((child_pids g \<union> set cs) - set pids), \<lambda>(g, pids, cs). length cs]"
    using c by (simp add: insert_absorb Un_insert_right insert_Diff_if)
next
  fix g and pids :: "int oset" and c cs
  assume c: "c \<notin> set pids"
  have "(child_pids g \<union> set (children_of g c @ cs)) - set (os_ins c pids) \<subseteq> (child_pids g \<union> set (c # cs)) - set pids"
    using children_of_sub [of g c] by auto
  moreover have "c \<in> (child_pids g \<union> set (c # cs)) - set pids" using c by simp
  moreover have "c \<notin> (child_pids g \<union> set (children_of g c @ cs)) - set (os_ins c pids)" by simp
  ultimately have "(child_pids g \<union> set (children_of g c @ cs)) - set (os_ins c pids) \<subset> (child_pids g \<union> set (c # cs)) - set pids"
    by blast
  then have "card ((child_pids g \<union> set (children_of g c @ cs)) - set (os_ins c pids)) < card ((child_pids g \<union> set (c # cs)) - set pids)"
    by (intro psubset_card_mono) (simp_all add: finite_child_pids)
  then show "((g, os_ins c pids, children_of g c @ cs), (g, pids, c # cs)) \<in>
      measures [\<lambda>(g, pids, cs). card ((child_pids g \<union> set cs) - set pids), \<lambda>(g, pids, cs). length cs]"
    by simp
qed simp

definition collect_descendant_pids :: "dep_graph \<Rightarrow> int \<Rightarrow> int oset \<Rightarrow> int oset" where
  "collect_descendant_pids g pid pids = collect_children g (os_ins pid pids) (children_of g pid)"

definition child_rel :: "dep_graph \<Rightarrow> (int \<times> int) set" where
  "child_rel g = {(p, q). q \<in> set (children_of g p)}"

lemma child_rel_iff [simp]: "(p, q) \<in> child_rel g \<longleftrightarrow> q \<in> set (children_of g p)"
  by (simp add: child_rel_def)

lemma collect_children_inv: "os_inv pids \<Longrightarrow> os_inv (collect_children g pids cs)"
  by (induction g pids cs rule: collect_children.induct) (auto simp: os_inv_ins)

lemma collect_children_increases: "set pids \<union> set cs \<subseteq> set (collect_children g pids cs)"
  by (induction g pids cs rule: collect_children.induct) auto

lemma collect_children_closed:
  assumes "\<And>p. p \<in> set pids \<Longrightarrow> set (children_of g p) \<subseteq> set pids \<union> set cs"
  shows "p \<in> set (collect_children g pids cs) \<Longrightarrow> set (children_of g p) \<subseteq> set (collect_children g pids cs)"
  using assms
proof (induction g pids cs rule: collect_children.induct)
  case (2 g pids c cs)
  show ?case
  proof (cases "c \<in> set pids")
    case True
    with 2 show ?thesis by (simp add: insert_absorb)
  next
    case False
    have "set (children_of g q) \<subseteq> set (os_ins c pids) \<union> set (children_of g c @ cs)"
      if "q \<in> set (os_ins c pids)" for q
      using that "2.prems"(2) [of q] by auto
    with 2 False show ?thesis by simp
  qed
qed simp

lemma child_reach: "(child_rel g)\<^sup>* `` {p} = insert p ((child_rel g)\<^sup>* `` set (children_of g p))"
proof -
  have "x = p \<or> (\<exists>c \<in> set (children_of g p). (c, x) \<in> (child_rel g)\<^sup>*)" if "(p, x) \<in> (child_rel g)\<^sup>*" for x
    using that by (cases rule: converse_rtranclE) auto
  then show ?thesis by (auto intro: converse_rtrancl_into_rtrancl)
qed

lemma collect_children_sound:
  "set (collect_children g pids cs) \<subseteq> set pids \<union> (child_rel g)\<^sup>* `` set cs"
proof (induction g pids cs rule: collect_children.induct)
  case (2 g pids c cs)
  have "(child_rel g)\<^sup>* `` set (c # cs) = insert c ((child_rel g)\<^sup>* `` set (children_of g c @ cs))"
    using child_reach [of g c] Image_Un [of "(child_rel g)\<^sup>*" "{c}" "set cs"] by (simp add: Image_Un)
  with 2 show ?case by (cases "c \<in> set pids") auto
qed simp

lemma collect_set: "set (collect_descendant_pids g pid []) = (child_rel g)\<^sup>* `` {pid}"
proof
  let ?R = "collect_children g [pid] (children_of g pid)"
  show "set (collect_descendant_pids g pid []) \<subseteq> (child_rel g)\<^sup>* `` {pid}"
    using collect_children_sound [of g "[pid]" "children_of g pid"] child_reach [of g pid]
    by (simp add: collect_descendant_pids_def)
  have "q \<in> set ?R" if "(pid, q) \<in> (child_rel g)\<^sup>*" for q
    using that
  proof induction
    case base
    then show ?case using collect_children_increases [of "[pid]"] by auto
  next
    case (step p q)
    have "set (children_of g p) \<subseteq> set ?R"
      by (rule collect_children_closed) (use step in auto)
    with step show ?case by auto
  qed
  then show "(child_rel g)\<^sup>* `` {pid} \<subseteq> set (collect_descendant_pids g pid [])"
    by (auto simp: collect_descendant_pids_def)
qed

section \<open>Classification\<close>

record ProcessIO =
  pio_inputs :: "string oset"
  pio_outputs :: "string oset"
  pio_internal :: "string oset"

definition ProcessIO_empty :: ProcessIO where
  "ProcessIO_empty = \<lparr>pio_inputs = [], pio_outputs = [], pio_internal = []\<rparr>"

definition add_read :: "string oset \<Rightarrow> string \<Rightarrow> ProcessIO \<Rightarrow> ProcessIO" where
  "add_read writes f r =
    (if f \<in> set writes then r\<lparr>pio_internal := os_ins f (pio_internal r)\<rparr>
     else r\<lparr>pio_inputs := os_ins f (pio_inputs r)\<rparr>)"

definition add_write :: "string oset \<Rightarrow> string \<Rightarrow> ProcessIO \<Rightarrow> ProcessIO" where
  "add_write reads f r =
    (if f \<notin> set reads then r\<lparr>pio_outputs := os_ins f (pio_outputs r)\<rparr> else r)"

definition note_access :: "FileAccessRecord \<Rightarrow> string oset \<times> string oset \<Rightarrow> string oset \<times> string oset" where
  "note_access fa rw =
    (if is_input_mode (fa_mode fa) then os_ins (fa_filename fa) (fst rw) else fst rw,
     if is_output_mode (fa_mode fa) then os_ins (fa_filename fa) (snd rw) else snd rw)"

definition classify_process_io :: "sq_db \<Rightarrow> dep_graph \<Rightarrow> int \<Rightarrow> bool \<Rightarrow> ProcessIO \<Rightarrow> ProcessIO" where
  "classify_process_io db g pid tree result =
    (let pids = (if tree then collect_descendant_pids g pid [] else os_ins pid []);
         acc = get_file_accesses_by_pids db pids
     in case fold note_access acc ([], []) of
          (reads, writes) \<Rightarrow> fold (add_write reads) writes (fold (add_read writes) reads result))"

lemma fold_note_access:
  "set (fst (fold note_access acc rw)) = set (fst rw) \<union> {fa_filename a | a. a \<in> set acc \<and> is_input_mode (fa_mode a)}"
  "set (snd (fold note_access acc rw)) = set (snd rw) \<union> {fa_filename a | a. a \<in> set acc \<and> is_output_mode (fa_mode a)}"
  by (induction acc arbitrary: rw) (auto simp: note_access_def)

lemma fold_add_read:
  "set (pio_internal (fold (add_read W) R r)) = set (pio_internal r) \<union> (set R \<inter> set W)"
  "set (pio_inputs (fold (add_read W) R r)) = set (pio_inputs r) \<union> (set R - set W)"
  "pio_outputs (fold (add_read W) R r) = pio_outputs r"
  by (induction R arbitrary: r) (auto simp: add_read_def)

lemma fold_add_write:
  "set (pio_outputs (fold (add_write R) W r)) = set (pio_outputs r) \<union> (set W - set R)"
  "pio_inputs (fold (add_write R) W r) = pio_inputs r"
  "pio_internal (fold (add_write R) W r) = pio_internal r"
  by (induction W arbitrary: r) (auto simp: add_write_def)

lemma by_pids_set:
  "set (get_file_accesses_by_pids db pids) = {a \<in> set (get_all_file_accesses db). fa_pid a \<in> set pids}"
  by (auto simp: get_file_accesses_by_pids_def get_all_file_accesses_def map_filter_def row_to_file_access_def
      split: option.splits)

text \<open>The files some of a set of processes used in a mode of the given kind.\<close>

definition files_used :: "sq_db \<Rightarrow> (int \<Rightarrow> bool) \<Rightarrow> int set \<Rightarrow> string set" where
  "files_used db kind P = {fa_filename a | a. a \<in> set (get_all_file_accesses db) \<and> fa_pid a \<in> P \<and> kind (fa_mode a)}"

text \<open>
  C25. The files of a process tree fall into three classes: inputs are read and never written by the
  tree, outputs are written and never read, internal files are both. The tree is the process and
  all its descendants (the collection stops on every graph, cycles included), and the three
  classes are exactly the files the database records for it.
\<close>

theorem classify_exact:
  "let P = (if tree then (child_rel g)\<^sup>* `` {pid} else {pid});
       R = files_used db is_input_mode P; W = files_used db is_output_mode P;
       io = classify_process_io db g pid tree ProcessIO_empty
   in set (pio_inputs io) = R - W \<and> set (pio_outputs io) = W - R \<and> set (pio_internal io) = R \<inter> W"
proof -
  define pids where "pids = (if tree then collect_descendant_pids g pid [] else os_ins pid [])"
  define acc where "acc = get_file_accesses_by_pids db pids"
  have P: "set pids = (if tree then (child_rel g)\<^sup>* `` {pid} else {pid})"
    by (simp add: pids_def collect_set)
  have used: "set (fst (fold note_access acc ([], []))) = files_used db is_input_mode (set pids)"
    "set (snd (fold note_access acc ([], []))) = files_used db is_output_mode (set pids)"
    by (auto simp: fold_note_access files_used_def acc_def by_pids_set)
  have "classify_process_io db g pid tree ProcessIO_empty =
      fold (add_write (fst (fold note_access acc ([], [])))) (snd (fold note_access acc ([], [])))
        (fold (add_read (snd (fold note_access acc ([], [])))) (fst (fold note_access acc ([], []))) ProcessIO_empty)"
    by (simp add: classify_process_io_def Let_def split_beta acc_def pids_def)
  then show ?thesis
    unfolding Let_def P [symmetric]
    by (simp add: fold_add_read fold_add_write used ProcessIO_empty_def Int_commute)
qed

end
