(* ===== verification/Impact.thy ===== *)
theory Impact
  imports Rebuild
begin

text \<open>
  \<open>compute_impact\<close> of \<open>common/view_helpers.cpp\<close>: source files ranked by the time it takes to
  run again what depends on them. The readings of \<open>now_us\<close> against the deadline are a function
  \<open>clock\<close> from the number of the reading to the time.
\<close>

section \<open>Ranking\<close>

record ImpactEntry =
  ie_file :: string
  ie_count :: int
  ie_duration :: int

definition cmp_impact_desc :: "ImpactEntry \<Rightarrow> ImpactEntry \<Rightarrow> bool" where
  "cmp_impact_desc a b =
    (if ie_duration a \<noteq> ie_duration b then ie_duration a > ie_duration b
     else ie_count a > ie_count b)"

definition deadline_passed :: "(nat \<Rightarrow> int) \<Rightarrow> int \<Rightarrow> nat \<Rightarrow> bool" where
  "deadline_passed clock deadline_us i \<longleftrightarrow> deadline_us > 0 \<and> clock i > deadline_us"

definition all_outputs :: "dep_graph \<Rightarrow> string oset" where
  "all_outputs g = fold (\<lambda>(_, fs) acc. fold os_ins fs acc) (pid_to_outputs g) []"

definition source_files :: "dep_graph \<Rightarrow> string oset" where
  "source_files g =
     fold (\<lambda>(f, _) acc. if f \<notin> set (all_outputs g) then os_ins f acc else acc) (file_to_readers g) []"

definition add_duration :: "dep_graph \<Rightarrow> int \<Rightarrow> int \<Rightarrow> int" where
  "add_duration g pid total_dur =
    (case om_get (proc_map g) pid of
       None \<Rightarrow> total_dur
     | Some p \<Rightarrow> let dur = pr_end p - pr_start p in if dur > 0 then total_dur + dur else total_dur)"

definition impact_entry :: "dep_graph \<Rightarrow> string \<Rightarrow> ImpactEntry" where
  "impact_entry g f =
    (let affected = rebuild_bfs g (os_ins f [])
     in \<lparr>ie_file = f, ie_count = int (length affected), ie_duration = fold (add_duration g) affected 0\<rparr>)"

fun impact_loop :: "dep_graph \<Rightarrow> (nat \<Rightarrow> int) \<Rightarrow> int \<Rightarrow> nat \<Rightarrow> string list \<Rightarrow> ImpactEntry list \<Rightarrow> ImpactEntry list" where
  "impact_loop g clock deadline_us i [] result = result"
| "impact_loop g clock deadline_us i (f # fs) result =
     (if deadline_passed clock deadline_us i then result
      else impact_loop g clock deadline_us (Suc i) fs (result @ [impact_entry g f]))"

definition compute_impact :: "dep_graph \<Rightarrow> (nat \<Rightarrow> int) \<Rightarrow> int \<Rightarrow> int \<Rightarrow> ImpactEntry list" where
  "compute_impact g clock top_n deadline_us =
    (let result = std_sort cmp_impact_desc (impact_loop g clock deadline_us 0 (source_files g) [])
     in if top_n > 0 \<and> int (length result) > top_n then take (nat top_n) result else result)"

section \<open>What is ranked\<close>

lemma all_outputs_set:
  "om_inv (pid_to_outputs g) \<Longrightarrow> f \<in> set (all_outputs g) \<longleftrightarrow> (\<exists>p. f \<in> set (outputs_of g p))"
proof -
  assume inv: "om_inv (pid_to_outputs g)"
  have "set (fold (\<lambda>(_, fs) acc. fold os_ins fs acc) m acc) = set acc \<union> (\<Union>(_, fs) \<in> set m. set fs)"
    for m :: "(int, string oset) omap" and acc
    by (induction m arbitrary: acc) (auto simp: fold_os_ins_set)
  then have "f \<in> set (all_outputs g) \<longleftrightarrow> (\<exists>p fs. (p, fs) \<in> set (pid_to_outputs g) \<and> f \<in> set fs)"
    by (auto simp: all_outputs_def)
  also have "\<dots> \<longleftrightarrow> (\<exists>p. f \<in> set (outputs_of g p))"
    unfolding om_get_iff [OF inv, symmetric] by (auto simp: outputs_of_def split: option.splits) metis+
  finally show ?thesis .
qed

lemma source_files_fold:
  "set (fold (\<lambda>(f, _) acc. if f \<notin> A then os_ins f acc else acc) m acc) = set acc \<union> (fst ` set m - A)"
  "os_inv acc \<Longrightarrow> os_inv (fold (\<lambda>(f, _) acc. if f \<notin> A then os_ins f acc else acc) m acc)"
  by (induction m arbitrary: acc) (auto simp: os_inv_ins split: if_splits)

lemma source_files_set: "set (source_files g) = set (om_keys (file_to_readers g)) - set (all_outputs g)"
  by (simp add: source_files_def source_files_fold om_keys_def)

lemma source_files_inv: "os_inv (source_files g)"
  by (simp add: source_files_def source_files_fold)

lemma add_duration_counted: "add_duration g p t = t + counted_time g p"
  by (auto simp: add_duration_def counted_time_def pr_duration_def Let_def split: option.split)

lemma fold_add_duration: "fold (add_duration g) ps t = t + sum_list (map (counted_time g) ps)"
  by (induction ps arbitrary: t) (auto simp: add_duration_counted)

lemma impact_loop_prefix:
  "\<exists>k. impact_loop g clock dl i fs result = result @ map (impact_entry g) (take k fs)
     \<and> (dl \<le> 0 \<longrightarrow> length fs \<le> k)"
proof (induction g clock dl i fs result rule: impact_loop.induct)
  case (2 g clock dl i f fs result)
  show ?case
  proof (cases "deadline_passed clock dl i")
    case True
    then show ?thesis by (intro exI [of _ 0]) (simp add: deadline_passed_def)
  next
    case False
    then obtain k where "impact_loop g clock dl (Suc i) fs (result @ [impact_entry g f]) =
        (result @ [impact_entry g f]) @ map (impact_entry g) (take k fs)" "dl \<le> 0 \<longrightarrow> length fs \<le> k"
      using 2 by blast
    with False show ?thesis by (intro exI [of _ "Suc k"]) simp
  qed
qed auto

lemma weak_order_impact: "weak_order cmp_impact_desc"
  by (auto simp: weak_order_def cmp_impact_desc_def split: if_splits)

lemma cut_list:
  "\<exists>dropped. (if n > 0 \<and> int (length xs) > n then take (nat n) xs else xs) @ dropped = xs
     \<and> (dropped = [] \<or> int (length (if n > 0 \<and> int (length xs) > n then take (nat n) xs else xs)) = n)"
proof (cases "n > 0 \<and> int (length xs) > n")
  case True
  then have "min (length xs) (nat n) = nat n" by linarith
  with True show ?thesis by (intro exI [of _ "drop (nat n) xs"]) simp
qed auto

definition impact_sources :: "dep_graph \<Rightarrow> string set" where
  "impact_sources g = {f. om_get (file_to_readers g) f \<noteq> None \<and> (\<forall>p. f \<notin> set (outputs_of g p))}"

definition impact_cost :: "dep_graph \<Rightarrow> string \<Rightarrow> int" where
  "impact_cost g f = (\<Sum>p \<in> (affects g)\<^sup>* `` set (readers_of g f). counted_time g p)"

definition impact_count :: "dep_graph \<Rightarrow> string \<Rightarrow> nat" where
  "impact_count g f = card ((affects g)\<^sup>* `` set (readers_of g f))"

lemma impact_entry_exact:
  "impact_entry g f = \<lparr>ie_file = f, ie_count = int (impact_count g f), ie_duration = impact_cost g f\<rparr>"
proof -
  have "distinct (rebuild_bfs g [f])" by (rule os_inv_distinct) (rule rebuild_bfs_inv)
  then show ?thesis
    by (simp add: impact_entry_def Let_def fold_add_duration impact_cost_def impact_count_def
        sum_list_distinct_conv_sum_set rebuild_bfs_set flip: distinct_card)
qed

section \<open>The ranking\<close>

lemma compute_impact_ranked:
  assumes "graph_ok g" and "deadline_us \<le> 0"
  shows "\<exists>dropped.
     mset (compute_impact g clock top_n deadline_us @ dropped) =
       image_mset (\<lambda>f. \<lparr>ie_file = f, ie_count = int (impact_count g f), ie_duration = impact_cost g f\<rparr>)
         (mset_set (impact_sources g))
     \<and> sorted_wrt (\<lambda>x y. \<not> cmp_impact_desc y x) (compute_impact g clock top_n deadline_us @ dropped)
     \<and> (dropped = [] \<or> int (length (compute_impact g clock top_n deadline_us)) = top_n)"
proof -
  let ?all = "std_sort cmp_impact_desc (impact_loop g clock deadline_us 0 (source_files g) [])"
  have S: "set (source_files g) = impact_sources g"
    using assms(1) by (auto simp: source_files_set om_keys_set impact_sources_def all_outputs_set graph_ok_def)
  obtain k where "impact_loop g clock deadline_us 0 (source_files g) [] = [] @ map (impact_entry g) (take k (source_files g))"
    "length (source_files g) \<le> k"
    using impact_loop_prefix [of g clock deadline_us 0 "source_files g" "[]"] assms(2) by blast
  then have "mset ?all = image_mset (impact_entry g) (mset (source_files g))" by simp
  also have "mset (source_files g) = mset_set (impact_sources g)"
    using os_inv_distinct [OF source_files_inv, of g] by (simp add: mset_set_set flip: S)
  also have "image_mset (impact_entry g) (mset_set (impact_sources g)) =
      image_mset (\<lambda>f. \<lparr>ie_file = f, ie_count = int (impact_count g f), ie_duration = impact_cost g f\<rparr>)
        (mset_set (impact_sources g))"
    by (simp only: impact_entry_exact cong: image_mset_cong)
  finally have all: "mset ?all = \<dots>" .
  have sorted: "sorted_wrt (\<lambda>x y. \<not> cmp_impact_desc y x) ?all" by (rule std_sort_sorted [OF weak_order_impact])
  obtain dropped where "compute_impact g clock top_n deadline_us @ dropped = ?all"
    "dropped = [] \<or> int (length (compute_impact g clock top_n deadline_us)) = top_n"
    using cut_list [of top_n ?all] by (auto simp only: compute_impact_def Let_def)
  then show ?thesis using all sorted by (intro exI [of _ dropped]) simp
qed


end
