(* ===== verification/Races.thy ===== *)
theory Races
  imports Process_IO Impact
begin

text \<open>
  \<open>detect_races\<close> of \<open>common/view_helpers.cpp\<close>: pairs of processes that overlap in time while one
  reads a file the other writes, unless one descends from the other. Descent is decided in
  constant time from the entry and exit times of a depth-first walk of the process tree. The walk
  is a loop over a stack, here a list whose head is \<open>stack.back()\<close>; it is a partial function because
  it does not mark what it has seen.
\<close>

section \<open>The walk\<close>

definition dfs_roots :: "dep_graph \<Rightarrow> int list" where
  "dfs_roots g = map fst (filter (\<lambda>(_, r). pr_ppid r \<notin> set (om_keys (proc_map g))) (proc_map g))"

type_synonym dfs_times = "(int, nat) omap \<times> (int, nat) omap"

partial_function (option) dfs_loop :: "dep_graph \<Rightarrow> (int \<times> bool) list \<Rightarrow> nat \<Rightarrow> dfs_times \<Rightarrow> dfs_times option" where
  "dfs_loop g stack timer tms =
    (case stack of
       [] \<Rightarrow> Some tms
     | tp # st \<Rightarrow>
        if snd tp
        then dfs_loop g (map (\<lambda>c. (c, True)) (children_of g (fst tp)) @ (fst tp, False) # st) (Suc timer)
               (om_put (fst tp) timer (fst tms), snd tms)
        else dfs_loop g st (Suc timer) (fst tms, om_put (fst tp) timer (snd tms)))"

definition dfs_walk :: "dep_graph \<Rightarrow> dfs_times option" where
  "dfs_walk g = dfs_loop g (rev (map (\<lambda>r. (r, True)) (dfs_roots g))) 0 ([], [])"

section \<open>Races\<close>

record RaceEntry =
  rc_file :: string
  rc_writer :: int
  rc_reader :: int
  rc_overlap :: int

definition overlap_us :: "ProcessRecord \<Rightarrow> ProcessRecord \<Rightarrow> int" where
  "overlap_us wp rp =
    (let overlap_start = (if pr_start wp > pr_start rp then pr_start wp else pr_start rp);
         overlap_end = (if pr_end wp < pr_end rp then pr_end wp else pr_end rp)
     in overlap_end - overlap_start)"

definition is_ancestor :: "dfs_times \<Rightarrow> int \<Rightarrow> int \<Rightarrow> bool" where
  "is_ancestor tms w r =
    (case (om_get (fst tms) w, om_get (snd tms) w, om_get (fst tms) r, om_get (snd tms) r) of
       (Some wi_in, Some wi_out, Some ri_in, Some ri_out) \<Rightarrow>
         wi_in \<le> ri_in \<and> wi_out \<ge> ri_out \<or> ri_in \<le> wi_in \<and> ri_out \<ge> wi_out
     | _ \<Rightarrow> False)"

definition race_of :: "dep_graph \<Rightarrow> dfs_times \<Rightarrow> string \<Rightarrow> int \<Rightarrow> ProcessRecord \<Rightarrow> int \<Rightarrow> RaceEntry option" where
  "race_of g tms file w wp r =
    (if r = w then None
     else case om_get (proc_map g) r of
       None \<Rightarrow> None
     | Some rp \<Rightarrow>
        if overlap_us wp rp \<le> 0 then None
        else if is_ancestor tms w r then None
        else Some \<lparr>rc_file = file, rc_writer = w, rc_reader = r, rc_overlap = overlap_us wp rp\<rparr>)"

definition file_races :: "dep_graph \<Rightarrow> dfs_times \<Rightarrow> string \<Rightarrow> int oset \<Rightarrow> RaceEntry list" where
  "file_races g tms file readers =
    (case om_get (file_to_writers g) file of
       None \<Rightarrow> []
     | Some writers \<Rightarrow>
        concat (map (\<lambda>w. case om_get (proc_map g) w of
                           None \<Rightarrow> []
                         | Some wp \<Rightarrow> List.map_filter (race_of g tms file w wp) readers) writers))"

fun races_loop ::
  "dep_graph \<Rightarrow> dfs_times \<Rightarrow> (nat \<Rightarrow> int) \<Rightarrow> int \<Rightarrow> nat \<Rightarrow> (string \<times> int oset) list \<Rightarrow> RaceEntry list
     \<Rightarrow> bool \<times> RaceEntry list" where
  "races_loop g tms clock deadline_us i [] result = (True, result)"
| "races_loop g tms clock deadline_us i ((file, readers) # fs) result =
     (if deadline_passed clock deadline_us i then (False, result)
      else races_loop g tms clock deadline_us (Suc i) fs (result @ file_races g tms file readers))"

definition detect_races :: "dep_graph \<Rightarrow> (nat \<Rightarrow> int) \<Rightarrow> int \<Rightarrow> (bool \<times> RaceEntry list) option" where
  "detect_races g clock deadline_us =
    (case dfs_walk g of
       None \<Rightarrow> None
     | Some tms \<Rightarrow> Some (races_loop g tms clock deadline_us 0 (file_to_readers g) []))"

section \<open>Process trees\<close>

text \<open>
  The graph of a trace: the children of a process are the rows that name it as their parent, each
  once, and no process is its own ancestor.
\<close>

definition forest :: "dep_graph \<Rightarrow> bool" where
  "forest g \<longleftrightarrow>
     om_inv (proc_map g)
     \<and> (\<forall>p q. q \<in> set (children_of g p) \<longleftrightarrow> (\<exists>r. om_get (proc_map g) q = Some r \<and> pr_ppid r = p))
     \<and> (\<forall>p. distinct (children_of g p))
     \<and> (\<exists>h :: int \<Rightarrow> nat. \<forall>p q. q \<in> set (children_of g p) \<longrightarrow> h p < h q)"

abbreviation tree_of :: "dep_graph \<Rightarrow> int \<Rightarrow> int set" where
  "tree_of g p \<equiv> (child_rel g)\<^sup>* `` {p}"

lemma forest_row: "forest g \<Longrightarrow>
  q \<in> set (children_of g p) \<longleftrightarrow> (\<exists>r. om_get (proc_map g) q = Some r \<and> pr_ppid r = p)"
  by (simp add: forest_def)

lemma forest_rank: "forest g \<Longrightarrow> \<exists>h :: int \<Rightarrow> nat. \<forall>p q. (p, q) \<in> (child_rel g)\<^sup>+ \<longrightarrow> h p < h q"
proof -
  assume "forest g"
  then obtain h :: "int \<Rightarrow> nat" where "\<And>p q. q \<in> set (children_of g p) \<Longrightarrow> h p < h q"
    unfolding forest_def by blast
  then have h: "\<And>p q. (p, q) \<in> child_rel g \<Longrightarrow> h p < h q" by simp
  have "h p < h q" if "(p, q) \<in> (child_rel g)\<^sup>+" for p q
    using that by induction (use h less_trans in blast)+
  then show ?thesis by blast
qed

lemma forest_acyclic: "forest g \<Longrightarrow> acyclic (child_rel g)"
  using forest_rank [of g] unfolding acyclic_def by blast

lemma forest_wf: "forest g \<Longrightarrow> wf ((child_rel g)\<inverse>)"
proof -
  assume f: "forest g"
  have "child_rel g \<subseteq> (\<lambda>(q, r). (pr_ppid r, q)) ` set (proc_map g)"
    using f by (force simp: forest_row dest: om_get_SomeD)
  then have "finite (child_rel g)" by (rule finite_subset) simp
  then show ?thesis by (rule finite_acyclic_wf_converse) (rule forest_acyclic [OF f])
qed

lemma forest_parent: "forest g \<Longrightarrow> single_valued ((child_rel g)\<inverse>)"
  by (auto simp: forest_row intro!: single_valuedI)

text \<open>Two processes with a common descendant: one descends from the other.\<close>

lemma forest_comparable:
  assumes "forest g" and "(p, x) \<in> (child_rel g)\<^sup>*" and "(q, x) \<in> (child_rel g)\<^sup>*"
  shows "(p, q) \<in> (child_rel g)\<^sup>* \<or> (q, p) \<in> (child_rel g)\<^sup>*"
  using single_valued_confluent [OF forest_parent [OF assms(1)], of x p q] assms(2,3)
  by (auto simp: rtrancl_converse)

definition apart :: "dep_graph \<Rightarrow> int set \<Rightarrow> bool" where
  "apart g C \<longleftrightarrow> (\<forall>p \<in> C. \<forall>q \<in> C. p \<noteq> q \<longrightarrow> tree_of g p \<inter> tree_of g q = {})"

lemma apartI:
  assumes "forest g" and "\<And>p q. p \<in> C \<Longrightarrow> q \<in> C \<Longrightarrow> (p, q) \<notin> (child_rel g)\<^sup>+"
  shows "apart g C"
  unfolding apart_def
proof (intro ballI impI)
  fix p q
  assume pq: "p \<in> C" "q \<in> C" "p \<noteq> q"
  have "(p, q) \<notin> (child_rel g)\<^sup>*" "(q, p) \<notin> (child_rel g)\<^sup>*"
    using assms(2) [OF pq(1,2)] assms(2) [OF pq(2,1)] pq(3) by (auto dest: rtranclD)
  then show "tree_of g p \<inter> tree_of g q = {}" using forest_comparable [OF assms(1)] by blast
qed

lemma children_apart: "forest g \<Longrightarrow> apart g (set (children_of g p))"
proof (rule apartI)
  fix c d
  assume f: "forest g" and c: "c \<in> set (children_of g p)" and d: "d \<in> set (children_of g p)"
  show "(c, d) \<notin> (child_rel g)\<^sup>+"
  proof
    assume "(c, d) \<in> (child_rel g)\<^sup>+"
    then obtain e where e: "(c, e) \<in> (child_rel g)\<^sup>*" "(e, d) \<in> child_rel g" by (meson tranclD2)
    then have "e = p" using single_valuedD [OF forest_parent [OF f], of d e p] d by simp
    with e(1) c have "(p, p) \<in> (child_rel g)\<^sup>+" by (auto intro: rtrancl_into_trancl2)
    with forest_acyclic [OF f] show False by (simp add: acyclic_def)
  qed
qed

lemma dfs_roots_iff: "om_inv (proc_map g) \<Longrightarrow>
  q \<in> set (dfs_roots g) \<longleftrightarrow> (\<exists>r. om_get (proc_map g) q = Some r \<and> om_get (proc_map g) (pr_ppid r) = None)"
  by (force simp: dfs_roots_def om_get_iff om_get_eq_None_iff)

lemma roots_apart: "forest g \<Longrightarrow> apart g (set (dfs_roots g))"
proof (rule apartI)
  fix c d
  assume f: "forest g" and c: "c \<in> set (dfs_roots g)" and d: "d \<in> set (dfs_roots g)"
  have inv: "om_inv (proc_map g)" using f by (simp add: forest_def)
  show "(c, d) \<notin> (child_rel g)\<^sup>+"
  proof
    assume "(c, d) \<in> (child_rel g)\<^sup>+"
    then obtain e where e: "(c, e) \<in> (child_rel g)\<^sup>*" "(e, d) \<in> child_rel g" by (meson tranclD2)
    then have "om_get (proc_map g) e = None" using d f by (auto simp: dfs_roots_iff [OF inv] forest_row)
    moreover have "om_get (proc_map g) e \<noteq> None"
      using e(1)
    proof (cases rule: rtranclE)
      case base
      then show ?thesis using c by (auto simp: dfs_roots_iff [OF inv])
    next
      case (step y)
      then show ?thesis using f by (auto simp: forest_row)
    qed
    ultimately show False by simp
  qed
qed

lemma roots_cover:
  assumes f: "forest g" and "om_get (proc_map g) q \<noteq> None"
  shows "\<exists>p \<in> set (dfs_roots g). (p, q) \<in> (child_rel g)\<^sup>*"
proof -
  obtain h :: "int \<Rightarrow> nat" where h: "\<And>p q. q \<in> set (children_of g p) \<Longrightarrow> h p < h q"
    using f unfolding forest_def by blast
  have inv: "om_inv (proc_map g)" using f by (simp add: forest_def)
  show ?thesis
    using assms(2)
  proof (induction "h q" arbitrary: q rule: less_induct)
    case less
    then obtain r where r: "om_get (proc_map g) q = Some r" by auto
    then have q: "q \<in> set (children_of g (pr_ppid r))" using f by (simp add: forest_row)
    show ?case
    proof (cases "om_get (proc_map g) (pr_ppid r) = None")
      case True
      with r show ?thesis using dfs_roots_iff [OF inv, of q] by auto
    next
      case False
      then obtain p where "p \<in> set (dfs_roots g)" "(p, pr_ppid r) \<in> (child_rel g)\<^sup>*"
        using less.hyps [OF h [OF q]] by blast
      moreover have "(pr_ppid r, q) \<in> child_rel g" using q by simp
      ultimately show ?thesis by (meson rtrancl_into_rtrancl)
    qed
  qed
qed

section \<open>What the walk records\<close>

definition encloses :: "dfs_times \<Rightarrow> int \<Rightarrow> int \<Rightarrow> bool" where
  "encloses tms p q \<longleftrightarrow>
     the (om_get (fst tms) p) \<le> the (om_get (fst tms) q) \<and> the (om_get (snd tms) q) \<le> the (om_get (snd tms) p)"

text \<open>
  Between \<open>t\<close> and \<open>t'\<close> the walk visits exactly \<open>T\<close>, and there one interval encloses another exactly
  when the one process descends from the other.
\<close>

definition walked :: "dep_graph \<Rightarrow> int set \<Rightarrow> nat \<Rightarrow> dfs_times \<Rightarrow> nat \<Rightarrow> dfs_times \<Rightarrow> bool" where
  "walked g T t s t' s' \<longleftrightarrow>
     (\<forall>q. q \<notin> T \<longrightarrow> om_get (fst s') q = om_get (fst s) q \<and> om_get (snd s') q = om_get (snd s) q)
     \<and> (\<forall>q \<in> T. \<exists>i e. om_get (fst s') q = Some i \<and> om_get (snd s') q = Some e \<and> t \<le> i \<and> i < e \<and> e < t')
     \<and> (\<forall>p \<in> T. \<forall>q \<in> T. encloses s' p q \<longleftrightarrow> (p, q) \<in> (child_rel g)\<^sup>*)
     \<and> t \<le> t'"

lemma walked_empty: "walked g {} t s t s"
  by (simp add: walked_def)

lemma walked_append:
  assumes A: "walked g A t s t1 s1" and B: "walked g B t1 s1 t2 s2" and disj: "A \<inter> B = {}"
    and closed: "(child_rel g)\<^sup>* `` A \<subseteq> A" "(child_rel g)\<^sup>* `` B \<subseteq> B"
  shows "walked g (A \<union> B) t s t2 s2"
proof -
  have le: "t \<le> t1" "t1 \<le> t2" using A B by (simp_all add: walked_def)
  have keptA: "om_get (fst s2) q = om_get (fst s1) q" "om_get (snd s2) q = om_get (snd s1) q" if "q \<in> A" for q
    using B disj that by (auto simp: walked_def)
  have a: "\<exists>i e. om_get (fst s2) q = Some i \<and> om_get (snd s2) q = Some e \<and> t \<le> i \<and> i < e \<and> e < t1"
    if "q \<in> A" for q
    using A that keptA [OF that] by (auto simp: walked_def)
  have b: "\<exists>i e. om_get (fst s2) q = Some i \<and> om_get (snd s2) q = Some e \<and> t1 \<le> i \<and> i < e \<and> e < t2"
    if "q \<in> B" for q
    using B that by (auto simp: walked_def)
  have mixed: "\<not> encloses s2 p q \<and> \<not> encloses s2 q p" if "p \<in> A" "q \<in> B" for p q
    using a [OF that(1)] b [OF that(2)] by (auto simp: encloses_def)
  have unrelated: "(p, q) \<notin> (child_rel g)\<^sup>* \<and> (q, p) \<notin> (child_rel g)\<^sup>*" if "p \<in> A" "q \<in> B" for p q
    using that closed disj by blast
  have inA: "encloses s2 p q \<longleftrightarrow> (p, q) \<in> (child_rel g)\<^sup>*" if "p \<in> A" "q \<in> A" for p q
    using A that keptA by (simp add: walked_def encloses_def)
  have inB: "encloses s2 p q \<longleftrightarrow> (p, q) \<in> (child_rel g)\<^sup>*" if "p \<in> B" "q \<in> B" for p q
    using B that by (simp add: walked_def)
  have "encloses s2 p q \<longleftrightarrow> (p, q) \<in> (child_rel g)\<^sup>*" if "p \<in> A \<union> B" "q \<in> A \<union> B" for p q
    using that inA inB mixed unrelated by blast
  moreover have "\<exists>i e. om_get (fst s2) q = Some i \<and> om_get (snd s2) q = Some e \<and> t \<le> i \<and> i < e \<and> e < t2"
    if "q \<in> A \<union> B" for q
    using that a b le by (meson Un_iff le_trans less_le_trans)
  moreover have "om_get (fst s2) q = om_get (fst s) q \<and> om_get (snd s2) q = om_get (snd s) q" if "q \<notin> A \<union> B" for q
    using that A B by (simp add: walked_def)
  ultimately show ?thesis using le by (simp add: walked_def)
qed

lemma walked_node:
  assumes C: "walked g T (Suc t) (om_put p t (fst s), snd s) t' s'" and p: "p \<notin> T"
    and T: "T = (child_rel g)\<^sup>* `` set (children_of g p)"
  shows "walked g (tree_of g p) t s (Suc t') (fst s', om_put p t' (snd s'))" (is "walked g _ t s _ ?s")
proof -
  have tree: "tree_of g p = insert p T" unfolding T by (rule child_reach)
  have p_in: "om_get (fst s') p = Some t" using C p by (simp add: walked_def om_get_put)
  have le: "Suc t \<le> t'" using C by (simp add: walked_def)
  have x: "\<exists>i e. om_get (fst s') q = Some i \<and> om_get (snd s') q = Some e \<and> Suc t \<le> i \<and> i < e \<and> e < t'"
    if "q \<in> T" for q
    using C that by (simp add: walked_def)
  have inT: "encloses ?s q r \<longleftrightarrow> (q, r) \<in> (child_rel g)\<^sup>*" if "q \<in> T" "r \<in> T" for q r
    using C p that by (auto simp: walked_def encloses_def om_get_put)
  have pT: "encloses ?s p q \<and> \<not> encloses ?s q p" if "q \<in> T" for q
    using x [OF that] p_in p that by (auto simp: encloses_def om_get_put)
  have "(p, q) \<in> (child_rel g)\<^sup>*" "(q, p) \<notin> (child_rel g)\<^sup>*" if "q \<in> T" for q
    using that p tree by (auto simp: T intro: rtrancl_trans)
  with inT pT have "encloses ?s q r \<longleftrightarrow> (q, r) \<in> (child_rel g)\<^sup>*" if "q \<in> insert p T" "r \<in> insert p T" for q r
    using that by (auto simp: encloses_def)
  moreover have "\<exists>i e. om_get (fst ?s) q = Some i \<and> om_get (snd ?s) q = Some e \<and> t \<le> i \<and> i < e \<and> e < Suc t'"
    if "q \<in> insert p T" for q
    using that x p_in le by (cases "q = p") (auto simp: om_get_put, fastforce)
  moreover have "om_get (fst ?s) q = om_get (fst s) q \<and> om_get (snd ?s) q = om_get (snd s) q" if "q \<notin> insert p T" for q
    using that C by (simp add: walked_def om_get_put)
  ultimately show ?thesis using le unfolding tree by (simp add: walked_def)
qed

definition walks :: "dep_graph \<Rightarrow> int list \<Rightarrow> bool" where
  "walks g cs \<longleftrightarrow>
     (\<forall>t s. \<exists>t' s'. walked g ((child_rel g)\<^sup>* `` set cs) t s t' s'
        \<and> (\<forall>st. dfs_loop g (map (\<lambda>c. (c, True)) cs @ st) t s = dfs_loop g st t' s'))"

lemma walksD: "walks g cs \<Longrightarrow>
  \<exists>t' s'. walked g ((child_rel g)\<^sup>* `` set cs) t s t' s'
    \<and> (\<forall>st. dfs_loop g (map (\<lambda>c. (c, True)) cs @ st) t s = dfs_loop g st t' s')"
  unfolding walks_def by blast

lemma closed_reach: "(child_rel g)\<^sup>* `` ((child_rel g)\<^sup>* `` A) \<subseteq> (child_rel g)\<^sup>* `` A"
  by (auto intro: rtrancl_trans)

lemma walks_list:
  assumes "\<And>c. c \<in> set cs \<Longrightarrow> walks g [c]" and "distinct cs" and "apart g (set cs)"
  shows "walks g cs"
  using assms
proof (induction cs)
  case Nil
  show ?case unfolding walks_def by (auto intro!: exI walked_empty)
next
  case (Cons c cs)
  have rest: "walks g cs" using Cons by (intro Cons.IH) (auto simp: apart_def)
  have disj: "(child_rel g)\<^sup>* `` set [c] \<inter> (child_rel g)\<^sup>* `` set cs = {}"
  proof -
    have "tree_of g c \<inter> tree_of g d = {}" if "d \<in> set cs" for d
      using Cons.prems(2,3) that by (auto simp: apart_def)
    then show ?thesis by fastforce
  qed
  show ?case
    unfolding walks_def
  proof (intro allI)
    fix t s
    obtain t1 s1 where one: "walked g ((child_rel g)\<^sup>* `` set [c]) t s t1 s1"
      "\<And>st. dfs_loop g (map (\<lambda>c. (c, True)) [c] @ st) t s = dfs_loop g st t1 s1"
      using walksD [OF Cons.prems(1) [of c], of t s] by auto
    obtain t2 s2 where two: "walked g ((child_rel g)\<^sup>* `` set cs) t1 s1 t2 s2"
      "\<And>st. dfs_loop g (map (\<lambda>c. (c, True)) cs @ st) t1 s1 = dfs_loop g st t2 s2"
      using walksD [OF rest, of t1 s1] by blast
    have "walked g ((child_rel g)\<^sup>* `` set [c] \<union> (child_rel g)\<^sup>* `` set cs) t s t2 s2"
      by (rule walked_append [OF one(1) two(1) disj closed_reach closed_reach])
    moreover have "(child_rel g)\<^sup>* `` set [c] \<union> (child_rel g)\<^sup>* `` set cs = (child_rel g)\<^sup>* `` set (c # cs)"
      by auto
    moreover have "dfs_loop g (map (\<lambda>c. (c, True)) (c # cs) @ st) t s = dfs_loop g st t2 s2" for st
      using one(2) [of "map (\<lambda>c. (c, True)) cs @ st"] two(2) [of st] by simp
    ultimately show "\<exists>t' s'. walked g ((child_rel g)\<^sup>* `` set (c # cs)) t s t' s'
        \<and> (\<forall>st. dfs_loop g (map (\<lambda>c. (c, True)) (c # cs) @ st) t s = dfs_loop g st t' s')" by metis
  qed
qed

lemma walks_tree:
  assumes f: "forest g"
  shows "walks g [p]"
proof (induction p rule: wf_induct_rule [OF forest_wf [OF f]])
  case (1 p)
  let ?T = "(child_rel g)\<^sup>* `` set (children_of g p)"
  have cs: "walks g (children_of g p)"
  proof (rule walks_list)
    show "walks g [c]" if "c \<in> set (children_of g p)" for c using that by (intro 1) simp
    show "distinct (children_of g p)" using f by (simp add: forest_def)
    show "apart g (set (children_of g p))" by (rule children_apart [OF f])
  qed
  have p: "p \<notin> ?T"
  proof
    assume "p \<in> ?T"
    then obtain c where "(p, c) \<in> child_rel g" "(c, p) \<in> (child_rel g)\<^sup>*" by auto
    then have "(p, p) \<in> (child_rel g)\<^sup>+" by (rule rtrancl_into_trancl2)
    with forest_acyclic [OF f] show False by (simp add: acyclic_def)
  qed
  show ?case
    unfolding walks_def
  proof (intro allI)
    fix t and s :: dfs_times
    obtain t' s' where w: "walked g ?T (Suc t) (om_put p t (fst s), snd s) t' s'"
      "\<And>st. dfs_loop g (map (\<lambda>c. (c, True)) (children_of g p) @ st) (Suc t) (om_put p t (fst s), snd s)
         = dfs_loop g st t' s'"
      using walksD [OF cs, of "Suc t" "(om_put p t (fst s), snd s)"] by blast
    have "dfs_loop g (map (\<lambda>c. (c, True)) [p] @ st) t s =
        dfs_loop g st (Suc t') (fst s', om_put p t' (snd s'))" for st
      using w(2) [of "(p, False) # st"]
      by (subst dfs_loop.simps, simp) (subst dfs_loop.simps, simp)
    then show "\<exists>t' s'. walked g ((child_rel g)\<^sup>* `` set [p]) t s t' s'
        \<and> (\<forall>st. dfs_loop g (map (\<lambda>c. (c, True)) [p] @ st) t s = dfs_loop g st t' s')"
      using walked_node [OF w(1) p refl] by auto
  qed
qed

lemma dfs_roots_distinct: "om_inv (proc_map g) \<Longrightarrow> distinct (dfs_roots g)"
  unfolding dfs_roots_def by (rule distinct_map_filter) (rule om_inv_distinct)

lemma walks_roots:
  assumes f: "forest g"
  shows "walks g (rev (dfs_roots g))"
proof (rule walks_list)
  show "walks g [c]" for c by (rule walks_tree [OF f])
  show "distinct (rev (dfs_roots g))" using f by (simp add: forest_def dfs_roots_distinct)
  show "apart g (set (rev (dfs_roots g)))" unfolding set_rev by (rule roots_apart [OF f])
qed

lemma dfs_walk_exact:
  assumes f: "forest g"
  shows "\<exists>tms t. dfs_walk g = Some tms \<and> walked g ((child_rel g)\<^sup>* `` set (dfs_roots g)) 0 ([], []) t tms"
proof -
  obtain t tms where t: "walked g ((child_rel g)\<^sup>* `` set (dfs_roots g)) 0 ([], []) t tms"
    and loop: "\<And>st. dfs_loop g (map (\<lambda>c. (c, True)) (rev (dfs_roots g)) @ st) 0 ([], []) = dfs_loop g st t tms"
    using walksD [OF walks_roots [OF f], of 0 "([], [])", unfolded set_rev] by (elim exE conjE) simp
  have stop: "dfs_loop g [] t tms = Some tms" by (subst dfs_loop.simps) (simp only: list.case)
  have "dfs_walk g = dfs_loop g (map (\<lambda>c. (c, True)) (rev (dfs_roots g)) @ []) 0 ([], [])"
    by (simp only: dfs_walk_def rev_map append_Nil2)
  also have "\<dots> = Some tms" by (simp only: loop stop)
  finally show ?thesis using t by (intro exI conjI)
qed

text \<open>So the constant-time test decides descent, for the processes of the trace.\<close>

lemma ancestor_test_exact:
  assumes f: "forest g" and w: "dfs_walk g = Some tms"
    and "om_get (proc_map g) p \<noteq> None" and "om_get (proc_map g) q \<noteq> None"
  shows "is_ancestor tms p q \<longleftrightarrow> (p, q) \<in> (child_rel g)\<^sup>* \<or> (q, p) \<in> (child_rel g)\<^sup>*"
proof -
  let ?T = "(child_rel g)\<^sup>* `` set (dfs_roots g)"
  obtain t where t: "walked g ?T 0 ([], []) t tms" using dfs_walk_exact [OF f] w by auto
  have pq: "p \<in> ?T" "q \<in> ?T" using roots_cover [OF f] assms(3,4) by blast+
  then have "encloses tms p q \<longleftrightarrow> (p, q) \<in> (child_rel g)\<^sup>*" "encloses tms q p \<longleftrightarrow> (q, p) \<in> (child_rel g)\<^sup>*"
    using t by (auto simp: walked_def)
  moreover have "\<exists>i e. om_get (fst tms) x = Some i \<and> om_get (snd tms) x = Some e" if "x \<in> ?T" for x
    using t that by (auto simp: walked_def)
  from this [OF pq(1)] this [OF pq(2)]
  have "is_ancestor tms p q \<longleftrightarrow> encloses tms p q \<or> encloses tms q p"
    by (auto simp: is_ancestor_def encloses_def)
  ultimately show ?thesis by simp
qed

section \<open>The list of races\<close>

lemma races_loop_all:
  "deadline_us \<le> 0 \<Longrightarrow> races_loop g tms clock deadline_us i fs result =
     (True, result @ concat (map (\<lambda>(f, rs). file_races g tms f rs) fs))"
  by (induction fs arbitrary: i result) (auto simp: deadline_passed_def)

text \<open>With a deadline the answer is a prefix of the full list, marked as cut.\<close>

lemma races_loop_prefix:
  "\<exists>k. snd (races_loop g tms clock deadline_us i fs result) =
         result @ concat (map (\<lambda>(f, rs). file_races g tms f rs) (take k fs))
     \<and> (fst (races_loop g tms clock deadline_us i fs result) \<longleftrightarrow> length fs \<le> k)"
proof (induction g tms clock deadline_us i fs result rule: races_loop.induct)
  case (2 g tms clock dl i f readers fs result)
  show ?case
  proof (cases "deadline_passed clock dl i")
    case True
    then show ?thesis by (intro exI [of _ 0]) simp
  next
    case False
    then obtain k where "snd (races_loop g tms clock dl (Suc i) fs (result @ file_races g tms f readers)) =
        (result @ file_races g tms f readers) @ concat (map (\<lambda>(f, rs). file_races g tms f rs) (take k fs))"
      "fst (races_loop g tms clock dl (Suc i) fs (result @ file_races g tms f readers)) \<longleftrightarrow> length fs \<le> k"
      using 2 by blast
    with False show ?thesis by (intro exI [of _ "Suc k"]) simp
  qed
qed auto

definition is_race :: "dep_graph \<Rightarrow> RaceEntry \<Rightarrow> bool" where
  "is_race g e \<longleftrightarrow>
     (\<exists>wp rp. om_get (proc_map g) (rc_writer e) = Some wp \<and> om_get (proc_map g) (rc_reader e) = Some rp
        \<and> rc_overlap e = min (pr_end wp) (pr_end rp) - max (pr_start wp) (pr_start rp))
     \<and> 0 < rc_overlap e
     \<and> rc_writer e \<in> set (writers_of g (rc_file e)) \<and> rc_reader e \<in> set (readers_of g (rc_file e))
     \<and> (rc_writer e, rc_reader e) \<notin> (child_rel g)\<^sup>* \<and> (rc_reader e, rc_writer e) \<notin> (child_rel g)\<^sup>*"

lemma overlap_min_max: "overlap_us wp rp = min (pr_end wp) (pr_end rp) - max (pr_start wp) (pr_start rp)"
  by (auto simp: overlap_us_def Let_def)

lemma race_of_iff:
  assumes f: "forest g" and w: "dfs_walk g = Some tms" and wp: "om_get (proc_map g) w = Some wp"
  shows "race_of g tms file w wp r = Some e \<longleftrightarrow>
    (\<exists>rp. om_get (proc_map g) r = Some rp \<and> 0 < overlap_us wp rp
       \<and> (w, r) \<notin> (child_rel g)\<^sup>* \<and> (r, w) \<notin> (child_rel g)\<^sup>*
       \<and> e = \<lparr>rc_file = file, rc_writer = w, rc_reader = r, rc_overlap = overlap_us wp rp\<rparr>)"
proof (cases "om_get (proc_map g) r")
  case (Some rp)
  with ancestor_test_exact [OF f w, of w r] wp
  have "is_ancestor tms w r \<longleftrightarrow> (w, r) \<in> (child_rel g)\<^sup>* \<or> (r, w) \<in> (child_rel g)\<^sup>*" by simp
  with Some show ?thesis by (auto simp: race_of_def)
qed (auto simp: race_of_def)

lemma map_filter_mem: "e \<in> set (List.map_filter h xs) \<longleftrightarrow> (\<exists>x \<in> set xs. h x = Some e)"
  by (induction xs) (auto simp: map_filter_simps split: option.split)

lemma file_races_mem:
  "e \<in> set (file_races g tms f readers) \<longleftrightarrow>
     (\<exists>p \<in> set (writers_of g f). \<exists>wp. om_get (proc_map g) p = Some wp
        \<and> (\<exists>q \<in> set readers. race_of g tms f p wp q = Some e))"
proof -
  show ?thesis
  proof (cases "om_get (file_to_writers g) f")
    case None
    then show ?thesis by (simp add: file_races_def writers_of_def)
  next
    case (Some ws)
    then show ?thesis by (simp add: file_races_def writers_of_def map_filter_mem) metis
  qed
qed

lemma file_races_iff:
  assumes "forest g" and "dfs_walk g = Some tms" and r: "readers_of g f = readers"
  shows "e \<in> set (file_races g tms f readers) \<longleftrightarrow> rc_file e = f \<and> is_race g e"
  unfolding file_races_mem
proof
  assume "\<exists>p \<in> set (writers_of g f). \<exists>wp. om_get (proc_map g) p = Some wp
        \<and> (\<exists>q \<in> set readers. race_of g tms f p wp q = Some e)"
  then obtain p wp q where pq: "p \<in> set (writers_of g f)" "q \<in> set (readers_of g f)"
    and wp: "om_get (proc_map g) p = Some wp" and e: "race_of g tms f p wp q = Some e"
    unfolding r by blast
  obtain rp where "om_get (proc_map g) q = Some rp" "0 < overlap_us wp rp"
    "(p, q) \<notin> (child_rel g)\<^sup>*" "(q, p) \<notin> (child_rel g)\<^sup>*"
    "e = \<lparr>rc_file = f, rc_writer = p, rc_reader = q, rc_overlap = overlap_us wp rp\<rparr>"
    using e unfolding race_of_iff [OF assms(1,2) wp] by blast
  with pq wp show "rc_file e = f \<and> is_race g e" by (simp add: is_race_def overlap_min_max)
next
  assume e: "rc_file e = f \<and> is_race g e"
  then obtain wp rp where wp: "om_get (proc_map g) (rc_writer e) = Some wp"
    and rp: "om_get (proc_map g) (rc_reader e) = Some rp" and ov: "rc_overlap e = overlap_us wp rp"
    unfolding is_race_def overlap_min_max by blast
  have "race_of g tms f (rc_writer e) wp (rc_reader e) = Some e"
    unfolding race_of_iff [OF assms(1,2) wp] using e rp ov by (cases e) (simp add: is_race_def)
  moreover have "rc_writer e \<in> set (writers_of g f)" "rc_reader e \<in> set readers"
    using e unfolding r [symmetric] is_race_def by blast+
  ultimately show "\<exists>p \<in> set (writers_of g f). \<exists>wp. om_get (proc_map g) p = Some wp
        \<and> (\<exists>q \<in> set readers. race_of g tms f p wp q = Some e)"
    using wp by blast
qed

lemma races_complete:
  assumes "forest g" and "om_inv (file_to_readers g)"
  shows "\<exists>result. detect_races g clock 0 = Some (True, result) \<and> set result = {e. is_race g e}"
proof -
  obtain tms where w: "dfs_walk g = Some tms" using dfs_walk_exact [OF assms(1)] by blast
  let ?result = "concat (map (\<lambda>(f, rs). file_races g tms f rs) (file_to_readers g))"
  have here: "e \<in> set (file_races g tms f rs) \<longleftrightarrow> rc_file e = f \<and> is_race g e"
    if "(f, rs) \<in> set (file_to_readers g)" for e f rs
  proof (rule file_races_iff [OF assms(1) w])
    have "om_get (file_to_readers g) f = Some rs" using that om_get_iff [OF assms(2)] by blast
    then show "readers_of g f = rs" by (simp add: readers_of_def)
  qed
  have row: "\<exists>rs. (rc_file e, rs) \<in> set (file_to_readers g)" if "is_race g e" for e
  proof (cases "om_get (file_to_readers g) (rc_file e)")
    case None
    with that show ?thesis by (simp add: is_race_def readers_of_def)
  next
    case (Some rs)
    then show ?thesis using om_get_SomeD by fast
  qed
  have "e \<in> set ?result \<longleftrightarrow> (\<exists>f rs. (f, rs) \<in> set (file_to_readers g) \<and> e \<in> set (file_races g tms f rs))" for e
    by auto
  then have "e \<in> set ?result \<longleftrightarrow> is_race g e" for e
    using here row by metis
  then have "set ?result = {e. is_race g e}" by blast
  moreover have "detect_races g clock 0 = Some (True, ?result)"
    by (simp add: detect_races_def w races_loop_all)
  ultimately show ?thesis by blast
qed

text \<open>
  Race detection is exact. On a process forest the walk ends, and without a deadline the
  answer is complete and holds exactly the races: a writer and a reader of one file that both
  have rows, whose times overlap by a positive amount (the amount reported), and of which
  neither is the other or descends from it. The constant-time interval test is thus right.
\<close>

theorem detect_races_exact:
  assumes "forest g" and "om_inv (file_to_readers g)"
  shows "\<exists>result. detect_races g clock 0 = Some (True, result) \<and> set result = {e. is_race g e}"
  by (rule races_complete [OF assms])


text \<open>Three children of one shell, two of which overlap on the file \<open>a\<close>.\<close>

definition example_row :: "int \<Rightarrow> int \<Rightarrow> int \<Rightarrow> int \<Rightarrow> ProcessRecord" where
  "example_row p pp s e = ProcessRecord_default\<lparr>pr_pid := p, pr_ppid := pp, pr_start := s, pr_end := e\<rparr>"

definition race_example :: dep_graph where
  "race_example =
     \<lparr>file_to_readers = [(''a'', [3, 4])], pid_to_outputs = [(1, [''a'']), (2, [''a''])],
      file_to_writers = [(''a'', [1, 2])],
      proc_map = [(1, example_row 1 0 0 100), (2, example_row 2 1 10 30), (3, example_row 3 1 20 40),
        (4, example_row 4 1 50 60)],
      pid_children = [(0, [1]), (1, [2, 3, 4])]\<rparr>"

lemma race_example_children:
  "children_of race_example p = (if p = 0 then [1] else if p = 1 then [2, 3, 4] else [])"
  by (simp add: race_example_def children_of_def om_get_def)

lemma race_example_rows:
  "om_get (proc_map race_example) q =
     (if q = 1 then Some (example_row 1 0 0 100) else if q = 2 then Some (example_row 2 1 10 30)
      else if q = 3 then Some (example_row 3 1 20 40) else if q = 4 then Some (example_row 4 1 50 60) else None)"
  by (simp add: race_example_def om_get_def)

lemma race_example_forest: "forest race_example"
  unfolding forest_def
proof (intro conjI allI)
  show "om_inv (proc_map race_example)" by (simp add: race_example_def om_inv_def)
  show "distinct (children_of race_example p)" for p by (simp add: race_example_children)
  show "q \<in> set (children_of race_example p) \<longleftrightarrow>
      (\<exists>r. om_get (proc_map race_example) q = Some r \<and> pr_ppid r = p)" for p q
    by (auto simp: race_example_children race_example_rows example_row_def)
  show "\<exists>h :: int \<Rightarrow> nat. \<forall>p q. q \<in> set (children_of race_example p) \<longrightarrow> h p < h q"
    by (rule exI [of _ nat]) (auto simp: race_example_children split: if_splits)
qed

theorem detect_races_exact_witness:
  "\<exists>result. detect_races race_example (\<lambda>i. 0) 0 = Some (True, result) \<and>
     \<lparr>rc_file = ''a'', rc_writer = 2, rc_reader = 3, rc_overlap = 10\<rparr> \<in> set result"
proof -
  let ?e = "\<lparr>rc_file = ''a'', rc_writer = 2, rc_reader = 3, rc_overlap = 10\<rparr>"
  have inv: "om_inv (file_to_readers race_example)" by (simp add: race_example_def om_inv_def)
  have leaf: "x = y" if "(x, y) \<in> (child_rel race_example)\<^sup>*" "x \<noteq> 0" "x \<noteq> 1" for x y
    using that by (cases rule: converse_rtranclE) (simp_all add: race_example_children)
  have "2 \<in> set (writers_of race_example ''a'')" "3 \<in> set (readers_of race_example ''a'')"
    by (simp_all add: race_example_def writers_of_def readers_of_def om_get_def)
  moreover have "(2, 3) \<notin> (child_rel race_example)\<^sup>*" "(3, 2) \<notin> (child_rel race_example)\<^sup>*"
    using leaf [of 2 3] leaf [of 3 2] by auto
  ultimately have "is_race race_example ?e"
    by (simp add: is_race_def race_example_rows example_row_def)
  with detect_races_exact [OF race_example_forest inv, of "\<lambda>i. 0"] show ?thesis by blast
qed

end
