(* ===== verification/Commands.thy ===== *)
theory Commands
  imports Prelude
begin

text \<open>
  How the views name a process: \<open>cmd_name\<close>, \<open>cmd_name_full\<close> and their helpers of
  \<open>common/view_helpers.cpp\<close>, and \<open>split\<close> and \<open>trim\<close> of \<open>common/string_util.cpp\<close>. A position in the
  rest of the command line is the suffix from that position on; a loop over positions is a
  function of the suffix.
\<close>

section \<open>Strings\<close>

text \<open>The loop of \<open>split\<close>: \<open>cur\<close> is the piece being collected.\<close>

fun split_loop :: "char \<Rightarrow> string \<Rightarrow> string \<Rightarrow> string list" where
  "split_loop delim cur [] = [cur]"
| "split_loop delim cur (c # s) =
     (if c = delim then cur # split_loop delim [] s else split_loop delim (cur @ [c]) s)"

definition split_str :: "string \<Rightarrow> char \<Rightarrow> string list" where
  "split_str s delim = split_loop delim [] s"

definition is_blank :: "char \<Rightarrow> bool" where
  "is_blank c \<longleftrightarrow> c \<in> {CHR '' '', CHR 0x09, CHR 0x0A, CHR 0x0D}"

definition trim :: "string \<Rightarrow> string" where
  "trim s = rev (dropWhile is_blank (rev (dropWhile is_blank s)))"

definition basename_of :: "string \<Rightarrow> string" where
  "basename_of path = after_last CHR ''/'' path"

definition shorten_cmd :: "string \<Rightarrow> nat \<Rightarrow> string" where
  "shorten_cmd cmdline max_len =
    (if length cmdline \<le> max_len then cmdline
     else if max_len \<le> 3 then take max_len cmdline
     else take (max_len - 3) cmdline @ ''...'')"

definition resolve_path :: "string \<Rightarrow> string \<Rightarrow> string" where
  "resolve_path path cwd =
    (if path = [] then path
     else if hd path = CHR ''/'' then path
     else if cwd = [] then path
     else (if last cwd \<noteq> CHR ''/'' then cwd @ ''/'' else cwd) @ path)"

section \<open>Interpreters\<close>

definition is_interpreter :: "string \<Rightarrow> bool" where
  "is_interpreter name \<longleftrightarrow> name \<in> set
    [''perl'', ''python'', ''python2'', ''python3'', ''ruby'', ''wish'', ''tclsh'', ''lua'', ''node'',
     ''sh'', ''bash'', ''dash'', ''zsh'', ''ksh'', ''csh'', ''tcsh'', ''env'', ''awk'', ''gawk'', ''mawk'',
     ''nawk'', ''sed'', ''gsed'', ''m4'', ''gm4'', ''java'', ''groovy'', ''gradle'', ''cmake'', ''ctest'',
     ''php'']"

definition is_code_first_interpreter :: "string \<Rightarrow> bool" where
  "is_code_first_interpreter name \<longleftrightarrow> name \<in> set [''awk'', ''gawk'', ''mawk'', ''nawk'', ''sed'', ''gsed'']"

definition is_shell :: "string \<Rightarrow> bool" where
  "is_shell exe \<longleftrightarrow> exe \<in> set [''sh'', ''bash'', ''dash'', ''zsh'', ''ksh'', ''csh'', ''tcsh'']"

definition flag_has_arg :: "string \<Rightarrow> bool" where
  "flag_has_arg flag \<longleftrightarrow> flag \<in> set [''-I'', ''-m'', ''-M'', ''-x'', ''-W'', ''-X'', ''-o'', ''-O'']"

abbreviation token :: "string \<Rightarrow> string" where
  "token s \<equiv> before_char CHR '' '' s"

abbreviation skip_token :: "string \<Rightarrow> string" where
  "skip_token s \<equiv> from_char CHR '' '' s"

abbreviation skip_spaces :: "string \<Rightarrow> string" where
  "skip_spaces s \<equiv> skip_char CHR '' '' s"

lemma skip_spaces_le: "length (skip_spaces s) \<le> length s"
  by (rule length_dropWhile_le)

lemma skip_token_less: "t \<noteq> [] \<Longrightarrow> hd t \<noteq> CHR '' '' \<Longrightarrow> length (skip_token t) < length t"
  using length_dropWhile_le [of "\<lambda>c. c \<noteq> CHR '' ''" "tl t"] by (cases t) auto

lemma skip_token_after: "skip_spaces s = c # t \<Longrightarrow> length (skip_token (c # t)) < length s"
proof -
  assume s: "skip_spaces s = c # t"
  then have "c \<noteq> CHR '' ''" using hd_dropWhile [of "\<lambda>x. x = CHR '' ''" s] by auto
  then have "length (skip_token (c # t)) < length (c # t)" by (intro skip_token_less) simp_all
  with skip_spaces_le [of s] s show ?thesis by simp
qed

text \<open>\<open>env\<close>: options and assignments before the command.\<close>

function skip_env :: "string \<Rightarrow> string" where
  "skip_env s =
    (case skip_spaces s of
       [] \<Rightarrow> []
     | c # t \<Rightarrow>
        if c = CHR ''-'' then skip_env (skip_token (c # t))
        else if CHR ''='' \<in> set (token (c # t)) then skip_env (skip_token (c # t))
        else c # t)"
  by pat_completeness auto
termination
  by (relation "measure length") (rule wf_measure, (rule in_measure [THEN iffD2], erule skip_token_after)+)

text \<open>\<open>awk\<close> and \<open>sed\<close>: the file of a \<open>-f\<close> among the flags.\<close>

function script_flag :: "string \<Rightarrow> string option" where
  "script_flag s =
    (case skip_spaces s of
       [] \<Rightarrow> None
     | c # t \<Rightarrow>
        if c \<noteq> CHR ''-'' then None
        else if token (c # t) = ''-f''
        then (let v = skip_spaces (skip_token (c # t)) in if v = [] then None else Some (token v))
        else script_flag (skip_token (c # t)))"
  by pat_completeness auto
termination
  by (relation "measure length") (rule wf_measure, (rule in_measure [THEN iffD2], erule skip_token_after)+)

text \<open>Other interpreters: the flags before the script, \<open>None\<close> when a flag gives inline code.\<close>

function skip_flags :: "bool \<Rightarrow> string \<Rightarrow> string option" where
  "skip_flags shell s =
    (case skip_spaces s of
       [] \<Rightarrow> Some []
     | c # t \<Rightarrow>
        if c \<noteq> CHR ''-'' then Some (c # t)
        else
         let flag = token (c # t); u = skip_token (c # t) in
         if shell \<and> flag = ''-c'' then None
         else if \<not> shell \<and> (flag = ''-e'' \<or> flag = ''-c'') then None
         else if \<not> shell \<and> flag_has_arg flag then skip_flags shell (skip_token (skip_spaces u))
         else skip_flags shell u)"
  by pat_completeness auto
termination
proof (relation "measure (\<lambda>(shell, s). length s)")
  fix shell s c t flag u
  assume "skip_spaces s = c # t" "u = skip_token (c # t)"
  then have u: "length u < length s" using skip_token_after by blast
  then show "((shell, u), (shell, s)) \<in> measure (\<lambda>(shell, s). length s)" by simp
  have "length (skip_token (skip_spaces u)) \<le> length u"
    using length_dropWhile_le order_trans by blast
  with u show "((shell, skip_token (skip_spaces u)), (shell, s)) \<in> measure (\<lambda>(shell, s). length s)" by simp
qed simp

declare skip_env.simps [simp del] script_flag.simps [simp del] skip_flags.simps [simp del]

section \<open>Names\<close>

lemma skip_env_le: "length (skip_env s) \<le> length s"
proof (induction s rule: skip_env.induct)
  case (1 s)
  show ?case
  proof (cases "skip_spaces s")
    case (Cons c t)
    have more: "length (skip_env (skip_token (c # t))) \<le> length s"
      if "length (skip_env (skip_token (c # t))) \<le> length (skip_token (c # t))"
      using that skip_token_after [OF Cons] by linarith
    have stop: "length (c # t) \<le> length s" using skip_spaces_le [of s] unfolding Cons .
    show ?thesis
      using 1 [OF Cons] more stop by (subst skip_env.simps) (simp only: Cons list.case split: if_split, blast)
  next
    case Nil
    then show ?thesis by (subst skip_env.simps) (simp only: list.case list.size le0)
  qed
qed

abbreviation after_space :: "string \<Rightarrow> string" where
  "after_space cmdline \<equiv> tl (skip_token cmdline)"

lemma after_space_less: "CHR '' '' \<in> set s \<Longrightarrow> length (skip_env (after_space s)) < length s"
proof -
  assume "CHR '' '' \<in> set s"
  then have "0 < length s" by (cases s) simp_all
  moreover have "length (after_space s) = length (skip_token s) - 1" by (rule length_tl)
  moreover have "length (skip_token s) \<le> length s" by (rule length_dropWhile_le)
  ultimately show ?thesis using skip_env_le [of "after_space s"] by linarith
qed

definition or_exe :: "string \<Rightarrow> string \<Rightarrow> string" where
  "or_exe exe script = (let b = basename_of script in if b = [] then exe else b)"

function cmd_name :: "string \<Rightarrow> string" where
  "cmd_name cmdline =
    (let exe = basename_of (token cmdline) in
     if \<not> is_interpreter exe \<or> CHR '' '' \<notin> set cmdline then exe
     else
      let rest = after_space cmdline in
      if exe = ''env'' then (if skip_env rest \<noteq> [] then cmd_name (skip_env rest) else exe)
      else if is_code_first_interpreter exe
      then (case script_flag rest of None \<Rightarrow> exe | Some script \<Rightarrow> or_exe exe script)
      else (case skip_flags (is_shell exe) rest of
              None \<Rightarrow> exe
            | Some t \<Rightarrow> if t = [] then exe else or_exe exe (token t)))"
  by pat_completeness auto
termination by (relation "measure length") (simp_all add: after_space_less)

function script_token :: "string \<Rightarrow> string" where
  "script_token cmdline =
    (if CHR '' '' \<notin> set cmdline then []
     else
      let exe = basename_of (token cmdline) in
      if \<not> is_interpreter exe then []
      else
       let rest = after_space cmdline in
       if exe = ''env'' then (if skip_env rest \<noteq> [] then script_token (skip_env rest) else [])
       else if is_code_first_interpreter exe
       then (case script_flag rest of None \<Rightarrow> [] | Some script \<Rightarrow> script)
       else (case skip_flags (is_shell exe) rest of
               None \<Rightarrow> []
             | Some t \<Rightarrow> if t = [] then [] else token t))"
  by pat_completeness auto
termination by (relation "measure length") (simp_all add: after_space_less)

declare cmd_name.simps [simp del] script_token.simps [simp del]

definition cmd_name_full :: "string \<Rightarrow> string \<Rightarrow> string" where
  "cmd_name_full cmdline cwd =
    (let tok = script_token cmdline in if tok = [] then cmd_name cmdline else resolve_path tok cwd)"

section \<open>The two copies of the parser agree\<close>

text \<open>The executable a command line runs, behind any chain of \<open>env\<close>.\<close>

function run_exe :: "string \<Rightarrow> string" where
  "run_exe cmdline =
    (if basename_of (token cmdline) = ''env'' \<and> CHR '' '' \<in> set cmdline
        \<and> skip_env (after_space cmdline) \<noteq> []
     then run_exe (skip_env (after_space cmdline))
     else basename_of (token cmdline))"
  by pat_completeness auto
termination by (relation "measure length") (simp_all add: after_space_less)

declare run_exe.simps [simp del]

lemma basename_Nil [simp]: "basename_of [] = []"
  by (simp add: basename_of_def after_last_def)

lemma env_is_interpreter: "is_interpreter ''env''"
  by (simp add: is_interpreter_def)

lemma no_slash_basename: "CHR ''/'' \<notin> set (basename_of p)"
  by (simp add: basename_of_def)

text \<open>
  \<open>cmd_name\<close> and \<open>script_token\<close> parse the command line twice, in two copies of the same
  loops. They agree: the displayed name is the base name of the script token whenever there is
  one with a base name, and otherwise the executable that runs behind any chain of \<open>env\<close>.
\<close>

theorem cmd_name_script_token:
  "cmd_name cmdline =
     (let b = basename_of (script_token cmdline) in if b = [] then run_exe cmdline else b)"
proof (induction cmdline rule: cmd_name.induct)
  case (1 cmdline)
  let ?exe = "basename_of (token cmdline)" and ?rest = "after_space cmdline"
  show ?case
  proof (cases "is_interpreter ?exe \<and> CHR '' '' \<in> set cmdline")
    case False
    then show ?thesis
      using env_is_interpreter
      by (subst cmd_name.simps, subst script_token.simps, subst run_exe.simps) (auto simp: Let_def)
  next
    case True
    show ?thesis
    proof (cases "?exe = ''env''")
      case env: True
      show ?thesis
        using True env 1 [OF refl _ refl env]
        by (subst cmd_name.simps, subst script_token.simps, subst run_exe.simps) (simp add: Let_def)
    next
      case False
      with True show ?thesis
        by (subst cmd_name.simps, subst script_token.simps, subst run_exe.simps)
          (simp add: Let_def or_exe_def split: option.split)
    qed
  qed
qed

lemma run_exe_no_slash: "CHR ''/'' \<notin> set (run_exe cmdline)"
proof (induction cmdline rule: run_exe.induct)
  case (1 cmdline)
  then show ?case by (subst run_exe.simps) (simp add: no_slash_basename)
qed

text \<open>A resolved path is absolute when the working directory is.\<close>

lemma resolve_path_absolute:
  "path \<noteq> [] \<Longrightarrow> cwd \<noteq> [] \<Longrightarrow> hd cwd = CHR ''/'' \<Longrightarrow> hd (resolve_path path cwd) = CHR ''/''"
  by (simp add: resolve_path_def hd_append)

lemma shorten_cmd_length: "length (shorten_cmd s n) = min (length s) n"
  by (auto simp: shorten_cmd_def)

section \<open>Splitting and trimming\<close>

text \<open>The pieces joined again with the delimiter.\<close>

fun join_str :: "string list \<Rightarrow> char \<Rightarrow> string" where
  "join_str [] d = []"
| "join_str [p] d = p"
| "join_str (p # q # ps) d = p @ d # join_str (q # ps) d"

lemma split_loop_not_Nil: "split_loop d cur s \<noteq> []"
  by (induction d cur s rule: split_loop.induct) auto

lemma join_str_Cons: "ps \<noteq> [] \<Longrightarrow> join_str (p # ps) d = p @ d # join_str ps d"
  by (cases ps) auto

lemma join_split_loop: "join_str (split_loop d cur s) d = cur @ s"
  by (induction d cur s rule: split_loop.induct) (auto simp: join_str_Cons split_loop_not_Nil)

lemma split_loop_pieces: "d \<notin> set cur \<Longrightarrow> p \<in> set (split_loop d cur s) \<Longrightarrow> d \<notin> set p"
  by (induction d cur s rule: split_loop.induct) (auto split: if_splits)

lemma split_loop_append: "d \<notin> set p \<Longrightarrow> split_loop d cur (p @ s) = split_loop d (cur @ p) s"
  by (induction p arbitrary: cur) auto

lemma split_join: "ps \<noteq> [] \<Longrightarrow> (\<And>p. p \<in> set ps \<Longrightarrow> d \<notin> set p) \<Longrightarrow> split_str (join_str ps d) d = ps"
  unfolding split_str_def
proof (induction ps d rule: join_str.induct)
  case (2 p d)
  then show ?case using split_loop_append [of d p "[]" "[]"] by simp
next
  case (3 p q ps d)
  then show ?case by (simp add: split_loop_append)
qed simp

end
