(* ===== verification/Rebuild_Filter.thy ===== *)
theory Rebuild_Filter
  imports Races Commands
begin

text \<open>
  \<open>filter_rebuild_set\<close> of \<open>common/view_helpers.cpp\<close>: of the affected processes, those that are shown.
  Its two searches below a collapsed process are loops over a queue that do not mark what they
  have seen, hence partial functions; dereferencing \<open>proc_map.find(pid)\<close> without a row is
  undefined behaviour. Both are errors of the result.
\<close>

section \<open>The filter\<close>

datatype filter_error = Endless | No_row

record RebuildResult =
  rr_processes :: "ProcessRecord list"
  rr_total :: int
  rr_collapsed :: "(int, int list) omap"

definition cmp_start_time :: "ProcessRecord \<Rightarrow> ProcessRecord \<Rightarrow> bool" where
  "cmp_start_time a b \<longleftrightarrow> pr_start a < pr_start b"

definition collapsed_pids :: "dep_graph \<Rightarrow> string oset \<Rightarrow> int oset" where
  "collapsed_pids g names =
     fold (\<lambda>(p, r) acc. if cmd_name (pr_cmdline r) \<in> set names then os_ins p acc else acc) (proc_map g) []"

type_synonym hide_state = "int oset \<times> (int, int list) omap"

definition hide_child :: "int oset \<Rightarrow> int \<Rightarrow> int \<Rightarrow> hide_state \<Rightarrow> hide_state" where
  "hide_child affected c child s =
    (if child \<in> set affected
     then (os_ins child (fst s), om_upd [] (\<lambda>cs. cs @ [child]) c (snd s))
     else s)"

partial_function (option) hide_loop :: "dep_graph \<Rightarrow> int oset \<Rightarrow> int \<Rightarrow> int list \<Rightarrow> hide_state \<Rightarrow> hide_state option" where
  "hide_loop g affected c dq s =
    (case dq of
       [] \<Rightarrow> Some s
     | p # dq' \<Rightarrow> hide_loop g affected c (dq' @ children_of g p) (fold (hide_child affected c) (children_of g p) s))"

fun hide_all :: "dep_graph \<Rightarrow> int oset \<Rightarrow> int list \<Rightarrow> hide_state \<Rightarrow> hide_state option" where
  "hide_all g affected [] s = Some s"
| "hide_all g affected (c # cs) s =
     (case hide_loop g affected c [c] s of None \<Rightarrow> None | Some s' \<Rightarrow> hide_all g affected cs s')"

definition has_outputs :: "dep_graph \<Rightarrow> int \<Rightarrow> bool" where
  "has_outputs g p \<longleftrightarrow> om_get (pid_to_outputs g) p \<noteq> None"

definition note_output_child :: "dep_graph \<Rightarrow> int oset \<Rightarrow> int \<Rightarrow> int oset \<Rightarrow> int oset" where
  "note_output_child g affected p acc =
    (if \<not> has_outputs g p then acc
     else case om_get (proc_map g) p of
       None \<Rightarrow> acc
     | Some r \<Rightarrow>
        if pr_ppid r \<in> set affected \<and> has_outputs g (pr_ppid r) then os_ins (pr_ppid r) acc else acc)"

definition has_output_child :: "dep_graph \<Rightarrow> int oset \<Rightarrow> int oset" where
  "has_output_child g affected = fold (note_output_child g affected) affected []"

partial_function (option) hidden_below :: "dep_graph \<Rightarrow> int oset \<Rightarrow> int list \<Rightarrow> bool option" where
  "hidden_below g hidden dq =
    (case dq of
       [] \<Rightarrow> Some False
     | p # dq' \<Rightarrow>
        if list_ex (\<lambda>ch. ch \<in> set hidden) (children_of g p) then Some True
        else hidden_below g hidden (dq' @ children_of g p))"

fun with_descendants :: "dep_graph \<Rightarrow> int oset \<Rightarrow> int oset \<Rightarrow> int list \<Rightarrow> int oset \<Rightarrow> int oset option" where
  "with_descendants g affected hidden [] acc = Some acc"
| "with_descendants g affected hidden (c # cs) acc =
     (case hidden_below g hidden [c] of
        None \<Rightarrow> None
      | Some below \<Rightarrow>
         with_descendants g affected hidden cs (if below \<or> c \<in> set affected then os_ins c acc else acc))"

fun push_rows :: "dep_graph \<Rightarrow> int list \<Rightarrow> ProcessRecord list \<Rightarrow> ProcessRecord list option" where
  "push_rows g [] out = Some out"
| "push_rows g (p # ps) out =
     (case om_get (proc_map g) p of None \<Rightarrow> None | Some r \<Rightarrow> push_rows g ps (out @ [r]))"

definition shown_leaves :: "dep_graph \<Rightarrow> int oset \<Rightarrow> int oset \<Rightarrow> int oset \<Rightarrow> int list" where
  "shown_leaves g affected hidden collapsed =
     filter (\<lambda>p. p \<notin> set hidden \<and> p \<notin> set collapsed \<and> has_outputs g p \<and> p \<notin> set (has_output_child g affected))
       affected"

definition filter_rebuild_set :: "dep_graph \<Rightarrow> int oset \<Rightarrow> string oset \<Rightarrow> filter_error + RebuildResult" where
  "filter_rebuild_set g affected collapse_names =
    (let collapsed = collapsed_pids g collapse_names in
     case hide_all g affected collapsed ([], []) of
       None \<Rightarrow> Inl Endless
     | Some (hidden, children_map) \<Rightarrow>
        (case with_descendants g affected hidden collapsed [] of
           None \<Rightarrow> Inl Endless
         | Some promoted \<Rightarrow>
            (case push_rows g (shown_leaves g affected hidden collapsed
                     @ filter (\<lambda>c. c \<notin> set hidden) promoted) [] of
               None \<Rightarrow> Inl No_row
             | Some ps \<Rightarrow>
                Inr \<lparr>rr_processes = std_sort cmp_start_time ps, rr_total = int (length affected),
                     rr_collapsed = children_map\<rparr>)))"

section \<open>The searches end on a forest\<close>

abbreviation below :: "dep_graph \<Rightarrow> int \<Rightarrow> int set" where
  "below g p \<equiv> (child_rel g)\<^sup>+ `` {p}"

lemma below_unfold: "below g p = set (children_of g p) \<union> (\<Union>c \<in> set (children_of g p). below g c)"
proof (intro set_eqI iffI)
  fix x
  assume "x \<in> below g p"
  then have "(p, x) \<in> (child_rel g)\<^sup>+" by blast
  then show "x \<in> set (children_of g p) \<union> (\<Union>c \<in> set (children_of g p). below g c)"
    by (cases rule: converse_tranclE) auto
next
  fix x
  assume "x \<in> set (children_of g p) \<union> (\<Union>c \<in> set (children_of g p). below g c)"
  then consider "(p, x) \<in> child_rel g" | c where "(p, c) \<in> child_rel g" "(c, x) \<in> (child_rel g)\<^sup>+"
    by auto
  then have "(p, x) \<in> (child_rel g)\<^sup>+" by cases (blast intro: trancl_into_trancl2)+
  then show "x \<in> below g p" by blast
qed

text \<open>The queue gets smaller in the multiset order: a process is replaced by its children.\<close>

lemma queue_wf: "forest g \<Longrightarrow> wf (inv_image (mult1 ((child_rel g)\<inverse>)) mset)"
  by (intro wf_inv_image wf_mult1 forest_wf)

lemma queue_step: "(dq @ children_of g p, p # dq) \<in> inv_image (mult1 ((child_rel g)\<inverse>)) mset"
  by (auto simp: in_inv_image intro!: mult1I)

definition kids_of :: "(int, int list) omap \<Rightarrow> int \<Rightarrow> int set" where
  "kids_of m c = (case om_get m c of None \<Rightarrow> {} | Some cs \<Rightarrow> set cs)"

lemma fold_hide_child:
  "set (fst (fold (hide_child affected c) cs s)) = set (fst s) \<union> (set cs \<inter> set affected)"
  "kids_of (snd (fold (hide_child affected c) cs s)) d =
     kids_of (snd s) d \<union> (if d = c then set cs \<inter> set affected else {})"
  by (induction cs arbitrary: s) (auto simp: hide_child_def kids_of_def om_get_upd split: option.splits if_splits)

lemma hide_loop_exact:
  assumes f: "forest g"
  shows "\<exists>s'. hide_loop g affected c dq s = Some s'
    \<and> set (fst s') = set (fst s) \<union> ((\<Union>p \<in> set dq. below g p) \<inter> set affected)
    \<and> (\<forall>d. kids_of (snd s') d = kids_of (snd s) d \<union> (if d = c then (\<Union>p \<in> set dq. below g p) \<inter> set affected else {}))"
proof (induction dq arbitrary: s rule: wf_induct_rule [OF queue_wf [OF f]])
  case (1 dq)
  show ?case
  proof (cases dq)
    case Nil
    then show ?thesis by (subst hide_loop.simps) simp
  next
    case (Cons p dq')
    let ?s = "fold (hide_child affected c) (children_of g p) s"
    have step: "hide_loop g affected c dq s = hide_loop g affected c (dq' @ children_of g p) ?s"
      unfolding Cons by (subst hide_loop.simps) simp
    have un: "(\<Union>p \<in> set dq. below g p) =
        set (children_of g p) \<union> (\<Union>q \<in> set (dq' @ children_of g p). below g q)"
      unfolding Cons using below_unfold [of g p] by auto
    obtain s' where "hide_loop g affected c (dq' @ children_of g p) ?s = Some s'"
      "set (fst s') = set (fst ?s) \<union> ((\<Union>q \<in> set (dq' @ children_of g p). below g q) \<inter> set affected)"
      "\<And>d. kids_of (snd s') d = kids_of (snd ?s) d
         \<union> (if d = c then (\<Union>q \<in> set (dq' @ children_of g p). below g q) \<inter> set affected else {})"
      using 1 [of "dq' @ children_of g p" ?s] queue_step [of dq' g p] unfolding Cons by blast
    then show ?thesis
      unfolding step un by (intro exI [of _ s']) (auto simp only: fold_hide_child split: if_splits)
  qed
qed

lemma hidden_below_exact:
  assumes f: "forest g"
  shows "hidden_below g hidden dq = Some ((\<Union>p \<in> set dq. below g p) \<inter> set hidden \<noteq> {})"
proof (induction dq rule: wf_induct_rule [OF queue_wf [OF f]])
  case (1 dq)
  show ?case
  proof (cases dq)
    case Nil
    then show ?thesis by (subst hidden_below.simps) simp
  next
    case (Cons p dq')
    have un: "(\<Union>p \<in> set dq. below g p) =
        set (children_of g p) \<union> (\<Union>q \<in> set (dq' @ children_of g p). below g q)"
      unfolding Cons using below_unfold [of g p] by auto
    have IH: "hidden_below g hidden (dq' @ children_of g p) =
        Some ((\<Union>q \<in> set (dq' @ children_of g p). below g q) \<inter> set hidden \<noteq> {})"
      using 1 [of "dq' @ children_of g p"] queue_step [of dq' g p] unfolding Cons by blast
    have "hidden_below g hidden dq =
        (if set (children_of g p) \<inter> set hidden \<noteq> {} then Some True
         else hidden_below g hidden (dq' @ children_of g p))"
      unfolding Cons by (subst hidden_below.simps) (auto simp: list_ex_iff)
    then show ?thesis unfolding IH un by (auto simp only: Int_Un_distrib2 split: if_splits)
  qed
qed

lemma hide_all_exact:
  assumes f: "forest g"
  shows "\<exists>s'. hide_all g affected cs s = Some s'
    \<and> set (fst s') = set (fst s) \<union> ((\<Union>c \<in> set cs. below g c) \<inter> set affected)
    \<and> (\<forall>d. kids_of (snd s') d = kids_of (snd s) d \<union> (if d \<in> set cs then below g d \<inter> set affected else {}))"
proof (induction cs arbitrary: s)
  case (Cons c cs)
  obtain s1 where s1: "hide_loop g affected c [c] s = Some s1"
    "set (fst s1) = set (fst s) \<union> (below g c \<inter> set affected)"
    "\<And>d. kids_of (snd s1) d = kids_of (snd s) d \<union> (if d = c then below g c \<inter> set affected else {})"
    using hide_loop_exact [OF f, of affected c "[c]" s] by auto
  obtain s' where "hide_all g affected cs s1 = Some s'"
    "set (fst s') = set (fst s1) \<union> ((\<Union>c \<in> set cs. below g c) \<inter> set affected)"
    "\<And>d. kids_of (snd s') d = kids_of (snd s1) d \<union> (if d \<in> set cs then below g d \<inter> set affected else {})"
    using Cons.IH [of s1] by blast
  with s1 show ?case by (intro exI [of _ s']) (auto split: if_splits)
qed simp

lemma with_descendants_exact:
  assumes f: "forest g"
  shows "\<exists>acc'. with_descendants g affected hidden cs acc = Some acc'
    \<and> set acc' = set acc \<union> {c \<in> set cs. below g c \<inter> set hidden \<noteq> {} \<or> c \<in> set affected}"
proof (induction cs arbitrary: acc)
  case (Cons c cs)
  have "hidden_below g hidden [c] = Some (below g c \<inter> set hidden \<noteq> {})"
    using hidden_below_exact [OF f, of hidden "[c]"] by simp
  with Cons.IH show ?case by (fastforce split: if_splits)
qed simp

lemma push_rows_some:
  "(\<And>p. p \<in> set ps \<Longrightarrow> om_get (proc_map g) p \<noteq> None) \<Longrightarrow>
     \<exists>rs. push_rows g ps out = Some (out @ rs) \<and> set rs = {r. \<exists>p \<in> set ps. om_get (proc_map g) p = Some r}"
proof (induction ps arbitrary: out)
  case (Cons p ps)
  then obtain r where r: "om_get (proc_map g) p = Some r" by fastforce
  obtain rs where "push_rows g ps (out @ [r]) = Some ((out @ [r]) @ rs)"
    "set rs = {r. \<exists>p \<in> set ps. om_get (proc_map g) p = Some r}"
    using Cons.IH [of "out @ [r]"] Cons.prems by auto
  with r show ?case by (intro exI [of _ "r # rs"]) auto
qed simp

lemma collapsed_pids_set:
  assumes "om_inv (proc_map g)"
  shows "set (collapsed_pids g names) = {p. \<exists>r. om_get (proc_map g) p = Some r \<and> cmd_name (pr_cmdline r) \<in> set names}"
proof -
  have "set (fold (\<lambda>(p, r) acc. if cmd_name (pr_cmdline r) \<in> set names then os_ins p acc else acc) m acc) =
      set acc \<union> {p. \<exists>r. (p, r) \<in> set m \<and> cmd_name (pr_cmdline r) \<in> set names}"
    for m :: "(int, ProcessRecord) omap" and acc
    by (induction m arbitrary: acc) (auto split: if_splits)
  then show ?thesis by (simp add: collapsed_pids_def om_get_iff [OF assms])
qed

lemma has_output_child_set:
  "set (has_output_child g affected) =
     {pr_ppid r | p r. p \<in> set affected \<and> has_outputs g p \<and> om_get (proc_map g) p = Some r
        \<and> pr_ppid r \<in> set affected \<and> has_outputs g (pr_ppid r)}"
proof -
  have "set (fold (note_output_child g affected) ps acc) = set acc \<union>
     {pr_ppid r | p r. p \<in> set ps \<and> has_outputs g p \<and> om_get (proc_map g) p = Some r
        \<and> pr_ppid r \<in> set affected \<and> has_outputs g (pr_ppid r)}" for ps acc
    by (induction ps arbitrary: acc) (auto simp: note_output_child_def split: option.splits if_splits)
  then show ?thesis by (simp add: has_output_child_def)
qed

section \<open>What is shown\<close>

text \<open>The collapsed processes, the affected ones they hide, and the choice of the ones to show.\<close>

definition collapses :: "dep_graph \<Rightarrow> string oset \<Rightarrow> int \<Rightarrow> bool" where
  "collapses g names p \<longleftrightarrow> (\<exists>r. om_get (proc_map g) p = Some r \<and> cmd_name (pr_cmdline r) \<in> set names)"

definition hides :: "dep_graph \<Rightarrow> int oset \<Rightarrow> string oset \<Rightarrow> int \<Rightarrow> bool" where
  "hides g affected names p \<longleftrightarrow>
     p \<in> set affected \<and> (\<exists>c. collapses g names c \<and> (c, p) \<in> (child_rel g)\<^sup>+)"

definition shown :: "dep_graph \<Rightarrow> int oset \<Rightarrow> string oset \<Rightarrow> int \<Rightarrow> bool" where
  "shown g affected names p \<longleftrightarrow> \<not> hides g affected names p \<and>
     (if collapses g names p then \<exists>x \<in> set affected. (p, x) \<in> (child_rel g)\<^sup>*
      else p \<in> set affected \<and> has_outputs g p
        \<and> \<not> (\<exists>q \<in> set affected. q \<in> set (children_of g p) \<and> has_outputs g q))"

lemma filter_rebuild_shown:
  assumes f: "forest g"
    and rows: "\<And>p. p \<in> set affected \<Longrightarrow> has_outputs g p \<Longrightarrow> om_get (proc_map g) p \<noteq> None"
  shows "\<exists>res. filter_rebuild_set g affected names = Inr res
    \<and> set (rr_processes res) = {r. \<exists>p. om_get (proc_map g) p = Some r \<and> shown g affected names p}
    \<and> sorted_wrt (\<lambda>a b. pr_start a \<le> pr_start b) (rr_processes res)
    \<and> rr_total res = int (length affected)
    \<and> (\<forall>c. kids_of (rr_collapsed res) c = (if collapses g names c then below g c \<inter> set affected else {}))"
proof -
  have inv: "om_inv (proc_map g)" using f by (simp add: forest_def)
  have col: "p \<in> set (collapsed_pids g names) \<longleftrightarrow> collapses g names p" for p
    by (simp add: collapsed_pids_set [OF inv] collapses_def)
  obtain hidden cm where hidden: "hide_all g affected (collapsed_pids g names) ([], []) = Some (hidden, cm)"
    "set hidden = (\<Union>c \<in> set (collapsed_pids g names). below g c) \<inter> set affected"
    and kids: "\<And>d. kids_of cm d = (if d \<in> set (collapsed_pids g names) then below g d \<inter> set affected else {})"
    using hide_all_exact [OF f, of affected "collapsed_pids g names" "([], [])"]
    by (auto simp: kids_of_def)
  have hid: "p \<in> set hidden \<longleftrightarrow> hides g affected names p" for p
    by (auto simp: hidden(2) col hides_def)
  obtain promoted where promoted: "with_descendants g affected hidden (collapsed_pids g names) [] = Some promoted"
    "set promoted = {c \<in> set (collapsed_pids g names). below g c \<inter> set hidden \<noteq> {} \<or> c \<in> set affected}"
    using with_descendants_exact [OF f, of affected hidden "collapsed_pids g names" "[]"] by auto
  have prom: "c \<in> set promoted \<longleftrightarrow> collapses g names c \<and> (\<exists>x \<in> set affected. (c, x) \<in> (child_rel g)\<^sup>*)" for c
  proof (cases "collapses g names c")
    case True
    then have "below g c \<inter> set hidden = below g c \<inter> set affected" by (auto simp: hid hides_def)
    moreover have "(\<exists>x \<in> set affected. (c, x) \<in> (child_rel g)\<^sup>*) \<longleftrightarrow>
        below g c \<inter> set affected \<noteq> {} \<or> c \<in> set affected"
      by (auto simp: rtrancl_eq_or_trancl)
    ultimately show ?thesis using True by (simp only: promoted(2) mem_Collect_eq col)
  qed (simp add: promoted(2) col)
  let ?ps = "shown_leaves g affected hidden (collapsed_pids g names) @ filter (\<lambda>c. c \<notin> set hidden) promoted"
  have hoc: "p \<in> set (has_output_child g affected) \<longleftrightarrow>
      p \<in> set affected \<and> has_outputs g p \<and> (\<exists>q \<in> set affected. q \<in> set (children_of g p) \<and> has_outputs g q)" for p
    unfolding has_output_child_set using f by (auto simp: forest_row)
  have ps: "p \<in> set ?ps \<longleftrightarrow> shown g affected names p" for p
    by (auto simp: shown_leaves_def shown_def hid col prom hoc)
  have "om_get (proc_map g) p \<noteq> None" if "p \<in> set ?ps" for p
    using that rows col promoted(2) collapses_def by (fastforce simp: shown_leaves_def)
  then obtain rs where rs: "push_rows g ?ps [] = Some rs" "set rs = {r. \<exists>p \<in> set ?ps. om_get (proc_map g) p = Some r}"
    using push_rows_some [of ?ps g "[]"] by auto
  have res: "filter_rebuild_set g affected names = Inr \<lparr>rr_processes = std_sort cmp_start_time rs,
      rr_total = int (length affected), rr_collapsed = cm\<rparr>"
    by (simp add: filter_rebuild_set_def hidden(1) promoted(1) rs(1))
  have sorted: "sorted_wrt (\<lambda>a b. pr_start a \<le> pr_start b) (std_sort cmp_start_time rs)"
    using std_sort_sorted [OF weak_order_key [of pr_start], of rs]
    by (simp add: cmp_start_time_def [abs_def] not_less)
  show ?thesis unfolding res using sorted rs(2) ps kids col by auto
qed

section \<open>Nothing is lost\<close>

lemma topmost_collapsed:
  assumes f: "forest g" and "collapses g names c"
  shows "\<exists>d. collapses g names d \<and> (d, c) \<in> (child_rel g)\<^sup>* \<and> \<not> (\<exists>e. collapses g names e \<and> (e, d) \<in> (child_rel g)\<^sup>+)"
proof -
  obtain h :: "int \<Rightarrow> nat" where h: "\<And>p q. (p, q) \<in> (child_rel g)\<^sup>+ \<Longrightarrow> h p < h q"
    using forest_rank [OF f] by blast
  show ?thesis
    using assms(2)
  proof (induction "h c" arbitrary: c rule: less_induct)
    case less
    show ?case
    proof (cases "\<exists>e. collapses g names e \<and> (e, c) \<in> (child_rel g)\<^sup>+")
      case True
      then obtain e where e: "collapses g names e" "(e, c) \<in> (child_rel g)\<^sup>+" by blast
      then show ?thesis using less.hyps [OF h [OF e(2)] e(1)] by (meson rtrancl_trans trancl_into_rtrancl)
    next
      case False
      then show ?thesis using less.prems by blast
    qed
  qed
qed

lemma shown_near:
  assumes f: "forest g" and "p \<in> set affected" and "has_outputs g p"
  shows "\<exists>q. shown g affected names q \<and> ((p, q) \<in> (child_rel g)\<^sup>* \<or> (q, p) \<in> (child_rel g)\<^sup>*)"
  using assms(2,3)
proof (induction p rule: wf_induct_rule [OF forest_wf [OF f]])
  case (1 p)
  consider "hides g affected names p" | "\<not> hides g affected names p" "collapses g names p"
    | "\<not> hides g affected names p" "\<not> collapses g names p" by blast
  then show ?case
  proof cases
    case 1
    then obtain c where c: "collapses g names c" "(c, p) \<in> (child_rel g)\<^sup>+" by (auto simp: hides_def)
    obtain d where d: "collapses g names d" "(d, c) \<in> (child_rel g)\<^sup>*"
      "\<not> (\<exists>e. collapses g names e \<and> (e, d) \<in> (child_rel g)\<^sup>+)"
      using topmost_collapsed [OF f c(1)] by blast
    have "(d, p) \<in> (child_rel g)\<^sup>*" using c(2) d(2) by (meson rtrancl_trans trancl_into_rtrancl)
    moreover have "\<not> hides g affected names d" using d(3) by (auto simp: hides_def)
    ultimately show ?thesis using d(1) "1.prems"(1) unfolding shown_def by metis
  next
    case 2
    then show ?thesis using "1.prems"(1) unfolding shown_def by (metis rtrancl.rtrancl_refl)
  next
    case 3
    show ?thesis
    proof (cases "\<exists>q \<in> set affected. q \<in> set (children_of g p) \<and> has_outputs g q")
      case True
      then obtain q where q: "q \<in> set affected" "(p, q) \<in> child_rel g" "has_outputs g q" by auto
      then obtain s where s: "shown g affected names s" "(q, s) \<in> (child_rel g)\<^sup>* \<or> (s, q) \<in> (child_rel g)\<^sup>*"
        using "1.IH" [of q] by auto
      have "(p, s) \<in> (child_rel g)\<^sup>* \<or> (s, p) \<in> (child_rel g)\<^sup>*"
        using s(2)
      proof
        assume "(q, s) \<in> (child_rel g)\<^sup>*"
        with q(2) show ?thesis by (meson converse_rtrancl_into_rtrancl)
      next
        assume "(s, q) \<in> (child_rel g)\<^sup>*"
        then show ?thesis using forest_comparable [OF f, of s q p] q(2) by blast
      qed
      with s(1) show ?thesis by blast
    next
      case False
      then have "shown g affected names p" using 3 "1.prems" by (simp add: shown_def)
      then show ?thesis by blast
    qed
  qed
qed

section \<open>Properties\<close>

text \<open>
  The processes shown are exactly the ones the comments of the function promise. On a process
  forest, when every affected process with outputs has a row, both searches end and the result
  holds the rows of the processes that \<open>shown\<close> selects: no affected process below a collapsed
  one; a collapsed process exactly when something affected runs in it or below it; another
  process when it is affected, has outputs and no affected child with outputs. They are sorted by
  start time, the total counts all affected processes, and each collapsed process is mapped to
  exactly the affected processes below it.
\<close>

theorem filter_rebuild_exact:
  assumes "forest g" and "\<And>p. p \<in> set affected \<Longrightarrow> has_outputs g p \<Longrightarrow> om_get (proc_map g) p \<noteq> None"
  shows "\<exists>res. filter_rebuild_set g affected names = Inr res
    \<and> set (rr_processes res) = {r. \<exists>p. om_get (proc_map g) p = Some r \<and> shown g affected names p}
    \<and> sorted_wrt (\<lambda>a b. pr_start a \<le> pr_start b) (rr_processes res)
    \<and> rr_total res = int (length affected)
    \<and> (\<forall>c. kids_of (rr_collapsed res) c = (if collapses g names c then below g c \<inter> set affected else {}))"
  by (rule filter_rebuild_shown [OF assms])

lemma race_example_outputs: "has_outputs race_example p \<longleftrightarrow> p = 1 \<or> p = 2"
  by (simp add: has_outputs_def race_example_def om_get_def)

lemma race_example_no_collapse: "\<not> collapses race_example [] p"
  by (simp add: collapses_def)

theorem filter_rebuild_exact_witness:
  "\<exists>res. filter_rebuild_set race_example [1, 2, 3] [] = Inr res
     \<and> set (rr_processes res) = {example_row 2 1 10 30}"
proof -
  have "shown race_example [1, 2, 3] [] p \<longleftrightarrow> p = 2" for p
    by (auto simp: shown_def hides_def race_example_no_collapse race_example_outputs race_example_children)
  then have "{r. \<exists>p. om_get (proc_map race_example) p = Some r \<and> shown race_example [1, 2, 3] [] p} =
      {example_row 2 1 10 30}"
    by (simp add: race_example_rows)
  moreover have "om_get (proc_map race_example) p \<noteq> None" if "has_outputs race_example p" for p
    using that by (auto simp: race_example_outputs race_example_rows)
  ultimately show ?thesis
    using filter_rebuild_exact [OF race_example_forest, of "[1, 2, 3]" "[]"] by fastforce
qed



end
