(* ===== verification/Rdeps.thy ===== *)
theory Rdeps
  imports DepGraph
begin

text \<open>
  \<open>compute_rdeps\<close> of \<open>common/view_helpers.cpp\<close>: the tree of files that are made, directly or not,
  from a file. The two nested loops over the readers of a file and the outputs of each are one
  loop over the pairs; \<open>visited\<close> is shared by the whole recursion.
\<close>

section \<open>The tree\<close>

datatype RdepsNode = RdepsNode (rd_file: string) (rd_via: int) (rd_children: "RdepsNode list")

definition rdeps_edges :: "dep_graph \<Rightarrow> string \<Rightarrow> (int \<times> string) list" where
  "rdeps_edges g f = concat (map (\<lambda>r. map (Pair r) (outputs_of g r)) (readers_of g f))"

definition rdeps_step ::
  "(string \<Rightarrow> string oset \<Rightarrow> RdepsNode \<Rightarrow> RdepsNode \<times> string oset) \<Rightarrow> int \<times> string
     \<Rightarrow> RdepsNode \<times> string oset \<Rightarrow> RdepsNode \<times> string oset" where
  "rdeps_step recurse e s =
    (let node = fst s; visited = snd s in
     if snd e \<in> set visited then s
     else case recurse (snd e) (os_ins (snd e) visited) (RdepsNode '''' (fst e) []) of
       (child, visited') \<Rightarrow> (RdepsNode (rd_file node) (rd_via node) (rd_children node @ [child]), visited'))"

primrec compute_rdeps_recursive ::
  "dep_graph \<Rightarrow> nat \<Rightarrow> string \<Rightarrow> string oset \<Rightarrow> RdepsNode \<Rightarrow> RdepsNode \<times> string oset" where
  "compute_rdeps_recursive g 0 = (\<lambda>f visited node. (RdepsNode f 0 (rd_children node), visited))"
| "compute_rdeps_recursive g (Suc d) = (\<lambda>f visited node.
     fold (rdeps_step (compute_rdeps_recursive g d)) (rdeps_edges g f) (RdepsNode f 0 (rd_children node), visited))"

definition compute_rdeps :: "dep_graph \<Rightarrow> string \<Rightarrow> int \<Rightarrow> RdepsNode" where
  "compute_rdeps g f depth = fst (compute_rdeps_recursive g (nat depth) f (os_ins f []) (RdepsNode '''' 0 []))"

section \<open>What the tree holds\<close>

primrec rd_files :: "RdepsNode \<Rightarrow> string list" where
  "rd_files (RdepsNode f v cs) = f # concat (map rd_files cs)"

primrec rd_vias :: "RdepsNode \<Rightarrow> int list" where
  "rd_vias (RdepsNode f v cs) = v # concat (map rd_vias cs)"

primrec rd_sound :: "(string \<times> string) set \<Rightarrow> RdepsNode \<Rightarrow> bool" where
  "rd_sound R (RdepsNode f v cs) \<longleftrightarrow> (\<forall>c \<in> set cs. (f, rd_file c) \<in> R) \<and> list_all id (map (rd_sound R) cs)"

text \<open>One build step: some process reads the first file and writes the second.\<close>

definition made_from :: "dep_graph \<Rightarrow> (string \<times> string) set" where
  "made_from g = {(f, f'). \<exists>p. p \<in> set (readers_of g f) \<and> f' \<in> set (outputs_of g p)}"

lemma rdeps_edges_made: "snd ` set (rdeps_edges g f) = made_from g `` {f}"
  by (force simp: rdeps_edges_def made_from_def)

text \<open>
  A call for \<open>f\<close> with an empty list of children returns a tree for \<open>f\<close> whose other files are
  those it adds to \<open>visited\<close>, each once.
\<close>

definition call_ok :: "dep_graph \<Rightarrow> string \<Rightarrow> string oset \<Rightarrow> RdepsNode \<times> string oset \<Rightarrow> bool" where
  "call_ok g f visited s \<longleftrightarrow>
     rd_file (fst s) = f \<and> set visited \<subseteq> set (snd s)
     \<and> (\<exists>fs. rd_files (fst s) = f # fs \<and> distinct fs \<and> set fs = set (snd s) - set visited)
     \<and> set (rd_vias (fst s)) = {0} \<and> rd_sound (made_from g) (fst s)"

lemma rdeps_step_ok:
  assumes s: "call_ok g f visited s" and e: "(f, snd e) \<in> made_from g"
    and rec: "\<And>f' v via. call_ok g f' v (recurse f' v (RdepsNode '''' via []))"
  shows "call_ok g f visited (rdeps_step recurse e s)"
proof (cases "snd e \<in> set (snd s)")
  case True
  with s show ?thesis by (simp add: rdeps_step_def)
next
  case False
  obtain n v where sv: "s = (n, v)" by (cases s)
  obtain child v' where c: "recurse (snd e) (os_ins (snd e) v) (RdepsNode '''' (fst e) []) = (child, v')"
    by fastforce
  have ok: "call_ok g (snd e) (os_ins (snd e) v) (child, v')" using rec [of "snd e" "os_ins (snd e) v"] c by metis
  obtain cs where n: "n = RdepsNode f 0 cs"
    using s sv by (cases n) (auto simp: call_ok_def)
  obtain fs where fs: "rd_files n = f # fs" "distinct fs" "set fs = set v - set visited"
    using s sv by (auto simp: call_ok_def)
  obtain gs where gs: "rd_files child = snd e # gs" "distinct gs" "set gs = set v' - insert (snd e) (set v)"
    using ok by (auto simp: call_ok_def)
  have sub: "insert (snd e) (set v) \<subseteq> set v'" "set visited \<subseteq> set v" using ok s sv by (auto simp: call_ok_def)
  have "rd_files (RdepsNode f 0 (cs @ [child])) = f # (fs @ snd e # gs)" using fs(1) gs(1) n by simp
  moreover have "distinct (fs @ snd e # gs)" using fs gs False sv by auto
  moreover have "set (fs @ snd e # gs) = set v' - set visited" using fs gs sub False sv by auto
  moreover have "set (rd_vias (RdepsNode f 0 (cs @ [child]))) = {0}"
    using s ok n sv by (auto simp: call_ok_def)
  moreover have "rd_sound (made_from g) (RdepsNode f 0 (cs @ [child]))"
    using s ok n sv e by (auto simp: call_ok_def list_all_iff)
  moreover have "rdeps_step recurse e s = (RdepsNode f 0 (cs @ [child]), v')"
    using False sv n c by (simp add: rdeps_step_def Let_def)
  ultimately show ?thesis using sub unfolding call_ok_def by (intro conjI exI) auto
qed

lemma fold_rdeps_ok:
  assumes "call_ok g f visited s" and "snd ` set es \<subseteq> made_from g `` {f}"
    and "\<And>f' v via. call_ok g f' v (recurse f' v (RdepsNode '''' via []))"
  shows "call_ok g f visited (fold (rdeps_step recurse) es s)"
  using assms(1,2)
proof (induction es arbitrary: s)
  case (Cons e es)
  have "call_ok g f visited (rdeps_step recurse e s)"
    by (rule rdeps_step_ok) (use Cons.prems assms(3) in auto)
  with Cons show ?case by simp
qed simp

lemma call_ok_start: "call_ok g f visited (RdepsNode f 0 [], visited)"
  by (simp add: call_ok_def)

lemma recursive_ok: "call_ok g f visited (compute_rdeps_recursive g d f visited (RdepsNode '''' via []))"
proof (induction d arbitrary: f visited via)
  case 0
  then show ?case by (simp add: call_ok_start)
next
  case (Suc d)
  have "call_ok g f visited
      (fold (rdeps_step (compute_rdeps_recursive g d)) (rdeps_edges g f) (RdepsNode f 0 [], visited))"
    by (rule fold_rdeps_ok) (simp_all add: call_ok_start rdeps_edges_made Suc)
  then show ?case by simp
qed

section \<open>Enough depth\<close>

text \<open>
  Each level of the recursion adds a file to \<open>visited\<close>. With a depth of at least the number of
  files that are still unvisited, the closure is complete.
\<close>

definition closes :: "dep_graph \<Rightarrow> string set \<Rightarrow> string oset \<Rightarrow> string oset \<Rightarrow> bool" where
  "closes g S v v' \<longleftrightarrow> set v \<subseteq> set v' \<and> (\<forall>x \<in> S \<union> (set v' - set v). made_from g `` {x} \<subseteq> set v')"

lemma fold_rdeps_closes:
  assumes R: "finite R" "made_from g `` R \<subseteq> R" and v: "set v \<subseteq> R" "set (snd s) \<subseteq> R" "set v \<subseteq> set (snd s)"
    and es: "snd ` set es \<subseteq> R" and d: "card R \<le> Suc d + card (set (snd s))"
    and old: "\<forall>x \<in> set (snd s) - set v. made_from g `` {x} \<subseteq> set (snd s)"
    and rec: "\<And>f u via. f \<in> set u \<Longrightarrow> set u \<subseteq> R \<Longrightarrow> card R \<le> d + card (set u) \<Longrightarrow>
      set (snd (recurse f u (RdepsNode '''' via []))) \<subseteq> R
      \<and> closes g {f} u (snd (recurse f u (RdepsNode '''' via [])))"
  shows "set (snd (fold (rdeps_step recurse) es s)) \<subseteq> R
    \<and> set (snd s) \<union> snd ` set es \<subseteq> set (snd (fold (rdeps_step recurse) es s))
    \<and> (\<forall>x \<in> set (snd (fold (rdeps_step recurse) es s)) - set v.
         made_from g `` {x} \<subseteq> set (snd (fold (rdeps_step recurse) es s)))"
  using v(2,3) es d old
proof (induction es arbitrary: s)
  case (Cons e es)
  let ?s = "rdeps_step recurse e s"
  have step: "set (snd ?s) \<subseteq> R \<and> set (snd s) \<subseteq> set (snd ?s) \<and> snd e \<in> set (snd ?s)
      \<and> (\<forall>x \<in> set (snd ?s) - set v. made_from g `` {x} \<subseteq> set (snd ?s))"
  proof (cases "snd e \<in> set (snd s)")
    case True
    with Cons.prems show ?thesis by (simp add: rdeps_step_def Let_def)
  next
    case False
    let ?u = "os_ins (snd e) (snd s)" and ?r = "recurse (snd e) (os_ins (snd e) (snd s)) (RdepsNode '''' (fst e) [])"
    have s: "snd ?s = snd ?r" using False by (simp add: rdeps_step_def Let_def split_beta)
    have "card (set ?u) = Suc (card (set (snd s)))" using False by simp
    then have "set (snd ?r) \<subseteq> R \<and> closes g {snd e} ?u (snd ?r)"
      using Cons.prems by (intro rec) auto
    then show ?thesis unfolding s using Cons.prems(5) by (auto simp: closes_def) blast+
  qed
  have "card (set (snd s)) \<le> card (set (snd ?s))" using step by (simp add: card_mono)
  then have card: "card R \<le> Suc d + card (set (snd ?s))" using Cons.prems(4) by linarith
  have sub: "set v \<subseteq> set (snd ?s)" "snd ` set es \<subseteq> R" using step Cons.prems(2,3) by auto
  note IH = Cons.IH [OF conjunct1 [OF step] sub card conjunct2 [OF conjunct2 [OF conjunct2 [OF step]]]]
  show ?case using IH step by auto
qed simp

lemma recursive_closes:
  assumes R: "finite R" "made_from g `` R \<subseteq> R"
  shows "f \<in> set v \<Longrightarrow> set v \<subseteq> R \<Longrightarrow> card R \<le> d + card (set v) \<Longrightarrow>
    set (snd (compute_rdeps_recursive g d f v (RdepsNode '''' via []))) \<subseteq> R
    \<and> closes g {f} v (snd (compute_rdeps_recursive g d f v (RdepsNode '''' via [])))"
proof (induction d arbitrary: f v via)
  case 0
  then have "set v = R" using R(1) by (intro card_seteq) auto
  then show ?case using R(2) 0 by (auto simp: closes_def)
next
  case (Suc d)
  have es: "snd ` set (rdeps_edges g f) \<subseteq> R" using Suc.prems R(2) by (auto simp: rdeps_edges_made)
  show ?case
    using fold_rdeps_closes [OF R Suc.prems(2), of "(RdepsNode f 0 [], v)" "rdeps_edges g f" d "compute_rdeps_recursive g d"]
      Suc es by (auto simp: closes_def rdeps_edges_made)
qed

lemma rd_sound_files: "rd_sound R t \<Longrightarrow> set (rd_files t) \<subseteq> R\<^sup>* `` {rd_file t}"
proof (induction t)
  case (RdepsNode f v cs)
  have "set (rd_files c) \<subseteq> R\<^sup>* `` {f}" if c: "c \<in> set cs" for c
  proof -
    have "set (rd_files c) \<subseteq> R\<^sup>* `` {rd_file c}" using RdepsNode c by (auto simp: list_all_iff)
    moreover have "(f, rd_file c) \<in> R" using RdepsNode.prems c by simp
    ultimately show ?thesis by (auto intro: converse_rtrancl_into_rtrancl)
  qed
  then show ?case by auto
qed

lemma made_range: "(f0, f') \<in> made_from g \<Longrightarrow> f' \<in> (\<Union>(_, fs) \<in> set (pid_to_outputs g). set fs)"
proof -
  assume "(f0, f') \<in> made_from g"
  then obtain p where "f' \<in> set (outputs_of g p)" by (auto simp: made_from_def)
  then obtain fs where fs: "om_get (pid_to_outputs g) p = Some fs" "f' \<in> set fs"
    by (cases "om_get (pid_to_outputs g) p") (simp_all add: outputs_of_def)
  then show ?thesis using om_get_SomeD [OF fs(1)] by (intro UN_I [of "(p, fs)"]) simp_all
qed

lemma finite_made: "finite ((made_from g)\<^sup>* `` {f})"
proof (rule finite_subset)
  show "(made_from g)\<^sup>* `` {f} \<subseteq> insert f (\<Union>(_, fs) \<in> set (pid_to_outputs g). set fs)"
  proof
    fix x
    assume "x \<in> (made_from g)\<^sup>* `` {f}"
    then have "(f, x) \<in> (made_from g)\<^sup>*" by blast
    then show "x \<in> insert f (\<Union>(_, fs) \<in> set (pid_to_outputs g). set fs)"
      by (cases rule: rtranclE) (blast dest: made_range)+
  qed
  show "finite (insert f (\<Union>(_, fs) \<in> set (pid_to_outputs g). set fs))" by auto
qed

lemma compute_rdeps_ok: "\<exists>v. call_ok g f [f] (compute_rdeps g f depth, v)
    \<and> v = snd (compute_rdeps_recursive g (nat depth) f [f] (RdepsNode '''' 0 []))"
  using recursive_ok [of g f "[f]" "nat depth" 0] by (simp add: compute_rdeps_def)

section \<open>Properties\<close>

text \<open>
  C24. With enough depth the tree of reverse dependencies is complete: it holds the file and
  everything made from it, directly or not, each file exactly once, and every child is written by
  a process that reads its parent.
\<close>

theorem compute_rdeps_complete:
  assumes "int (card ((made_from g)\<^sup>* `` {f})) \<le> depth + 1"
  shows "set (rd_files (compute_rdeps g f depth)) = (made_from g)\<^sup>* `` {f}
    \<and> distinct (rd_files (compute_rdeps g f depth))
    \<and> rd_file (compute_rdeps g f depth) = f \<and> rd_sound (made_from g) (compute_rdeps g f depth)"
proof -
  let ?t = "compute_rdeps g f depth" and ?R = "(made_from g)\<^sup>* `` {f}"
  obtain v where ok: "call_ok g f [f] (?t, v)"
    and v: "v = snd (compute_rdeps_recursive g (nat depth) f [f] (RdepsNode '''' 0 []))"
    using compute_rdeps_ok by blast
  have "closes g {f} [f] v"
    unfolding v
    by (rule conjunct2 [OF recursive_closes [OF finite_made [of g f]]])
      (use assms in \<open>auto intro: rtrancl_into_rtrancl\<close>)
  then have closed: "made_from g `` {x} \<subseteq> set v" if "x \<in> set v" for x
    using that by (auto simp: closes_def)
  have f: "f \<in> set v" using ok by (simp add: call_ok_def)
  have "x \<in> set v" if "(f, x) \<in> (made_from g)\<^sup>*" for x
    using that by induction (use closed f in auto)
  then have "?R \<subseteq> set v" by blast
  moreover have files: "set (rd_files ?t) = set v" "distinct (rd_files ?t)" using ok f by (auto simp: call_ok_def)
  moreover have "set (rd_files ?t) \<subseteq> ?R"
    using ok rd_sound_files [of "made_from g" ?t] by (simp add: call_ok_def)
  ultimately show ?thesis using ok by (auto simp: call_ok_def)
qed

text \<open>A file that one process turns into another file, which a second process reads.\<close>

definition chain_example :: dep_graph where
  "chain_example = \<lparr>file_to_readers = [(''a'', [1]), (''b'', [2])], pid_to_outputs = [(1, [''b'']), (2, [''c''])],
     file_to_writers = [(''b'', [1]), (''c'', [2])], proc_map = [], pid_children = []\<rparr>"

theorem compute_rdeps_complete_witness:
  "set (rd_files (compute_rdeps chain_example ''a'' 2)) = {''a'', ''b'', ''c''}"
proof -
  have steps: "made_from chain_example = {(''a'', ''b''), (''b'', ''c'')}"
    by (auto simp: made_from_def chain_example_def readers_of_def outputs_of_def om_get_def)
  have "x \<in> {''a'', ''b'', ''c''}" if "(''a'', x) \<in> (made_from chain_example)\<^sup>*" for x
    using that by induction (auto simp: steps)
  moreover have "(''a'', ''b'') \<in> (made_from chain_example)\<^sup>*" "(''a'', ''c'') \<in> (made_from chain_example)\<^sup>*"
    unfolding steps by (auto intro: converse_rtrancl_into_rtrancl)
  ultimately have R: "(made_from chain_example)\<^sup>* `` {''a''} = {''a'', ''b'', ''c''}" by blast
  show ?thesis using compute_rdeps_complete [of chain_example "''a''" 2] by (simp add: R)
qed

text \<open>
  The process a file was made through is lost: \<open>via_pid\<close>, set before the recursive call, is
  reset by it, so that it is 0 in every node of every tree and the views never show it.
\<close>

theorem rdeps_via_lost: "set (rd_vias (compute_rdeps g f depth)) = {0}"
  using compute_rdeps_ok [of g f depth] by (auto simp: call_ok_def)

end
