(* ===== verification/Durations.thy ===== *)
theory Durations
  imports Prelude
begin

text \<open>
  \<open>format_duration_us\<close> of \<open>common/string_util.cpp\<close>. Its two divisions are divisions of
  \<open>double\<close>s and its output is \<open>printf\<close>'s: the nearest \<open>double\<close> of a quotient, with a 53-bit
  significand, is \<open>double_div\<close>, and \<open>%.pf\<close> is the decimal with \<open>p\<close> digits that is nearest to that
  \<open>double\<close>; both round a tie to even. The durations of a trace are below \<open>2 ^ 53\<close>, where the
  conversion of the integer to \<open>double\<close> is exact.
\<close>

section \<open>Rounding\<close>

text \<open>The integer nearest to \<open>n / d\<close>.\<close>

definition round_even :: "int \<Rightarrow> int \<Rightarrow> int" where
  "round_even n d =
    (let q = n div d; r = n mod d
     in if 2 * r < d then q else if 2 * r > d then q + 1 else if even q then q else q + 1)"

text \<open>\<open>n / d\<close> as a \<open>double\<close>: the pair \<open>(m, k)\<close> stands for \<open>m / 2 ^ k\<close>. \<open>k\<close> makes \<open>m\<close> a 53-bit number.\<close>

fun double_scale :: "nat \<Rightarrow> int \<Rightarrow> int \<Rightarrow> nat" where
  "double_scale 0 n d = 0"
| "double_scale (Suc k) n d = (if n * 2 ^ Suc k div d < 2 ^ 53 then Suc k else double_scale k n d)"

definition double_div :: "int \<Rightarrow> int \<Rightarrow> int \<times> nat" where
  "double_div n d = (let k = double_scale 62 n d in (round_even (n * 2 ^ k) d, k))"

text \<open>\<open>%.pf\<close>: the digits of the nearest decimal.\<close>

definition fixed_digits :: "nat \<Rightarrow> int \<times> nat \<Rightarrow> int" where
  "fixed_digits p v = round_even (fst v * 10 ^ p) (2 ^ snd v)"

definition decimal_str :: "nat \<Rightarrow> int \<Rightarrow> string" where
  "decimal_str p d =
    (let frac = int_str (d mod 10 ^ p)
     in int_str (d div 10 ^ p) @ ''.'' @ replicate (p - length frac) CHR ''0'' @ frac)"

definition fixed_str :: "nat \<Rightarrow> int \<times> nat \<Rightarrow> string" where
  "fixed_str p v = decimal_str p (fixed_digits p v)"

definition format_duration_us :: "int \<Rightarrow> string" where
  "format_duration_us us =
    (if us < 1000 then int_str us @ ''us''
     else if us < 1000000 then fixed_str 1 (double_div us 1000) @ ''ms''
     else fixed_str 2 (double_div us 1000000) @ ''s'')"

section \<open>The error of the rounding\<close>

lemma round_even_near: "0 < d \<Longrightarrow> 2 * \<bar>round_even n d * d - n\<bar> \<le> d"
proof -
  assume d: "0 < d"
  define q r where "q = n div d" and "r = n mod d"
  have n: "n = q * d + r" and r: "0 \<le> r" "r < d" using d by (simp_all add: q_def r_def)
  have "round_even n d = q \<and> 2 * r \<le> d \<or> round_even n d = q + 1 \<and> d \<le> 2 * r"
    by (auto simp: round_even_def q_def r_def Let_def)
  then show ?thesis
  proof
    assume "round_even n d = q \<and> 2 * r \<le> d"
    then show ?thesis using n r by simp
  next
    assume "round_even n d = q + 1 \<and> d \<le> 2 * r"
    then have "round_even n d * d - n = d - r" using n by (simp add: algebra_simps)
    then show ?thesis using r \<open>round_even n d = q + 1 \<and> d \<le> 2 * r\<close> by simp
  qed
qed

lemma double_scale_ge: "j \<le> K \<Longrightarrow> n * 2 ^ j div d < 2 ^ 53 \<Longrightarrow> j \<le> double_scale K n d"
  by (induction K) (auto simp: le_Suc_eq)

text \<open>The two roundings together are off by half a unit of the last digit, no more.\<close>

lemma fixed_digits_near:
  fixes u n :: int
  assumes u: "0 < u" and d: "d = 10 ^ p * u" and k: "d < 2 ^ snd (double_div n d)"
  shows "2 * \<bar>fixed_digits p (double_div n d) * u - n\<bar> \<le> u"
proof -
  define k m where "k = snd (double_div n d)" and "m = fst (double_div n d)"
  define D where "D = fixed_digits p (double_div n d)"
  have d0: "0 < d" using u d by simp
  have m: "2 * \<bar>m * d - n * 2 ^ k\<bar> \<le> d"
    using round_even_near [OF d0, of "n * 2 ^ k"] by (simp add: m_def k_def double_div_def Let_def)
  have "2 * \<bar>D * 2 ^ k - m * 10 ^ p\<bar> \<le> 2 ^ k"
    using round_even_near [of "2 ^ k" "m * 10 ^ p"] by (simp add: D_def fixed_digits_def m_def k_def)
  then have "2 * \<bar>D * 2 ^ k - m * 10 ^ p\<bar> * u \<le> 2 ^ k * u" using u by (intro mult_right_mono) simp_all
  moreover have "2 * \<bar>D * 2 ^ k - m * 10 ^ p\<bar> * u = 2 * \<bar>D * u * 2 ^ k - m * d\<bar>"
    using u abs_mult [of "D * 2 ^ k - m * 10 ^ p" u] by (simp add: d algebra_simps)
  moreover have "\<bar>D * u * 2 ^ k - n * 2 ^ k\<bar> \<le> \<bar>D * u * 2 ^ k - m * d\<bar> + \<bar>m * d - n * 2 ^ k\<bar>"
    using abs_triangle_ineq [of "D * u * 2 ^ k - m * d" "m * d - n * 2 ^ k"] by simp
  ultimately have "2 * \<bar>D * u * 2 ^ k - n * 2 ^ k\<bar> \<le> 2 ^ k * u + d" using m by simp
  then have "2 * \<bar>D * u * 2 ^ k - n * 2 ^ k\<bar> < 2 ^ k * u + 2 ^ k" using k unfolding k_def by linarith
  moreover have "\<bar>D * u * 2 ^ k - n * 2 ^ k\<bar> = \<bar>D * u - n\<bar> * 2 ^ k"
    using abs_mult [of "D * u - n" "2 ^ k"] by (simp add: algebra_simps)
  ultimately have "2 ^ k * (2 * \<bar>D * u - n\<bar>) < 2 ^ k * (u + 1)" by (simp add: algebra_simps)
  then show ?thesis unfolding D_def by simp
qed

text \<open>
  The duration shown is the recorded one rounded to the last digit printed, although it goes
  through two floating-point roundings: below a millisecond it is exact, below a second it is
  off by at most half of a tenth of a millisecond, above by at most half of ten milliseconds.
\<close>

theorem format_duration_near:
  assumes "us < 2 ^ 52"
  shows "\<exists>D. format_duration_us us =
       (if us < 1000 then int_str D @ ''us'' else if us < 1000000 then decimal_str 1 D @ ''ms''
        else decimal_str 2 D @ ''s'')
     \<and> 2 * \<bar>D * (if us < 1000 then 1 else if us < 1000000 then 100 else 10000) - us\<bar>
         \<le> (if us < 1000 then 0 else if us < 1000000 then 100 else 10000)"
proof -
  consider "us < 1000" | "1000 \<le> us" "us < 1000000" | "1000000 \<le> us" by linarith
  then show ?thesis
  proof cases
    case 1
    then show ?thesis by (intro exI [of _ us]) (simp add: format_duration_us_def)
  next
    case 2
    then have "us * 2 ^ 10 div 1000 < 2 ^ 53" by simp
    then have "10 \<le> snd (double_div us 1000)"
      using double_scale_ge [of 10 62] by (simp add: double_div_def Let_def)
    then have "(2::int) ^ 10 \<le> 2 ^ snd (double_div us 1000)" by (rule power_increasing) simp
    then have "2 * \<bar>fixed_digits 1 (double_div us 1000) * 100 - us\<bar> \<le> 100"
      by (intro fixed_digits_near) simp_all
    with 2 show ?thesis
      by (intro exI [of _ "fixed_digits 1 (double_div us 1000)"]) (simp add: format_duration_us_def fixed_str_def)
  next
    case 3
    have "us * 2 ^ 20 div 1000000 < 2 ^ 53" using assms by simp
    then have "20 \<le> snd (double_div us 1000000)"
      using double_scale_ge [of 20 62] by (simp add: double_div_def Let_def)
    then have "(2::int) ^ 20 \<le> 2 ^ snd (double_div us 1000000)" by (rule power_increasing) simp
    then have "2 * \<bar>fixed_digits 2 (double_div us 1000000) * 10000 - us\<bar> \<le> 10000"
      by (intro fixed_digits_near) simp_all
    with 3 show ?thesis
      by (intro exI [of _ "fixed_digits 2 (double_div us 1000000)"]) (simp add: format_duration_us_def fixed_str_def)
  qed
qed

theorem format_duration_near_witness:
  "\<exists>D. format_duration_us 1350 = decimal_str 1 D @ ''ms'' \<and> 2 * \<bar>D * 100 - 1350\<bar> \<le> 100"
  using format_duration_near [of 1350] by simp

end
