(* ===== verification/Viewer_Text.thy ===== *)
theory Viewer_Text
  imports Durations Commands Types
begin

text \<open>
  The text the command line viewer prints, as strings: the \<open>printf\<close> conversions its commands use.
  \<open>%s\<close> of \<open>s.c_str()\<close> is \<open>c_str s\<close>, \<open>%d\<close> and \<open>%lld\<close> are \<open>int_str\<close>. What goes to standard error
  is left out of every command; its exit code is kept.
\<close>

definition nl :: string where
  "nl = [CHR 0x0A]"

text \<open>\<open>%5d\<close> and \<open>%-10s\<close>: a field width pads with blanks and never cuts.\<close>

definition pad_left :: "nat \<Rightarrow> string \<Rightarrow> string" where
  "pad_left w s = replicate (w - length s) CHR '' '' @ s"

definition pad_right :: "nat \<Rightarrow> string \<Rightarrow> string" where
  "pad_right w s = s @ replicate (w - length s) CHR '' ''"

definition blanks :: "nat \<Rightarrow> string" where
  "blanks n = replicate n CHR '' ''"

text \<open>\<open>%+d\<close>.\<close>

definition plus_int_str :: "int \<Rightarrow> string" where
  "plus_int_str i = (if i < 0 then int_str i else CHR ''+'' # int_str i)"

text \<open>\<open>%.pf\<close> of \<open>n / d\<close>, the quotient of two integers taken as \<open>double\<close>s.\<close>

definition quotient_str :: "nat \<Rightarrow> int \<Rightarrow> int \<Rightarrow> string" where
  "quotient_str p n d =
     (if n < 0 then CHR ''-'' # fixed_str p (double_div (- n) d) else fixed_str p (double_div n d))"

text \<open>\<open>%.pf\<close> of \<open>us / 1000000.0\<close>.\<close>

definition seconds_str :: "nat \<Rightarrow> int \<Rightarrow> string" where
  "seconds_str p us = quotient_str p us 1000000"

text \<open>\<open>[pid] command\<close>, the form every command shows a process in.\<close>

definition pid_str :: "int \<Rightarrow> string" where
  "pid_str pid = ''['' @ int_str pid @ '']''"

definition shown_cmd :: "ProcessRecord \<Rightarrow> nat \<Rightarrow> string" where
  "shown_cmd p w = c_str (shorten_cmd (pr_cmdline p) w)"

definition lines_of :: "('a \<Rightarrow> string) \<Rightarrow> 'a list \<Rightarrow> string" where
  "lines_of line xs = concat (map line xs)"

lemma lines_of_simps [simp]:
  "lines_of f [] = []" "lines_of f (x # xs) = f x @ lines_of f xs"
  "lines_of f (xs @ ys) = lines_of f xs @ lines_of f ys"
  by (simp_all add: lines_of_def)

lemma pad_right_length: "length (pad_right w s) = max w (length s)"
  by (simp add: pad_right_def)

lemma pad_left_length: "length (pad_left w s) = max w (length s)"
  by (simp add: pad_left_def)

end
