(* ===== verification/Viewer_Times.thy ===== *)
theory Viewer_Times
  imports Types "HOL-Library.Signed_Division"
begin

text \<open>
  What the viewers compute from the times of the processes: the span of a trace, the greatest
  number of processes that run at once (a sweep over sorted start and end events), and the
  histogram of running processes. \<open>cmd_summary\<close> and \<open>cmd_parallel\<close> of \<open>bdview_main.cpp\<close> and
  \<open>handle_summary\<close> and \<open>handle_parallelism\<close> of \<open>web/bdview_web.cpp\<close> share these loops. C++ division
  of integers is \<open>sdiv\<close>; an index outside a vector is undefined behaviour, \<open>None\<close> here.
\<close>

section \<open>The span\<close>

text \<open>Both variants of the loop: from 0, and from the first process.\<close>

definition summary_span :: "ProcessRecord list \<Rightarrow> int \<times> int" where
  "summary_span procs =
     fold (\<lambda>(i, p) (min_time, max_time).
        (if i = 0 \<or> pr_start p < min_time then pr_start p else min_time,
         if pr_end p > max_time then pr_end p else max_time))
       (enumerate 0 procs) (0, 0)"

definition time_span :: "ProcessRecord list \<Rightarrow> int \<times> int" where
  "time_span procs =
     fold (\<lambda>p (min_time, max_time).
        (if pr_start p < min_time then pr_start p else min_time,
         if pr_end p > max_time then pr_end p else max_time))
       (tl procs) (pr_start (hd procs), pr_end (hd procs))"

lemma time_span_fold:
  "fold (\<lambda>p (min_time, max_time).
        (if pr_start p < min_time then pr_start p else min_time,
         if pr_end p > max_time then pr_end p else max_time)) ps (a, b) =
     (fold min (map pr_start ps) a, fold max (map pr_end ps) b)"
  by (induction ps arbitrary: a b) (auto simp: min_def max_def)

lemma fold_min_le: "fold min xs (a::int) \<le> a \<and> (\<forall>x \<in> set xs. fold min xs a \<le> x)"
  by (induction xs arbitrary: a) (auto, (meson min.boundedE order_trans)+)

lemma fold_max_ge: "a \<le> fold max xs (a::int) \<and> (\<forall>x \<in> set xs. x \<le> fold max xs a)"
  by (induction xs arbitrary: a) (auto, (meson max.boundedE order_trans)+)

lemma time_span_bounds:
  assumes "p \<in> set procs"
  shows "fst (time_span procs) \<le> pr_start p" and "pr_end p \<le> snd (time_span procs)"
proof -
  obtain q ps where procs: "procs = q # ps" using assms by (cases procs) auto
  have "p = q \<or> p \<in> set ps" using assms procs by simp
  then show "fst (time_span procs) \<le> pr_start p" "pr_end p \<le> snd (time_span procs)"
    using fold_min_le [of "map pr_start ps" "pr_start q"] fold_max_ge [of "pr_end q" "map pr_end ps"]
    by (auto simp: time_span_def procs time_span_fold)
qed

section \<open>The sweep\<close>

definition par_events :: "ProcessRecord list \<Rightarrow> (int \<times> int) list" where
  "par_events procs =
     concat (map (\<lambda>p. if pr_end p > 0 then [(pr_start p, 1), (pr_end p, -1)] else []) procs)"

definition sweep_step :: "int \<times> int \<Rightarrow> int \<times> int \<Rightarrow> int \<times> int" where
  "sweep_step ev s =
    (let cur = fst s + snd ev in (cur, if cur > snd s then cur else snd s))"

definition max_parallelism :: "ProcessRecord list \<Rightarrow> int" where
  "max_parallelism procs = snd (fold sweep_step (std_sort (<) (par_events procs)) (0, 0))"

text \<open>The processes that run at time \<open>t\<close>.\<close>

definition running_at :: "ProcessRecord list \<Rightarrow> int \<Rightarrow> int" where
  "running_at procs t = int (length (filter (\<lambda>p. pr_end p > 0 \<and> pr_start p \<le> t \<and> t < pr_end p) procs))"

abbreviation delta :: "(int \<times> int) list \<Rightarrow> int" where
  "delta evs \<equiv> sum_list (map snd evs)"

lemma sweep_cons:
  "fold sweep_step (e # E) (c, m) = fold sweep_step E (c + snd e, if c + snd e > m then c + snd e else m)"
  by (simp add: sweep_step_def Let_def)

lemma sweep_bounds:
  "m \<le> snd (fold sweep_step E (c, m))
   \<and> (\<forall>k. 0 < k \<longrightarrow> k \<le> length E \<longrightarrow> c + delta (take k E) \<le> snd (fold sweep_step E (c, m)))"
proof (induction E arbitrary: c m)
  case (Cons e E)
  let ?m = "if c + snd e > m then c + snd e else m"
  let ?r = "snd (fold sweep_step E (c + snd e, ?m))"
  have up: "?m \<le> ?r" and IH: "\<And>k. 0 < k \<Longrightarrow> k \<le> length E \<Longrightarrow> c + snd e + delta (take k E) \<le> ?r"
    using Cons.IH [of ?m "c + snd e"] by blast+
  have "c + delta (take k (e # E)) \<le> ?r" if k: "0 < k" "k \<le> length (e # E)" for k
  proof (cases "k = 1")
    case True
    have "c + snd e \<le> ?m" by simp
    then have "c + snd e \<le> ?r" using up by (rule order_trans)
    then show ?thesis using True by simp
  next
    case False
    then obtain j where "k = Suc j" "0 < j" "j \<le> length E" using k by (cases k) auto
    then show ?thesis using IH [of j] by simp
  qed
  moreover have "m \<le> ?m" by simp
  then have "m \<le> ?r" using up by (rule order_trans)
  ultimately show ?case unfolding sweep_cons by blast
qed simp

lemma sweep_reached:
  "snd (fold sweep_step E (c, m)) = m
   \<or> (\<exists>k. 0 < k \<and> k \<le> length E \<and> snd (fold sweep_step E (c, m)) = c + delta (take k E))"
proof (induction E arbitrary: c m)
  case (Cons e E)
  let ?m = "if c + snd e > m then c + snd e else m"
  note step = sweep_cons [of e E c m]
  from Cons.IH [of "c + snd e" ?m] show ?case
  proof
    assume "snd (fold sweep_step E (c + snd e, ?m)) = ?m"
    then show ?thesis unfolding step
      by (cases "c + snd e > m") (auto intro!: exI [of _ 1])
  next
    assume "\<exists>k. 0 < k \<and> k \<le> length E \<and> snd (fold sweep_step E (c + snd e, ?m)) = c + snd e + delta (take k E)"
    then obtain k where "0 < k" "k \<le> length E" "snd (fold sweep_step E (c + snd e, ?m)) = c + snd e + delta (take k E)"
      by blast
    then show ?thesis unfolding step by (intro disjI2 exI [of _ "Suc k"]) simp
  qed
qed simp

text \<open>The events up to \<open>t\<close> add up to the processes that run at \<open>t\<close>.\<close>

lemma delta_mset: "mset E = mset F \<Longrightarrow> delta (filter P E) = delta (filter P F)"
  by (metis mset_filter mset_map sum_mset_sum_list)

lemma delta_running:
  "\<forall>p \<in> set procs. pr_end p > 0 \<longrightarrow> pr_start p \<le> pr_end p \<Longrightarrow>
     delta (filter (\<lambda>e. fst e \<le> t) (par_events procs)) = running_at procs t"
proof (induction procs)
  case (Cons p procs)
  have "pr_end p > 0 \<longrightarrow> pr_start p \<le> pr_end p" using Cons.prems by simp
  moreover have "delta (filter (\<lambda>e. fst e \<le> t) (par_events procs)) = running_at procs t"
    using Cons by simp
  ultimately show ?case by (auto simp: par_events_def running_at_def)
qed (simp add: par_events_def running_at_def)

lemma sorted_takeWhile_filter:
  fixes E :: "(int \<times> int) list"
  assumes "sorted E"
  shows "takeWhile (\<lambda>e. fst e \<le> t) E = filter (\<lambda>e. fst e \<le> t) E"
  using assms
proof (induction E)
  case (Cons e E)
  show ?case
  proof (cases "fst e \<le> t")
    case False
    have "fst e \<le> fst x" if "x \<in> set E" for x
      using Cons.prems that by (auto simp: less_eq_prod_def)
    with False have "filter (\<lambda>e. fst e \<le> t) E = []" by (fastforce simp: filter_empty_conv)
    with False show ?thesis by simp
  qed (use Cons in simp)
qed simp

lemma std_sort_less: "sorted (std_sort (<) (xs :: 'a::linorder list))"
  using std_sort_sorted [OF weak_order_key [of "\<lambda>x. x"], of xs] by (simp add: not_less)

lemma par_events_snd: "e \<in> set (par_events procs) \<Longrightarrow> snd e = 1 \<or> snd e = -1"
  by (auto simp: par_events_def split: if_splits)

text \<open>A prefix that ends with a start falls short only of other starts at the same time.\<close>

lemma prefix_le_running:
  fixes E :: "(int \<times> int) list"
  assumes E: "sorted E" "\<And>e. e \<in> set E \<Longrightarrow> snd e = 1 \<or> snd e = -1"
    and k: "0 < k" "k \<le> length E" and e: "snd (E ! (k - 1)) = 1"
  shows "delta (take k E) \<le> delta (filter (\<lambda>x. fst x \<le> fst (E ! (k - 1))) E)"
proof -
  let ?t = "fst (E ! (k - 1))"
  define A where "A = takeWhile (\<lambda>x. fst x \<le> ?t) E"
  have A: "A = filter (\<lambda>x. fst x \<le> ?t) E" unfolding A_def by (rule sorted_takeWhile_filter [OF E(1)])
  have "fst x \<le> ?t" if x: "x \<in> set (take k E)" for x
  proof -
    obtain i where "i < k" "x = E ! i" using x k by (auto simp: in_set_conv_nth)
    then have "E ! i \<le> E ! (k - 1)" using E(1) k by (intro sorted_nth_mono) auto
    then show ?thesis using \<open>x = E ! i\<close> by (auto simp: less_eq_prod_def)
  qed
  then have "A = take k E @ takeWhile (\<lambda>x. fst x \<le> ?t) (drop k E)"
    unfolding A_def using takeWhile_append2 [of "take k E" "\<lambda>x. fst x \<le> ?t" "drop k E"] by simp
  moreover have "snd x = 1" if x: "x \<in> set (takeWhile (\<lambda>x. fst x \<le> ?t) (drop k E))" for x
  proof -
    have "x \<in> set (drop k E)" "fst x \<le> ?t" using x by (auto dest: set_takeWhileD)
    then obtain i where "i < length (drop k E)" "x = drop k E ! i" unfolding in_set_conv_nth by blast
    then have "k + i < length E" "x = E ! (k + i)" using k by simp_all
    then have "E ! (k - 1) \<le> x" using E(1) k by (auto intro: sorted_nth_mono)
    with \<open>fst x \<le> ?t\<close> e have "1 \<le> snd x" by (auto simp: less_eq_prod_def)
    moreover have "x \<in> set E" using \<open>x \<in> set (drop k E)\<close> by (rule in_set_dropD)
    ultimately show ?thesis using E(2) [of x] by auto
  qed
  then have "0 \<le> delta (takeWhile (\<lambda>x. fst x \<le> ?t) (drop k E))"
    by (intro sum_list_nonneg) (simp only: set_map image_iff, elim bexE, simp)
  ultimately show ?thesis unfolding A [symmetric] by simp
qed

text \<open>
  The sweep finds the true maximum: at no time do more processes run than \<open>max_parallelism\<close> says,
  and when it is not 0 that many do run at some time. A process runs from its start up to, not
  including, its end; one that ends as another starts does not overlap it.
\<close>

theorem max_parallelism_exact:
  assumes "\<And>p. p \<in> set procs \<Longrightarrow> pr_end p > 0 \<Longrightarrow> pr_start p \<le> pr_end p"
  shows "(\<forall>t. running_at procs t \<le> max_parallelism procs)
    \<and> (max_parallelism procs = 0 \<or> (\<exists>t. running_at procs t = max_parallelism procs))"
proof -
  define E where "E = std_sort (<) (par_events procs)"
  have E: "sorted E" "mset E = mset (par_events procs)" by (simp_all add: E_def std_sort_less)
  have snds: "snd e = 1 \<or> snd e = -1" if "e \<in> set E" for e
    using that par_events_snd [of e procs] by (simp add: E_def)
  have R: "max_parallelism procs = snd (fold sweep_step E (0, 0))" by (simp add: max_parallelism_def E_def)
  have running: "delta (filter (\<lambda>e. fst e \<le> t) E) = running_at procs t" for t
    using delta_mset [OF E(2)] delta_running [of procs t] assms by simp
  have lower: "running_at procs t \<le> max_parallelism procs" for t
  proof -
    define k where "k = length (filter (\<lambda>e. fst e \<le> t) E)"
    have "take k E = filter (\<lambda>e. fst e \<le> t) E"
      using sorted_takeWhile_filter [OF E(1), of t] takeWhile_eq_take [of "\<lambda>e. fst e \<le> t" E] by (simp add: k_def)
    then have run: "running_at procs t = delta (take k E)" using running [of t] by simp
    have "k \<le> length E" by (simp add: k_def)
    then have "delta (take k E) \<le> snd (fold sweep_step E (0, 0))"
      using sweep_bounds [of 0 E 0] by (cases "k = 0") auto
    then show ?thesis by (simp only: run R)
  qed
  have "\<exists>t. running_at procs t = max_parallelism procs" if nz: "max_parallelism procs \<noteq> 0"
  proof -
    obtain k where k: "0 < k" "k \<le> length E" "max_parallelism procs = delta (take k E)"
      using sweep_reached [of E 0 0] nz unfolding R by auto
    have last: "take k E = take (k - 1) E @ [E ! (k - 1)]"
      using k by (metis Suc_pred' less_le_trans take_Suc_conv_app_nth diff_less zero_less_one)
    have "E ! (k - 1) \<in> set E" using k by simp
    moreover have "snd (E ! (k - 1)) \<noteq> -1"
    proof
      assume "snd (E ! (k - 1)) = -1"
      then have less: "delta (take (k - 1) E) = max_parallelism procs + 1" using k(3) last by simp
      have "delta (take (k - 1) E) \<le> snd (fold sweep_step E (0, 0))"
        using sweep_bounds [of 0 E 0] k(1,2) by (cases "k = 1") auto
      then show False using less by (simp add: R)
    qed
    ultimately have "snd (E ! (k - 1)) = 1" using snds by blast
    from prefix_le_running [OF E(1) snds k(1,2) this]
    have "max_parallelism procs \<le> running_at procs (fst (E ! (k - 1)))" by (simp add: running k(3))
    with lower show ?thesis by (intro exI [of _ "fst (E ! (k - 1))"] antisym) auto
  qed
  with lower show ?thesis by blast
qed

lemma max_parallelism_exact_witness:
  "running_at [ProcessRecord_default\<lparr>pr_pid := 1, pr_start := 5, pr_end := 9\<rparr>] 5
     \<le> max_parallelism [ProcessRecord_default\<lparr>pr_pid := 1, pr_start := 5, pr_end := 9\<rparr>]"
proof -
  let ?ps = "[ProcessRecord_default\<lparr>pr_pid := 1, pr_start := 5, pr_end := 9\<rparr>]"
  have "\<And>p. p \<in> set ?ps \<Longrightarrow> pr_end p > 0 \<Longrightarrow> pr_start p \<le> pr_end p" by simp
  from max_parallelism_exact [OF this] show ?thesis by blast
qed

section \<open>The histogram\<close>

text \<open>A cast to \<open>int\<close>.\<close>

definition c_int :: "int \<Rightarrow> int" where
  "c_int x = signed_take_bit 31 x"

definition bucket_layout :: "int \<Rightarrow> int \<times> int" where
  "bucket_layout span =
     (let bucket_us = 1000000; num_buckets = c_int (span sdiv bucket_us) + 1 in
      if num_buckets > 3600 then (3600, span sdiv 3600 + 1) else (num_buckets, bucket_us))"

function bump :: "int \<Rightarrow> int \<Rightarrow> int list \<Rightarrow> int list option" where
  "bump b end_b bs =
     (if b \<le> end_b
      then if 0 \<le> b \<and> b < int (length bs) then bump (b + 1) end_b (bs[nat b := bs ! nat b + 1]) else None
      else Some bs)"
  by auto
termination by (relation "measure (\<lambda>(b, e, _). nat (e + 1 - b))") auto

declare bump.simps [simp del]

fun count_buckets :: "int \<Rightarrow> int \<Rightarrow> int \<Rightarrow> ProcessRecord list \<Rightarrow> int list \<Rightarrow> int list option" where
  "count_buckets min_time n w [] bs = Some bs"
| "count_buckets min_time n w (p # ps) bs =
     (if pr_end p \<le> 0 then count_buckets min_time n w ps bs
      else
        let start_b = c_int ((pr_start p - min_time) sdiv w);
            end_b = c_int ((pr_end p - min_time) sdiv w);
            start_b = (if start_b < 0 then 0 else start_b);
            end_b = (if end_b \<ge> n then n - 1 else end_b)
        in case bump start_b end_b bs of None \<Rightarrow> None | Some bs' \<Rightarrow> count_buckets min_time n w ps bs')"

text \<open>The buckets of both commands; with no process or no span they print none.\<close>

definition parallel_buckets :: "ProcessRecord list \<Rightarrow> int list option" where
  "parallel_buckets procs =
     (if procs = [] then Some []
      else
        let (min_time, max_time) = time_span procs; span = max_time - min_time in
        if span \<le> 0 then Some []
        else let (n, w) = bucket_layout span in count_buckets min_time n w procs (replicate (nat n) 0))"

lemma c_int_id: "- (2 ^ 31) \<le> x \<Longrightarrow> x < 2 ^ 31 \<Longrightarrow> c_int x = x"
  unfolding c_int_def by (rule signed_take_bit_int_eq_self) simp_all

lemma int_le_div: "0 < w \<Longrightarrow> b \<le> x div w \<longleftrightarrow> b * w \<le> x" for b x w :: int
proof
  assume w: "0 < w" and "b \<le> x div w"
  then have "b * w \<le> x div w * w" by (intro mult_right_mono) simp_all
  also have "\<dots> \<le> x" using w minus_div_mult_eq_mod [of x w] pos_mod_sign [of w x] by linarith
  finally show "b * w \<le> x" .
next
  assume w: "0 < w" and "b * w \<le> x"
  then have "b * w div w \<le> x div w" by (intro zdiv_mono1)
  then show "b \<le> x div w" using w by simp
qed

lemma int_div_less: "0 < w \<Longrightarrow> x div w < b \<longleftrightarrow> x < b * w" for b x w :: int
  using int_le_div [of w b x] by linarith

lemma bump_exact:
  "0 \<le> b \<Longrightarrow> e < int (length bs) \<Longrightarrow>
     bump b e bs = Some (map (\<lambda>i. bs ! i + (if b \<le> int i \<and> int i \<le> e then 1 else 0)) [0..<length bs])"
proof (induction b e bs rule: bump.induct)
  case (1 b e bs)
  show ?case
  proof (cases "b \<le> e")
    case True
    then have ok: "0 \<le> b \<and> b < int (length bs)" using 1 by simp
    have "bump b e bs = bump (b + 1) e (bs[nat b := bs ! nat b + 1])"
      by (subst bump.simps) (simp add: True ok)
    also have "\<dots> = Some (map (\<lambda>i. bs[nat b := bs ! nat b + 1] ! i + (if b + 1 \<le> int i \<and> int i \<le> e then 1 else 0))
        [0..<length (bs[nat b := bs ! nat b + 1])])"
      using 1 True ok by simp
    also have "\<dots> = Some (map (\<lambda>i. bs ! i + (if b \<le> int i \<and> int i \<le> e then 1 else 0)) [0..<length bs])"
      using True ok by (auto simp: nth_list_update)
    finally show ?thesis .
  next
    case False
    then show ?thesis by (subst bump.simps) (auto intro!: nth_equalityI)
  qed
qed

lemma bucket_layout_cases:
  assumes "bucket_layout span = (n, w)" "0 < span" "span < 2 ^ 31 * 1000000"
  shows "0 < w" and "0 < n" and "n \<le> 3600" and "span div w < n"
proof -
  have "span div 1000000 < 2 ^ 31" using assms(3) by (simp add: int_div_less)
  then have cast: "c_int (span div 1000000) = span div 1000000"
    using assms(2) by (intro c_int_id) (simp_all add: order_trans [OF _ pos_imp_zdiv_nonneg_iff [THEN iffD2]])
  have q: "span sdiv 1000000 = span div 1000000" "span sdiv 3600 = span div 3600"
    using assms(2) by (simp_all add: signed_divide_int_def sgn_if)
  have nonneg: "0 \<le> span div 1000000" "0 \<le> span div 3600" using assms(2) by simp_all
  consider (capped) "n = 3600" "w = span div 3600 + 1"
    | (plain) "n = span div 1000000 + 1" "w = 1000000" "n \<le> 3600"
    using assms(1) by (auto simp: bucket_layout_def Let_def q cast split: if_splits)
  then have "0 < w \<and> 0 < n \<and> n \<le> 3600 \<and> span div w < n"
  proof cases
    case capped
    have "span < 3600 * w" unfolding capped(2) by presburger
    then have "span div w < 3600" using nonneg capped by (simp add: int_div_less)
    then show ?thesis using capped nonneg by simp
  qed (use nonneg in simp)
  then show "0 < w" "0 < n" "n \<le> 3600" "span div w < n" by simp_all
qed

lemma count_buckets_exact:
  assumes "0 < w" "0 \<le> n" "span div w < n" "n \<le> 3600"
  shows "\<forall>p \<in> set ps. 0 < pr_end p \<longrightarrow> m \<le> pr_start p \<and> pr_start p \<le> pr_end p \<and> pr_end p \<le> m + span \<Longrightarrow>
    int (length bs) = n \<Longrightarrow>
    count_buckets m n w ps bs =
      Some (map (\<lambda>b. bs ! b + int (length (filter (\<lambda>p. 0 < pr_end p \<and>
         (pr_start p - m) div w \<le> int b \<and> int b \<le> (pr_end p - m) div w) ps))) [0..<length bs])"
proof (induction ps arbitrary: bs)
  case Nil
  show ?case by (auto intro: nth_equalityI)
next
  case (Cons p ps)
  show ?case
  proof (cases "pr_end p \<le> 0")
    case False
    let ?s = "(pr_start p - m) div w" and ?e = "(pr_end p - m) div w"
    have bnd: "m \<le> pr_start p" "pr_start p \<le> pr_end p" "pr_end p \<le> m + span"
      using Cons.prems(1) False by auto
    have s: "0 \<le> ?s" using bnd assms(1) by (simp add: pos_imp_zdiv_nonneg_iff)
    have se: "?s \<le> ?e" using bnd assms(1) by (simp add: zdiv_mono1)
    have e: "?e < n" using bnd assms(1,3) zdiv_mono1 [of "pr_end p - m" span w] by simp
    have q: "(pr_start p - m) sdiv w = ?s" "(pr_end p - m) sdiv w = ?e"
      using bnd assms(1) by (simp_all add: signed_divide_int_def sgn_if)
    have cast: "c_int ?s = ?s" "c_int ?e = ?e" using s se e assms(4) by (simp_all add: c_int_id)
    define bs' where "bs' = map (\<lambda>i. bs ! i + (if ?s \<le> int i \<and> int i \<le> ?e then 1 else 0)) [0..<length bs]"
    have "bump ?s ?e bs = Some bs'"
      unfolding bs'_def using s e Cons.prems(2) by (intro bump_exact) auto
    then have "count_buckets m n w (p # ps) bs = count_buckets m n w ps bs'"
      using False s e by (simp add: q cast Let_def)
    also have "\<dots> = Some (map (\<lambda>b. bs' ! b + int (length (filter (\<lambda>p. 0 < pr_end p \<and>
         (pr_start p - m) div w \<le> int b \<and> int b \<le> (pr_end p - m) div w) ps))) [0..<length bs'])"
      using Cons.prems by (intro Cons.IH) (simp_all add: bs'_def)
    also have "\<dots> = Some (map (\<lambda>b. bs ! b + int (length (filter (\<lambda>p. 0 < pr_end p \<and>
         (pr_start p - m) div w \<le> int b \<and> int b \<le> (pr_end p - m) div w) (p # ps)))) [0..<length bs])"
      using False by (simp add: bs'_def)
    finally show ?thesis .
  next
    case True
    then show ?thesis using Cons by simp
  qed
qed



end
