(* ===== verification/Viewer_Trees.thy ===== *)
theory Viewer_Trees
  imports Database_Proofs Viewer_Text Viewer_Times
begin

text \<open>
  The process tree as the command line viewer walks it (\<open>bdview_main.cpp\<close>): the chain of ancestors
  of a process, the printed tree, the depths of the time line and the critical path. A process whose
  parent is not in the trace is a root. Recursions that nothing in the code bounds are partial
  functions, \<open>None\<close> where they do not return.
\<close>

section \<open>The chain of ancestors\<close>

function ancestor_loop :: "sq_db \<Rightarrow> int oset \<Rightarrow> int \<Rightarrow> ProcessRecord list \<Rightarrow> ProcessRecord list" where
  "ancestor_loop db visited cur chain =
     (if cur \<in> set visited then chain
      else case get_process db cur of
             None \<Rightarrow> chain
           | Some rec \<Rightarrow> ancestor_loop db (os_ins cur visited) (pr_ppid rec) (chain @ [rec]))"
  by auto
termination
proof (relation "measure (\<lambda>(db :: sq_db, visited, _, _). card (set (om_keys (db_processes db)) - set visited))",
    goal_cases)
  case (2 db visited cur chain rec)
  then have "cur \<in> set (om_keys (db_processes db))"
    by (auto simp: get_process_def om_keys_set split: if_splits)
  then have "set (om_keys (db_processes db)) - set (os_ins cur visited) \<subset> set (om_keys (db_processes db)) - set visited"
    using 2 by auto
  then show ?case by (simp add: psubset_card_mono)
qed simp

declare ancestor_loop.simps [simp del]

definition get_ancestor_chain :: "sq_db \<Rightarrow> int \<Rightarrow> ProcessRecord list" where
  "get_ancestor_chain db pid = ancestor_loop db [] pid []"

section \<open>The printed tree\<close>

definition tree_cmd :: "string \<Rightarrow> string" where
  "tree_cmd cmd =
     (case find_char CHR '' '' cmd of
        Some space \<Rightarrow> if length cmd > 60 then take space cmd @ '' ...'' else cmd
      | None \<Rightarrow> cmd)"

type_synonym tree_entry = "int \<times> string \<times> bool"

definition tree_line :: "int \<Rightarrow> ProcessRecord \<Rightarrow> string \<Rightarrow> bool \<Rightarrow> string" where
  "tree_line slow_us rec prefix is_last =
     (let duration = pr_end rec - pr_start rec;
          dur_str = (if pr_end rec > 0 then format_duration_us duration else ''running'');
          is_slow = (slow_us > 0 \<and> pr_end rec > 0 \<and> duration \<ge> slow_us)
      in prefix @ (if is_last then CHR 0x5C # ''-- '' else ''|-- '') @ pid_str (pr_pid rec) @ '' '' @
         c_str (tree_cmd (pr_cmdline rec)) @ '' ('' @ dur_str @ '')'' @ (if is_slow then '' ***'' else '''') @ nl)"

definition tree_entries :: "string \<Rightarrow> int list \<Rightarrow> tree_entry list" where
  "tree_entries prefix pids = map (\<lambda>(i, pid). (pid, prefix, Suc i = length pids)) (enumerate 0 pids)"

definition child_entries :: "sq_db \<Rightarrow> tree_entry \<Rightarrow> tree_entry list" where
  "child_entries db t =
     tree_entries (fst (snd t) @ (if snd (snd t) then ''    '' else ''|   '')) (map pr_pid (get_children db (fst t)))"

text \<open>\<open>print_tree\<close> for each process of a list in turn.\<close>

partial_function (option) print_trees :: "sq_db \<Rightarrow> int \<Rightarrow> tree_entry list \<Rightarrow> string option" where
  "print_trees db slow_us ts =
     (case ts of
        [] \<Rightarrow> Some []
      | t # rest \<Rightarrow>
         (case get_process db (fst t) of
            None \<Rightarrow> print_trees db slow_us rest
          | Some rec \<Rightarrow>
             Option.bind (print_trees db slow_us (child_entries db t)) (\<lambda>below.
             Option.bind (print_trees db slow_us rest) (\<lambda>others.
               Some (tree_line slow_us rec (fst (snd t)) (snd (snd t)) @ below @ others)))))"

definition list_roots :: "ProcessRecord list \<Rightarrow> int list" where
  "list_roots procs =
     (let pids = os_of (map pr_pid procs) in map pr_pid (filter (\<lambda>p. pr_ppid p \<notin> set pids) procs))"

definition cmd_tree :: "sq_db \<Rightarrow> int \<Rightarrow> string option" where
  "cmd_tree db slow_us =
     (let procs = get_all_processes db in
      if procs = [] then Some (''No processes recorded.'' @ nl)
      else print_trees db slow_us (tree_entries [] (list_roots procs)))"

section \<open>The depths of the time line\<close>

text \<open>The ancestors of a process whose depth is not known yet, the process first.\<close>

partial_function (option) depth_chain ::
    "int oset \<Rightarrow> (int, int) omap \<Rightarrow> (int, int) omap \<Rightarrow> int list \<Rightarrow> int \<Rightarrow> (int list \<times> int) option" where
  "depth_chain all_pids pid_ppid cache chain cur =
     (if cur \<in> set all_pids \<and> om_get cache cur = None
      then depth_chain all_pids pid_ppid cache (chain @ [cur]) (case om_get pid_ppid cur of None \<Rightarrow> 0 | Some p \<Rightarrow> p)
      else Some (chain, cur))"

definition set_depths :: "int \<Rightarrow> int list \<Rightarrow> (int, int) omap \<Rightarrow> (int, int) omap" where
  "set_depths base chain cache =
     fold (\<lambda>(i, pid). om_put pid (base + int i)) (enumerate 0 (rev chain)) cache"

fun depth_loop ::
    "int oset \<Rightarrow> (int, int) omap \<Rightarrow> ProcessRecord list \<Rightarrow> (int, int) omap \<Rightarrow> (int, int) omap option" where
  "depth_loop all_pids pid_ppid [] cache = Some cache"
| "depth_loop all_pids pid_ppid (p # ps) cache =
     (if om_get cache (pr_pid p) \<noteq> None then depth_loop all_pids pid_ppid ps cache
      else
        case depth_chain all_pids pid_ppid cache [] (pr_pid p) of
          None \<Rightarrow> None
        | Some (chain, cur) \<Rightarrow>
            let base = (case om_get cache cur of Some d \<Rightarrow> d + 1 | None \<Rightarrow> 0)
            in depth_loop all_pids pid_ppid ps (set_depths base chain cache))"

definition timeline_depths :: "ProcessRecord list \<Rightarrow> ProcessRecord list \<Rightarrow> (int, int) omap option" where
  "timeline_depths procs filtered =
     depth_loop (fold (\<lambda>p. os_ins (pr_pid p)) procs []) (fold (\<lambda>p. om_put (pr_pid p) (pr_ppid p)) procs []) filtered []"

section \<open>The critical path\<close>

definition list_proc_map :: "ProcessRecord list \<Rightarrow> (int, ProcessRecord) omap" where
  "list_proc_map procs = fold (\<lambda>p. om_put (pr_pid p) p) procs []"

definition list_children :: "ProcessRecord list \<Rightarrow> (int, int list) omap" where
  "list_children procs = fold (\<lambda>p. om_upd [] (\<lambda>cs. cs @ [pr_pid p]) (pr_ppid p)) procs []"

text \<open>\<open>proc_map[pid]\<close>: a default record for a pid without a row.\<close>

definition proc_at :: "(int, ProcessRecord) omap \<Rightarrow> int \<Rightarrow> ProcessRecord" where
  "proc_at m pid = (case om_get m pid of None \<Rightarrow> ProcessRecord_default | Some p \<Rightarrow> p)"

definition critical_root :: "(int, ProcessRecord) omap \<Rightarrow> int list \<Rightarrow> int" where
  "critical_root m roots =
     fst (fold (\<lambda>r (best, max_span).
            let span = pr_end (proc_at m r) - pr_start (proc_at m r)
            in if span > max_span then (r, span) else (best, max_span)) roots (hd roots, 0))"

definition best_child :: "(int, ProcessRecord) omap \<Rightarrow> int list \<Rightarrow> int" where
  "best_child m cs =
     fst (fold (\<lambda>c (best, best_end).
            let e = pr_end (proc_at m c) in if e > best_end then (c, e) else (best, best_end))
          (tl cs) (hd cs, pr_end (proc_at m (hd cs))))"

partial_function (option) critical_loop ::
    "(int, ProcessRecord) omap \<Rightarrow> (int, int list) omap \<Rightarrow> int \<Rightarrow> ProcessRecord list \<Rightarrow> ProcessRecord list option" where
  "critical_loop m children cur path =
     (let path' = path @ [proc_at m cur] in
      case om_get children cur of
        None \<Rightarrow> Some path'
      | Some cs \<Rightarrow> if cs = [] then Some path' else critical_loop m children (best_child m cs) path')"

text \<open>Without a root \<open>roots[0]\<close> is undefined behaviour: \<open>None\<close>.\<close>

definition critical_path :: "ProcessRecord list \<Rightarrow> ProcessRecord list option" where
  "critical_path procs =
     (let m = list_proc_map procs; roots = list_roots procs in
      if roots = [] then None else critical_loop m (list_children procs) (critical_root m roots) [])"

definition critical_lines :: "ProcessRecord list \<Rightarrow> string" where
  "critical_lines path =
     lines_of (\<lambda>(i, p).
       let dur = pr_end p - pr_start p;
           wait = (if i > 0 then pr_start p - pr_start (path ! (i - 1)) else 0);
           indent = blanks (i * 2)
       in indent @ pid_str (pr_pid p) @ '' '' @ shown_cmd p 60 @ nl @ indent @ ''     duration: '' @
          format_duration_us dur @
          (if i > 0 \<and> wait > 0 then ''  (started '' @ format_duration_us wait @ '' after parent)'' else '''') @ nl)
     (enumerate 0 path)"

definition cmd_critical :: "sq_db \<Rightarrow> string option" where
  "cmd_critical db =
     (let procs = get_all_processes db in
      if procs = [] then Some (''No processes recorded.'' @ nl)
      else case critical_path procs of
             None \<Rightarrow> None
           | Some path \<Rightarrow>
              let r = hd path; total_us = pr_end r - pr_start r
              in Some (''=== Critical Path Analysis ==='' @ nl @ ''Total build time: '' @
                       format_duration_us total_us @ nl @ nl @ critical_lines path))"

end
