(* ===== verification/Viewer_Tree_Proofs.thy ===== *)
theory Viewer_Tree_Proofs
  imports Viewer_Trees
begin

text \<open>
  Correctness of the tree walks of \<open>Viewer_Trees\<close>. What they share is an interface: a parent for
  every process and the list of its children (\<open>process_tree\<close>). It is interpreted on the rows of a
  database and on the list of processes the time line and the critical path are computed from.
\<close>

section \<open>Depths\<close>

text \<open>\<open>at_depth par p n\<close>: \<open>p\<close> is a process with \<open>n\<close> ancestors, the outermost without a known parent.\<close>

inductive at_depth :: "(int \<Rightarrow> int option) \<Rightarrow> int \<Rightarrow> nat \<Rightarrow> bool" for par where
  root: "par p = Some q \<Longrightarrow> par q = None \<Longrightarrow> at_depth par p 0"
| child: "par p = Some q \<Longrightarrow> at_depth par q n \<Longrightarrow> at_depth par p (Suc n)"

inductive_cases at_depthE: "at_depth par p n"
inductive_simps at_depth_0: "at_depth par p 0"
inductive_simps at_depth_Suc: "at_depth par p (Suc n)"

lemma at_depth_process: "at_depth par p n \<Longrightarrow> par p \<noteq> None"
  by (erule at_depthE) auto

lemma at_depth_unique: "at_depth par p n \<Longrightarrow> at_depth par p m \<Longrightarrow> n = m"
proof (induction arbitrary: m rule: at_depth.induct)
  case (root p q)
  then have "\<not> at_depth par q n" for n using at_depth_process by blast
  with root show ?case by (cases m) (simp_all add: at_depth_Suc)
next
  case (child p q n)
  then have "par q \<noteq> None" using at_depth_process by blast
  with child obtain k where "m = Suc k" "at_depth par q k"
    by (cases m) (auto simp: at_depth_0 at_depth_Suc)
  with child.IH show ?case by simp
qed

text \<open>The processes above one at depth \<open>n\<close>.\<close>

abbreviation up_rel :: "(int \<Rightarrow> int option) \<Rightarrow> (int \<times> int) set" where
  "up_rel par \<equiv> {(c, p). par c = Some p}"

lemma at_depth_above: "at_depth par p n \<Longrightarrow> k \<le> n \<Longrightarrow> \<exists>q. at_depth par q k"
proof (induction rule: at_depth.induct)
  case (root p q)
  then show ?case using at_depth.root by auto
next
  case (child p q n)
  then show ?case using at_depth.child [OF child(1,2)] by (auto simp: le_Suc_eq)
qed

lemma at_depth_bound:
  assumes "finite (dom par)" and "at_depth par p n"
  shows "n < card (dom par)"
proof -
  have "\<forall>k \<in> {..n}. \<exists>q. at_depth par q k" using at_depth_above [OF assms(2)] by simp
  then obtain f where f: "\<And>k. k \<le> n \<Longrightarrow> at_depth par (f k) k" by (metis atMost_iff)
  have "inj_on f {..n}" by (rule inj_onI) (use f at_depth_unique in \<open>metis atMost_iff\<close>)
  moreover have "f ` {..n} \<subseteq> dom par" using f at_depth_process by fastforce
  ultimately have "card {..n} \<le> card (dom par)" using assms(1) by (metis card_image card_mono)
  then show ?thesis by simp
qed

lemma below_depth: "(x, p) \<in> (up_rel par)\<^sup>* \<Longrightarrow> at_depth par p d \<Longrightarrow> \<exists>k \<ge> d. at_depth par x k"
proof (induction rule: converse_rtrancl_induct)
  case (step x y)
  then obtain k where "d \<le> k" "at_depth par y k" by blast
  with step(1) show ?case by (intro exI [of _ "Suc k"]) (auto intro: at_depth.child)
qed auto

lemma strictly_below_depth:
  assumes "par x = Some y" "(y, p) \<in> (up_rel par)\<^sup>*" "at_depth par p d" "at_depth par x k"
  shows "d < k"
proof -
  obtain j where "d \<le> j" "at_depth par y j" using below_depth [OF assms(2,3)] by blast
  then have "k = Suc j" using assms(1,4) at_depth.child at_depth_unique by fast
  with \<open>d \<le> j\<close> show ?thesis by simp
qed

text \<open>Subtrees of different processes at one depth have nothing in common.\<close>

lemma same_depth_apart:
  "(x, p) \<in> (up_rel par)\<^sup>* \<Longrightarrow> (x, q) \<in> (up_rel par)\<^sup>* \<Longrightarrow> at_depth par p d \<Longrightarrow> at_depth par q d \<Longrightarrow> p = q"
proof (induction rule: converse_rtrancl_induct)
  case base
  from base(1) show ?case
  proof (cases rule: converse_rtranclE)
    case (step y)
    then have "d < d" using strictly_below_depth [of par p y q d d] base by simp
    then show ?thesis by simp
  qed simp
next
  case (step x y)
  then have x: "par x = Some y" by simp
  from step.prems(1) show ?case
  proof (cases rule: converse_rtranclE)
    case base
    then have "d < d" using strictly_below_depth [of par x y p d d] step x by simp
    then show ?thesis by simp
  next
    case above: (step z)
    from x above(1) have "z = y" by auto
    with above step.prems step.IH show ?thesis by blast
  qed
qed

section \<open>The interface of a process tree\<close>

locale process_tree =
  fixes ok :: "'s \<Rightarrow> bool"
    and par :: "'s \<Rightarrow> int \<Rightarrow> int option"
    and kids :: "'s \<Rightarrow> int \<Rightarrow> int list"
  assumes kids_iff: "ok s \<Longrightarrow> q \<in> set (kids s p) \<longleftrightarrow> par s q = Some p"
    and kids_distinct: "ok s \<Longrightarrow> distinct (kids s p)"
    and finite_par: "ok s \<Longrightarrow> finite (dom (par s))"
begin

lemma tree_induct [consumes 2, case_names node]:
  assumes "ok s" and "at_depth (par s) p d"
    and step: "\<And>p d. at_depth (par s) p d \<Longrightarrow> (\<And>c. c \<in> set (kids s p) \<Longrightarrow> P c (Suc d)) \<Longrightarrow> P p d"
  shows "P p d"
  using assms(2)
proof (induction "card (dom (par s)) - d" arbitrary: p d rule: less_induct)
  case less
  show ?case
  proof (rule step [OF less.prems])
    fix c assume "c \<in> set (kids s p)"
    then have c: "at_depth (par s) c (Suc d)"
      using kids_iff [OF assms(1)] less.prems by (auto intro: at_depth.child)
    then show "P c (Suc d)"
      using at_depth_bound [OF finite_par [OF assms(1)] c] by (intro less.hyps) auto
  qed
qed

lemma kids_depth: "ok s \<Longrightarrow> at_depth (par s) p d \<Longrightarrow> c \<in> set (kids s p) \<Longrightarrow> at_depth (par s) c (Suc d)"
  using kids_iff by (auto intro: at_depth.child)

lemma subtree_unfold:
  "ok s \<Longrightarrow> (x, p) \<in> (up_rel (par s))\<^sup>* \<longleftrightarrow> x = p \<or> (\<exists>c \<in> set (kids s p). (x, c) \<in> (up_rel (par s))\<^sup>*)"
  by (subst rtrancl_unfold) (auto simp: kids_iff)

end

text \<open>\<open>parents_first par S xs\<close>: the parent of every element is in \<open>S\<close> or earlier in the list.\<close>

fun parents_first :: "(int \<Rightarrow> int option) \<Rightarrow> int set \<Rightarrow> int list \<Rightarrow> bool" where
  "parents_first par S [] \<longleftrightarrow> True"
| "parents_first par S (x # xs) \<longleftrightarrow>
     (\<forall>q. par x = Some q \<longrightarrow> par q \<noteq> None \<longrightarrow> q \<in> S) \<and> parents_first par (insert x S) xs"

lemma parents_first_append:
  "parents_first par S (xs @ ys) \<longleftrightarrow> parents_first par S xs \<and> parents_first par (S \<union> set xs) ys"
  by (induction xs arbitrary: S) auto

lemma parents_first_mono: "parents_first par S xs \<Longrightarrow> S \<subseteq> T \<Longrightarrow> parents_first par T xs"
proof (induction xs arbitrary: S T)
  case (Cons x xs)
  then have "parents_first par (insert x T) xs" using Cons.IH [of "insert x S" "insert x T"] by auto
  moreover have "\<forall>q. par x = Some q \<longrightarrow> par q \<noteq> None \<longrightarrow> q \<in> S" using Cons.prems by simp
  ultimately show ?case using Cons.prems(2) by (simp add: subset_iff)
qed simp

section \<open>The rows of a database\<close>

definition db_parent :: "sq_db \<Rightarrow> int \<Rightarrow> int option" where
  "db_parent db pid = map_option pr_ppid (get_process db pid)"

definition db_ok :: "sq_db \<Rightarrow> bool" where
  "db_ok db \<longleftrightarrow> db_inv db \<and> db_readable db"

lemma db_rows_distinct: "db_inv db \<Longrightarrow> distinct (map pr_pid (map snd (db_processes db)))"
proof -
  assume db: "db_inv db"
  then have "map pr_pid (map snd (db_processes db)) = map fst (db_processes db)"
    by (auto simp: db_inv_def rows_ok_def)
  moreover have "distinct (map fst (db_processes db))"
    using db by (intro om_inv_distinct) (simp add: db_inv_def rows_ok_def)
  ultimately show ?thesis by (simp only:)
qed

lemma db_row_iff: "db_ok db \<Longrightarrow> p \<in> snd ` set (db_processes db) \<longleftrightarrow> get_process db (pr_pid p) = Some p"
proof -
  assume "db_ok db"
  then have inv: "om_inv (db_processes db)" and keys: "\<forall>(k, r) \<in> set (db_processes db). pr_pid r = k"
    and r: "db_readable db" by (auto simp: db_ok_def db_inv_def rows_ok_def)
  have "p \<in> snd ` set (db_processes db) \<longleftrightarrow> (pr_pid p, p) \<in> set (db_processes db)" using keys by force
  then show ?thesis by (simp add: get_process_def r om_get_iff [OF inv])
qed

lemma distinct_map_mset: "mset xs = mset ys \<Longrightarrow> distinct (map f xs) \<longleftrightarrow> distinct (map f ys)"
  by (metis distinct_count_atmost_1 mset_map set_mset_mset)

lemma db_kids:
  assumes "db_ok db"
  shows "q \<in> set (map pr_pid (get_children db p)) \<longleftrightarrow> db_parent db q = Some p"
    and "distinct (map pr_pid (get_children db p))"
proof -
  have r: "db_readable db" using assms by (simp add: db_ok_def)
  have pid: "pr_pid x = k" if "get_process db k = Some x" for k x
    using that assms rows_pid by (auto simp: db_ok_def db_inv_def get_process_def)
  show "q \<in> set (map pr_pid (get_children db p)) \<longleftrightarrow> db_parent db q = Some p"
    using db_row_iff [OF assms] by (auto simp: get_children_def r db_parent_def dest: pid)
  have "distinct (map pr_pid (filter (\<lambda>x. pr_ppid x = p) (map snd (db_processes db))))"
    by (intro distinct_map_filter db_rows_distinct) (use assms in \<open>simp add: db_ok_def\<close>)
  then show "distinct (map pr_pid (get_children db p))"
    by (simp only: get_children_def r if_True distinct_map_mset [OF std_sort_mset])
qed

interpretation db_tree: process_tree db_ok db_parent "\<lambda>db p. map pr_pid (get_children db p)"
proof unfold_locales
  fix s assume "db_ok s"
  have "dom (db_parent s) \<subseteq> set (om_keys (db_processes s))"
    by (auto simp: db_parent_def get_process_def om_keys_set split: if_splits)
  then show "finite (dom (db_parent s))" by (rule finite_subset) simp
qed (use db_kids in auto)

section \<open>The printed tree\<close>

text \<open>The lines printed for the processes \<open>ps\<close> of one depth and everything below them.\<close>

definition listing :: "(int \<times> 'b \<Rightarrow> nat \<Rightarrow> bool) \<Rightarrow> (int \<Rightarrow> int option) \<Rightarrow> int list \<Rightarrow> (int \<times> 'b) list \<Rightarrow> bool" where
  "listing at par ps L \<longleftrightarrow>
     distinct (map fst L) \<and> fst ` set L = {x. \<exists>p \<in> set ps. (x, p) \<in> (up_rel par)\<^sup>*}
     \<and> (\<forall>e \<in> set L. \<exists>n. at_depth par (fst e) n \<and> at e n)
     \<and> (\<forall>S. (\<forall>p \<in> set ps. \<forall>q. par p = Some q \<longrightarrow> par q \<noteq> None \<longrightarrow> q \<in> S) \<longrightarrow> parents_first par S (map fst L))"

lemma listing_parents:
  assumes "listing at par ps L" and "\<And>p q. p \<in> set ps \<Longrightarrow> par p = Some q \<Longrightarrow> par q \<noteq> None \<Longrightarrow> q \<in> S"
  shows "parents_first par S (map fst L)"
proof -
  have "\<forall>p \<in> set ps. \<forall>q. par p = Some q \<longrightarrow> par q \<noteq> None \<longrightarrow> q \<in> S" using assms(2) by blast
  with assms(1) show ?thesis unfolding listing_def by blast
qed

lemma listing_append:
  assumes "listing at par ps L" "listing at par qs M"
    and depth: "\<forall>p \<in> set (ps @ qs). at_depth par p d" and "distinct (ps @ qs)"
  shows "listing at par (ps @ qs) (L @ M)"
proof -
  have "fst ` set L \<inter> fst ` set M = {}"
  proof (rule ccontr)
    assume "fst ` set L \<inter> fst ` set M \<noteq> {}"
    then obtain x p q where "p \<in> set ps" "(x, p) \<in> (up_rel par)\<^sup>*" "q \<in> set qs" "(x, q) \<in> (up_rel par)\<^sup>*"
      using assms(1,2) by (auto simp: listing_def)
    moreover from this have "p = q" using depth by (intro same_depth_apart) auto
    ultimately show False using assms(4) by auto
  qed
  moreover have "fst ` set (L @ M) = {x. \<exists>p \<in> set (ps @ qs). (x, p) \<in> (up_rel par)\<^sup>*}"
    using assms(1,2) by (auto simp: listing_def image_Un)
  moreover have "parents_first par S (map fst (L @ M))"
    if S: "\<forall>p \<in> set (ps @ qs). \<forall>q. par p = Some q \<longrightarrow> par q \<noteq> None \<longrightarrow> q \<in> S" for S
  proof -
    have "parents_first par S (map fst L)" using S by (intro listing_parents [OF assms(1)]) auto
    moreover have "parents_first par S (map fst M)" using S by (intro listing_parents [OF assms(2)]) auto
    ultimately show ?thesis by (simp add: parents_first_append parents_first_mono [of par S])
  qed
  ultimately show ?thesis using assms(1,2) unfolding listing_def by auto
qed

context process_tree
begin

lemma listing_node:
  assumes "ok s" "at_depth (par s) p d" "at (p, e) d"
    and below: "listing at (par s) (kids s p) M"
  shows "listing at (par s) [p] ((p, e) # M)"
proof -
  have sub: "(x, p) \<in> (up_rel (par s))\<^sup>* \<longleftrightarrow> x = p \<or> x \<in> fst ` set M" for x
    using below subtree_unfold [OF assms(1), of x p] by (simp add: listing_def)
  have "p \<notin> fst ` set M"
  proof
    assume "p \<in> fst ` set M"
    then obtain c where c: "c \<in> set (kids s p)" "(p, c) \<in> (up_rel (par s))\<^sup>*"
      using below by (auto simp: listing_def)
    have "at_depth (par s) c (Suc d)" by (rule kids_depth [OF assms(1,2) c(1)])
    from below_depth [OF c(2) this] obtain k where "Suc d \<le> k" "at_depth (par s) p k" by blast
    then show False using at_depth_unique [OF assms(2)] by fastforce
  qed
  moreover have "parents_first (par s) (insert p S) (map fst M)" for S
    by (rule listing_parents [OF below]) (simp only: kids_iff [OF assms(1)], simp)
  ultimately show ?thesis using below assms(2,3) sub by (auto simp: listing_def)
qed

end

text \<open>The command line prints four columns per ancestor.\<close>

definition indented :: "tree_entry \<Rightarrow> nat \<Rightarrow> bool" where
  "indented e n \<longleftrightarrow> length (fst (snd e)) = 4 * n"

definition entry_line :: "sq_db \<Rightarrow> int \<Rightarrow> tree_entry \<Rightarrow> string" where
  "entry_line db slow_us t =
     tree_line slow_us (case get_process db (fst t) of None \<Rightarrow> ProcessRecord_default | Some p \<Rightarrow> p) (fst (snd t)) (snd (snd t))"

lemma print_trees_Nil: "print_trees db slow_us [] = Some []"
  by (subst print_trees.simps) simp

lemma print_trees_Cons: "get_process db (fst t) \<noteq> None \<Longrightarrow>
  print_trees db slow_us (child_entries db t) = Some (lines_of (entry_line db slow_us) M) \<Longrightarrow>
  print_trees db slow_us rest = Some (lines_of (entry_line db slow_us) N) \<Longrightarrow>
  print_trees db slow_us (t # rest) = Some (lines_of (entry_line db slow_us) ((t # M) @ N))"
  by (subst print_trees.simps) (auto simp: entry_line_def)

lemma tree_entries_fst: "map fst (tree_entries prefix pids) = pids"
  by (simp add: tree_entries_def case_prod_beta o_def flip: enumerate_eq_zip) 

lemma tree_entries_mem: "t \<in> set (tree_entries prefix pids) \<Longrightarrow> fst t \<in> set pids \<and> fst (snd t) = prefix"
  by (auto simp: tree_entries_def in_set_enumerate_eq)

definition printed :: "sq_db \<Rightarrow> int \<Rightarrow> tree_entry list \<Rightarrow> bool" where
  "printed db slow_us ts \<longleftrightarrow>
     (\<exists>L. print_trees db slow_us ts = Some (lines_of (entry_line db slow_us) L)
        \<and> listing indented (db_parent db) (map fst ts) L)"

lemma printed_list:
  assumes "\<And>t. t \<in> set ts \<Longrightarrow> at_depth (db_parent db) (fst t) d \<and> printed db slow_us [t]" "distinct (map fst ts)"
  shows "printed db slow_us ts"
  using assms
proof (induction ts)
  case Nil
  show ?case by (auto simp: printed_def print_trees_Nil listing_def intro!: exI [of _ "[]"])
next
  case (Cons t ts)
  then obtain N where N: "print_trees db slow_us ts = Some (lines_of (entry_line db slow_us) N)"
    "listing indented (db_parent db) (map fst ts) N" by (auto simp: printed_def)
  have "printed db slow_us [t]" using Cons.prems(1) [of t] by simp
  then obtain L where L: "print_trees db slow_us [t] = Some (lines_of (entry_line db slow_us) L)"
    "listing indented (db_parent db) [fst t] L" by (auto simp: printed_def)
  have "get_process db (fst t) \<noteq> None"
    using Cons.prems(1) [of t] at_depth_process by (fastforce simp: db_parent_def)
  then have "print_trees db slow_us (t # ts) = Some (lines_of (entry_line db slow_us) (L @ N))"
    using L(1) N(1) print_trees.simps [of db slow_us "[t]"] print_trees.simps [of db slow_us "t # ts"]
    by (auto simp: print_trees_Nil bind_eq_Some_conv)
  moreover have "listing indented (db_parent db) ([fst t] @ map fst ts) (L @ N)"
    using Cons.prems by (intro listing_append [OF L(2) N(2), of d]) auto
  ultimately show ?case unfolding printed_def by (intro exI [of _ "L @ N"]) simp
qed

lemma printed_tree:
  assumes "db_ok db" "at_depth (db_parent db) p d"
  shows "\<forall>prefix is_last. length prefix = 4 * d \<longrightarrow> printed db slow_us [(p, prefix, is_last)]"
  using assms
proof (induction rule: db_tree.tree_induct)
  case (node p d)
  show ?case
  proof (intro allI impI)
    fix prefix :: string and is_last :: bool assume len: "length prefix = 4 * d"
    let ?t = "(p, prefix, is_last)"
    have "printed db slow_us (child_entries db ?t)"
    proof (rule printed_list)
      fix t assume t: "t \<in> set (child_entries db ?t)"
      then have "fst t \<in> set (map pr_pid (get_children db p))" "length (fst (snd t)) = 4 * Suc d"
        using tree_entries_mem len by (fastforce simp: child_entries_def)+
      then show "at_depth (db_parent db) (fst t) (Suc d) \<and> printed db slow_us [t]"
        using node.IH [of "fst t"] db_tree.kids_depth [OF assms(1) node.hyps] by (metis prod.collapse)
    next
      show "distinct (map fst (child_entries db ?t))"
        using db_tree.kids_distinct [OF assms(1), of p] by (simp add: child_entries_def tree_entries_fst)
    qed
    then obtain M where M: "print_trees db slow_us (child_entries db ?t) = Some (lines_of (entry_line db slow_us) M)"
      "listing indented (db_parent db) (map pr_pid (get_children db p)) M"
      by (auto simp: printed_def child_entries_def tree_entries_fst)
    have "get_process db (fst ?t) \<noteq> None"
      using at_depth_process [OF node.hyps] by (auto simp: db_parent_def)
    from print_trees_Cons [OF this M(1), of "[]" "[]"]
    have "print_trees db slow_us [?t] = Some (lines_of (entry_line db slow_us) (?t # M))"
      by (simp add: print_trees_Nil)
    then show "printed db slow_us [?t]"
      using db_tree.listing_node [OF assms(1) node.hyps _ M(2), of "(prefix, is_last)"] len
      unfolding printed_def by (intro exI [of _ "?t # M"]) (simp add: indented_def)
  qed
qed

lemma list_roots_rows:
  assumes "db_ok db"
  shows "p \<in> set (list_roots (get_all_processes db)) \<longleftrightarrow> at_depth (db_parent db) p 0"
    and "distinct (list_roots (get_all_processes db))"
proof -
  have r: "db_readable db" using assms by (simp add: db_ok_def)
  have rows: "x \<in> set (get_all_processes db) \<longleftrightarrow> get_process db (pr_pid x) = Some x" for x
    using db_row_iff [OF assms] by (simp add: get_all_processes_def r)
  have pid: "pr_pid x = k" if "get_process db k = Some x" for k x
    using that assms rows_pid by (auto simp: db_ok_def db_inv_def get_process_def)
  have "k \<in> pr_pid ` set (get_all_processes db) \<longleftrightarrow> db_parent db k \<noteq> None" for k
  proof
    assume "db_parent db k \<noteq> None"
    then obtain y where "get_process db k = Some y" by (auto simp: db_parent_def)
    moreover from this have "pr_pid y = k" by (rule pid)
    ultimately have "y \<in> set (get_all_processes db)" "k = pr_pid y" by (simp_all add: rows)
    then show "k \<in> pr_pid ` set (get_all_processes db)" by blast
  qed (auto simp: rows db_parent_def)
  then show "p \<in> set (list_roots (get_all_processes db)) \<longleftrightarrow> at_depth (db_parent db) p 0"
    by (auto simp: list_roots_def Let_def at_depth_0 rows db_parent_def dest: pid)
  have all: "get_all_processes db = std_sort start_less (map snd (db_processes db))"
    by (simp add: get_all_processes_def r)
  have "distinct (map pr_pid (get_all_processes db))"
    unfolding all distinct_map_mset [OF std_sort_mset]
    by (rule db_rows_distinct) (use assms in \<open>simp add: db_ok_def\<close>)
  then show "distinct (list_roots (get_all_processes db))"
    unfolding list_roots_def Let_def by (rule distinct_map_filter)
qed

lemma rooted_iff: "(\<exists>d. at_depth par p d) \<longleftrightarrow> (\<exists>r. at_depth par r 0 \<and> (p, r) \<in> (up_rel par)\<^sup>*)"
proof
  assume "\<exists>d. at_depth par p d"
  then obtain d where "at_depth par p d" by blast
  then show "\<exists>r. at_depth par r 0 \<and> (p, r) \<in> (up_rel par)\<^sup>*"
  proof induction
    case (root p q)
    then show ?case using at_depth.root by blast
  next
    case (child p q n)
    then show ?case by (auto intro: converse_rtrancl_into_rtrancl)
  qed
qed (use below_depth in blast)

text \<open>
  C31. The printed process tree is complete and ends: on a consistent database \<open>tree\<close> always returns,
  whatever the parents recorded, and prints one line for every process that has a root above it, each
  exactly once and after the line of its parent, indented by four columns per ancestor. What it does
  not print are the processes on or below a cycle of parents.
\<close>

theorem cmd_tree_exact:
  assumes "db_inv db" "db_readable db" "get_all_processes db \<noteq> []"
  shows "\<exists>L. cmd_tree db slow_us = Some (lines_of (entry_line db slow_us) L)
     \<and> distinct (map fst L) \<and> fst ` set L = {p. \<exists>d. at_depth (db_parent db) p d}
     \<and> (\<forall>e \<in> set L. \<exists>d. at_depth (db_parent db) (fst e) d \<and> length (fst (snd e)) = 4 * d)
     \<and> parents_first (db_parent db) {} (map fst L)"
proof -
  have ok: "db_ok db" using assms by (simp add: db_ok_def)
  let ?ts = "tree_entries [] (list_roots (get_all_processes db))"
  have "printed db slow_us ?ts"
  proof (rule printed_list)
    fix t assume "t \<in> set ?ts"
    then have "at_depth (db_parent db) (fst t) 0" "fst (snd t) = []"
      using tree_entries_mem list_roots_rows(1) [OF ok] by blast+
    then show "at_depth (db_parent db) (fst t) 0 \<and> printed db slow_us [t]"
      using printed_tree [OF ok, of "fst t" 0 slow_us] by (metis list.size(3) mult_0_right prod.collapse)
  qed (simp add: tree_entries_fst list_roots_rows(2) [OF ok])
  then obtain L where L: "print_trees db slow_us ?ts = Some (lines_of (entry_line db slow_us) L)"
    "listing indented (db_parent db) (list_roots (get_all_processes db)) L"
    by (auto simp: printed_def tree_entries_fst)
  moreover have "parents_first (db_parent db) {} (map fst L)"
    using list_roots_rows(1) [OF ok] by (intro listing_parents [OF L(2)]) (auto simp: at_depth_0)
  moreover have "fst ` set L = {p. \<exists>d. at_depth (db_parent db) p d}"
    using L(2) list_roots_rows(1) [OF ok] unfolding rooted_iff by (auto simp: listing_def)
  ultimately show ?thesis using assms(3) by (auto simp: cmd_tree_def listing_def indented_def)
qed

definition tree_db :: sq_db where
  "tree_db = snd (insert_process (process_at 2 1) (snd (insert_process (process_at 1 0) (db_empty (\<lambda>_. True)))))"

lemma tree_db_ok: "db_inv tree_db" "db_readable tree_db" "get_all_processes tree_db \<noteq> []"
proof -
  show "db_inv tree_db" unfolding tree_db_def by (intro insert_process_inv db_inv_empty)
  show "db_readable tree_db" "get_all_processes tree_db \<noteq> []" by code_simp+
qed

lemma cmd_tree_exact_witness:
  "\<exists>L. cmd_tree tree_db 0 = Some (lines_of (entry_line tree_db 0) L) \<and> distinct (map fst L)"
  using cmd_tree_exact [OF tree_db_ok, of 0] by blast

section \<open>The chain of ancestors\<close>

definition chain_state :: "sq_db \<Rightarrow> int \<Rightarrow> int oset \<Rightarrow> int \<Rightarrow> ProcessRecord list \<Rightarrow> bool" where
  "chain_state db pid visited cur chain \<longleftrightarrow>
     distinct (map pr_pid chain) \<and> set visited = pr_pid ` set chain
     \<and> (\<forall>p \<in> set chain. get_process db (pr_pid p) = Some p)
     \<and> successively (\<lambda>p q. pr_ppid p = pr_pid q) chain
     \<and> (if chain = [] then cur = pid else pr_pid (hd chain) = pid \<and> cur = pr_ppid (last chain))"

lemma ancestor_loop_state:
  "db_ok db \<Longrightarrow> chain_state db pid visited cur chain \<Longrightarrow>
     \<exists>visited' cur'. chain_state db pid visited' cur' (ancestor_loop db visited cur chain)
       \<and> (cur' \<in> set visited' \<or> get_process db cur' = None)"
proof (induction db visited cur chain rule: ancestor_loop.induct)
  case (1 db visited cur chain)
  show ?case
  proof (cases "cur \<in> set visited \<or> get_process db cur = None")
    case True
    then have "ancestor_loop db visited cur chain = chain"
      by (subst ancestor_loop.simps) auto
    with True 1 show ?thesis by auto
  next
    case False
    then obtain rec where rec: "get_process db cur = Some rec" by auto
    then have pid: "pr_pid rec = cur"
      using 1(2) rows_pid by (auto simp: db_ok_def db_inv_def get_process_def)
    have "chain_state db pid (os_ins cur visited) (pr_ppid rec) (chain @ [rec])"
      using 1(3) False rec pid by (auto simp: chain_state_def successively_append_iff hd_append)
    from 1(1) [OF _ rec 1(2) this] False rec show ?thesis
      by (subst ancestor_loop.simps) auto
  qed
qed

text \<open>
  The chain of ancestors of a process is found whatever the parents are: it starts with the
  process, every entry is the parent of the one before it, none is repeated, and it stops only where
  the parent is not a recorded process or already is in the chain. It is empty exactly for an unknown pid.
\<close>

theorem ancestor_chain_exact:
  assumes "db_inv db" "db_readable db" "get_ancestor_chain db pid = chain"
  shows "distinct (map pr_pid chain) \<and> (\<forall>p \<in> set chain. get_process db (pr_pid p) = Some p)
    \<and> successively (\<lambda>p q. pr_ppid p = pr_pid q) chain
    \<and> (chain = [] \<longleftrightarrow> get_process db pid = None)
    \<and> (chain \<noteq> [] \<longrightarrow> pr_pid (hd chain) = pid
        \<and> (get_process db (pr_ppid (last chain)) = None \<or> pr_ppid (last chain) \<in> pr_pid ` set chain))"
proof -
  have ok: "db_ok db" using assms by (simp add: db_ok_def)
  have "chain_state db pid [] pid []" by (simp add: chain_state_def)
  from ancestor_loop_state [OF ok this] obtain visited cur where
    "chain_state db pid visited cur chain" "cur \<in> set visited \<or> get_process db cur = None"
    using assms(3) by (auto simp: get_ancestor_chain_def)
  then show ?thesis by (auto simp: chain_state_def split: if_splits)
qed

lemma ancestor_chain_exact_witness:
  "pr_pid (hd (get_ancestor_chain tree_db 2)) = 2"
proof -
  have "\<not> Option.is_none (get_process tree_db 2)" by code_simp
  then show ?thesis using ancestor_chain_exact [OF tree_db_ok(1,2) refl, of 2] by (simp add: Option.is_none_def)
qed

section \<open>The list of processes\<close>

definition list_parent :: "ProcessRecord list \<Rightarrow> int \<Rightarrow> int option" where
  "list_parent procs = om_get (fold (\<lambda>p. om_put (pr_pid p) (pr_ppid p)) procs [])"

definition list_kids :: "ProcessRecord list \<Rightarrow> int \<Rightarrow> int list" where
  "list_kids procs p = (case om_get (list_children procs) p of None \<Rightarrow> [] | Some cs \<Rightarrow> cs)"

lemma fold_put_get:
  fixes f :: "'a \<Rightarrow> int" and g :: "'a \<Rightarrow> 'b"
  shows "distinct (map f ps) \<Longrightarrow> om_get (fold (\<lambda>p. om_put (f p) (g p)) ps m) k =
    (case find (\<lambda>p. f p = k) ps of Some p \<Rightarrow> Some (g p) | None \<Rightarrow> om_get m k)"
proof (induction ps arbitrary: m)
  case (Cons p ps)
  have "find (\<lambda>q. f q = k) ps = None" if "f p = k"
    unfolding find_None_iff using Cons.prems that by (auto simp: image_iff)
  with Cons show ?case by (auto simp: om_get_put split: option.splits)
qed simp

lemma fold_put_row:
  fixes f :: "'a \<Rightarrow> int" and g :: "'a \<Rightarrow> 'b"
  assumes "distinct (map f ps)"
  shows "om_get (fold (\<lambda>p. om_put (f p) (g p)) ps []) k = Some v \<longleftrightarrow> (\<exists>p \<in> set ps. f p = k \<and> g p = v)"
proof -
  have inj: "p = q" if "p \<in> set ps" "q \<in> set ps" "f p = f q" for p q
    using assms that by (auto simp: distinct_map dest: inj_onD)
  show ?thesis
  proof (cases "find (\<lambda>p. f p = k) ps")
    case None
    then have "om_get (fold (\<lambda>p. om_put (f p) (g p)) ps []) k = None"
      using fold_put_get [OF assms, of g "[]" k] by simp
    moreover have "\<forall>p \<in> set ps. f p \<noteq> k" using None by (simp add: find_None_iff)
    ultimately show ?thesis by auto
  next
    case (Some p)
    then have "p \<in> set ps" "f p = k" by (auto simp: find_Some_iff)
    then show ?thesis using fold_put_get [OF assms, of g "[]" k] Some inj by auto
  qed
qed

lemma list_parent_row:
  "distinct (map pr_pid procs) \<Longrightarrow> list_parent procs k = Some q \<longleftrightarrow> (\<exists>p \<in> set procs. pr_pid p = k \<and> pr_ppid p = q)"
  unfolding list_parent_def by (rule fold_put_row)

lemma list_kids_filter: "list_kids procs p = map pr_pid (filter (\<lambda>q. pr_ppid q = p) procs)"
proof -
  have "(case om_get (fold (\<lambda>p. om_upd [] (\<lambda>cs. cs @ [pr_pid p]) (pr_ppid p)) procs m) p of None \<Rightarrow> [] | Some cs \<Rightarrow> cs)
      = (case om_get m p of None \<Rightarrow> [] | Some cs \<Rightarrow> cs) @ map pr_pid (filter (\<lambda>q. pr_ppid q = p) procs)" for m
    by (induction procs arbitrary: m) (auto simp: om_get_upd)
  then show ?thesis by (simp add: list_kids_def list_children_def)
qed

interpretation list_tree: process_tree "\<lambda>procs. distinct (map pr_pid procs)" list_parent list_kids
proof unfold_locales
  fix s :: "ProcessRecord list" and p q
  assume d: "distinct (map pr_pid s)"
  show "q \<in> set (list_kids s p) \<longleftrightarrow> list_parent s q = Some p"
    using list_parent_row [OF d, of q p] by (auto simp: list_kids_filter)
  show "distinct (list_kids s p)" unfolding list_kids_filter by (rule distinct_map_filter [OF d])
  have "dom (list_parent s) \<subseteq> pr_pid ` set s" by (auto simp: list_parent_row [OF d])
  then show "finite (dom (list_parent s))" by (rule finite_subset) simp
qed

lemma list_roots_iff:
  "distinct (map pr_pid procs) \<Longrightarrow> p \<in> set (list_roots procs) \<longleftrightarrow> at_depth (list_parent procs) p 0"
proof -
  assume d: "distinct (map pr_pid procs)"
  have "list_parent procs k = None \<longleftrightarrow> k \<notin> pr_pid ` set procs" for k
    using list_parent_row [OF d, of k] by (cases "list_parent procs k") (auto simp: image_iff)
  then show ?thesis by (auto simp: list_roots_def Let_def at_depth_0 list_parent_row [OF d])
qed

section \<open>The depths of the time line\<close>

definition depths_ok :: "(int \<Rightarrow> int option) \<Rightarrow> (int, int) omap \<Rightarrow> bool" where
  "depths_ok par cache \<longleftrightarrow> (\<forall>k v. om_get cache k = Some v \<longrightarrow> (\<exists>d. at_depth par k d \<and> v = int d))"

definition base_depth :: "(int, int) omap \<Rightarrow> int \<Rightarrow> int" where
  "base_depth cache stop = (case om_get cache stop of Some d \<Rightarrow> d + 1 | None \<Rightarrow> 0)"

lemma depth_chain_step:
  assumes "\<And>k. k \<in> set pids \<longleftrightarrow> om_get m k \<noteq> None" "om_get m cur = Some q" "om_get cache cur = None"
  shows "depth_chain pids m cache chain cur = depth_chain pids m cache (chain @ [cur]) q"
  by (subst depth_chain.simps) (simp add: assms)

lemma depth_chain_stop:
  assumes "\<And>k. k \<in> set pids \<longleftrightarrow> om_get m k \<noteq> None" "om_get m cur = None \<or> om_get cache cur \<noteq> None"
  shows "depth_chain pids m cache chain cur = Some (chain, cur)"
  by (subst depth_chain.simps) (use assms in auto)

lemma depth_chain_returns:
  assumes pids: "\<And>k. k \<in> set pids \<longleftrightarrow> om_get m k \<noteq> None" and ok: "depths_ok (om_get m) cache"
  shows "at_depth (om_get m) p d \<Longrightarrow>
    \<exists>path stop. depth_chain pids m cache chain p = Some (chain @ path, stop) \<and> hd (path @ [stop]) = p
      \<and> (path = [] \<longrightarrow> om_get cache p \<noteq> None)
      \<and> (\<forall>i < length path. \<exists>d. at_depth (om_get m) (rev path ! i) d \<and> int d = base_depth cache stop + int i)"
proof (induction arbitrary: chain rule: at_depth.induct)
  case (root p q)
  show ?case
  proof (cases "om_get cache p = None")
    case True
    have "\<not> at_depth (om_get m) q d" for d using root(2) at_depth_process [of "om_get m" q d] by blast
    then have "om_get cache q = None" using ok by (cases "om_get cache q") (auto simp: depths_ok_def)
    with True root show ?thesis
      by (intro exI [of _ "[p]"] exI [of _ q])
        (auto simp: depth_chain_step [OF pids] depth_chain_stop [OF pids] base_depth_def intro: at_depth.root)
  next
    case False
    then show ?thesis by (intro exI [of _ "[]"] exI [of _ p]) (simp add: depth_chain_stop [OF pids])
  qed
next
  case (child p q n)
  show ?case
  proof (cases "om_get cache p = None")
    case True
    obtain path stop where IH: "depth_chain pids m cache (chain @ [p]) q = Some ((chain @ [p]) @ path, stop)"
      "hd (path @ [stop]) = q" "path = [] \<longrightarrow> om_get cache q \<noteq> None"
      "\<And>i. i < length path \<Longrightarrow> \<exists>d. at_depth (om_get m) (rev path ! i) d \<and> int d = base_depth cache stop + int i"
      using child.IH [of "chain @ [p]"] by blast
    have n: "int n + 1 = base_depth cache stop + int (length path)"
    proof (cases path)
      case Nil
      with IH(2,3) obtain v where "om_get cache q = Some v" "stop = q" by auto
      with ok child(2) Nil show ?thesis
        by (auto simp: depths_ok_def base_depth_def dest: at_depth_unique)
    next
      case (Cons a as)
      then have "rev path ! length as = q" using IH(2) by (simp add: nth_append)
      then show ?thesis using IH(4) [of "length as"] Cons at_depth_unique [OF child(2)] by fastforce
    qed
    have "\<exists>d. at_depth (om_get m) (rev (p # path) ! i) d \<and> int d = base_depth cache stop + int i"
      if "i < length (p # path)" for i
    proof (cases "i < length path")
      case True
      then show ?thesis using IH(4) by (simp add: nth_append)
    next
      case False
      with that have "i = length path" by simp
      then show ?thesis using n at_depth.child [OF child(1,2)] by (intro exI [of _ "Suc n"]) (simp add: nth_append)
    qed
    with IH(1) True child(1) show ?thesis
      by (intro exI [of _ "p # path"] exI [of _ stop]) (simp add: depth_chain_step [OF pids])
  next
    case False
    then show ?thesis by (intro exI [of _ "[]"] exI [of _ p]) (simp add: depth_chain_stop [OF pids])
  qed
qed

lemma fold_put_enumerate:
  "om_get (fold (\<lambda>(i, pid). om_put pid (b + int i)) (enumerate n xs) cache) k = Some v \<Longrightarrow>
     om_get cache k = Some v \<or> (\<exists>i < length xs. xs ! i = k \<and> v = b + int (n + i))"
proof (induction xs arbitrary: n cache)
  case (Cons x xs)
  from Cons.IH [of "Suc n" "om_put x (b + int n) cache"] Cons.prems
  consider "om_get (om_put x (b + int n) cache) k = Some v"
    | i where "i < length xs" "xs ! i = k" "v = b + int (Suc n + i)" by auto
  then show ?case
  proof cases
    case 1
    then show ?thesis by (auto simp: om_get_put split: if_splits)
  next
    case 2
    then show ?thesis by (intro disjI2 exI [of _ "Suc i"]) simp
  qed
qed simp

lemma fold_put_enumerate_dom:
  "om_get (fold (\<lambda>(i, pid). om_put pid (b + int i)) (enumerate n xs) cache) k \<noteq> None \<longleftrightarrow>
     om_get cache k \<noteq> None \<or> k \<in> set xs"
  by (induction xs arbitrary: n cache) (auto simp: om_get_put)

lemma set_depths_ok:
  assumes "depths_ok par cache"
    and "\<forall>i < length path. \<exists>d. at_depth par (rev path ! i) d \<and> int d = base + int i"
  shows "depths_ok par (set_depths base path cache)"
proof -
  have "\<exists>d. at_depth par k d \<and> v = int d" if "om_get (set_depths base path cache) k = Some v" for k v
    using fold_put_enumerate [OF that [unfolded set_depths_def]] assms by (fastforce simp: depths_ok_def)
  then show ?thesis by (simp add: depths_ok_def)
qed

lemma depth_chain_sound:
  assumes "depth_chain pids m cache chain cur = Some r"
    and "\<And>k. k \<in> set pids \<longleftrightarrow> om_get m k \<noteq> None" and "depths_ok (om_get m) cache"
  shows "om_get m cur = None \<or> (\<exists>d. at_depth (om_get m) cur d)"
proof -
  define rooted where "rooted pids m cache chain cur r \<longleftrightarrow>
      (\<forall>k. k \<in> set pids \<longleftrightarrow> om_get m k \<noteq> None) \<longrightarrow> depths_ok (om_get m) cache \<longrightarrow>
      om_get m cur = None \<or> (\<exists>d. at_depth (om_get m) cur d)"
    for pids :: "int oset" and m cache :: "(int, int) omap" and chain :: "int list" and cur and r :: "int list \<times> int"
  have "rooted pids m cache chain cur r"
  proof (rule depth_chain.raw_induct [of rooted pids m cache chain cur r], goal_cases)
    case (1 rec pids m cache chain cur r)
    show ?case unfolding rooted_def
    proof (intro impI)
      assume pids: "\<forall>k. k \<in> set pids \<longleftrightarrow> om_get m k \<noteq> None" and ok: "depths_ok (om_get m) cache"
      show "om_get m cur = None \<or> (\<exists>d. at_depth (om_get m) cur d)"
      proof (cases "cur \<in> set pids \<and> om_get cache cur = None")
        case True
        then obtain p where p: "om_get m cur = Some p" using pids by auto
        with True 1(2) have "rec pids m cache (chain @ [cur]) p = Some r" by simp
        then have "rooted pids m cache (chain @ [cur]) p r" by (rule 1(1))
        with pids ok p show ?thesis by (auto simp: rooted_def intro: at_depth.intros)
      next
        case False
        then consider "om_get m cur = None" | v where "om_get cache cur = Some v" using pids by auto
        then show ?thesis
        proof cases
          case 2
          then have "\<exists>d. at_depth (om_get m) cur d \<and> v = int d" using ok unfolding depths_ok_def by blast
          then show ?thesis by blast
        qed simp
      qed
    qed
  qed (rule assms(1))
  with assms(2,3) show ?thesis by (simp add: rooted_def)
qed

text \<open>The loop: it returns exactly if every process it asks for is rooted.\<close>

lemma depth_loop_exact:
  assumes pids: "\<And>k. k \<in> set pids \<longleftrightarrow> om_get m k \<noteq> None"
  shows "depths_ok (om_get m) cache \<Longrightarrow> \<forall>p \<in> set ps. om_get m (pr_pid p) \<noteq> None \<Longrightarrow>
    (depth_loop pids m ps cache \<noteq> None \<longleftrightarrow> (\<forall>p \<in> set ps. \<exists>d. at_depth (om_get m) (pr_pid p) d))
    \<and> (\<forall>c. depth_loop pids m ps cache = Some c \<longrightarrow> depths_ok (om_get m) c
         \<and> (\<forall>k. om_get cache k \<noteq> None \<or> k \<in> pr_pid ` set ps \<longrightarrow> om_get c k \<noteq> None))"
proof (induction ps arbitrary: cache)
  case (Cons p ps)
  let ?rooted = "\<lambda>k. \<exists>d. at_depth (om_get m) k d"
  show ?case
  proof (cases "om_get cache (pr_pid p) = None")
    case False
    then have "?rooted (pr_pid p)" using Cons.prems(1) by (auto simp: depths_ok_def)
    with False Cons.IH [OF Cons.prems(1)] Cons.prems(2) show ?thesis by auto
  next
    case new: True
    show ?thesis
    proof (cases "depth_chain pids m cache [] (pr_pid p)")
      case None
      have "\<not> ?rooted (pr_pid p)"
        using depth_chain_returns [OF pids Cons.prems(1), of "pr_pid p" _ "[]"] None by auto
      with new None show ?thesis by auto
    next
      case (Some r)
      then have "om_get m (pr_pid p) = None \<or> ?rooted (pr_pid p)"
        using pids Cons.prems(1) by (rule depth_chain_sound)
      then obtain d where d: "at_depth (om_get m) (pr_pid p) d" using Cons.prems(2) by auto
      obtain path stop where path: "r = (path, stop)" "hd (path @ [stop]) = pr_pid p" "path \<noteq> []"
        "\<forall>i < length path. \<exists>d. at_depth (om_get m) (rev path ! i) d \<and> int d = base_depth cache stop + int i"
        using depth_chain_returns [OF pids Cons.prems(1) d, of "[]"] Some new by auto
      let ?c = "set_depths (base_depth cache stop) path cache"
      have ok: "depths_ok (om_get m) ?c" by (rule set_depths_ok [OF Cons.prems(1) path(4)])
      have loop: "depth_loop pids m (p # ps) cache = depth_loop pids m ps ?c"
        using new Some path(1) by (simp add: base_depth_def Let_def)
      have dom: "om_get ?c k \<noteq> None \<longleftrightarrow> om_get cache k \<noteq> None \<or> k \<in> set path" for k
        unfolding set_depths_def fold_put_enumerate_dom by simp
      have "pr_pid p \<in> set path" using path(2,3) by (cases path) auto
      with Cons.IH [OF ok] Cons.prems(2) d dom show ?thesis unfolding loop by auto
    qed
  qed
qed simp

text \<open>
  The depths of the time line: for processes of a list with distinct pids the loops end exactly
  when every process shown has a root above it, and then the indentation is its number of ancestors
  in the list, whichever order the processes are shown in. With a cycle of parents below which a
  shown process lies, the command does not return.
\<close>

theorem timeline_depths_exact:
  assumes "distinct (map pr_pid procs)" "set shown \<subseteq> set procs"
  shows "(timeline_depths procs shown \<noteq> None \<longleftrightarrow> (\<forall>p \<in> set shown. \<exists>d. at_depth (list_parent procs) (pr_pid p) d))
    \<and> (\<forall>c. timeline_depths procs shown = Some c \<longrightarrow>
         (\<forall>p \<in> set shown. \<exists>d. at_depth (list_parent procs) (pr_pid p) d \<and> om_get c (pr_pid p) = Some (int d)))"
proof -
  let ?pids = "fold (\<lambda>p. os_ins (pr_pid p)) procs []" and ?m = "fold (\<lambda>p. om_put (pr_pid p) (pr_ppid p)) procs []"
  have "set (fold (\<lambda>p. os_ins (pr_pid p)) ps xs) = pr_pid ` set ps \<union> set xs"
    for ps :: "ProcessRecord list" and xs
    by (induction ps arbitrary: xs) auto
  moreover have "om_get ?m k \<noteq> None \<longleftrightarrow> k \<in> pr_pid ` set procs" for k
    unfolding not_None_eq fold_put_row [OF assms(1)] by auto
  ultimately have pids: "k \<in> set ?pids \<longleftrightarrow> om_get ?m k \<noteq> None" for k by simp
  have known: "\<forall>p \<in> set shown. om_get ?m (pr_pid p) \<noteq> None"
    using assms(2) fold_put_row [OF assms(1), of pr_ppid] by fastforce
  have "depths_ok (om_get ?m) []" by (simp add: depths_ok_def)
  note loop = depth_loop_exact [of ?pids ?m, OF pids this known, folded timeline_depths_def list_parent_def]
  have "\<exists>d. at_depth (list_parent procs) (pr_pid p) d \<and> om_get c (pr_pid p) = Some (int d)"
    if c: "timeline_depths procs shown = Some c" and "p \<in> set shown" for c p
  proof -
    have "depths_ok (list_parent procs) c" "om_get c (pr_pid p) \<noteq> None" using loop that by auto
    then show ?thesis by (auto simp: depths_ok_def)
  qed
  with loop show ?thesis by blast
qed

definition two_procs :: "ProcessRecord list" where
  "two_procs = [process_at 1 0, process_at 2 1]"

lemma two_procs_rooted: "at_depth (list_parent two_procs) 1 0" "at_depth (list_parent two_procs) 2 1"
proof -
  have "list_parent two_procs 1 = Some 0" "list_parent two_procs 0 = None" "list_parent two_procs 2 = Some 1"
    by code_simp+
  then show "at_depth (list_parent two_procs) 1 0" "at_depth (list_parent two_procs) 2 1"
    by (simp_all add: at_depth_0 at_depth_Suc flip: One_nat_def) (simp add: at_depth_Suc at_depth_0)
qed

lemma timeline_depths_exact_witness: "timeline_depths two_procs two_procs \<noteq> None"
proof -
  have "distinct (map pr_pid two_procs)" by code_simp
  from timeline_depths_exact [OF this subset_refl] show ?thesis
    using two_procs_rooted by (auto simp: two_procs_def process_at_def)
qed

section \<open>The critical path\<close>

lemma proc_at_row: "distinct (map pr_pid procs) \<Longrightarrow> p \<in> set procs \<Longrightarrow> proc_at (list_proc_map procs) (pr_pid p) = p"
  using fold_put_row [of pr_pid procs "\<lambda>p. p" "pr_pid p" p] by (auto simp: proc_at_def list_proc_map_def)

text \<open>A loop that keeps the largest of the values it has seen.\<close>

lemma fold_best:
  fixes val :: "'a \<Rightarrow> int"
  assumes "fold (\<lambda>x (best, best_val). if val x > best_val then (x, val x) else (best, best_val)) xs (b, v) = (c, w)"
  shows "v \<le> w \<and> (\<forall>x \<in> set xs. val x \<le> w) \<and> (c = b \<and> w = v \<or> c \<in> set xs \<and> w = val c)"
  using assms by (induction xs arbitrary: b v) (auto split: if_splits, force+)

lemma best_child_ends_last:
  assumes "cs \<noteq> []"
  shows "best_child m cs \<in> set cs" and "c \<in> set cs \<Longrightarrow> pr_end (proc_at m c) \<le> pr_end (proc_at m (best_child m cs))"
proof -
  obtain b w where f: "fold (\<lambda>c (best, best_end). if pr_end (proc_at m c) > best_end then (c, pr_end (proc_at m c))
      else (best, best_end)) (tl cs) (hd cs, pr_end (proc_at m (hd cs))) = (b, w)" by fastforce
  then have b: "best_child m cs = b" by (simp add: best_child_def Let_def)
  from fold_best [OF f] assms show "best_child m cs \<in> set cs"
    unfolding b by (cases cs) auto
  from fold_best [OF f] assms show "c \<in> set cs \<Longrightarrow> pr_end (proc_at m c) \<le> pr_end (proc_at m (best_child m cs))"
    unfolding b by (cases cs) auto
qed

lemma critical_root_longest:
  assumes "roots \<noteq> []"
  shows "critical_root m roots \<in> set roots"
    and "r \<in> set roots \<Longrightarrow> pr_duration (proc_at m r) \<le> max 0 (pr_duration (proc_at m (critical_root m roots)))"
proof -
  obtain b w where f: "fold (\<lambda>r (best, max_span). if pr_duration (proc_at m r) > max_span
      then (r, pr_duration (proc_at m r)) else (best, max_span)) roots (hd roots, 0) = (b, w)" by fastforce
  then have b: "critical_root m roots = b" unfolding critical_root_def Let_def pr_duration_def by simp
  from fold_best [OF f] assms show "critical_root m roots \<in> set roots" unfolding b by auto
  from fold_best [OF f]
  show "r \<in> set roots \<Longrightarrow> pr_duration (proc_at m r) \<le> max 0 (pr_duration (proc_at m (critical_root m roots)))"
    unfolding b by auto
qed

text \<open>\<open>q\<close> follows \<open>p\<close> on a critical path: no child of \<open>p\<close> ends later.\<close>

definition last_child :: "ProcessRecord list \<Rightarrow> ProcessRecord \<Rightarrow> ProcessRecord \<Rightarrow> bool" where
  "last_child procs p q \<longleftrightarrow>
     pr_ppid q = pr_pid p \<and> (\<forall>s \<in> set procs. pr_ppid s = pr_pid p \<longrightarrow> pr_end s \<le> pr_end q)"

lemma critical_loop_path:
  assumes "distinct (map pr_pid procs)" and "at_depth (list_parent procs) k d"
  shows "\<forall>p \<in> set procs. pr_pid p = k \<longrightarrow>
    (\<forall>path. \<exists>rest. critical_loop (list_proc_map procs) (list_children procs) k path = Some (path @ p # rest)
       \<and> set rest \<subseteq> set procs \<and> successively (last_child procs) (p # rest)
       \<and> (\<forall>s \<in> set procs. pr_ppid s \<noteq> pr_pid (last (p # rest))))"
  using assms
proof (induction rule: list_tree.tree_induct)
  case (node k d)
  let ?m = "list_proc_map procs" and ?ch = "list_children procs"
  show ?case
  proof (intro ballI impI allI)
    fix p and path :: "ProcessRecord list"
    assume p: "p \<in> set procs" "pr_pid p = k"
    have at: "proc_at ?m k = p" using proc_at_row [OF assms(1) p(1)] p(2) by simp
    show "\<exists>rest. critical_loop ?m ?ch k path = Some (path @ p # rest)
       \<and> set rest \<subseteq> set procs \<and> successively (last_child procs) (p # rest)
       \<and> (\<forall>s \<in> set procs. pr_ppid s \<noteq> pr_pid (last (p # rest)))"
    proof (cases "list_kids procs k = []")
      case True
      then have "critical_loop ?m ?ch k path = Some (path @ [p])"
        by (subst critical_loop.simps) (auto simp: at list_kids_def split: option.splits)
      moreover have "\<forall>s \<in> set procs. pr_ppid s \<noteq> k" using True by (auto simp: list_kids_filter filter_empty_conv)
      ultimately show ?thesis using p by (intro exI [of _ "[]"]) simp
    next
      case False
      let ?c = "best_child ?m (list_kids procs k)"
      have c: "?c \<in> set (list_kids procs k)" by (rule best_child_ends_last(1) [OF False])
      then obtain q where q: "q \<in> set procs" "pr_pid q = ?c" "pr_ppid q = k"
        by (auto simp: list_kids_filter)
      have "last_child procs p q"
        unfolding last_child_def
      proof (intro conjI ballI impI)
        fix s assume s: "s \<in> set procs" "pr_ppid s = pr_pid p"
        then have "pr_pid s \<in> set (list_kids procs k)" using p(2) by (auto simp: list_kids_filter)
        from best_child_ends_last(2) [OF False this, of ?m]
        show "pr_end s \<le> pr_end q"
          using proc_at_row [OF assms(1) s(1)] proc_at_row [OF assms(1) q(1)] q(2) by simp
      qed (use p(2) q(3) in simp)
      moreover obtain rest where "critical_loop ?m ?ch ?c (path @ [p]) = Some ((path @ [p]) @ q # rest)"
        "set rest \<subseteq> set procs" "successively (last_child procs) (q # rest)"
        "\<forall>s \<in> set procs. pr_ppid s \<noteq> pr_pid (last (q # rest))"
        using node.IH [OF c] q(1,2) by blast
      moreover have "critical_loop ?m ?ch k path = critical_loop ?m ?ch ?c (path @ [p])"
        using False by (subst critical_loop.simps) (auto simp: at list_kids_def split: option.splits)
      ultimately show ?thesis using q(1) by (intro exI [of _ "q # rest"]) simp
    qed
  qed
qed

text \<open>
  C32. The critical path is what it says: for processes with distinct pids of which one is a root the
  command ends; the path starts at a root no other root outlasts, every step goes to the child of the
  process that ends last, and it ends at a process without children. Without a root the code reads
  the first element of an empty vector.
\<close>

theorem critical_path_exact:
  assumes "distinct (map pr_pid procs)"
  shows "(critical_path procs = None \<longleftrightarrow> list_roots procs = [])
    \<and> (\<forall>path. critical_path procs = Some path \<longrightarrow>
         path \<noteq> [] \<and> set path \<subseteq> set procs \<and> pr_pid (hd path) \<in> set (list_roots procs)
       \<and> (\<forall>r \<in> set procs. pr_pid r \<in> set (list_roots procs) \<longrightarrow> pr_duration r \<le> max 0 (pr_duration (hd path)))
       \<and> successively (last_child procs) path
       \<and> (\<forall>s \<in> set procs. pr_ppid s \<noteq> pr_pid (last path)))"
proof (cases "list_roots procs = []")
  case True
  then show ?thesis by (simp add: critical_path_def Let_def)
next
  case False
  let ?m = "list_proc_map procs" and ?roots = "list_roots procs"
  let ?k = "critical_root ?m ?roots"
  have k: "?k \<in> set ?roots" by (rule critical_root_longest(1) [OF False])
  then obtain p where p: "p \<in> set procs" "pr_pid p = ?k" by (auto simp: list_roots_def Let_def)
  have at: "proc_at ?m ?k = p" using proc_at_row [OF assms p(1)] p(2) by simp
  have long: "pr_duration r \<le> max 0 (pr_duration p)" if "r \<in> set procs" "pr_pid r \<in> set ?roots" for r
    using critical_root_longest(2) [OF False that(2), of ?m] proc_at_row [OF assms that(1)] at by simp
  obtain rest where "critical_loop ?m (list_children procs) ?k [] = Some (p # rest)"
    "set rest \<subseteq> set procs" "successively (last_child procs) (p # rest)"
    "\<forall>s \<in> set procs. pr_ppid s \<noteq> pr_pid (last (p # rest))"
    using critical_loop_path [OF assms] k p list_roots_iff [OF assms] by (metis append_Nil)
  then show ?thesis using False p k long by (auto simp: critical_path_def Let_def)
qed

lemma critical_path_exact_witness: "critical_path two_procs \<noteq> None"
proof -
  have "distinct (map pr_pid two_procs)" "list_roots two_procs = [1]" by code_simp+
  then show ?thesis using critical_path_exact [of two_procs] by simp
qed

end
