(* ===== verification/Viewer_Files.thy ===== *)
theory Viewer_Files
  imports Viewer_Tree_Proofs
begin

text \<open>
  The file commands of \<open>bdview_main.cpp\<close>: \<open>files\<close>, \<open>trace\<close>, \<open>hotspot\<close> and \<open>failures\<close>. Each is a
  function from the database and the options to what it prints and its exit code.
\<close>

type_synonym cmd_result = "string \<times> int"

section \<open>files\<close>

definition access_line :: "FileAccessRecord \<Rightarrow> string" where
  "access_line a = ''  '' @ pid_str (fa_pid a) @ '' '' @ pad_right 3 (mode_str (fa_mode a)) @ '' '' @ c_str (fa_filename a) @ nl"

definition cmd_files :: "sq_db \<Rightarrow> int \<Rightarrow> string \<Rightarrow> cmd_result" where
  "cmd_files db filter_pid filter_path =
     (let (accesses, heading) =
        (if filter_pid > 0
         then (get_file_accesses_by_pid db filter_pid, ''=== File accesses by PID '' @ int_str filter_pid @ '' ==='' @ nl)
         else if filter_path \<noteq> []
         then (get_file_accesses_by_name db filter_path, ''=== Processes accessing '' @ c_str filter_path @ '' ==='' @ nl)
         else (get_all_file_accesses db, ''=== All file accesses ==='' @ nl))
      in (heading @ lines_of access_line accesses @ ''Total: '' @ int_str (int (length accesses)) @ '' accesses'' @ nl, 0))"

section \<open>trace\<close>

definition trace_cmd :: "nat \<Rightarrow> ProcessRecord \<Rightarrow> string" where
  "trace_cmd cmd_max p = c_str (if cmd_max \<noteq> 0 then shorten_cmd (pr_cmdline p) cmd_max else pr_cmdline p)"

definition trace_pid :: "sq_db \<Rightarrow> nat \<Rightarrow> int \<Rightarrow> cmd_result" where
  "trace_pid db cmd_max pid =
     (let chain = get_ancestor_chain db pid in
      if chain = [] then (''Process '' @ int_str pid @ '' not found.'' @ nl, 1)
      else
        let accesses = get_file_accesses_by_pid db pid in
        (''=== Trace for PID '' @ int_str pid @ '' ==='' @ nl @ ''Process chain:'' @ nl @
         lines_of (\<lambda>(i, p). ''  '' @ blanks (i * 2) @ (if i = 0 then '''' else CHR 0x5C # ''_ '') @ trace_cmd cmd_max p @
             '' '' @ pid_str (pr_pid p) @ nl) (enumerate 0 chain) @
         nl @ ''Files ('' @ int_str (int (length accesses)) @ ''):'' @ nl @
         lines_of (\<lambda>a. ''  '' @ pad_right 3 (mode_str (fa_mode a)) @ '' '' @ c_str (fa_filename a) @ nl) accesses, 0))"

text \<open>The accesses that are the first of their process.\<close>

fun first_accesses :: "int oset \<Rightarrow> FileAccessRecord list \<Rightarrow> FileAccessRecord list" where
  "first_accesses seen_pids [] = []"
| "first_accesses seen_pids (a # as) =
     (if fa_pid a \<in> set seen_pids then first_accesses seen_pids as
      else a # first_accesses (os_ins (fa_pid a) seen_pids) as)"

definition trace_path_line :: "sq_db \<Rightarrow> nat \<Rightarrow> FileAccessRecord \<Rightarrow> string" where
  "trace_path_line db cmd_max a =
     ''  '' @ pad_right 3 (mode_str (fa_mode a)) @ '' '' @ pid_str (fa_pid a) @
     lines_of (\<lambda>(j, p). if j = 0 then '' '' @ trace_cmd cmd_max p
         else nl @ ''      '' @ blanks (j * 3) @ CHR 0x5C # ''_ '' @ trace_cmd cmd_max p @ '' '' @ pid_str (pr_pid p))
       (enumerate 0 (get_ancestor_chain db (fa_pid a))) @ nl @ nl"

definition trace_path :: "sq_db \<Rightarrow> nat \<Rightarrow> string \<Rightarrow> cmd_result" where
  "trace_path db cmd_max path =
     (let accesses = get_file_accesses_by_name db path in
      if accesses = [] then (''No accesses found for: '' @ c_str path @ nl, 0)
      else (''=== Trace for: '' @ c_str path @ '' ==='' @ nl @ nl @
            lines_of (trace_path_line db cmd_max) (first_accesses [] accesses), 0))"

definition group_by_file :: "FileAccessRecord list \<Rightarrow> string list \<times> (string, FileAccessRecord list) omap" where
  "group_by_file accesses =
     fold (\<lambda>a (file_order, by_file).
        (if om_get by_file (fa_filename a) = None then file_order @ [fa_filename a] else file_order,
         om_upd [] (\<lambda>l. l @ [a]) (fa_filename a) by_file)) accesses ([], [])"

definition trace_process_lines :: "sq_db \<Rightarrow> nat \<Rightarrow> FileAccessRecord \<Rightarrow> string" where
  "trace_process_lines db cmd_max a =
     (case get_ancestor_chain db (fa_pid a) of
        [] \<Rightarrow> []
      | p # ps \<Rightarrow>
          ''  '' @ pad_right 3 (mode_str (fa_mode a)) @ '' '' @ trace_cmd cmd_max p @ '' '' @ pid_str (pr_pid p) @ nl @
          lines_of (\<lambda>(j, q). ''      '' @ blanks ((j - 1) * 3) @ CHR 0x5C # ''_ '' @ trace_cmd cmd_max q @ '' '' @
              pid_str (pr_pid q) @ nl) (enumerate 1 ps))"

definition trace_file_lines :: "sq_db \<Rightarrow> nat \<Rightarrow> (string, FileAccessRecord list) omap \<Rightarrow> string \<Rightarrow> string" where
  "trace_file_lines db cmd_max by_file filename =
     c_str filename @ nl @
     lines_of (trace_process_lines db cmd_max)
       (first_accesses [] (case om_get by_file filename of None \<Rightarrow> [] | Some accs \<Rightarrow> accs)) @ nl"

definition cmd_trace :: "sq_db \<Rightarrow> int \<Rightarrow> string \<Rightarrow> int \<Rightarrow> cmd_result" where
  "cmd_trace db filter_pid filter_path col_width =
     (let cmd_max = (if col_width > 0 then nat col_width else 0) in
      if filter_pid > 0 then trace_pid db cmd_max filter_pid
      else if filter_path \<noteq> [] then trace_path db cmd_max filter_path
      else
        let all_accesses = get_all_file_accesses db in
        if all_accesses = [] then (''No file accesses recorded.'' @ nl, 0)
        else
          let (file_order, by_file) = group_by_file all_accesses in
          (''=== File Access Trace ('' @ int_str (int (length file_order)) @ '' files) ==='' @ nl @ nl @
           lines_of (trace_file_lines db cmd_max by_file) file_order, 0))"

section \<open>hotspot\<close>

record AccumData =
  ac_total :: int
  ac_reads :: int
  ac_writes :: int
  ac_pids :: "int oset"

definition AccumData_new :: AccumData where
  "AccumData_new = \<lparr>ac_total = 0, ac_reads = 0, ac_writes = 0, ac_pids = []\<rparr>"

record HotspotEntry =
  hs_name :: string
  hs_total :: int
  hs_reads :: int
  hs_writes :: int
  hs_procs :: int

text \<open>\<open>key.substr(0, key.rfind('/') + 1)\<close>.\<close>

definition hotspot_key :: "bool \<Rightarrow> string \<Rightarrow> string" where
  "hotspot_key by_dir name =
     (if by_dir \<and> CHR ''/'' \<in> set name then take (length name - length (after_last CHR ''/'' name)) name else name)"

definition accum_access :: "FileAccessRecord \<Rightarrow> AccumData \<Rightarrow> AccumData" where
  "accum_access a d =
     \<lparr>ac_total = ac_total d + 1,
      ac_reads = (if is_input_mode (fa_mode a) then ac_reads d + 1 else ac_reads d),
      ac_writes = (if is_output_mode (fa_mode a) then ac_writes d + 1 else ac_writes d),
      ac_pids = os_ins (fa_pid a) (ac_pids d)\<rparr>"

definition accumulate :: "bool \<Rightarrow> FileAccessRecord list \<Rightarrow> (string, AccumData) omap" where
  "accumulate by_dir all_fa =
     fold (\<lambda>a. om_upd AccumData_new (accum_access a) (hotspot_key by_dir (fa_filename a))) all_fa []"

definition cmp_hotspot_desc :: "HotspotEntry \<Rightarrow> HotspotEntry \<Rightarrow> bool" where
  "cmp_hotspot_desc a b \<longleftrightarrow> hs_total a > hs_total b"

definition hotspot_entries :: "bool \<Rightarrow> FileAccessRecord list \<Rightarrow> HotspotEntry list" where
  "hotspot_entries by_dir all_fa =
     std_sort cmp_hotspot_desc
       (map (\<lambda>(name, d). \<lparr>hs_name = name, hs_total = ac_total d, hs_reads = ac_reads d, hs_writes = ac_writes d,
                          hs_procs = int (length (ac_pids d))\<rparr>) (accumulate by_dir all_fa))"

text \<open>A loop \<open>for (int i = 0; i < count; ++i)\<close> with \<open>count\<close> cut to the size of the vector.\<close>

definition top_of :: "int \<Rightarrow> 'a list \<Rightarrow> int \<times> 'a list" where
  "top_of n xs = (let count = (if n > int (length xs) then int (length xs) else n) in (count, take (nat count) xs))"

definition cmd_hotspot :: "sq_db \<Rightarrow> int \<Rightarrow> bool \<Rightarrow> cmd_result" where
  "cmd_hotspot db top_n by_dir =
     (let all_fa = get_all_file_accesses db in
      if all_fa = [] then (''No file accesses recorded.'' @ nl, 0)
      else
        let (count, shown) = top_of top_n (hotspot_entries by_dir all_fa) in
        (''=== File '' @ (if by_dir then ''Directory'' else ''Access'') @ '' Hotspots (top '' @ int_str count @ '') ==='' @ nl @
         pad_right 6 ''COUNT'' @ '' '' @ pad_right 5 ''READ'' @ '' '' @ pad_right 5 ''WRITE'' @ '' '' @ pad_right 5 ''PROCS'' @
         '' PATH'' @ nl @
         lines_of (\<lambda>e. pad_right 6 (int_str (hs_total e)) @ '' '' @ pad_right 5 (int_str (hs_reads e)) @ '' '' @
             pad_right 5 (int_str (hs_writes e)) @ '' '' @ pad_right 5 (int_str (hs_procs e)) @ '' '' @
             c_str (hs_name e) @ nl) shown, 0))"

section \<open>failures\<close>

definition errno_counts :: "FailedAccessRecord list \<Rightarrow> (int, int) omap" where
  "errno_counts failures = fold (\<lambda>a. om_upd 0 (\<lambda>n. n + 1) (fl_errno a)) failures []"

definition file_counts :: "FailedAccessRecord list \<Rightarrow> (string, int) omap" where
  "file_counts failures = fold (\<lambda>a. om_upd 0 (\<lambda>n. n + 1) (fl_filename a)) failures []"

text \<open>The counts are negated so that the plain order of pairs puts the greatest first.\<close>

definition failed_files :: "FailedAccessRecord list \<Rightarrow> (int \<times> string) list" where
  "failed_files failures = std_sort (<) (map (\<lambda>(file, n). (- n, file)) (file_counts failures))"

definition errno_line :: "int \<times> int \<Rightarrow> string" where
  "errno_line en =
     (let name = errno_name (fst en) in
      if name \<noteq> [] then ''  '' @ name @ '' (errno '' @ int_str (fst en) @ ''): '' @ int_str (snd en) @ nl
      else ''  errno '' @ int_str (fst en) @ '': '' @ int_str (snd en) @ nl)"

definition cmd_failures :: "sq_db \<Rightarrow> int \<Rightarrow> cmd_result" where
  "cmd_failures db filter_errno =
     (let all_failures = get_all_failed_accesses db in
      if all_failures = [] then (''No failed accesses recorded.'' @ nl, 0)
      else
        let failures = (if filter_errno > 0 then filter (\<lambda>a. fl_errno a = filter_errno) all_failures else all_failures);
            (show_n, shown) = top_of 20 (failed_files failures)
        in (''=== Failed File Accesses ('' @ int_str (int (length failures)) @ '' total) ==='' @ nl @ nl @
            ''By error code:'' @ nl @ lines_of errno_line (errno_counts failures) @
            nl @ ''Top '' @ int_str show_n @ '' files with failures:'' @ nl @
            lines_of (\<lambda>(n, file). ''  '' @ pad_left 5 (int_str (- n)) @ ''  '' @ c_str file @ nl) shown, 0))"

section \<open>What the counts are\<close>

abbreviation count_if :: "('a \<Rightarrow> bool) \<Rightarrow> 'a list \<Rightarrow> int" where
  "count_if P xs \<equiv> int (length (filter P xs))"

lemma count_partition:
  fixes f :: "'a \<Rightarrow> 'k"
  assumes "finite K" "f ` set xs \<subseteq> K"
  shows "(\<Sum>k \<in> K. count_if (\<lambda>a. f a = k) xs) = int (length xs)"
  using assms(2)
proof (induction xs)
  case (Cons x xs)
  have "(\<Sum>k \<in> K. count_if (\<lambda>a. f a = k) (x # xs)) = (\<Sum>k \<in> K. (if k = f x then 1 else 0) + count_if (\<lambda>a. f a = k) xs)"
    by (rule sum.cong) auto
  also have "\<dots> = 1 + (\<Sum>k \<in> K. count_if (\<lambda>a. f a = k) xs)"
    using Cons.prems assms(1) by (simp add: sum.distrib)
  finally show ?case using Cons by simp
qed simp

lemma accum_fold:
  "ac_total (fold accum_access as d) = ac_total d + int (length as)"
  "ac_reads (fold accum_access as d) = ac_reads d + count_if (\<lambda>a. is_input_mode (fa_mode a)) as"
  "ac_writes (fold accum_access as d) = ac_writes d + count_if (\<lambda>a. is_output_mode (fa_mode a)) as"
  "set (ac_pids (fold accum_access as d)) = set (ac_pids d) \<union> fa_pid ` set as"
  "os_inv (ac_pids d) \<Longrightarrow> os_inv (ac_pids (fold accum_access as d))"
  by (induction as arbitrary: d) (auto simp: accum_access_def os_inv_ins)

text \<open>
  C39. The hotspot ranking counts exactly: there is one entry for each file, or directory, that is
  accessed, with the number of its accesses, of those that read and of those that write, and of the
  different processes behind them; the entries come in descending number of accesses, and together
  they account for every access.
\<close>

theorem hotspot_exact:
  fixes all_fa by_dir
  defines "entries \<equiv> hotspot_entries by_dir all_fa" and "key \<equiv> \<lambda>a. hotspot_key by_dir (fa_filename a)"
  shows "distinct (map hs_name entries) \<and> set (map hs_name entries) = key ` set all_fa
    \<and> sorted_wrt (\<lambda>e f. hs_total f \<le> hs_total e) entries
    \<and> sum_list (map hs_total entries) = int (length all_fa)
    \<and> (\<forall>e \<in> set entries.
         hs_total e = count_if (\<lambda>a. key a = hs_name e) all_fa
       \<and> hs_reads e = count_if (\<lambda>a. key a = hs_name e \<and> is_input_mode (fa_mode a)) all_fa
       \<and> hs_writes e = count_if (\<lambda>a. key a = hs_name e \<and> is_output_mode (fa_mode a)) all_fa
       \<and> hs_procs e = int (card {fa_pid a |a. a \<in> set all_fa \<and> key a = hs_name e}))"
proof -
  let ?acc = "accumulate by_dir all_fa"
  let ?entry = "\<lambda>(name, d). \<lparr>hs_name = name, hs_total = ac_total d, hs_reads = ac_reads d, hs_writes = ac_writes d,
                          hs_procs = int (length (ac_pids d))\<rparr>"
  have acc: "?acc = fold (\<lambda>a. om_upd AccumData_new (accum_access a) (key a)) all_fa []"
    by (simp add: accumulate_def key_def)
  have entries: "entries = std_sort cmp_hotspot_desc (map ?entry ?acc)"
    by (simp add: entries_def hotspot_entries_def)
  have mem: "(k, d) \<in> set ?acc \<longleftrightarrow> k \<in> key ` set all_fa \<and> d = fold accum_access (filter (\<lambda>a. key a = k) all_fa) AccumData_new"
    for k d unfolding acc by (rule fold_om_upd_mem)
  have inv: "om_inv ?acc" unfolding acc by (rule fold_om_upd_inv) simp
  have one: "hs_total e = count_if (\<lambda>a. key a = hs_name e) all_fa
       \<and> hs_reads e = count_if (\<lambda>a. key a = hs_name e \<and> is_input_mode (fa_mode a)) all_fa
       \<and> hs_writes e = count_if (\<lambda>a. key a = hs_name e \<and> is_output_mode (fa_mode a)) all_fa
       \<and> hs_procs e = int (card {fa_pid a |a. a \<in> set all_fa \<and> key a = hs_name e})" if "e \<in> set entries" for e
  proof -
    from that obtain k d where e: "e = ?entry (k, d)" and d: "d = fold accum_access (filter (\<lambda>a. key a = k) all_fa) AccumData_new"
      unfolding entries using mem by auto
    have "set (ac_pids d) = {fa_pid a |a. a \<in> set all_fa \<and> key a = k}" "os_inv (ac_pids d)"
      by (auto simp: d accum_fold AccumData_new_def)
    then have "length (ac_pids d) = card {fa_pid a |a. a \<in> set all_fa \<and> key a = k}"
      using distinct_card [OF os_inv_distinct] by metis
    then show ?thesis by (simp add: e d accum_fold AccumData_new_def conj_commute)
  qed
  have names: "map hs_name (map ?entry ?acc) = om_keys ?acc" by (simp add: om_keys_def case_prod_beta o_def)
  have "mset (map hs_name entries) = mset (om_keys ?acc)" unfolding entries mset_map std_sort_mset
    by (simp only: names flip: mset_map)
  moreover have "distinct (om_keys ?acc)" using om_inv_distinct [OF inv] by (simp add: om_keys_def)
  moreover have "set (om_keys ?acc) = key ` set all_fa" using mem by (force simp: om_keys_def)
  ultimately have ks: "distinct (map hs_name entries)" "set (map hs_name entries) = key ` set all_fa"
    by (metis distinct_count_atmost_1 mset_eq_setD, metis mset_eq_setD)
  have "sum_list (map hs_total entries) = (\<Sum>k \<leftarrow> map hs_name entries. count_if (\<lambda>a. key a = k) all_fa)"
    using one by (simp add: o_def cong: map_cong)
  also have "\<dots> = (\<Sum>k \<in> key ` set all_fa. count_if (\<lambda>a. key a = k) all_fa)"
    using ks by (simp only: sum_list_distinct_conv_sum_set)
  also have "\<dots> = int (length all_fa)"
    by (rule count_partition) auto
  finally have sum: "sum_list (map hs_total entries) = int (length all_fa)" .
  have "weak_order cmp_hotspot_desc"
    using weak_order_key_desc [of hs_total] by (simp add: cmp_hotspot_desc_def [abs_def])
  from std_sort_sorted [OF this] have "sorted_wrt (\<lambda>e f. hs_total f \<le> hs_total e) entries"
    unfolding entries by (rule sorted_wrt_mono_rel [rotated]) (auto simp: cmp_hotspot_desc_def)
  with ks sum one show ?thesis by blast
qed

definition three_accesses :: "FileAccessRecord list" where
  "three_accesses = [access_at 1 ''/a/x'', access_at 2 ''/a/y'', access_at 2 ''/b'']"

lemma hotspot_exact_witness:
  "\<exists>e \<in> set (hotspot_entries True three_accesses). hs_name e = ''/a/'' \<and> hs_total e = 2"
proof -
  have two: "''/a/'' \<in> (\<lambda>a. hotspot_key True (fa_filename a)) ` set three_accesses"
    "count_if (\<lambda>a. hotspot_key True (fa_filename a) = ''/a/'') three_accesses = 2" by code_simp+
  note exact = hotspot_exact [of True three_accesses]
  from exact two(1) have "''/a/'' \<in> set (map hs_name (hotspot_entries True three_accesses))" by (elim conjE) (simp only:)
  then obtain e where e: "e \<in> set (hotspot_entries True three_accesses)" "hs_name e = ''/a/''" by (auto simp only: set_map image_iff)
  moreover from exact e(1) have "hs_total e = count_if (\<lambda>a. hotspot_key True (fa_filename a) = hs_name e) three_accesses" by blast
  ultimately show ?thesis using two(2) by (intro bexI [of _ e] conjI) (simp_all only:)
qed

text \<open>
  The failure report counts exactly: one number for each error code and one line for each file,
  with the number of failed accesses of it, greatest first and equal numbers in the order of the names.
\<close>

theorem failures_exact:
  "set (failed_files failures) =
      {(- count_if (\<lambda>a. fl_filename a = file) failures, file) |file. file \<in> fl_filename ` set failures}
   \<and> distinct (map snd (failed_files failures)) \<and> sorted (failed_files failures)
   \<and> om_inv (errno_counts failures)
   \<and> (\<forall>e n. om_get (errno_counts failures) e = Some n \<longleftrightarrow>
        e \<in> fl_errno ` set failures \<and> n = count_if (\<lambda>a. fl_errno a = e) failures)"
proof -
  have count: "fold (\<lambda>a n. n + 1) as (m :: int) = m + int (length as)" for as :: "FailedAccessRecord list" and m
    by (induction as arbitrary: m) auto
  have mem: "(k, n) \<in> set (file_counts failures) \<longleftrightarrow>
      k \<in> fl_filename ` set failures \<and> n = count_if (\<lambda>a. fl_filename a = k) failures" for k n
    unfolding file_counts_def fold_om_upd_mem count by simp
  have inv: "om_inv (file_counts failures)" unfolding file_counts_def by (rule fold_om_upd_inv) simp
  let ?neg = "\<lambda>(file, n). (- n, file)"
  have "set (failed_files failures) = ?neg ` set (file_counts failures)" by (simp add: failed_files_def)
  also have "set (file_counts failures) = (\<lambda>f. (f, count_if (\<lambda>a. fl_filename a = f) failures)) ` (fl_filename ` set failures)"
    by (rule set_eqI) (auto simp: mem)
  also have "?neg ` \<dots> = {(- count_if (\<lambda>a. fl_filename a = file) failures, file) |file. file \<in> fl_filename ` set failures}"
    unfolding image_image by auto
  finally have set: "set (failed_files failures) = \<dots>" .
  have "map snd (map ?neg (file_counts failures)) = om_keys (file_counts failures)"
    by (simp add: om_keys_def case_prod_beta o_def)
  then have "distinct (map snd (map ?neg (file_counts failures)))"
    using om_inv_distinct [OF inv] by (simp only: om_keys_def)
  then have "distinct (map snd (failed_files failures))"
    unfolding failed_files_def distinct_map_mset [OF std_sort_mset] .
  moreover have "sorted (failed_files failures)" by (simp add: failed_files_def std_sort_less)
  moreover have einv: "om_inv (errno_counts failures)" unfolding errno_counts_def by (rule fold_om_upd_inv) simp
  moreover have "om_get (errno_counts failures) e = Some n \<longleftrightarrow>
      e \<in> fl_errno ` set failures \<and> n = count_if (\<lambda>a. fl_errno a = e) failures" for e n
    unfolding om_get_iff [OF einv] unfolding errno_counts_def fold_om_upd_mem count by simp
  ultimately show ?thesis using set by blast
qed

text \<open>The grouping of \<open>trace\<close>: the files in the order of their first access, each with its accesses.\<close>

lemma group_by_file_exact:
  "group_by_file accesses = (file_order, by_file) \<Longrightarrow>
     distinct file_order \<and> set file_order = fa_filename ` set accesses
     \<and> (\<forall>f. (case om_get by_file f of None \<Rightarrow> [] | Some l \<Rightarrow> l) = filter (\<lambda>a. fa_filename a = f) accesses)"
proof -
  have "(\<And>f. om_get m f = None \<longleftrightarrow> f \<notin> set fs) \<Longrightarrow> distinct fs \<Longrightarrow>
      fold (\<lambda>a (file_order, by_file).
        (if om_get by_file (fa_filename a) = None then file_order @ [fa_filename a] else file_order,
         om_upd [] (\<lambda>l. l @ [a]) (fa_filename a) by_file)) accs (fs, m) = (file_order, by_file) \<Longrightarrow>
     distinct file_order \<and> set file_order = set fs \<union> fa_filename ` set accs
     \<and> (\<forall>f. (case om_get by_file f of None \<Rightarrow> [] | Some l \<Rightarrow> l)
          = (case om_get m f of None \<Rightarrow> [] | Some l \<Rightarrow> l) @ filter (\<lambda>a. fa_filename a = f) accs)"
    for accs fs m
  proof (induction accs arbitrary: fs m)
    case (Cons a accs)
    show ?case
    proof (cases "om_get m (fa_filename a) = None")
      case True
      then show ?thesis
        using Cons.prems Cons.IH [of "om_upd [] (\<lambda>l. l @ [a]) (fa_filename a) m" "fs @ [fa_filename a]"]
        by (auto simp: om_get_upd)
    next
      case False
      then show ?thesis
        using Cons.prems Cons.IH [of "om_upd [] (\<lambda>l. l @ [a]) (fa_filename a) m" fs]
        by (auto simp: om_get_upd)
    qed
  qed simp
  from this [of "[]" "[]" accesses]
  show "group_by_file accesses = (file_order, by_file) \<Longrightarrow> ?thesis" by (simp add: group_by_file_def)
qed

lemma first_accesses_pids:
  "fa_pid ` set (first_accesses seen as) = fa_pid ` set as - set seen \<and> distinct (map fa_pid (first_accesses seen as))"
  by (induction seen as rule: first_accesses.induct) auto

end
