(* ===== verification/Viewer_Analyses.thy ===== *)
theory Viewer_Analyses
  imports Viewer_Files Rebuild_Filter Rdeps Races
begin

text \<open>
  The commands of \<open>bdview_main.cpp\<close> that print the analyses of \<open>common/view_helpers.cpp\<close>:
  \<open>rebuild\<close>, \<open>pio\<close>, \<open>impact\<close>, \<open>races\<close> and \<open>rdeps\<close>. Each builds the dependency graph of the database first.
\<close>

abbreviation graph_of :: "sq_db \<Rightarrow> dep_graph" where
  "graph_of db \<equiv> build_dependency_graph db dep_graph_empty"

section \<open>rebuild\<close>

text \<open>The keys from \<open>lower_bound(prefix)\<close> on, as long as they begin with it.\<close>

definition keys_below :: "(string, 'v) omap \<Rightarrow> string \<Rightarrow> string list" where
  "keys_below m prefix =
     map fst (takeWhile (\<lambda>(k, _). starts_with k prefix) (dropWhile (\<lambda>(k, _). k < prefix) m))"

definition as_dir :: "string \<Rightarrow> string" where
  "as_dir arg = (if arg \<noteq> [] \<and> last arg \<noteq> CHR ''/'' then arg @ ''/'' else arg)"

definition expand_changed :: "dep_graph \<Rightarrow> string \<Rightarrow> string oset \<Rightarrow> string oset" where
  "expand_changed g arg changed_files =
     fold os_ins (keys_below (file_to_readers g) (as_dir arg))
       (if om_get (file_to_readers g) arg \<noteq> None then os_ins arg changed_files else changed_files)"

definition changed_files :: "dep_graph \<Rightarrow> string list \<Rightarrow> string oset" where
  "changed_files g changed_args = fold (expand_changed g) changed_args []"

text \<open>The process and, when it is collapsed, the processes hidden below it.\<close>

definition agg_pids :: "RebuildResult \<Rightarrow> int \<Rightarrow> int list" where
  "agg_pids rr pid = pid # (case om_get (rr_collapsed rr) pid of None \<Rightarrow> [] | Some ps \<Rightarrow> ps)"

definition chain_files :: "reason_map \<Rightarrow> string oset" where
  "chain_files rm = fold (\<lambda>(_, rs). fold (\<lambda>r. os_ins (fst r)) rs) rm []"

definition shown_reads :: "reason_map \<Rightarrow> int list \<Rightarrow> string oset" where
  "shown_reads rm pids =
     fold (\<lambda>p reads. case om_get rm p of None \<Rightarrow> reads | Some rs \<Rightarrow> fold (\<lambda>r. os_ins (fst r)) rs reads) pids []"

definition shown_writes :: "dep_graph \<Rightarrow> string oset \<Rightarrow> int list \<Rightarrow> string oset" where
  "shown_writes g chain pids =
     fold (\<lambda>p writes. case om_get (pid_to_outputs g) p of
              None \<Rightarrow> writes
            | Some fs \<Rightarrow> fold (\<lambda>f ws. if f \<in> set chain then os_ins f ws else ws) fs writes) pids []"

definition io_lines :: "string oset \<Rightarrow> string oset \<Rightarrow> string" where
  "io_lines reads writes =
     lines_of (\<lambda>f. if f \<notin> set writes then ''        Read       '' @ c_str f @ nl else '''') reads @
     lines_of (\<lambda>f. if f \<notin> set reads then ''        Write      '' @ c_str f @ nl else '''') writes @
     lines_of (\<lambda>f. if f \<in> set writes then ''        Read/Write '' @ c_str f @ nl else '''') reads"

definition rebuild_process_text :: "dep_graph \<Rightarrow> reason_map \<Rightarrow> RebuildResult \<Rightarrow> ProcessRecord \<Rightarrow> string \<Rightarrow> string" where
  "rebuild_process_text g rm rr p last_cwd =
     (let pids = agg_pids rr (pr_pid p) in
      (if pr_cwd p \<noteq> [] \<and> pr_cwd p \<noteq> last_cwd then ''  cd '' @ c_str (pr_cwd p) @ nl else '''') @
      ''  '' @ pid_str (pr_pid p) @ '' '' @ c_str (pr_cmdline p) @ nl @
      io_lines (shown_reads rm pids) (shown_writes g (chain_files rm) pids))"

fun rebuild_text :: "dep_graph \<Rightarrow> reason_map \<Rightarrow> RebuildResult \<Rightarrow> string \<Rightarrow> ProcessRecord list \<Rightarrow> string" where
  "rebuild_text g rm rr last_cwd [] = []"
| "rebuild_text g rm rr last_cwd (p # ps) =
     rebuild_process_text g rm rr p last_cwd @ rebuild_text g rm rr (if pr_cwd p \<noteq> [] then pr_cwd p else last_cwd) ps"

definition estimate_text :: "RebuildEstimate \<Rightarrow> string" where
  "estimate_text est =
     nl @ ''--- Rebuild Estimate ---'' @ nl @
     ''  Affected processes: '' @ int_str (re_affected_count est) @ nl @
     ''  Serial estimate:    '' @ seconds_str 1 (re_serial est) @ ''s (sum of all durations)'' @ nl @
     ''  Longest single:     '' @ seconds_str 1 (re_longest est) @ ''s (minimum possible time)'' @ nl"

definition cmd_rebuild :: "sq_db \<Rightarrow> string list \<Rightarrow> string oset \<Rightarrow> bool \<Rightarrow> filter_error + cmd_result" where
  "cmd_rebuild db changed_args collapse_names estimate =
     (let g = graph_of db;
          rm = rebuild_bfs_reasons g (changed_files g changed_args);
          affected = fold (\<lambda>(p, _). os_ins p) rm []
      in case filter_rebuild_set g affected collapse_names of
           Inl e \<Rightarrow> Inl e
         | Inr rr \<Rightarrow> Inr (
             ''=== Minimal Rebuild Set for:'' @ lines_of (\<lambda>a. '' '' @ c_str a) changed_args @ '' ==='' @ nl @
             ''Affected processes: '' @ int_str (int (length (rr_processes rr))) @ nl @
             rebuild_text g rm rr [] (rr_processes rr) @
             (if estimate then estimate_text (compute_rebuild_estimate g affected) else ''''), 0))"

section \<open>pio\<close>

definition file_lines :: "string \<Rightarrow> string oset \<Rightarrow> string" where
  "file_lines mark files = lines_of (\<lambda>f. ''  '' @ mark @ '' '' @ c_str f @ nl) files"

definition cmd_pio :: "sq_db \<Rightarrow> int \<Rightarrow> bool \<Rightarrow> cmd_result" where
  "cmd_pio db pid tree =
     (let g = graph_of db in
      if om_get (proc_map g) pid = None then ('''', 1)
      else
        let pio = classify_process_io db g pid tree ProcessIO_empty in
        (''=== Process I/O for PID '' @ int_str pid @ (if tree then '' (with descendants)'' else '''') @ '' ==='' @ nl @
         nl @ ''Inputs ('' @ int_str (int (length (pio_inputs pio))) @ ''):'' @ nl @ file_lines ''R '' (pio_inputs pio) @
         nl @ ''Outputs ('' @ int_str (int (length (pio_outputs pio))) @ ''):'' @ nl @ file_lines ''W '' (pio_outputs pio) @
         (if pio_internal pio \<noteq> []
          then nl @ ''Internal ('' @ int_str (int (length (pio_internal pio))) @ ''):'' @ nl @ file_lines ''RW'' (pio_internal pio)
          else ''''), 0))"

section \<open>impact and races\<close>

text \<open>Both commands pass no deadline (0), so the clock is never asked.\<close>

definition cmd_impact :: "sq_db \<Rightarrow> (nat \<Rightarrow> int) \<Rightarrow> int \<Rightarrow> cmd_result" where
  "cmd_impact db clock top_n =
     (let entries = compute_impact (graph_of db) clock top_n 0 in
      (''=== Impact Ranking (top '' @ int_str top_n @ '') ==='' @ nl @
       ''  '' @ pad_left 5 ''PROCS'' @ ''  '' @ pad_left 10 ''DURATION'' @ ''  FILE'' @ nl @
       lines_of (\<lambda>e. ''  '' @ pad_left 5 (int_str (ie_count e)) @ ''  '' @ pad_left 9 (seconds_str 1 (ie_duration e)) @
           ''s  '' @ c_str (ie_file e) @ nl) entries, 0))"

definition race_process_line :: "dep_graph \<Rightarrow> string \<Rightarrow> int \<Rightarrow> string" where
  "race_process_line g who pid =
     (case om_get (proc_map g) pid of
        None \<Rightarrow> ''''
      | Some p \<Rightarrow> ''    '' @ who @ '': '' @ pid_str pid @ '' '' @ c_str (pr_cmdline p) @ nl)"

definition race_text :: "dep_graph \<Rightarrow> RaceEntry \<Rightarrow> string" where
  "race_text g r =
     nl @ ''  FILE: '' @ c_str (rc_file r) @ nl @ race_process_line g ''Writer'' (rc_writer r) @
     race_process_line g ''Reader'' (rc_reader r) @ ''    Overlap: '' @ seconds_str 3 (rc_overlap r) @ ''s'' @ nl"

definition cmd_races :: "sq_db \<Rightarrow> (nat \<Rightarrow> int) \<Rightarrow> cmd_result option" where
  "cmd_races db clock =
     (let g = graph_of db in
      case detect_races g clock 0 of
        None \<Rightarrow> None
      | Some (_, races) \<Rightarrow> Some (
          (if races = [] then ''=== No Race Conditions Detected ==='' @ nl
           else ''=== Race Conditions Detected: '' @ int_str (int (length races)) @ '' ==='' @ nl @
                lines_of (race_text g) races), 0))"

section \<open>rdeps\<close>

fun print_rdeps_tree :: "dep_graph \<Rightarrow> nat \<Rightarrow> RdepsNode \<Rightarrow> string" where
  "print_rdeps_tree g indent (RdepsNode file via_pid children) =
     blanks (2 * indent) @ (if indent > 0 then ''-> '' else '''') @ c_str file @
     (if via_pid \<noteq> 0
      then case om_get (proc_map g) via_pid of
             None \<Rightarrow> ''''
           | Some p \<Rightarrow> ''  (via '' @ pid_str via_pid @ '' '' @ c_str (cmd_name (pr_cmdline p)) @ '')''
      else '''') @ nl @
     concat (map (print_rdeps_tree g (Suc indent)) children)"

definition cmd_rdeps :: "sq_db \<Rightarrow> string \<Rightarrow> int \<Rightarrow> cmd_result" where
  "cmd_rdeps db path depth =
     (let g = graph_of db in
      if om_get (file_to_readers g) path = None then ('''', 1)
      else (''=== Reverse Dependencies for '' @ c_str path @ '' (depth '' @ int_str depth @ '') ==='' @ nl @
            print_rdeps_tree g 0 (compute_rdeps g path depth), 0))"

section \<open>The graph of a database is a forest\<close>

lemma fold_add_access_tree:
  "proc_map (fold add_access accs g) = proc_map g \<and> pid_children (fold add_access accs g) = pid_children g"
  by (induction accs arbitrary: g) (auto simp: add_access_def Let_def)

lemma fold_add_process_tree:
  "proc_map (fold add_process ps g) = fold (\<lambda>p. om_put (pr_pid p) p) ps (proc_map g)
   \<and> pid_children (fold add_process ps g) = fold (\<lambda>p. om_upd [] (\<lambda>cs. cs @ [pr_pid p]) (pr_ppid p)) ps (pid_children g)"
  by (induction ps arbitrary: g) (auto simp: add_process_def)

lemma graph_of_tree:
  "proc_map (graph_of db) = list_proc_map (get_all_processes db)"
  "pid_children (graph_of db) = list_children (get_all_processes db)"
proof -
  let ?h = "recorded_graph db"
  have h: "proc_map ?h = list_proc_map (get_all_processes db)" "pid_children ?h = list_children (get_all_processes db)"
    unfolding recorded_graph_def
    by (simp_all add: fold_add_process_tree fold_add_access_tree list_proc_map_def list_children_def dep_graph_empty_def)
  have "proc_map (fold (fixup_parent ra) pits ?h) = proc_map ?h" for ra pits
    by (rule fixup_keeps [where P = "\<lambda>g. proc_map g = proc_map ?h"]) (simp_all add: frame_simps)
  moreover have "pid_children (fold (fixup_parent ra) pits ?h) = pid_children ?h" for ra pits
    by (rule fixup_keeps [where P = "\<lambda>g. pid_children g = pid_children ?h"]) (simp_all add: frame_simps)
  ultimately show "proc_map (graph_of db) = list_proc_map (get_all_processes db)"
    "pid_children (graph_of db) = list_children (get_all_processes db)"
    unfolding build_recorded using h by simp_all
qed

lemma all_processes_rows:
  assumes "db_ok db"
  shows "distinct (map pr_pid (get_all_processes db))"
    and "x \<in> set (get_all_processes db) \<longleftrightarrow> get_process db (pr_pid x) = Some x"
    and "get_process db k = Some x \<Longrightarrow> pr_pid x = k"
proof -
  have r: "db_readable db" using assms by (simp add: db_ok_def)
  have all: "get_all_processes db = std_sort start_less (map snd (db_processes db))"
    by (simp add: get_all_processes_def r)
  show "distinct (map pr_pid (get_all_processes db))"
    unfolding all distinct_map_mset [OF std_sort_mset]
    by (rule db_rows_distinct) (use assms in \<open>simp add: db_ok_def\<close>)
  show "x \<in> set (get_all_processes db) \<longleftrightarrow> get_process db (pr_pid x) = Some x"
    using db_row_iff [OF assms] by (simp add: all)
  show "get_process db k = Some x \<Longrightarrow> pr_pid x = k"
    using assms rows_pid by (auto simp: db_ok_def db_inv_def get_process_def)
qed

lemma graph_of_rows: "db_ok db \<Longrightarrow> om_get (proc_map (graph_of db)) k = get_process db k"
proof -
  assume ok: "db_ok db"
  have "om_get (proc_map (graph_of db)) k = Some x \<longleftrightarrow> get_process db k = Some x" for x
    unfolding graph_of_tree list_proc_map_def fold_put_row [OF all_processes_rows(1) [OF ok]]
    using all_processes_rows(2,3) [OF ok] by (metis)
  then show ?thesis by (metis not_None_eq)
qed

text \<open>No process of the database is its own ancestor.\<close>

definition rooted_db :: "sq_db \<Rightarrow> bool" where
  "rooted_db db \<longleftrightarrow> db_ok db \<and> (\<forall>p. get_process db p \<noteq> None \<longrightarrow> (\<exists>d. at_depth (db_parent db) p d))"

lemma graph_of_forest:
  assumes "rooted_db db"
  shows "forest (graph_of db)"
proof -
  have ok: "db_ok db" using assms by (simp add: rooted_db_def)
  let ?g = "graph_of db" and ?procs = "get_all_processes db"
  have kids: "children_of ?g p = list_kids ?procs p" for p
    by (simp add: children_of_def list_kids_def graph_of_tree)
  have par: "list_parent ?procs k = Some q \<longleftrightarrow> db_parent db k = Some q" for k q
  proof -
    have "(\<exists>p \<in> set ?procs. pr_pid p = k \<and> pr_ppid p = q) \<longleftrightarrow> (\<exists>p. get_process db k = Some p \<and> pr_ppid p = q)"
      using all_processes_rows(2,3) [OF ok] by metis
    then show ?thesis by (simp add: list_parent_row [OF all_processes_rows(1) [OF ok]] db_parent_def)
  qed
  have child: "q \<in> set (children_of ?g p) \<longleftrightarrow> db_parent db q = Some p" for p q
    unfolding kids by (simp only: list_tree.kids_iff [OF all_processes_rows(1) [OF ok]] par)
  define h where "h p = (if get_process db p = None then 0 else Suc (THE d. at_depth (db_parent db) p d))" for p
  have h: "h p = Suc d" if "at_depth (db_parent db) p d" for p d
  proof -
    have "(THE d. at_depth (db_parent db) p d) = d" using that at_depth_unique by blast
    then show ?thesis using at_depth_process [OF that] by (auto simp: h_def db_parent_def)
  qed
  have "h p < h q" if "q \<in> set (children_of ?g p)" for p q
  proof -
    have q: "db_parent db q = Some p" using that child by simp
    then obtain d where d: "at_depth (db_parent db) q d"
      using assms by (auto simp: rooted_db_def db_parent_def)
    show ?thesis
    proof (cases d)
      case 0
      then have "get_process db p = None" using d q by (auto simp: at_depth_0 db_parent_def)
      then show ?thesis using h [OF d] by (simp add: h_def)
    next
      case (Suc n)
      then have "at_depth (db_parent db) p n" using d q by (simp add: at_depth_Suc)
      from h [OF this] h [OF d] Suc show ?thesis by simp
    qed
  qed
  moreover have "distinct (children_of ?g p)" for p
    unfolding kids by (rule list_tree.kids_distinct [OF all_processes_rows(1) [OF ok]])
  moreover have "q \<in> set (children_of ?g p) \<longleftrightarrow> (\<exists>r. om_get (proc_map ?g) q = Some r \<and> pr_ppid r = p)" for p q
    unfolding child graph_of_rows [OF ok] by (auto simp: db_parent_def)
  moreover have "om_inv (proc_map ?g)" using build_graph_ok [OF graph_ok_empty] by (simp add: graph_ok_def)
  ultimately show ?thesis unfolding forest_def by blast
qed

section \<open>The changed files\<close>

lemma starts_with_le: "starts_with k p \<Longrightarrow> p \<le> (k :: string)"
  unfolding starts_with_iff by (induction p arbitrary: k) auto

text \<open>The keys with a prefix are consecutive.\<close>

lemma starts_with_between: "p \<le> k \<Longrightarrow> k \<le> k' \<Longrightarrow> starts_with k' p \<Longrightarrow> starts_with (k :: string) p"
proof (induction p arbitrary: k k')
  case (Cons c p)
  then obtain t where k': "k' = c # p @ t" by (auto simp: starts_with_iff)
  with Cons.prems obtain k1 where "k = c # k1" by (cases k) auto
  with Cons k' show ?case by (auto simp: starts_with_iff)
qed (simp add: starts_with_def)

lemma keys_below_exact:
  assumes "om_inv m"
  shows "set (keys_below m prefix) = {k \<in> set (om_keys m). starts_with k prefix}"
proof -
  have "set (map fst (takeWhile (\<lambda>(k, _). starts_with k prefix) (dropWhile (\<lambda>(k, _). k < prefix) m)))
      = {k \<in> fst ` set m. starts_with k prefix}"
    using assms unfolding om_inv_def
  proof (induction m)
    case (Cons kv m)
    obtain k v where kv: "kv = (k, v)" by fastforce
    have rest: "k < k'" if "k' \<in> fst ` set m" for k' using Cons.prems that kv by auto
    consider (skip) "k < prefix" | (take) "starts_with k prefix" | (stop) "prefix \<le> k" "\<not> starts_with k prefix"
      by fastforce
    then show ?case
    proof cases
      case skip
      then have "\<not> starts_with k prefix" using starts_with_le by (metis leD)
      with skip Cons kv show ?thesis by auto
    next
      case take
      have after: "prefix \<le> k'" if "k' \<in> fst ` set m" for k'
        using starts_with_le [OF take] rest [OF that] by simp
      then have "dropWhile (\<lambda>(k, _). k < prefix) m = m" by (cases m) force+
      with take Cons kv after show ?thesis using starts_with_le [OF take] by (auto simp: leD)
    next
      case stop
      have "\<not> starts_with k' prefix" if "k' \<in> fst ` set m" for k'
        using starts_with_between [OF stop(1) less_imp_le [OF rest [OF that]]] stop(2) by blast
      with stop kv show ?thesis by (auto simp: leD)
    qed
  qed simp
  then show ?thesis by (simp add: keys_below_def om_keys_def)
qed

text \<open>
  The files a rebuild starts from: for every argument exactly the files of the trace that are the
  argument itself or lie under it as a directory, however many arguments there are and whether or not
  they end with a slash. The scan from \<open>lower_bound\<close> misses none and takes in no sibling such as
  \<open>/src2\<close> for \<open>/src\<close>.
\<close>

theorem changed_files_exact:
  "set (changed_files (graph_of db) changed_args) =
     {f \<in> set (om_keys (file_to_readers (graph_of db))).
        \<exists>arg \<in> set changed_args. f = arg \<or> starts_with f (as_dir arg)}"
proof -
  let ?m = "file_to_readers (graph_of db)"
  have inv: "om_inv ?m" using build_graph_ok [OF graph_ok_empty] by (simp add: graph_ok_def)
  have one: "set (expand_changed (graph_of db) arg fs) =
      set fs \<union> {f \<in> set (om_keys ?m). f = arg \<or> starts_with f (as_dir arg)}" for arg fs
    unfolding expand_changed_def fold_os_ins_set keys_below_exact [OF inv]
    by (auto simp: om_keys_set)
  have "set (fold (expand_changed (graph_of db)) args fs) =
      set fs \<union> {f \<in> set (om_keys ?m). \<exists>arg \<in> set args. f = arg \<or> starts_with f (as_dir arg)}" for args fs
    by (induction args arbitrary: fs) (auto simp: one)
  then show ?thesis by (simp add: changed_files_def)
qed

section \<open>Races of a database\<close>

text \<open>
  C30. The race report of a database: when no process is its own ancestor the command ends and prints
  one entry for each race of the recorded build, in which a writer and a reader of one file run at
  the same time and neither descends from the other, and \<open>No Race Conditions\<close> exactly when there is none.
\<close>

theorem cmd_races_exact:
  assumes "rooted_db db"
  shows "\<exists>races. set races = {e. is_race (graph_of db) e}
    \<and> cmd_races db clock = Some
        (if races = [] then ''=== No Race Conditions Detected ==='' @ nl
         else ''=== Race Conditions Detected: '' @ int_str (int (length races)) @ '' ==='' @ nl @
              lines_of (race_text (graph_of db)) races, 0)"
proof -
  have "om_inv (file_to_readers (graph_of db))" using build_graph_ok [OF graph_ok_empty] by (simp add: graph_ok_def)
  then obtain result where "detect_races (graph_of db) clock 0 = Some (True, result)"
    "set result = {e. is_race (graph_of db) e}"
    using races_complete [OF graph_of_forest [OF assms]] by blast
  then show ?thesis by (intro exI [of _ result]) (simp add: cmd_races_def Let_def)
qed

section \<open>The rebuild command on a database\<close>

abbreviation no_empty_outputs :: "dep_graph \<Rightarrow> bool" where
  "no_empty_outputs g \<equiv> \<forall>p fs. om_get (pid_to_outputs g) p = Some fs \<longrightarrow> fs \<noteq> []"

lemma os_ins_not_Nil [simp]: "os_ins x xs \<noteq> []"
  by (cases xs) auto

lemma graph_of_outputs: "no_empty_outputs (graph_of db)"
proof -
  have "no_empty_outputs (fold add_access accs dep_graph_empty)" for accs
    by (rule fold_keeps [where P = no_empty_outputs])
      (auto simp: dep_graph_empty_def add_access_def Let_def om_get_upd)
  moreover have "pid_to_outputs (fold add_process ps g) = pid_to_outputs g" for ps g
    by (induction ps arbitrary: g) (auto simp: frame_simps)
  ultimately have "no_empty_outputs (recorded_graph db)" by (simp add: recorded_graph_def)
  then show ?thesis
    unfolding build_recorded by (rule fixup_keeps [where P = no_empty_outputs]) (auto simp: add_output_def om_get_upd)
qed

lemma writer_has_row:
  assumes ok: "db_ok db" and rows: "\<forall>a \<in> set (get_all_file_accesses db). get_process db (fa_pid a) \<noteq> None"
    and "has_outputs (graph_of db) p"
  shows "om_get (proc_map (graph_of db)) p \<noteq> None"
proof -
  obtain f where f: "f \<in> set (outputs_of (graph_of db) p)"
    using assms(3) graph_of_outputs [of db] by (fastforce simp: has_outputs_def outputs_of_def neq_Nil_conv)
  from graph_as_recorded [of db undefined p, unfolded Let_def]
  consider "f \<in> own_outputs db p" | r where "r \<in> set (get_all_processes db)" "pr_pid r = p"
    using f by auto
  then have "get_process db p \<noteq> None"
    using rows all_processes_rows(2) [OF ok] by cases (auto simp: own_outputs_def)
  then show ?thesis by (simp add: graph_of_rows [OF ok])
qed


section \<open>The properties at a concrete database\<close>

lemma tree_db_rooted: "rooted_db tree_db"
proof -
  have keys: "om_keys (db_processes tree_db) = [1, 2]" "db_readable tree_db" by code_simp+
  have "get_process tree_db p \<noteq> None \<longleftrightarrow> p = 1 \<or> p = 2" for p
    using om_get_eq_None_iff [of "db_processes tree_db" p] by (simp add: get_process_def keys)
  moreover have par: "db_parent tree_db 1 = Some 0" "db_parent tree_db 0 = None" "db_parent tree_db 2 = Some 1"
    by code_simp+
  moreover have "at_depth (db_parent tree_db) 1 0" using par by (simp add: at_depth_0)
  moreover from this have "at_depth (db_parent tree_db) 2 (Suc 0)" using par by (simp add: at_depth_Suc)
  ultimately show ?thesis using tree_db_ok(1,2) by (auto simp: rooted_db_def db_ok_def)
qed

lemma cmd_races_exact_witness: "cmd_races tree_db (\<lambda>i. 0) \<noteq> None"
  using cmd_races_exact [OF tree_db_rooted, of "\<lambda>i. 0"] by auto


end
