(* ===== verification/Viewer_Reports.thy ===== *)
theory Viewer_Reports
  imports Viewer_Analyses
begin

text \<open>
  The commands of \<open>bdview_main.cpp\<close> that report on times: \<open>summary\<close>, \<open>slowest\<close>, \<open>timeline\<close>, \<open>parallel\<close>,
  \<open>diff\<close> and \<open>diagnose\<close>. A command that does not return, or divides by zero, is \<open>None\<close>.
\<close>

section \<open>summary and slowest\<close>

definition cmp_duration_desc :: "ProcessRecord \<Rightarrow> ProcessRecord \<Rightarrow> bool" where
  "cmp_duration_desc a b \<longleftrightarrow> pr_end a - pr_start a > pr_end b - pr_start b"

definition slowest_processes :: "ProcessRecord list \<Rightarrow> ProcessRecord list" where
  "slowest_processes procs = std_sort cmp_duration_desc (filter (\<lambda>p. pr_end p > 0) procs)"

definition rss_text :: "int \<Rightarrow> string" where
  "rss_text max_rss =
     (if max_rss > 0
      then ''Peak RSS:          '' @ (if max_rss \<ge> 1024 then int_str (max_rss sdiv 1024) @ '' MB'' else int_str max_rss @ '' KB'') @ nl
      else '''')"

definition cmd_summary :: "sq_db \<Rightarrow> cmd_result" where
  "cmd_summary db =
     (let procs = get_all_processes db;
          failed_count = get_failed_access_count db;
          (min_time, max_time) = summary_span procs;
          all_fa = get_all_file_accesses db;
          total_user_us = sum_list (map pr_user_time procs); total_sys_us = sum_list (map pr_sys_time procs);
          total_io_read = sum_list (map pr_io_read procs); total_io_write = sum_list (map pr_io_write procs);
          max_rss = fold (\<lambda>p m. if pr_peak_rss p > m then pr_peak_rss p else m) procs 0;
          (top_n, shown) = top_of 5 (slowest_processes procs)
      in (''=== Build Trace Summary ==='' @ nl @
          ''Total time:        '' @ format_duration_us (max_time - min_time) @ nl @
          ''Processes:         '' @ int_str (get_process_count db) @ nl @
          ''Max parallelism:   '' @ int_str (max_parallelism procs) @ nl @
          ''File accesses:     '' @ int_str (get_file_access_count db) @ '' (read: '' @
             int_str (count_if (\<lambda>a. is_input_mode (fa_mode a)) all_fa) @ '', write: '' @
             int_str (count_if (\<lambda>a. is_output_mode (fa_mode a)) all_fa) @ '')'' @ nl @
          (if failed_count > 0 then ''Failed accesses:   '' @ int_str failed_count @ nl else '''') @
          (if total_user_us > 0 \<or> total_sys_us > 0
           then ''Total CPU time:    '' @ format_duration_us total_user_us @ '' user, '' @
                format_duration_us total_sys_us @ '' sys'' @ nl else '''') @
          rss_text max_rss @
          (if total_io_read > 0 \<or> total_io_write > 0
           then ''I/O:               read '' @ int_str (total_io_read sdiv (1024 * 1024)) @ '' MB, write '' @
                int_str (total_io_write sdiv (1024 * 1024)) @ '' MB'' @ nl else '''') @
          (if top_n > 0
           then nl @ ''Slowest processes:'' @ nl @
                lines_of (\<lambda>p. ''  '' @ pad_right 10 (format_duration_us (pr_end p - pr_start p)) @ '' '' @
                    pid_str (pr_pid p) @ '' '' @ shown_cmd p 60 @ nl) shown
           else ''''), 0))"

definition cmd_slowest :: "sq_db \<Rightarrow> int \<Rightarrow> cmd_result" where
  "cmd_slowest db n =
     (let (count, shown) = top_of n (slowest_processes (get_all_processes db)) in
      (''=== Top '' @ int_str count @ '' Slowest Processes ==='' @ nl @
       lines_of (\<lambda>p. ''  '' @ format_duration_us (pr_end p - pr_start p) @ ''  '' @ pid_str (pr_pid p) @ '' '' @
           c_str (pr_cmdline p) @ nl) shown, 0))"

section \<open>timeline\<close>

definition timeline_shown :: "int \<Rightarrow> ProcessRecord list \<Rightarrow> ProcessRecord list" where
  "timeline_shown min_duration_ms procs =
     std_sort start_less (filter (\<lambda>p. pr_end p > 0 \<and> pr_end p - pr_start p \<ge> min_duration_ms * 1000) procs)"

text \<open>\<open>total_sec * i / bar_width\<close>, three operations on \<open>double\<close>s.\<close>

definition scale_mark :: "int \<Rightarrow> int \<Rightarrow> string" where
  "scale_mark total_us i =
     (let total_sec = double_div total_us 1000000;
          scaled = double_div (fst total_sec * i) (2 ^ snd total_sec)
      in fixed_str 1 (double_div (fst scaled) (50 * 2 ^ snd scaled)))"

definition scale_header :: "int \<Rightarrow> string" where
  "scale_header total_us =
     pad_right 25 ''PROCESS'' @ '' '' @ pad_right 10 (scale_mark total_us 0) @ ''s'' @
     lines_of (\<lambda>i. pad_right 10 (take 15 (scale_mark total_us i @ ''s''))) [10, 20, 30, 40] @ nl"

definition bar_cols :: "int \<Rightarrow> int \<Rightarrow> ProcessRecord \<Rightarrow> int \<times> int" where
  "bar_cols min_time total_us p =
     (let start_col = c_int ((pr_start p - min_time) * 50 sdiv total_us);
          end_col = c_int ((pr_end p - min_time) * 50 sdiv total_us);
          end_col = (if end_col \<le> start_col then start_col + 1 else end_col)
      in (start_col, if end_col > 50 then 50 else end_col))"

definition timeline_line :: "int \<Rightarrow> int \<Rightarrow> (int, int) omap \<Rightarrow> ProcessRecord \<Rightarrow> string" where
  "timeline_line min_time total_us depths p =
     (let depth = (case om_get depths (pr_pid p) of None \<Rightarrow> 0 | Some d \<Rightarrow> d);
          label = blanks (nat (depth * 2)) @ cmd_name (pr_cmdline p);
          (start_col, end_col) = bar_cols min_time total_us p
      in pad_right 25 (c_str (take 24 label)) @ '' |'' @
         map (\<lambda>c. if start_col \<le> c \<and> c < end_col then CHR ''='' else CHR '' '') [0..49] @
         ''| '' @ format_duration_us (pr_end p - pr_start p) @ nl)"

definition cmd_timeline :: "sq_db \<Rightarrow> int \<Rightarrow> cmd_result option" where
  "cmd_timeline db min_duration_ms =
     (let procs = get_all_processes db in
      if procs = [] then Some (''No processes recorded.'' @ nl, 0)
      else
        let (min_time, max_time) = time_span procs; total_us = max_time - min_time in
        if total_us \<le> 0 then Some (''No measurable time span.'' @ nl, 0)
        else
          let shown = timeline_shown min_duration_ms procs in
          if shown = [] then Some (''No processes match the duration filter.'' @ nl, 0)
          else case timeline_depths procs shown of
                 None \<Rightarrow> None
               | Some depths \<Rightarrow> Some (
                   scale_header total_us @ lines_of (timeline_line min_time total_us depths) shown @
                   nl @ ''Total: '' @ format_duration_us total_us @ '', '' @ int_str (int (length shown)) @
                   '' processes shown'' @ nl, 0))"

section \<open>parallel\<close>

definition histogram_line :: "int \<Rightarrow> int \<Rightarrow> nat \<Rightarrow> nat \<times> int \<Rightarrow> string" where
  "histogram_line bucket_us max_val num ib =
     (let i = fst ib; b = snd ib in
      if b = 0 \<and> i > 0 \<and> i < num - 1 then ''''
      else pad_left 7 (quotient_str 1 (int i * bucket_us) 1000000) @ ''  '' @ pad_left 5 (int_str b) @ ''  '' @
           replicate (nat (b * 50 sdiv max_val)) CHR ''#'' @ nl)"

definition cmd_parallel :: "sq_db \<Rightarrow> cmd_result option" where
  "cmd_parallel db =
     (let procs = get_all_processes db in
      if procs = [] then Some (''No processes recorded.'' @ nl, 0)
      else
        let (min_time, max_time) = time_span procs; total_us = max_time - min_time in
        if total_us \<le> 0 then Some (''No measurable time span.'' @ nl, 0)
        else case parallel_buckets procs of
               None \<Rightarrow> None
             | Some buckets \<Rightarrow>
                 let max_parallel = fold (\<lambda>b m. if b > m then b else m) buckets 0;
                     active = filter (\<lambda>b. b > 0) buckets;
                     avg = (if active \<noteq> [] then quotient_str 1 (sum_list active) (int (length active)) else ''0.0'');
                     max_val = (if max_parallel > 0 then max_parallel else 1);
                     bucket_us = snd (bucket_layout total_us)
                 in Some (''=== Parallelism Analysis ==='' @ nl @
                      ''Total time:        '' @ format_duration_us total_us @ nl @
                      ''Max parallelism:   '' @ int_str max_parallel @ nl @
                      ''Avg parallelism:   '' @ avg @ nl @ nl @
                      ''TIME(s)  PROCS  HISTOGRAM'' @ nl @
                      lines_of (histogram_line bucket_us max_val (length buckets)) (enumerate 0 buckets), 0))"

section \<open>diff\<close>

definition duration_by_cmd :: "ProcessRecord list \<Rightarrow> (string, int) omap" where
  "duration_by_cmd procs =
     fold (\<lambda>p m. if pr_end p > 0 then om_put (pr_cmdline p) (pr_end p - pr_start p) m else m) procs []"

definition time_changes :: "(string, int) omap \<Rightarrow> (string, int) omap \<Rightarrow> (int \<times> string) list" where
  "time_changes dur1 dur2 =
     std_sort (<) (List.map_filter (\<lambda>(cmd, d2).
       case om_get dur1 cmd of
         None \<Rightarrow> None
       | Some d1 \<Rightarrow> let d = d2 - d1 in if d \<noteq> 0 then Some (if d < 0 then d else - d, cmd) else None) dur2)"

definition count_missing :: "ProcessRecord list \<Rightarrow> ProcessRecord list \<Rightarrow> int" where
  "count_missing procs others =
     (let cmds = os_of (map pr_cmdline procs); others = os_of (map pr_cmdline others)
      in count_if (\<lambda>c. c \<notin> set others) cmds)"

definition duration_of :: "(string, int) omap \<Rightarrow> string \<Rightarrow> int" where
  "duration_of m cmd = (case om_get m cmd of None \<Rightarrow> 0 | Some d \<Rightarrow> d)"

definition plus_sign :: "int \<Rightarrow> string" where
  "plus_sign d = (if d \<ge> 0 then ''+'' else '''')"

definition change_line :: "(string, int) omap \<Rightarrow> (string, int) omap \<Rightarrow> string \<Rightarrow> string" where
  "change_line dur1 dur2 cmd =
     (let d = duration_of dur2 cmd - duration_of dur1 cmd
      in ''  '' @ plus_sign d @ format_duration_us d @ ''  '' @ c_str (shorten_cmd cmd 60) @ nl)"

definition cmd_diff :: "sq_db \<Rightarrow> sq_db \<Rightarrow> cmd_result" where
  "cmd_diff db1 db2 =
     (let procs1 = get_all_processes db1; procs2 = get_all_processes db2;
          fa_count1 = get_file_access_count db1; fa_count2 = get_file_access_count db2;
          n1 = int (length procs1); n2 = int (length procs2);
          (min1, max1) = summary_span procs1; (min2, max2) = summary_span procs2;
          total1 = max1 - min1; total2 = max2 - min2; diff_time = total2 - total1;
          dur1 = duration_by_cmd procs1; dur2 = duration_by_cmd procs2;
          diffs = time_changes dur1 dur2;
          new_count = count_missing procs2 procs1; removed_count = count_missing procs1 procs2
      in (''=== Build Comparison ==='' @ nl @
          blanks 21 @ pad_right 20 ''DB1'' @ '' '' @ pad_right 20 ''DB2'' @ '' DIFF'' @ nl @
          ''Total time:          '' @ pad_right 20 (format_duration_us total1) @ '' '' @
             pad_right 20 (format_duration_us total2) @ '' '' @ plus_sign diff_time @ format_duration_us diff_time @ nl @
          ''Processes:           '' @ pad_right 20 (int_str n1) @ '' '' @ pad_right 20 (int_str n2) @ '' '' @
             plus_int_str (n2 - n1) @ nl @
          ''File accesses:       '' @ pad_right 20 (int_str fa_count1) @ '' '' @ pad_right 20 (int_str fa_count2) @ '' '' @
             plus_int_str (fa_count2 - fa_count1) @ nl @
          (if diffs \<noteq> []
           then nl @ ''Biggest time changes:'' @ nl @ lines_of (change_line dur1 dur2) (map snd (snd (top_of 10 diffs)))
           else '''') @
          (if new_count > 0 \<or> removed_count > 0
           then nl @ ''New processes: '' @ int_str new_count @ '', Removed processes: '' @ int_str removed_count @ nl
           else ''''), 0))"

section \<open>diagnose\<close>

definition by_parent :: "ProcessRecord list \<Rightarrow> (int, ProcessRecord list) omap" where
  "by_parent procs = fold (\<lambda>p. om_upd [] (\<lambda>l. l @ [p]) (pr_ppid p)) procs []"

text \<open>The children that start only after the one before them has ended, and their time.\<close>

fun serial_stats :: "ProcessRecord list \<Rightarrow> int \<times> int \<Rightarrow> int \<times> int" where
  "serial_stats (p # q # ps) (n, t) =
     serial_stats (q # ps) (if pr_start q \<ge> pr_end p then (n + 1, t + (pr_end q - pr_start q)) else (n, t))"
| "serial_stats [p] (n, t) = (n, t)"
| "serial_stats [] (n, t) = (n, t)"

definition serial_issue :: "sq_db \<Rightarrow> int \<Rightarrow> int \<times> ProcessRecord list \<Rightarrow> string option" where
  "serial_issue db total_us it =
     (let siblings = std_sort start_less (snd it) in
      if length (snd it) < 2 then None
      else
        let (serial_count, serial_time) = serial_stats siblings (0, 0) in
        if serial_count \<ge> 3 \<and> serial_time > total_us sdiv 10
        then Some (case get_process db (fst it) of
                     None \<Rightarrow> ''''
                   | Some parent \<Rightarrow>
                       ''[SERIAL] '' @ int_str serial_count @ '' sequential children under '' @ pid_str (fst it) @ '' '' @
                       shown_cmd parent 40 @ nl @
                       ''         Potential parallelization savings: '' @ format_duration_us serial_time @ nl @ nl)
        else None)"

text \<open>\<open>dur * 100 / total_us\<close>: \<open>None\<close> when it divides by zero.\<close>

definition percent_of :: "int \<Rightarrow> int \<Rightarrow> int option" where
  "percent_of dur total_us = (if total_us = 0 then None else Some (c_int (dur * 100 sdiv total_us)))"

fun slow_lines :: "int \<Rightarrow> ProcessRecord list \<Rightarrow> string option" where
  "slow_lines total_us [] = Some []"
| "slow_lines total_us (p # ps) =
     (let dur = pr_end p - pr_start p in
      if dur \<ge> total_us sdiv 4
      then case (percent_of dur total_us, slow_lines total_us ps) of
             (Some pct, Some rest) \<Rightarrow>
               Some (''  '' @ format_duration_us dur @ '' ('' @ int_str pct @ ''% of total) '' @ pid_str (pr_pid p) @ '' '' @
                     shown_cmd p 50 @ nl @ rest)
           | _ \<Rightarrow> None
      else slow_lines total_us ps)"

definition slow_issue :: "int \<Rightarrow> ProcessRecord list \<Rightarrow> string option" where
  "slow_issue total_us procs =
     (case slow_lines total_us (take 5 (std_sort cmp_duration_desc procs)) of
        None \<Rightarrow> None
      | Some ls \<Rightarrow> Some (if ls = [] then ''''
                        else ''[SLOW] Processes taking >25% of build time:'' @ nl @ ls @ nl))"

definition reader_pids :: "FileAccessRecord list \<Rightarrow> (string, int oset) omap" where
  "reader_pids all_fa =
     fold (\<lambda>a m. if is_input_mode (fa_mode a) then om_upd [] (os_ins (fa_pid a)) (fa_filename a) m else m) all_fa []"

definition hot_files :: "(string, int oset) omap \<Rightarrow> int \<times> string \<times> int" where
  "hot_files m =
     fold (\<lambda>(f, pids) (dup_count, worst_file, worst_count).
        let n = int (length pids) in
        if n > 10
        then (dup_count + 1, if n > worst_count then f else worst_file, if n > worst_count then n else worst_count)
        else (dup_count, worst_file, worst_count)) m (0, [], 0)"

definition cmd_diagnose :: "sq_db \<Rightarrow> cmd_result option" where
  "cmd_diagnose db =
     (let procs = get_all_processes db; all_fa = get_all_file_accesses db in
      if procs = [] then Some (''No processes recorded.'' @ nl, 0)
      else
        let (min_time, max_time) = time_span procs; total_us = max_time - min_time;
            serials = List.map_filter (serial_issue db total_us) (by_parent procs) in
        case slow_issue total_us procs of
          None \<Rightarrow> None
        | Some slow \<Rightarrow>
            let (dup_count, worst_file, worst_count) = hot_files (reader_pids all_fa);
                failed = get_failed_access_count db;
                issue_count = int (length serials) + (if slow \<noteq> [] then 1 else 0) + (if dup_count > 0 then 1 else 0)
                  + (if failed > 100 then 1 else 0)
            in Some (
              ''=== Build Diagnostics ==='' @ nl @ ''Total build time: '' @ format_duration_us total_us @ nl @ nl @
              concat serials @ slow @
              (if dup_count > 0
               then ''[HOTFILE] '' @ int_str dup_count @ '' files accessed by >10 processes'' @ nl @
                    ''          Worst: '' @ c_str worst_file @ '' ('' @ int_str worst_count @ '' processes)'' @ nl @ nl
               else '''') @
              (if failed > 100
               then ''[FAILURES] '' @ int_str failed @ '' failed file accesses detected'' @ nl @
                    ''           Run '' @ [CHR 0x27] @ ''bdview failures <db>'' @ [CHR 0x27] @ '' for details'' @ nl @ nl
               else '''') @
              (if issue_count = 0 then ''No significant issues detected.'' @ nl
               else ''Found '' @ int_str issue_count @ '' potential issue(s).'' @ nl), 0))"

section \<open>Properties\<close>

lemma slow_lines_None:
  "slow_lines total_us ps = None \<longleftrightarrow> total_us = 0 \<and> (\<exists>p \<in> set ps. pr_duration p \<ge> total_us sdiv 4)"
  by (induction ps) (auto simp: Let_def percent_of_def pr_duration_def split: option.splits)

lemma longest_first:
  assumes "p \<in> set procs" "pr_duration p \<ge> 0"
  shows "\<exists>q \<in> set (take 5 (std_sort cmp_duration_desc procs)). pr_duration q \<ge> 0"
proof -
  let ?s = "std_sort cmp_duration_desc procs"
  have "weak_order cmp_duration_desc"
    using weak_order_key_desc [of "\<lambda>p. pr_end p - pr_start p"] by (simp add: cmp_duration_desc_def [abs_def])
  then have sorted: "sorted_wrt (\<lambda>x y. \<not> cmp_duration_desc y x) ?s" by (rule std_sort_sorted)
  obtain q qs where s: "?s = q # qs" using assms(1) by (cases ?s) auto
  have "p \<in> set ?s" using assms(1) by simp
  then have "pr_duration p \<le> pr_duration q"
    using sorted unfolding s by (auto simp: cmp_duration_desc_def pr_duration_def not_less)
  then show ?thesis using assms(2) s by auto
qed

text \<open>
  C40. When \<open>diagnose\<close> crashes: it divides by the total time of the trace, and does so for the longest
  processes, so it fails exactly on a trace whose time span is 0 with a process of no negative duration,
  such as a single process that starts and ends in the same microsecond; on every other trace it returns.
\<close>

theorem diagnose_crash_exact:
  "cmd_diagnose db = None \<longleftrightarrow>
     get_all_processes db \<noteq> [] \<and> fst (time_span (get_all_processes db)) = snd (time_span (get_all_processes db))
     \<and> (\<exists>p \<in> set (get_all_processes db). pr_duration p \<ge> 0)"
proof -
  let ?procs = "get_all_processes db"
  obtain t0 t1 where t: "time_span ?procs = (t0, t1)" by fastforce
  have "cmd_diagnose db = None \<longleftrightarrow> ?procs \<noteq> [] \<and> slow_issue (t1 - t0) ?procs = None"
    by (auto simp: cmd_diagnose_def t Let_def split: option.splits prod.splits)
  also have "slow_issue (t1 - t0) ?procs = None \<longleftrightarrow>
      t1 - t0 = 0 \<and> (\<exists>p \<in> set (take 5 (std_sort cmp_duration_desc ?procs)). pr_duration p \<ge> (t1 - t0) sdiv 4)"
    unfolding slow_lines_None [symmetric] by (simp add: slow_issue_def split: option.splits)
  also have "\<dots> \<longleftrightarrow> t0 = t1 \<and> (\<exists>p \<in> set ?procs. pr_duration p \<ge> 0)"
    using longest_first [of _ ?procs] in_set_takeD [of _ 5 "std_sort cmp_duration_desc ?procs"] by auto
  finally show ?thesis using t by simp
qed

text \<open>The slowest processes: the finished ones, the longest first, and the list is cut, not thinned out.\<close>

lemma slowest_exact:
  "top_of n (slowest_processes procs) = (k, top_ps) \<Longrightarrow>
     sorted_wrt (\<lambda>p q. pr_duration q \<le> pr_duration p) top_ps
     \<and> set top_ps \<subseteq> {p \<in> set procs. pr_end p > 0}
     \<and> int (length top_ps) = max 0 k \<and> k = min n (count_if (\<lambda>p. pr_end p > 0) procs)
     \<and> (\<exists>rest. mset (top_ps @ rest) = mset (filter (\<lambda>p. pr_end p > 0) procs)
          \<and> (\<forall>p \<in> set top_ps. \<forall>q \<in> set rest. pr_duration q \<le> pr_duration p))"
proof -
  assume top: "top_of n (slowest_processes procs) = (k, top_ps)"
  let ?s = "slowest_processes procs"
  have "weak_order cmp_duration_desc"
    using weak_order_key_desc [of "\<lambda>p. pr_end p - pr_start p"] by (simp add: cmp_duration_desc_def [abs_def])
  from std_sort_sorted [OF this] have sorted: "sorted_wrt (\<lambda>p q. pr_duration q \<le> pr_duration p) ?s"
    unfolding slowest_processes_def
    by (rule sorted_wrt_mono_rel [rotated]) (auto simp: cmp_duration_desc_def pr_duration_def)
  have top_ps: "top_ps = take (nat k) ?s" and k: "k = min n (int (length ?s))"
    using top by (auto simp: top_of_def Let_def min_def)
  have s: "?s = top_ps @ drop (nat k) ?s" by (simp add: top_ps)
  have "sorted_wrt (\<lambda>p q. pr_duration q \<le> pr_duration p) (top_ps @ drop (nat k) ?s)" using sorted s by simp
  moreover have "mset ?s = mset (filter (\<lambda>p. pr_end p > 0) procs)" by (simp add: slowest_processes_def)
  moreover have "set top_ps \<subseteq> set ?s" unfolding top_ps by (rule set_take_subset)
  moreover have "set ?s = {p \<in> set procs. pr_end p > 0}" "length ?s = length (filter (\<lambda>p. pr_end p > 0) procs)"
    by (auto simp: slowest_processes_def)
  moreover have "int (length top_ps) = max 0 k" by (simp add: top_ps k)
  ultimately have "sorted_wrt (\<lambda>p q. pr_duration q \<le> pr_duration p) top_ps"
    "\<forall>p \<in> set top_ps. \<forall>q \<in> set (drop (nat k) ?s). pr_duration q \<le> pr_duration p"
    "set top_ps \<subseteq> {p \<in> set procs. pr_end p > 0}" "int (length top_ps) = max 0 k"
    "k = min n (count_if (\<lambda>p. pr_end p > 0) procs)"
    "mset (top_ps @ drop (nat k) ?s) = mset (filter (\<lambda>p. pr_end p > 0) procs)"
    using s k by (simp_all add: sorted_wrt_append)
  then show ?thesis by blast
qed

text \<open>The bar of a process lies inside the chart; it is empty only for a process that starts at its very end.\<close>

lemma bar_cols_bounds:
  assumes "t0 \<le> pr_start p" "pr_start p \<le> pr_end p" "pr_end p \<le> t0 + w" "0 < w"
    and "bar_cols t0 w p = (s, e)"
  shows "0 \<le> s \<and> s \<le> 50 \<and> s \<le> e \<and> e \<le> 50 \<and> (s = e \<longrightarrow> s = 50)"
proof -
  define S E where "S = (pr_start p - t0) * 50" and "E = (pr_end p - t0) * 50"
  have SE: "0 \<le> S" "S \<le> E" "E < 51 * w" using assms(1-4) by (simp_all add: S_def E_def)
  then have q: "S sdiv w = S div w" "E sdiv w = E div w"
    using assms(4) by (simp_all add: signed_divide_int_def sgn_if)
  have s: "0 \<le> S div w" "S div w \<le> E div w" "E div w < 51"
    using SE assms(4) by (simp_all add: pos_imp_zdiv_nonneg_iff zdiv_mono1 int_div_less)
  then have cast: "c_int (S div w) = S div w" "c_int (E div w) = E div w"
    by (simp_all add: c_int_id)
  have "bar_cols t0 w p = (S div w, let e = (if E div w \<le> S div w then S div w + 1 else E div w) in if e > 50 then 50 else e)"
    unfolding bar_cols_def S_def [symmetric] E_def [symmetric] Let_def q cast by simp
  with s assms(5) show ?thesis by (auto simp: Let_def split: if_splits)
qed

text \<open>The last finished process with a command line gives its duration.\<close>

lemma duration_by_cmd_get:
  "om_get (duration_by_cmd procs) cmd =
     map_option pr_duration (find (\<lambda>p. pr_cmdline p = cmd \<and> pr_end p > 0) (rev procs))"
proof -
  have "om_get (fold (\<lambda>p m. if pr_end p > 0 then om_put (pr_cmdline p) (pr_end p - pr_start p) m else m) ps m) cmd =
      (case find (\<lambda>p. pr_cmdline p = cmd \<and> pr_end p > 0) (rev ps) of
         None \<Rightarrow> om_get m cmd | Some p \<Rightarrow> Some (pr_duration p))" for ps m
  proof (induction ps arbitrary: m rule: rev_induct)
    case (snoc p ps)
    then show ?case by (auto simp: om_get_put pr_duration_def)
  qed simp
  then show ?thesis by (simp add: duration_by_cmd_def split: option.splits)
qed

lemma duration_by_cmd_inv: "om_inv (duration_by_cmd procs)"
  unfolding duration_by_cmd_def by (rule fold_keeps) (auto simp: om_inv_put)

lemma map_filter_key:
  "(\<And>x y. h x = Some y \<Longrightarrow> g y = f x) \<Longrightarrow> map g (List.map_filter h xs) = map f (filter (\<lambda>x. h x \<noteq> None) xs)"
  by (induction xs) (auto simp: List.map_filter_simps split: option.splits)

text \<open>
  The comparison of two traces lists exactly the commands that finished in both and whose last
  runs took different times, each once, with the greatest change first whichever its sign, and the
  same change in the order of the command lines.
\<close>

theorem diff_exact:
  fixes procs1 procs2
  defines "last_time \<equiv> \<lambda>procs cmd. map_option pr_duration (find (\<lambda>p. pr_cmdline p = cmd \<and> pr_end p > 0) (rev procs))"
    and "changes \<equiv> time_changes (duration_by_cmd procs1) (duration_by_cmd procs2)"
  shows "sorted changes \<and> distinct (map snd changes)
    \<and> set changes = {(- \<bar>d2 - d1\<bar>, cmd) |cmd d1 d2. last_time procs1 cmd = Some d1 \<and> last_time procs2 cmd = Some d2 \<and> d1 \<noteq> d2}"
proof -
  let ?d1 = "duration_by_cmd procs1" and ?d2 = "duration_by_cmd procs2"
  let ?h = "\<lambda>(cmd, d2). case om_get ?d1 cmd of None \<Rightarrow> None
      | Some d1 \<Rightarrow> let d = d2 - d1 in if d \<noteq> 0 then Some (if d < 0 then d else - d, cmd) else None"
  have changes: "changes = std_sort (<) (List.map_filter ?h ?d2)" by (simp add: changes_def time_changes_def)
  have mem: "(x, cmd) \<in> set changes \<longleftrightarrow>
      (\<exists>d1 d2. om_get ?d1 cmd = Some d1 \<and> om_get ?d2 cmd = Some d2 \<and> d1 \<noteq> d2 \<and> x = - \<bar>d2 - d1\<bar>)" for x cmd
    unfolding changes std_sort_set map_filter_mem om_get_iff [OF duration_by_cmd_inv [of procs2]]
    by (auto simp: Let_def split: option.splits if_splits) (force simp: abs_if split: if_splits)+
  have cmds: "map snd (List.map_filter ?h ?d2) = map fst (filter (\<lambda>x. ?h x \<noteq> None) ?d2)"
    by (rule map_filter_key) (auto simp: Let_def split: option.splits if_splits)
  have "distinct (map snd (List.map_filter ?h ?d2))"
    unfolding cmds by (rule distinct_map_filter [OF om_inv_distinct [OF duration_by_cmd_inv]])
  then have "distinct (map snd changes)" unfolding changes distinct_map_mset [OF std_sort_mset] .
  moreover have "sorted changes" by (simp add: changes std_sort_less)
  moreover have "set changes = {(- \<bar>d2 - d1\<bar>, cmd) |cmd d1 d2.
      last_time procs1 cmd = Some d1 \<and> last_time procs2 cmd = Some d2 \<and> d1 \<noteq> d2}"
    using mem unfolding duration_by_cmd_get last_time_def by auto
  ultimately show ?thesis by blast
qed

lemma diff_exact_witness:
  "set (time_changes (duration_by_cmd [(process_at 1 0)\<lparr>pr_cmdline := ''cc'', pr_end := 5\<rparr>])
     (duration_by_cmd [(process_at 1 0)\<lparr>pr_cmdline := ''cc'', pr_end := 9\<rparr>])) = {(- 4, ''cc'')}"
  using diff_exact [of "[(process_at 1 0)\<lparr>pr_cmdline := ''cc'', pr_end := 5\<rparr>]"
      "[(process_at 1 0)\<lparr>pr_cmdline := ''cc'', pr_end := 9\<rparr>]"]
  by (auto simp: pr_duration_def process_at_def ProcessRecord_default_def)

end
