(* ===== verification/Viewer_Main.thy ===== *)
theory Viewer_Main
  imports Viewer_Reports ProcFs
begin

text \<open>
  \<open>main\<close> of \<open>bdview_main.cpp\<close>: the command, its options and their defaults. \<open>open_db\<close> stands for opening
  a database file and bringing it to the current schema; \<open>None\<close> is a file that cannot be opened.
\<close>

section \<open>Numbers\<close>

text \<open>\<open>std::atoi\<close>, in the C library: \<open>strtol\<close> cut to an \<open>int\<close>.\<close>

definition atoi :: "string \<Rightarrow> int" where
  "atoi s = c_int (fst (strtol10 s))"

section \<open>Options\<close>

text \<open>
  The option loops: an option with a value takes the next argument, whatever it looks like, and is
  ignored as the last argument; what is not known is ignored.
\<close>

fun scan_options :: "string list \<Rightarrow> string list \<Rightarrow> string list \<Rightarrow> (string \<times> string) list" where
  "scan_options valued flags [] = []"
| "scan_options valued flags [a] = (if a \<in> set flags then [(a, [])] else [])"
| "scan_options valued flags (a # b # rest) =
     (if a \<in> set valued then (a, b) # scan_options valued flags rest
      else if a \<in> set flags then (a, []) # scan_options valued flags (b # rest)
      else scan_options valued flags (b # rest))"

definition option_values :: "string \<Rightarrow> (string \<times> string) list \<Rightarrow> string list" where
  "option_values name opts = map snd (filter (\<lambda>(n, _). n = name) opts)"

text \<open>The last occurrence wins.\<close>

definition int_option :: "string \<Rightarrow> int \<Rightarrow> (string \<times> string) list \<Rightarrow> int" where
  "int_option name dflt opts =
     (case option_values name opts of [] \<Rightarrow> dflt | vs \<Rightarrow> atoi (last vs))"

definition string_option :: "string \<Rightarrow> (string \<times> string) list \<Rightarrow> string" where
  "string_option name opts = (case option_values name opts of [] \<Rightarrow> [] | vs \<Rightarrow> last vs)"

definition flag_option :: "string \<Rightarrow> (string \<times> string) list \<Rightarrow> bool" where
  "flag_option name opts \<longleftrightarrow> option_values name opts \<noteq> []"

section \<open>main\<close>

definition rebuild_of_args :: "sq_db \<Rightarrow> string list \<Rightarrow> cmd_result option" where
  "rebuild_of_args db args =
     (let opts = scan_options [''--changed'', ''--collapse''] [''--estimate''] args;
          changed = option_values ''--changed'' opts
      in if changed = [] then Some ('''', 1)
         else case cmd_rebuild db changed (os_of (option_values ''--collapse'' opts)) (flag_option ''--estimate'' opts) of
                Inl _ \<Rightarrow> None
              | Inr r \<Rightarrow> Some r)"

definition run_command :: "(nat \<Rightarrow> int) \<Rightarrow> sq_db \<Rightarrow> string \<Rightarrow> string list \<Rightarrow> cmd_result option" where
  "run_command clock db command args =
     (if command = ''summary'' then Some (cmd_summary db)
      else if command = ''tree'' then
        map_option (\<lambda>t. (t, 0)) (cmd_tree db (c_int (int_option ''--slow'' 0 (scan_options [''--slow''] [] args) * 1000)))
      else if command = ''slowest'' then Some (cmd_slowest db (int_option ''-n'' 10 (scan_options [''-n''] [] args)))
      else if command = ''files'' then
        let opts = scan_options [''-p'', ''-f''] [] args
        in Some (cmd_files db (int_option ''-p'' 0 opts) (string_option ''-f'' opts))
      else if command = ''trace'' then
        let opts = scan_options [''-p'', ''-f'', ''-w''] [] args
        in Some (cmd_trace db (int_option ''-p'' 0 opts) (string_option ''-f'' opts) (int_option ''-w'' 0 opts))
      else if command = ''rebuild'' then rebuild_of_args db args
      else if command = ''timeline'' then
        cmd_timeline db (int_option ''--min-duration'' 0 (scan_options [''--min-duration''] [] args))
      else if command = ''critical'' then map_option (\<lambda>t. (t, 0)) (cmd_critical db)
      else if command = ''hotspot'' then
        let opts = scan_options [''--top''] [''--dir''] args
        in Some (cmd_hotspot db (int_option ''--top'' 20 opts) (flag_option ''--dir'' opts))
      else if command = ''failures'' then
        Some (cmd_failures db (int_option ''--errno'' 0 (scan_options [''--errno''] [] args)))
      else if command = ''parallel'' then cmd_parallel db
      else if command = ''diagnose'' then cmd_diagnose db
      else if command = ''pio'' then
        let opts = scan_options [''-p''] [''--tree''] args; pid = int_option ''-p'' 0 opts
        in if pid = 0 then Some ('''', 1) else Some (cmd_pio db pid (flag_option ''--tree'' opts))
      else if command = ''impact'' then
        Some (cmd_impact db clock (int_option ''--top'' 20 (scan_options [''--top''] [] args)))
      else if command = ''races'' then cmd_races db clock
      else if command = ''rdeps'' then
        let opts = scan_options [''-f'', ''--depth''] [] args; path = string_option ''-f'' opts
        in if path = [] then Some ('''', 1) else Some (cmd_rdeps db path (int_option ''--depth'' 3 opts))
      else Some ('''', 1))"

definition bdview_main :: "(nat \<Rightarrow> int) \<Rightarrow> (string \<Rightarrow> sq_db option) \<Rightarrow> string list \<Rightarrow> cmd_result option" where
  "bdview_main clock open_db argv =
     (case argv of
        _ # command # path # args \<Rightarrow>
          if command = ''diff'' then
            (case args of
               [] \<Rightarrow> Some ('''', 1)
             | path2 # _ \<Rightarrow>
                (case (open_db path, open_db path2) of
                   (Some db1, Some db2) \<Rightarrow> Some (cmd_diff db1 db2)
                 | _ \<Rightarrow> Some ('''', 1)))
          else (case open_db path of None \<Rightarrow> Some ('''', 1) | Some db \<Rightarrow> run_command clock db command args)
      | _ \<Rightarrow> Some ('''', 1))"

section \<open>Properties\<close>

text \<open>Reading back a printed number.\<close>

lemma strtol10_int_str:
  assumes "- (2 ^ 63) < i" "i < 2 ^ 63"
  shows "fst (strtol10 (int_str i)) = i"
proof (cases "i < 0")
  case False
  then show ?thesis using strtol10_nat_digits [of "nat i" "[]"] assms by (simp add: int_str_def nat_less_iff)
next
  case True
  have "digits_val 0 (nat_digits (nat (- i)) @ []) = (- i, [])"
    using digits_val_nat_digits [of 0 "nat (- i)" "[]"] True by simp
  moreover have "nat_digits (nat (- i)) \<noteq> []" using nat_digits_first [of "nat (- i)"] by auto
  ultimately show ?thesis using True assms
    by (simp add: strtol10_def int_str_def is_space_def clamp_long_def)
qed

definition fits_int :: "int \<Rightarrow> bool" where
  "fits_int i \<longleftrightarrow> - (2 ^ 31) \<le> i \<and> i < 2 ^ 31"

lemma c_int_0 [simp]: "c_int 0 = 0"
  by (simp add: c_int_def)

lemma c_int_fits: "fits_int i \<Longrightarrow> c_int i = i"
  by (simp add: fits_int_def c_int_id)

lemma atoi_int_str: "fits_int i \<Longrightarrow> atoi (int_str i) = i"
  by (simp add: atoi_def fits_int_def strtol10_int_str c_int_id)

text \<open>
  Every documented command line runs its command with the options it gives: the numbers printed
  in decimal are the ones the command gets, the options may be repeated where the usage says so, and
  the defaults are the documented ones.
\<close>

theorem usage_exact:
  fixes clock open_db
  assumes "open_db db_file = Some db" "fits_int ms" "fits_int (ms * 1000)" "fits_int n" "fits_int pid" "fits_int w" "fits_int d"
  defines "run \<equiv> \<lambda>args. bdview_main clock open_db (''bdview'' # args)"
  shows "run [''summary'', db_file] = Some (cmd_summary db)
    \<and> run [''tree'', db_file] = map_option (\<lambda>t. (t, 0)) (cmd_tree db 0)
    \<and> run [''tree'', db_file, ''--slow'', int_str ms] = map_option (\<lambda>t. (t, 0)) (cmd_tree db (ms * 1000))
    \<and> run [''slowest'', db_file] = Some (cmd_slowest db 10)
    \<and> run [''slowest'', db_file, ''-n'', int_str n] = Some (cmd_slowest db n)
    \<and> run [''files'', db_file, ''-p'', int_str pid] = Some (cmd_files db pid [])
    \<and> run [''files'', db_file, ''-f'', path] = Some (cmd_files db 0 path)
    \<and> run [''trace'', db_file, ''-p'', int_str pid, ''-w'', int_str w] = Some (cmd_trace db pid [] w)
    \<and> (run [''rebuild'', db_file, ''--changed'', f1, ''--changed'', f2, ''--collapse'', c, ''--estimate''] =
           (case cmd_rebuild db [f1, f2] [c] True of Inl e \<Rightarrow> None | Inr r \<Rightarrow> Some r))
    \<and> run [''timeline'', db_file, ''--min-duration'', int_str ms] = cmd_timeline db ms
    \<and> run [''critical'', db_file] = map_option (\<lambda>t. (t, 0)) (cmd_critical db)
    \<and> run [''hotspot'', db_file, ''--top'', int_str n, ''--dir''] = Some (cmd_hotspot db n True)
    \<and> run [''failures'', db_file, ''--errno'', int_str n] = Some (cmd_failures db n)
    \<and> run [''parallel'', db_file] = cmd_parallel db
    \<and> run [''diagnose'', db_file] = cmd_diagnose db
    \<and> run [''diff'', db_file, db_file] = Some (cmd_diff db db)
    \<and> run [''pio'', db_file, ''-p'', int_str pid, ''--tree''] = Some (if pid = 0 then ('''', 1) else cmd_pio db pid True)
    \<and> run [''impact'', db_file] = Some (cmd_impact db clock 20)
    \<and> run [''races'', db_file] = cmd_races db clock
    \<and> run [''rdeps'', db_file, ''-f'', CHR ''/'' # path, ''--depth'', int_str d] = Some (cmd_rdeps db (CHR ''/'' # path) d)"
  unfolding run_def bdview_main_def
  by (intro conjI) (simp_all add: assms run_command_def rebuild_of_args_def int_option_def string_option_def flag_option_def
      option_values_def atoi_int_str c_int_fits os_of_def Let_def)

lemma usage_exact_witness: "bdview_main (\<lambda>i. 0) (\<lambda>f. Some tree_db) [''bdview'', ''slowest'', ''t.db''] = Some (cmd_slowest tree_db 10)"
  using usage_exact [of "\<lambda>f. Some tree_db" "''t.db''" tree_db 0 0 0 0 0 "\<lambda>i. 0"] by (simp add: fits_int_def)

end
