(* ===== verification/Web_Tree.thy ===== *)
theory Web_Tree
  imports Viewer_Analyses
begin

text \<open>
  The tree walks of the web viewer (\<open>web/bdview_web.cpp\<close>): the statistics of each process together
  with its descendants, computed once for the whole graph with a cache, and the depth-first order of
  the time line, a loop over an explicit stack.
\<close>

section \<open>Statistics of descendants\<close>

record DescendantStats =
  desc_file_count :: int
  desc_fail_count :: int
  desc_cpu_us :: int
  desc_peak_rss_kb :: int
  desc_io_bytes :: int

definition DescendantStats_new :: DescendantStats where
  "DescendantStats_new = \<lparr>desc_file_count = 0, desc_fail_count = 0, desc_cpu_us = 0, desc_peak_rss_kb = 0, desc_io_bytes = 0\<rparr>"

definition own_stats :: "dep_graph \<Rightarrow> int \<Rightarrow> DescendantStats" where
  "own_stats g pid =
     (case om_get (proc_map g) pid of
        None \<Rightarrow> DescendantStats_new
      | Some p \<Rightarrow> \<lparr>desc_file_count = pr_file_count p, desc_fail_count = pr_fail_count p,
                   desc_cpu_us = pr_user_time p + pr_sys_time p, desc_peak_rss_kb = pr_peak_rss p,
                   desc_io_bytes = pr_io_read p + pr_io_write p\<rparr>)"

definition add_child_stats :: "DescendantStats \<Rightarrow> DescendantStats \<Rightarrow> DescendantStats" where
  "add_child_stats child ds =
     \<lparr>desc_file_count = desc_file_count ds + desc_file_count child,
      desc_fail_count = desc_fail_count ds + desc_fail_count child,
      desc_cpu_us = desc_cpu_us ds + desc_cpu_us child,
      desc_peak_rss_kb = (if desc_peak_rss_kb child > desc_peak_rss_kb ds then desc_peak_rss_kb child else desc_peak_rss_kb ds),
      desc_io_bytes = desc_io_bytes ds + desc_io_bytes child\<rparr>"

type_synonym desc_cache = "(int, DescendantStats) omap"

text \<open>
  \<open>compute_desc_one\<close> for each pid of a list in turn, adding what it returns to \<open>ds\<close>; the recursive
  call starts from the process's own figures and stores its result.
\<close>

partial_function (option) desc_children ::
    "dep_graph \<Rightarrow> int list \<Rightarrow> DescendantStats \<Rightarrow> desc_cache \<Rightarrow> (DescendantStats \<times> desc_cache) option" where
  "desc_children g pids ds cache =
     (case pids of
        [] \<Rightarrow> Some (ds, cache)
      | pid # rest \<Rightarrow>
         (case om_get cache pid of
            Some child \<Rightarrow> desc_children g rest (add_child_stats child ds) cache
          | None \<Rightarrow>
             Option.bind (desc_children g (children_of g pid) (own_stats g pid) cache) (\<lambda>r.
               desc_children g rest (add_child_stats (fst r) ds) (om_put pid (fst r) (snd r)))))"

definition compute_desc_one :: "int \<Rightarrow> dep_graph \<Rightarrow> desc_cache \<Rightarrow> (DescendantStats \<times> desc_cache) option" where
  "compute_desc_one pid g cache =
     (case om_get cache pid of
        Some ds \<Rightarrow> Some (ds, cache)
      | None \<Rightarrow> (case desc_children g (children_of g pid) (own_stats g pid) cache of
                  None \<Rightarrow> None
                | Some (ds, cache') \<Rightarrow> Some (ds, om_put pid ds cache')))"

text \<open>What \<open>get_dep_graph\<close> computes once: the figures for every process and the CPU time of all.\<close>

fun precompute_desc :: "dep_graph \<Rightarrow> (int \<times> ProcessRecord) list \<Rightarrow> desc_cache \<times> int \<Rightarrow> (desc_cache \<times> int) option" where
  "precompute_desc g [] s = Some s"
| "precompute_desc g ((pid, p) # ps) s =
     (case compute_desc_one pid g (fst s) of
        None \<Rightarrow> None
      | Some (_, cache) \<Rightarrow> precompute_desc g ps (cache, snd s + (pr_user_time p + pr_sys_time p)))"

record dep_state =
  ds_graph :: dep_graph
  ds_stats :: desc_cache
  ds_total_cpu :: int

definition get_dep_graph :: "sq_db \<Rightarrow> dep_state option" where
  "get_dep_graph db =
     (let g = graph_of db in
      case precompute_desc g (proc_map g) ([], 0) of
        None \<Rightarrow> None
      | Some (stats, cpu) \<Rightarrow> Some \<lparr>ds_graph = g, ds_stats = stats, ds_total_cpu = cpu\<rparr>)"

section \<open>The order of the time line\<close>

text \<open>The head of the list is \<open>stack.back()\<close>.\<close>

partial_function (option) dfs_order ::
    "(int, int list) omap \<Rightarrow> (int \<times> int) list \<Rightarrow> (int \<times> int) list \<Rightarrow> (int \<times> int) list option" where
  "dfs_order children stack ordered =
     (case stack of
        [] \<Rightarrow> Some ordered
      | tp # st \<Rightarrow>
          dfs_order children
            (map (\<lambda>c. (c, snd tp + 1)) (case om_get children (fst tp) of None \<Rightarrow> [] | Some cs \<Rightarrow> cs) @ st)
            (ordered @ [tp]))"

definition timeline_order :: "ProcessRecord list \<Rightarrow> (int \<times> int) list option" where
  "timeline_order procs = dfs_order (list_children procs) (map (\<lambda>r. (r, 0)) (list_roots procs)) []"

section \<open>The statistics are exact\<close>

text \<open>A process and everything below it, and the figures of a set of processes.\<close>

definition proc_row :: "dep_graph \<Rightarrow> int \<Rightarrow> ProcessRecord" where
  "proc_row g p = (case om_get (proc_map g) p of None \<Rightarrow> ProcessRecord_default | Some r \<Rightarrow> r)"

definition sum_stats :: "dep_graph \<Rightarrow> int set \<Rightarrow> DescendantStats \<Rightarrow> bool" where
  "sum_stats g A ds \<longleftrightarrow>
     desc_file_count ds = (\<Sum>p \<in> A. desc_file_count (own_stats g p))
     \<and> desc_fail_count ds = (\<Sum>p \<in> A. desc_fail_count (own_stats g p))
     \<and> desc_cpu_us ds = (\<Sum>p \<in> A. desc_cpu_us (own_stats g p))
     \<and> desc_io_bytes ds = (\<Sum>p \<in> A. desc_io_bytes (own_stats g p))
     \<and> desc_peak_rss_kb ds = Max (desc_peak_rss_kb ` own_stats g ` A)"

lemma sum_stats_own: "sum_stats g {p} (own_stats g p)"
  by (simp add: sum_stats_def)

lemma sum_stats_add:
  assumes "sum_stats g A a" "sum_stats g B b" "finite A" "finite B" "A \<noteq> {}" "B \<noteq> {}" "A \<inter> B = {}"
  shows "sum_stats g (A \<union> B) (add_child_stats b a)"
proof -
  have "Max (desc_peak_rss_kb ` own_stats g ` (A \<union> B)) =
      max (Max (desc_peak_rss_kb ` own_stats g ` A)) (Max (desc_peak_rss_kb ` own_stats g ` B))"
    unfolding image_Un using assms by (intro Max_Un) auto
  moreover have maxi: "(if y > x then y else x) = max x y" for x y :: int by auto
  ultimately show ?thesis
    using assms unfolding sum_stats_def add_child_stats_def
    by (simp only: DescendantStats.simps maxi sum.union_disjoint [OF assms(3,4,7)])
qed

definition cache_ok :: "dep_graph \<Rightarrow> desc_cache \<Rightarrow> bool" where
  "cache_ok g cache \<longleftrightarrow> (\<forall>p ds. om_get cache p = Some ds \<longrightarrow> sum_stats g (tree_of g p) ds)"

lemma finite_tree: "finite (tree_of g p)"
proof -
  have "Process_IO.child_rel g \<subseteq> (\<Union>kv \<in> set (pid_children g). Pair (fst kv) ` set (snd kv))"
  proof
    fix e assume "e \<in> Process_IO.child_rel g"
    obtain a b where e: "e = (a, b)" by fastforce
    with \<open>e \<in> Process_IO.child_rel g\<close> have "b \<in> set (children_of g a)" by simp
    then obtain cs where "om_get (pid_children g) a = Some cs" and b: "b \<in> set cs"
      by (cases "om_get (pid_children g) a") (auto simp: children_of_def)
    then have "(a, cs) \<in> set (pid_children g)" by (auto dest: om_get_SomeD)
    then show "e \<in> (\<Union>kv \<in> set (pid_children g). Pair (fst kv) ` set (snd kv))"
      using b by (intro UN_I [of "(a, cs)"]) (auto simp: e)
  qed
  then have "finite (Process_IO.child_rel g)" by (rule finite_subset) auto
  then show ?thesis by (intro finite_rtrancl_Image) auto
qed

lemma desc_children_Nil: "desc_children g [] ds cache = Some (ds, cache)"
  by (subst desc_children.simps) simp

lemma desc_children_Cons:
  "compute_desc_one pid g cache = Some (child, cache') \<Longrightarrow>
     desc_children g (pid # rest) ds cache = desc_children g rest (add_child_stats child ds) cache'"
  by (subst desc_children.simps) (auto simp: compute_desc_one_def split: option.splits)

text \<open>What a call for \<open>p\<close> does to any correct cache.\<close>

definition computes :: "dep_graph \<Rightarrow> int \<Rightarrow> bool" where
  "computes g p \<longleftrightarrow> (\<forall>cache. cache_ok g cache \<longrightarrow>
     (\<exists>ds cache'. compute_desc_one p g cache = Some (ds, cache') \<and> cache_ok g cache' \<and> sum_stats g (tree_of g p) ds
        \<and> om_get cache' p = Some ds \<and> (\<forall>k. om_get cache k \<noteq> None \<longrightarrow> om_get cache' k \<noteq> None)))"

lemma computes_children:
  assumes "\<forall>c \<in> set cs. computes g c" "apart g (set cs)" "distinct cs"
  shows "cache_ok g cache \<Longrightarrow> sum_stats g A ds \<Longrightarrow> finite A \<Longrightarrow> A \<noteq> {} \<Longrightarrow>
    \<forall>c \<in> set cs. A \<inter> tree_of g c = {} \<Longrightarrow>
    \<exists>ds' cache'. desc_children g cs ds cache = Some (ds', cache') \<and> cache_ok g cache'
      \<and> sum_stats g (A \<union> (\<Union>c \<in> set cs. tree_of g c)) ds'
      \<and> (\<forall>k. om_get cache k \<noteq> None \<longrightarrow> om_get cache' k \<noteq> None)"
  using assms
proof (induction cs arbitrary: cache A ds)
  case Nil
  then show ?case by (simp add: desc_children_Nil)
next
  case (Cons c cs)
  then obtain child c1 where one: "compute_desc_one c g cache = Some (child, c1)" "cache_ok g c1"
    "sum_stats g (tree_of g c) child" "\<forall>k. om_get cache k \<noteq> None \<longrightarrow> om_get c1 k \<noteq> None"
    by (auto simp: computes_def)
  have "sum_stats g (A \<union> tree_of g c) (add_child_stats child ds)"
    using Cons.prems one(3) finite_tree by (intro sum_stats_add) auto
  moreover have "tree_of g c \<inter> tree_of g d = {}" if "d \<in> set cs" for d
  proof -
    have "c \<noteq> d" using Cons.prems(8) that by auto
    then show ?thesis using Cons.prems(7) that unfolding apart_def by simp
  qed
  then have "\<forall>d \<in> set cs. (A \<union> tree_of g c) \<inter> tree_of g d = {}"
    using Cons.prems(5) by (auto simp: Int_Un_distrib2)
  moreover have "apart g (set cs)" using Cons.prems(7) by (auto simp: apart_def)
  ultimately obtain ds' c2 where "desc_children g cs (add_child_stats child ds) c1 = Some (ds', c2)" "cache_ok g c2"
    "sum_stats g ((A \<union> tree_of g c) \<union> (\<Union>d \<in> set cs. tree_of g d)) ds'" "\<forall>k. om_get c1 k \<noteq> None \<longrightarrow> om_get c2 k \<noteq> None"
    using Cons.IH [of c1 "A \<union> tree_of g c" "add_child_stats child ds"] Cons.prems one(2) finite_tree by auto
  then show ?case using one by (simp add: desc_children_Cons Un_assoc)
qed

lemma computes_all:
  assumes "forest g"
  shows "computes g p"
proof (induction p rule: wf_induct_rule [OF forest_wf [OF assms]])
  case (1 p)
  have kids: "computes g c" if "c \<in> set (children_of g p)" for c using 1 [of c] that by simp
  have tree: "tree_of g p = {p} \<union> (\<Union>c \<in> set (children_of g p). tree_of g c)"
    using child_reach [of g p] by auto
  have own: "{p} \<inter> tree_of g c = {}" if "c \<in> set (children_of g p)" for c
  proof -
    have "(c, p) \<notin> (Process_IO.child_rel g)\<^sup>*"
    proof
      assume "(c, p) \<in> (Process_IO.child_rel g)\<^sup>*"
      then have "(p, p) \<in> (Process_IO.child_rel g)\<^sup>+" using that by (auto intro: rtrancl_into_trancl2)
      with forest_acyclic [OF assms] show False by (simp add: acyclic_def)
    qed
    then show ?thesis by auto
  qed
  show ?case
    unfolding computes_def
  proof (intro allI impI)
    fix cache assume ok: "cache_ok g cache"
    show "\<exists>ds cache'. compute_desc_one p g cache = Some (ds, cache') \<and> cache_ok g cache' \<and> sum_stats g (tree_of g p) ds
        \<and> om_get cache' p = Some ds \<and> (\<forall>k. om_get cache k \<noteq> None \<longrightarrow> om_get cache' k \<noteq> None)"
    proof (cases "om_get cache p")
      case (Some ds)
      then show ?thesis using ok by (auto simp: compute_desc_one_def cache_ok_def)
    next
      case None
      have "distinct (children_of g p)" using assms by (simp add: forest_def)
      from computes_children [OF _ children_apart [OF assms] this ok sum_stats_own] kids own
      obtain ds c1 where "desc_children g (children_of g p) (own_stats g p) cache = Some (ds, c1)" "cache_ok g c1"
        "sum_stats g (tree_of g p) ds" "\<forall>k. om_get cache k \<noteq> None \<longrightarrow> om_get c1 k \<noteq> None"
        unfolding tree by blast
      then show ?thesis using None by (auto simp: compute_desc_one_def cache_ok_def om_get_put)
    qed
  qed
qed

lemma precompute_exact:
  assumes "forest g"
  shows "cache_ok g (fst s) \<Longrightarrow> \<exists>cache. precompute_desc g ps s =
      Some (cache, snd s + (\<Sum>(pid, p) \<leftarrow> ps. pr_user_time p + pr_sys_time p)) \<and> cache_ok g cache
      \<and> (\<forall>k. om_get (fst s) k \<noteq> None \<or> k \<in> fst ` set ps \<longrightarrow> om_get cache k \<noteq> None)"
proof (induction ps arbitrary: s)
  case Nil
  then show ?case by (cases s) auto
next
  case (Cons kp ps)
  obtain pid p where kp: "kp = (pid, p)" by fastforce
  obtain ds c1 where one: "compute_desc_one pid g (fst s) = Some (ds, c1)" "cache_ok g c1" "om_get c1 pid = Some ds"
    "\<forall>k. om_get (fst s) k \<noteq> None \<longrightarrow> om_get c1 k \<noteq> None"
    using computes_all [OF assms, of pid] Cons.prems by (auto simp: computes_def)
  let ?s = "(c1, snd s + (pr_user_time p + pr_sys_time p))"
  have "cache_ok g (fst ?s)" using one(2) by simp
  from Cons.IH [OF this] obtain cache where "precompute_desc g ps ?s =
      Some (cache, snd ?s + (\<Sum>(pid, p) \<leftarrow> ps. pr_user_time p + pr_sys_time p))" "cache_ok g cache"
      "\<forall>k. om_get (fst ?s) k \<noteq> None \<or> k \<in> fst ` set ps \<longrightarrow> om_get cache k \<noteq> None" by blast
  then show ?case using one by (intro exI [of _ cache]) (auto simp: kp)
qed

lemma list_proc_map_mset:
  "distinct (map pr_pid procs) \<Longrightarrow> mset (list_proc_map procs) = mset (map (\<lambda>p. (pr_pid p, p)) procs)"
proof -
  have put: "k \<notin> fst ` set m \<Longrightarrow> mset (om_put k v m) = add_mset (k, v) (mset m)" for k :: int and v :: ProcessRecord and m
    by (induction m) auto
  have keys: "fst ` set (om_put k v m) = insert k (fst ` set m)" for k :: int and v :: ProcessRecord and m
    by (rule om_put_fst_set)
  have "distinct (map pr_pid ps) \<Longrightarrow> pr_pid ` set ps \<inter> fst ` set m = {} \<Longrightarrow>
      mset (fold (\<lambda>p. om_put (pr_pid p) p) ps m) = mset m + mset (map (\<lambda>p. (pr_pid p, p)) ps)"
    for ps :: "ProcessRecord list" and m
    by (induction ps arbitrary: m) (auto simp: put keys)
  from this [of procs "[]"] show "distinct (map pr_pid procs) \<Longrightarrow> ?thesis" by (simp add: list_proc_map_def)
qed



section \<open>The time line lists every process once\<close>

lemma dfs_order_Nil: "dfs_order children [] ordered = Some ordered"
  by (subst dfs_order.simps) simp

lemma dfs_order_Cons:
  "dfs_order (list_children procs) ((p, d) # st) ordered =
     dfs_order (list_children procs) (map (\<lambda>c. (c, d + 1)) (list_kids procs p) @ st) (ordered @ [(p, d)])"
  by (subst dfs_order.simps) (simp add: list_kids_def)

definition at_level :: "int \<times> int \<Rightarrow> nat \<Rightarrow> bool" where
  "at_level e n \<longleftrightarrow> snd e = int n"

definition dfs_lists :: "ProcessRecord list \<Rightarrow> (int \<times> int) list \<Rightarrow> bool" where
  "dfs_lists procs ts \<longleftrightarrow>
     (\<exists>L. (\<forall>st ordered. dfs_order (list_children procs) (ts @ st) ordered = dfs_order (list_children procs) st (ordered @ L))
        \<and> listing at_level (list_parent procs) (map fst ts) L)"

lemma dfs_lists_all:
  assumes "\<And>t. t \<in> set ts \<Longrightarrow> at_depth (list_parent procs) (fst t) d \<and> dfs_lists procs [t]" "distinct (map fst ts)"
  shows "dfs_lists procs ts"
  using assms
proof (induction ts)
  case Nil
  show ?case by (auto simp: dfs_lists_def listing_def intro!: exI [of _ "[]"])
next
  case (Cons t ts)
  then obtain N where N: "\<forall>st ordered. dfs_order (list_children procs) (ts @ st) ordered = dfs_order (list_children procs) st (ordered @ N)"
    "listing at_level (list_parent procs) (map fst ts) N" by (auto simp: dfs_lists_def)
  have "dfs_lists procs [t]" using Cons.prems(1) [of t] by simp
  then obtain L where L: "\<forall>st ordered. dfs_order (list_children procs) (t # st) ordered = dfs_order (list_children procs) st (ordered @ L)"
    "listing at_level (list_parent procs) [fst t] L" by (auto simp: dfs_lists_def)
  have "listing at_level (list_parent procs) ([fst t] @ map fst ts) (L @ N)"
    using Cons.prems by (intro listing_append [OF L(2) N(2), of d]) auto
  then show ?case unfolding dfs_lists_def using L(1) N(1) by (intro exI [of _ "L @ N"]) simp
qed

lemma dfs_lists_tree:
  assumes "distinct (map pr_pid procs)" "at_depth (list_parent procs) p d"
  shows "dfs_lists procs [(p, int d)]"
  using assms
proof (induction rule: list_tree.tree_induct)
  case (node p d)
  let ?ts = "map (\<lambda>c. (c, int d + 1)) (list_kids procs p)"
  have "dfs_lists procs ?ts"
  proof (rule dfs_lists_all)
    fix t assume "t \<in> set ?ts"
    then obtain c where t: "t = (c, int (Suc d))" "c \<in> set (list_kids procs p)" by auto
    then show "at_depth (list_parent procs) (fst t) (Suc d) \<and> dfs_lists procs [t]"
      using node.IH [of c] list_tree.kids_depth [OF assms(1) node.hyps] by (simp add: t(1))
  qed (simp add: o_def list_tree.kids_distinct [OF assms(1)])
  then obtain M where M: "\<forall>st ordered. dfs_order (list_children procs) (?ts @ st) ordered = dfs_order (list_children procs) st (ordered @ M)"
    "listing at_level (list_parent procs) (list_kids procs p) M" by (auto simp: dfs_lists_def o_def)
  have "listing at_level (list_parent procs) [p] ((p, int d) # M)"
    by (rule list_tree.listing_node [OF assms(1) node.hyps _ M(2)]) (simp add: at_level_def)
  then show ?case unfolding dfs_lists_def using M(1)
    by (intro exI [of _ "(p, int d) # M"]) (simp add: dfs_order_Cons)
qed

text \<open>
  The loop over the stack ends and meets every process that has a root above it exactly once, after
  its parent, with the number of its ancestors as depth.
\<close>

theorem timeline_order_exact:
  assumes "distinct (map pr_pid procs)"
  shows "\<exists>L. timeline_order procs = Some L \<and> distinct (map fst L)
    \<and> fst ` set L = {p. \<exists>d. at_depth (list_parent procs) p d}
    \<and> (\<forall>e \<in> set L. \<exists>d. at_depth (list_parent procs) (fst e) d \<and> snd e = int d)
    \<and> parents_first (list_parent procs) {} (map fst L)"
proof -
  let ?par = "list_parent procs" and ?ts = "map (\<lambda>r. (r, 0::int)) (list_roots procs)"
  have "dfs_lists procs ?ts"
  proof (rule dfs_lists_all)
    fix t assume "t \<in> set ?ts"
    then have "at_depth ?par (fst t) 0" "t = (fst t, int 0)" using list_roots_iff [OF assms] by auto
    then show "at_depth ?par (fst t) 0 \<and> dfs_lists procs [t]" using dfs_lists_tree [OF assms] by metis
  next
    have "distinct (list_roots procs)" unfolding list_roots_def Let_def by (rule distinct_map_filter [OF assms])
    then show "distinct (map fst ?ts)" by (simp add: o_def)
  qed
  then obtain L where "\<forall>st ordered. dfs_order (list_children procs) (?ts @ st) ordered = dfs_order (list_children procs) st (ordered @ L)"
    and L: "listing at_level ?par (list_roots procs) L" by (auto simp: dfs_lists_def o_def)
  then have "timeline_order procs = Some L"
    unfolding timeline_order_def by (metis append_Nil append_Nil2 dfs_order_Nil)
  moreover have "parents_first ?par {} (map fst L)"
    using list_roots_iff [OF assms] by (intro listing_parents [OF L]) (auto simp: at_depth_0)
  moreover have "fst ` set L = {p. \<exists>d. at_depth ?par p d}"
    using L list_roots_iff [OF assms] unfolding rooted_iff by (auto simp: listing_def)
  ultimately show ?thesis using L by (auto simp: listing_def at_level_def)
qed

lemma timeline_order_exact_witness: "timeline_order two_procs \<noteq> None"
proof -
  have "distinct (map pr_pid two_procs)" by code_simp
  from timeline_order_exact [OF this] show ?thesis by auto
qed

end
