(* ===== verification/Web_Requests.thy ===== *)
theory Web_Requests
  imports Web_Tree Viewer_Main Json_Writer
begin

text \<open>
  Requests and replies of the web viewer (\<open>web/bdview_web.cpp\<close>): the parameters of a query string, the
  process id in a path, and what a handler sends. The HTTP server is mongoose: it hands over the path
  and the query string, and takes a status, extra headers and a body, or serves a file of a directory.
\<close>

section \<open>Replies\<close>

datatype reply =
    Reply (reply_status: int) (reply_headers: string) (reply_body: string)
  | ServeFile string string

definition send_json :: "string \<Rightarrow> reply" where
  "send_json json = Reply 200
     (''Content-Type: application/json'' @ [CHR 0x0D, CHR 0x0A] @ ''Access-Control-Allow-Origin: *'') json"

definition send_error :: "int \<Rightarrow> string \<Rightarrow> reply" where
  "send_error status msg = Reply status [] msg"

text \<open>A handler that writes the value with a new \<open>JsonWriter\<close> and sends \<open>jw.str()\<close>.\<close>

definition json_reply :: "json \<Rightarrow> reply" where
  "json_reply v = send_json (jw_buf (put_json v JsonWriter_new))"

section \<open>Query parameters\<close>

text \<open>\<open>std::string::find\<close>: where the needle begins first.\<close>

fun find_sub :: "string \<Rightarrow> string \<Rightarrow> nat option" where
  "find_sub needle [] = (if needle = [] then Some 0 else None)"
| "find_sub needle (c # s) = (if starts_with (c # s) needle then Some 0 else map_option Suc (find_sub needle s))"

text \<open>\<open>strtol(s, NULL, 16)\<close> of the C library.\<close>

definition hex_digit :: "char \<Rightarrow> nat option" where
  "hex_digit c =
     (let n = of_char c :: nat in
      if 48 \<le> n \<and> n \<le> 57 then Some (n - 48)
      else if 65 \<le> n \<and> n \<le> 70 then Some (n - 55)
      else if 97 \<le> n \<and> n \<le> 102 then Some (n - 87) else None)"

fun hex_digits_val :: "int \<Rightarrow> string \<Rightarrow> int" where
  "hex_digits_val acc [] = acc"
| "hex_digits_val acc (c # s) =
     (case hex_digit c of None \<Rightarrow> acc | Some d \<Rightarrow> hex_digits_val (16 * acc + int d) s)"

definition skip_0x :: "string \<Rightarrow> string" where
  "skip_0x s =
     (case s of
        z # x # h # r \<Rightarrow> if z = CHR ''0'' \<and> (x = CHR ''x'' \<or> x = CHR ''X'') \<and> hex_digit h \<noteq> None then h # r else s
      | _ \<Rightarrow> s)"

definition strtol16 :: "string \<Rightarrow> int" where
  "strtol16 s =
     (let t = dropWhile is_space s;
          (neg, u) = (case t of c # u \<Rightarrow> if c = CHR ''-'' then (True, u) else if c = CHR ''+'' then (False, u) else (False, t)
                      | [] \<Rightarrow> (False, t));
          v = hex_digits_val 0 (skip_0x u)
      in clamp_long (if neg then - v else v))"

text \<open>The decoding loop; the three cases are those of the code, on the rest of \<open>val\<close>.\<close>

fun url_decode :: "string \<Rightarrow> string" where
  "url_decode (c # a # b # s) =
     (if c = CHR 0x25 then char_of (strtol16 (c_str [a, b])) # url_decode s
      else (if c = CHR ''+'' then CHR '' '' else c) # url_decode (a # b # s))"
| "url_decode (c # s) = (if c = CHR ''+'' then CHR '' '' else c) # url_decode s"
| "url_decode [] = []"

definition get_query_param :: "string \<Rightarrow> string \<Rightarrow> string" where
  "get_query_param query name =
     (let key = name @ ''='' in
      case find_sub key query of
        None \<Rightarrow> []
      | Some pos \<Rightarrow> url_decode (takeWhile (\<lambda>c. c \<noteq> CHR ''&'') (drop (pos + length key) query)))"

text \<open>A parameter read as a number, or a default when it is missing or empty.\<close>

definition int_param :: "string \<Rightarrow> string \<Rightarrow> int \<Rightarrow> int" where
  "int_param query name dflt =
     (let s = get_query_param query name in if s = [] then dflt else atoi s)"

section \<open>The process in a path\<close>

definition extract_pid_from_uri :: "string \<Rightarrow> string \<Rightarrow> string \<Rightarrow> int" where
  "extract_pid_from_uri uri prefix suffix =
     (if \<not> starts_with uri prefix then -1
      else
        let pid_str = takeWhile (\<lambda>c. c \<noteq> CHR ''/'') (drop (length prefix) uri) in
        if suffix \<noteq> [] \<and> length uri < length prefix + length pid_str + length suffix then -1
        else atoi pid_str)"

section \<open>Round trip of the parameters\<close>

text \<open>
  What \<open>encodeURIComponent\<close> of the page's script makes of a string of bytes, and the query it builds.
\<close>

definition hex_upper :: "nat \<Rightarrow> char" where
  "hex_upper d = ''0123456789ABCDEF'' ! d"

definition unreserved :: "char \<Rightarrow> bool" where
  "unreserved c \<longleftrightarrow>
     c \<in> set ''ABCDEFGHIJKLMNOPQRSTUVWXYZabcdefghijklmnopqrstuvwxyz0123456789-_.!~*()'' \<or> c = CHR 0x27"

definition url_encode_char :: "char \<Rightarrow> string" where
  "url_encode_char c =
     (if unreserved c then [c] else [CHR 0x25, hex_upper (of_char c div 16), hex_upper (of_char c mod 16)])"

definition url_encode :: "string \<Rightarrow> string" where
  "url_encode s = concat (map url_encode_char s)"

fun query_string :: "(string \<times> string) list \<Rightarrow> string" where
  "query_string [] = []"
| "query_string [(k, v)] = k @ ''='' @ url_encode v"
| "query_string ((k, v) # ps) = k @ ''='' @ url_encode v @ ''&'' @ query_string ps"

lemma hex_pair: "i < 16 \<Longrightarrow> j < 16 \<Longrightarrow> strtol16 (c_str [hex_upper i, hex_upper j]) = int (16 * i + j)"
proof -
  have d: "\<forall>d \<in> set [0..<16]. hex_digit (hex_upper d) = Some d \<and> hex_upper d \<noteq> CHR 0x00 \<and> \<not> is_space (hex_upper d)
      \<and> hex_upper d \<noteq> CHR ''-'' \<and> hex_upper d \<noteq> CHR ''+''"
    by code_simp
  assume "i < 16" "j < 16"
  then have i: "hex_digit (hex_upper i) = Some i" "hex_upper i \<noteq> CHR 0x00" "\<not> is_space (hex_upper i)"
      "hex_upper i \<noteq> CHR ''-''" "hex_upper i \<noteq> CHR ''+''"
    and j: "hex_digit (hex_upper j) = Some j" "hex_upper j \<noteq> CHR 0x00"
    using d by simp_all
  have "int (16 * i + j) \<le> 2 ^ 63 - 1" using \<open>i < 16\<close> \<open>j < 16\<close> by simp
  with i j show ?thesis
    by (simp add: strtol16_def c_str_id skip_0x_def clamp_long_def Let_def)
qed

lemma url_decode_plain: "c \<noteq> CHR 0x25 \<Longrightarrow> c \<noteq> CHR ''+'' \<Longrightarrow> url_decode (c # s) = c # url_decode s"
proof (cases s)
  case (Cons a r)
  then show "c \<noteq> CHR 0x25 \<Longrightarrow> c \<noteq> CHR ''+'' \<Longrightarrow> ?thesis" by (cases r) simp_all
qed simp

lemma url_decode_char: "url_decode (url_encode_char c @ s) = c # url_decode s"
proof (cases "unreserved c")
  case True
  then have "c \<noteq> CHR 0x25" "c \<noteq> CHR ''+''" by (auto simp: unreserved_def)
  with True show ?thesis by (simp add: url_encode_char_def url_decode_plain)
next
  case False
  have "(of_char c :: nat) div 16 < 16" "(of_char c :: nat) mod 16 < 16" by (auto simp: less_mult_imp_div_less)
  from hex_pair [OF this] have "char_of (strtol16 (c_str [hex_upper (of_char c div 16), hex_upper (of_char c mod 16)])) = c"
    by (simp only: mult_div_mod_eq char_of_nat char_of_char)
  with False show ?thesis by (simp add: url_encode_char_def)
qed

lemma url_decode_encode: "url_decode (url_encode s) = s"
proof (induction s)
  case (Cons c s)
  then show ?case using url_decode_char [of c "url_encode s"] by (simp add: url_encode_def)
qed (simp add: url_encode_def)

text \<open>No separator is left in an encoded value.\<close>

lemma url_encode_chars: "c \<in> set (url_encode s) \<Longrightarrow> unreserved c \<or> c = CHR 0x25"
proof -
  have d: "\<forall>d \<in> set [0..<16]. unreserved (hex_upper d)" by code_simp
  have "c \<in> set (url_encode_char x) \<Longrightarrow> unreserved c \<or> c = CHR 0x25" for x
    using d by (auto simp: url_encode_char_def less_mult_imp_div_less split: if_splits)
  then show "c \<in> set (url_encode s) \<Longrightarrow> unreserved c \<or> c = CHR 0x25" by (auto simp: url_encode_def)
qed

lemma url_encode_separators: "CHR ''='' \<notin> set (url_encode s)" "CHR ''&'' \<notin> set (url_encode s)"
  using url_encode_chars [of "CHR ''=''" s] url_encode_chars [of "CHR ''&''" s] by (auto simp: unreserved_def)

text \<open>A search goes on behind a character the needle does not have.\<close>

lemma starts_with_separator:
  "c \<notin> set needle \<Longrightarrow> starts_with (xs @ c # ys) needle \<longleftrightarrow> starts_with xs needle"
  by (auto simp: starts_with_iff append_eq_append_conv2 Cons_eq_append_conv)

lemma find_sub_separator:
  "c \<notin> set needle \<Longrightarrow> needle \<noteq> [] \<Longrightarrow> find_sub needle (xs @ c # ys) =
     (case find_sub needle xs of Some i \<Rightarrow> Some i | None \<Rightarrow> map_option (\<lambda>i. Suc (length xs) + i) (find_sub needle ys))"
proof (induction xs)
  case Nil
  then show ?case using starts_with_separator [of c needle "[]" ys] by (cases "find_sub needle ys") (auto simp: starts_with_iff)
next
  case (Cons x xs)
  then show ?case using starts_with_separator [of c needle "x # xs" ys]
    by (cases "find_sub needle ys") (auto split: option.splits)
qed

text \<open>Inside one parameter the key is found at the front or not at all.\<close>

lemma starts_with_key: "c \<notin> set k \<Longrightarrow> c \<notin> set xs \<Longrightarrow> c \<notin> set ys \<Longrightarrow> starts_with (xs @ c # ys) (k @ [c]) \<longleftrightarrow> k = xs"
  by (auto simp: starts_with_iff append_eq_append_conv2 Cons_eq_append_conv append_eq_Cons_conv)

lemma find_sub_no: "c \<in> set needle \<Longrightarrow> c \<notin> set s \<Longrightarrow> find_sub needle s = None"
proof (induction s)
  case (Cons a s)
  have "\<not> starts_with (a # s) needle"
  proof
    assume "starts_with (a # s) needle"
    then obtain t where "a # s = needle @ t" by (auto simp: starts_with_iff)
    then have "c \<in> set (a # s)" using Cons.prems(1) by simp
    with Cons.prems(2) show False by contradiction
  qed
  with Cons show ?case by simp
qed auto

lemma find_sub_key:
  "c \<notin> set k \<Longrightarrow> c \<notin> set xs \<Longrightarrow> c \<notin> set ys \<Longrightarrow> (\<And>p. xs = p @ k \<Longrightarrow> p = []) \<Longrightarrow>
     find_sub (k @ [c]) (xs @ c # ys) = (if k = xs then Some 0 else None)"
proof (induction xs)
  case Nil
  then show ?case using starts_with_key [of c k "[]" ys] find_sub_no [of c "k @ [c]" ys] by auto
next
  case (Cons x xs)
  have "k \<noteq> xs" using Cons.prems(4) [of "[x]"] by auto
  moreover have "p = []" if "xs = p @ k" for p using Cons.prems(4) [of "x # p"] that by simp
  then have "find_sub (k @ [c]) (xs @ c # ys) = (if k = xs then Some 0 else None)"
    using Cons by auto
  ultimately show ?case using starts_with_key [of c k "x # xs" ys] Cons.prems by auto
qed

lemma get_query_param_first:
  assumes "CHR ''='' \<notin> set k" "CHR ''&'' \<notin> set k" "CHR ''='' \<notin> set k1" "CHR ''&'' \<notin> set k1"
    and "\<And>p. k1 = p @ k \<Longrightarrow> p = []"
  shows "get_query_param (k1 @ ''='' @ url_encode v) k = (if k = k1 then v else [])"
    and "get_query_param (k1 @ ''='' @ url_encode v @ ''&'' @ rest) k = (if k = k1 then v else get_query_param rest k)"
proof -
  let ?piece = "k1 @ CHR ''='' # url_encode v"
  have here: "find_sub (k @ ''='') ?piece = (if k = k1 then Some 0 else None)"
    using assms url_encode_separators by (intro find_sub_key) auto
  have all: "takeWhile (\<lambda>c. c \<noteq> CHR ''&'') (url_encode v) = url_encode v"
    "takeWhile (\<lambda>c. c \<noteq> CHR ''&'') (url_encode v @ CHR ''&'' # rest) = url_encode v"
    by (simp_all add: takeWhile_neq_all takeWhile_neq_append url_encode_separators)
  show "get_query_param (k1 @ ''='' @ url_encode v) k = (if k = k1 then v else [])"
    using here by (simp add: get_query_param_def all url_decode_encode)
  have "find_sub (k @ ''='') (?piece @ CHR ''&'' # rest) =
      (if k = k1 then Some 0 else map_option (\<lambda>i. Suc (length ?piece) + i) (find_sub (k @ ''='') rest))"
    using find_sub_separator [of "CHR ''&''" "k @ ''=''" ?piece rest] assms(2) here
    by (cases "find_sub (k @ ''='') rest") auto
  moreover have past: "drop (Suc (length ?piece) + i + n) (?piece @ CHR ''&'' # rest) = drop (i + n) rest" for i n
    by (simp add: numeral_eq_Suc)
  ultimately have "get_query_param (?piece @ CHR ''&'' # rest) k = (if k = k1 then v else get_query_param rest k)"
  proof (cases "k = k1")
    case False
    then show ?thesis
      using \<open>find_sub _ (?piece @ _) = _\<close> past unfolding get_query_param_def Let_def
      by (cases "find_sub (k @ ''='') rest") (simp_all del: length_append append_assoc drop_append)
  qed (simp add: get_query_param_def all url_decode_encode)
  then show "get_query_param (k1 @ ''='' @ url_encode v @ ''&'' @ rest) k = (if k = k1 then v else get_query_param rest k)"
    by simp
qed



text \<open>A name that ends another one is found inside it.\<close>

lemma query_param_confused: "get_query_param ''desktop=5&top=7'' ''top'' = ''5''"
  by code_simp

text \<open>The suffix of a path is only measured: any segment that is long enough passes for it.\<close>

lemma extract_pid_other_suffix: "extract_pid_from_uri ''/api/processes/12/iofiles'' ''/api/processes/'' ''/files'' = 12"
  by code_simp

end
