(* ===== verification/Web_Types.thy ===== *)
theory Web_Types
  imports Web_Requests
begin

text \<open>
  The shapes of the answers of the web viewer: a type for each, as the page's script reads them, a typing
  judgement on JSON values, and what a reply with a typed value is on the wire. Strings may have NULs
  in the model; the writer stops at them, and \<open>cut\<close> is the value that arrives.
\<close>

section \<open>Types of JSON values\<close>

text \<open>
  An object has its required members in order, and either none or all of the optional ones after them.
  \<open>TAlt\<close> is one of two shapes, \<open>TMap\<close> an object with arbitrary keys, \<open>TRdeps\<close> a node of the tree of
  reverse dependencies.
\<close>

datatype jty =
    TBool
  | TInt
  | TStr
  | TArr jty
  | TObj "(string \<times> jty) list" "(string \<times> jty) list"
  | TMap jty
  | TAlt jty jty
  | TRdeps

inductive has_type :: "json \<Rightarrow> jty \<Rightarrow> bool" where
  T_Bool: "has_type (JBool b) TBool"
| T_Int: "has_type (JInt i) TInt"
| T_Str: "has_type (JStr s) TStr"
| T_Arr: "\<forall>v \<in> set vs. has_type v t \<Longrightarrow> has_type (JArr vs) (TArr t)"
| T_Obj: "fs = req \<or> fs = req @ opt \<Longrightarrow> \<forall>f \<in> set fs. CHR 0x00 \<notin> set (fst f) \<Longrightarrow>
    list_all2 (\<lambda>m f. fst m = fst f \<and> has_type (snd m) (snd f)) ms fs \<Longrightarrow> has_type (JObj ms) (TObj req opt)"
| T_Map: "\<forall>m \<in> set ms. has_type (snd m) t \<Longrightarrow> has_type (JObj ms) (TMap t)"
| T_Alt1: "has_type v a \<Longrightarrow> has_type v (TAlt a b)"
| T_Alt2: "has_type v b \<Longrightarrow> has_type v (TAlt a b)"
| T_Rdeps: "\<forall>v \<in> set cs. has_type v TRdeps \<Longrightarrow> extra = [] \<or> extra = [(''via_cmd'', JStr cmd)] \<Longrightarrow>
    has_type (JObj ([(''file'', JStr f), (''via_pid'', JInt p)] @ extra @ [(''children'', JArr cs)])) TRdeps"

inductive_simps has_type_simps [simp]:
  "has_type v TBool"
  "has_type v TInt"
  "has_type v TStr"
  "has_type v (TArr t)"
  "has_type v (TMap t)"
  "has_type v (TAlt a b)"

text \<open>Objects by their members, one after the other.\<close>

fun has_members :: "(string \<times> json) list \<Rightarrow> (string \<times> jty) list \<Rightarrow> bool" where
  "has_members [] fs \<longleftrightarrow> fs = []"
| "has_members (m # ms) fs \<longleftrightarrow>
     (case fs of [] \<Rightarrow> False | f # fs' \<Rightarrow> fst m = fst f \<and> has_type (snd m) (snd f) \<and> has_members ms fs')"

lemma has_members_iff: "has_members ms fs \<longleftrightarrow> list_all2 (\<lambda>m f. fst m = fst f \<and> has_type (snd m) (snd f)) ms fs"
  by (induction ms fs rule: has_members.induct) (auto split: list.splits)

definition nul_free :: "(string \<times> 'a) list \<Rightarrow> bool" where
  "nul_free fs \<longleftrightarrow> list_all (\<lambda>f. list_all (\<lambda>c. c \<noteq> CHR 0x00) (fst f)) fs"

lemma object_typed:
  "nul_free req \<Longrightarrow> has_members ms req \<Longrightarrow> has_type (JObj ms) (TObj req opt)"
  "nul_free req \<Longrightarrow> nul_free opt \<Longrightarrow> has_members ms (req @ opt) \<Longrightarrow> has_type (JObj ms) (TObj req opt)"
  unfolding nul_free_def list_all_iff has_members_iff by (rule T_Obj, auto)+

section \<open>What arrives\<close>

fun cut :: "json \<Rightarrow> json" and cut_elems :: "json list \<Rightarrow> json list" and cut_members :: "(string \<times> json) list \<Rightarrow> (string \<times> json) list" where
  "cut (JStr s) = JStr (c_str s)"
| "cut (JArr vs) = JArr (cut_elems vs)"
| "cut (JObj ms) = JObj (cut_members ms)"
| "cut JNull = JNull"
| "cut (JBool b) = JBool b"
| "cut (JInt i) = JInt i"
| "cut_elems [] = []"
| "cut_elems (v # vs) = cut v # cut_elems vs"
| "cut_members [] = []"
| "cut_members ((k, v) # ms) = (c_str k, cut v) # cut_members ms"

lemma cut_map: "cut_elems vs = map cut vs" "cut_members ms = map (\<lambda>m. (c_str (fst m), cut (snd m))) ms"
  by (induction vs, simp_all) (induction ms, auto)

lemma c_str_ok: "CHR 0x00 \<notin> set (c_str s)"
  by (auto simp: c_str_def dest: set_takeWhileD)

lemma cut_ok: "json_ok (cut v)" "elems_ok (cut_elems vs)" "members_ok (cut_members ms)"
  by (induction v and vs and ms rule: cut_cut_elems_cut_members.induct) (simp_all add: c_str_ok)

lemma escape_c_str [simp]: "escape (c_str s) = escape s"
  by (simp add: escape_def)

lemma render_cut:
  "render_json (cut v) = render_json v" "render_elems b (cut_elems vs) = render_elems b vs"
  "render_members b (cut_members ms) = render_members b ms"
  by (induction v and vs and ms arbitrary: and b and b rule: cut_cut_elems_cut_members.induct) simp_all

lemma has_type_cut: "has_type v t \<Longrightarrow> has_type (cut v) t"
proof (induction rule: has_type.induct)
  case (T_Obj fs req opt ms)
  have "list_all2 (\<lambda>m f. fst m = fst f \<and> has_type (snd m) (snd f)) (cut_members ms) fs"
    using T_Obj(2,3) by (simp add: cut_map list_all2_conv_all_nth c_str_id)
  with T_Obj(1,2) show ?case by (auto intro: has_type.T_Obj)
next
  case (T_Rdeps cs extra cmd f p)
  have "has_type (JObj ([(''file'', JStr (c_str f)), (''via_pid'', JInt p)] @ map (\<lambda>m. (c_str (fst m), cut (snd m))) extra @
      [(''children'', JArr (map cut cs))])) TRdeps"
    by (rule has_type.T_Rdeps [where cmd = "c_str cmd"]) (use T_Rdeps in \<open>auto simp: c_str_def\<close>)
  then show ?case by (auto simp: cut_map c_str_def)
qed (auto simp: cut_map)

text \<open>An answer of a type: status 200, and the body reads as one JSON value of the type, nothing left over.\<close>

definition answers :: "reply \<Rightarrow> jty \<Rightarrow> bool" where
  "answers r t \<longleftrightarrow>
     (case r of
        Reply status headers body \<Rightarrow>
          status = 200 \<and> starts_with headers ''Content-Type: application/json''
          \<and> (\<exists>n v. read_json n body = Some (v, []) \<and> has_type v t)
      | ServeFile dir uri \<Rightarrow> False)"

lemma render_answers: "has_type v t \<Longrightarrow> answers (send_json (render_json v)) t"
proof -
  assume "has_type v t"
  moreover have "read_json (cost (cut v)) (render_json v) = Some (cut v, [])"
    using read_render(1) [OF cut_ok(1) order_refl, of "[]" v] by (simp add: render_cut stops_def)
  ultimately show ?thesis
    unfolding answers_def send_json_def using has_type_cut by (fastforce simp: starts_with_iff)
qed

lemma json_reply_answers: "has_type v t \<Longrightarrow> answers (json_reply v) t"
  using render_answers by (simp add: json_reply_def put_render JsonWriter_new_def comma_if_def)

end
