(* ===== verification/Web_Handlers.thy ===== *)
theory Web_Handlers
  imports Web_Types Compaction
begin

text \<open>
  The handlers of \<open>web/bdview_web.cpp\<close> for the summary, the processes and the files of a trace. A handler
  is a function of the database \<open>db\<close>, the state \<open>st\<close> that \<open>get_dep_graph\<close> computed at the start, and the
  query string; the calls of the \<open>JsonWriter\<close> it makes are written as the value they put out. \<open>None\<close>: it
  does not return, or reads outside an object.
\<close>

section \<open>Summary\<close>

definition mode_total :: "(int \<Rightarrow> bool) \<Rightarrow> (int, int) omap \<Rightarrow> int" where
  "mode_total kind mode_counts = fold (\<lambda>(m, n) c. if kind m then c + n else c) mode_counts 0"

definition short_process :: "ProcessRecord \<Rightarrow> json" where
  "short_process p = JObj [(''pid'', JInt (pr_pid p)), (''cmdline'', JStr (pr_cmdline p)),
     (''duration_us'', JInt (pr_end p - pr_start p))]"

definition handle_summary :: "sq_db \<Rightarrow> reply" where
  "handle_summary db =
     (let procs = get_all_processes db;
          (min_time, max_time) = summary_span procs;
          mode_counts = get_file_access_summary db;
          (top_n, shown_procs) = top_of 5 (slowest_processes procs)
      in json_reply (JObj [
           (''total_time_us'', JInt (max_time - min_time)),
           (''process_count'', JInt (get_process_count db)),
           (''file_access_count'', JInt (get_file_access_count db)),
           (''failed_count'', JInt (get_failed_access_count db)),
           (''max_parallelism'', JInt (max_parallelism procs)),
           (''read_count'', JInt (mode_total is_input_mode mode_counts)),
           (''write_count'', JInt (mode_total is_output_mode mode_counts)),
           (''slowest'', JArr (map short_process shown_procs))]))"

section \<open>Processes\<close>

definition lookup_desc :: "dep_state \<Rightarrow> int \<Rightarrow> DescendantStats option" where
  "lookup_desc st pid = om_get (ds_stats st) pid"

definition write_process_json :: "ProcessRecord \<Rightarrow> bool \<Rightarrow> DescendantStats option \<Rightarrow> json" where
  "write_process_json p has_children desc =
     JObj ([(''pid'', JInt (pr_pid p)), (''ppid'', JInt (pr_ppid p)), (''cmdline'', JStr (pr_cmdline p)),
        (''start_time_us'', JInt (pr_start p)), (''end_time_us'', JInt (pr_end p)), (''exit_code'', JInt (pr_exit_code p)),
        (''file_count'', JInt (pr_file_count p)), (''fail_count'', JInt (pr_fail_count p)),
        (''has_children'', JBool has_children),
        (''user_time_us'', JInt (pr_user_time p)), (''sys_time_us'', JInt (pr_sys_time p)),
        (''peak_rss_kb'', JInt (pr_peak_rss p)), (''io_read_bytes'', JInt (pr_io_read p)),
        (''io_write_bytes'', JInt (pr_io_write p))] @
       (case desc of
          None \<Rightarrow> []
        | Some d \<Rightarrow>
            if has_children
            then [(''desc_file_count'', JInt (desc_file_count d)), (''desc_fail_count'', JInt (desc_fail_count d)),
                  (''desc_cpu_us'', JInt (desc_cpu_us d)), (''desc_peak_rss_kb'', JInt (desc_peak_rss_kb d)),
                  (''desc_io_bytes'', JInt (desc_io_bytes d))]
            else []))"

definition process_json :: "sq_db \<Rightarrow> dep_state \<Rightarrow> ProcessRecord \<Rightarrow> json" where
  "process_json db st p =
     write_process_json p (pr_pid p \<in> set (get_pids_with_children db)) (lookup_desc st (pr_pid p))"

definition handle_processes :: "sq_db \<Rightarrow> dep_state \<Rightarrow> string \<Rightarrow> reply" where
  "handle_processes db st query =
     (if get_query_param query ''lazy'' = ''1''
      then
        let roots = compact_runs (get_root_processes db) in
        json_reply (JObj [
          (''processes'', JArr (map (process_json db st) roots)),
          (''roots'', JArr (map (\<lambda>p. JInt (pr_pid p)) roots)),
          (''total_cpu_us'', JInt (ds_total_cpu st))])
      else
        let procs = compact_runs (get_all_processes db) in
        json_reply (JObj [
          (''processes'', JArr (map (process_json db st) procs)),
          (''roots'', JArr (map JInt (list_roots procs))),
          (''children_map'', JObj (map (\<lambda>(ppid, cs). (int_str ppid, JArr (map JInt cs))) (list_children procs)))]))"

definition handle_process_children :: "sq_db \<Rightarrow> dep_state \<Rightarrow> int \<Rightarrow> reply" where
  "handle_process_children db st pid = json_reply (JArr (map (process_json db st) (get_children db pid)))"

section \<open>The files of a process\<close>

record FileDirEntry =
  fd_count :: int
  fd_reads :: int
  fd_writes :: int
  fd_is_dir :: bool

definition FileDirEntry_new :: FileDirEntry where
  "FileDirEntry_new = \<lparr>fd_count = 0, fd_reads = 0, fd_writes = 0, fd_is_dir = False\<rparr>"

type_synonym filedirs_ctx = "(string, FileDirEntry) omap \<times> int"

definition note_entry :: "bool \<Rightarrow> int \<Rightarrow> FileDirEntry \<Rightarrow> FileDirEntry" where
  "note_entry is_dir mode e =
     \<lparr>fd_count = fd_count e + 1,
      fd_reads = (if is_input_mode mode then fd_reads e + 1 else fd_reads e),
      fd_writes = (if is_output_mode mode then fd_writes e + 1 else fd_writes e),
      fd_is_dir = (if is_dir then True else fd_is_dir e)\<rparr>"

text \<open>\<open>filename + prefix_len\<close> must not point past the end of the string.\<close>

definition filedirs_scan_cb :: "int oset \<Rightarrow> nat \<Rightarrow> int \<Rightarrow> string \<Rightarrow> int \<Rightarrow> filedirs_ctx option \<Rightarrow> filedirs_ctx option" where
  "filedirs_scan_cb pids prefix_len pid filename mode ctx =
     (case ctx of
        None \<Rightarrow> None
      | Some (entries, total_count) \<Rightarrow>
         if pid \<notin> set pids then ctx
         else if prefix_len > length filename then None
         else
           let rest = drop prefix_len filename; name = takeWhile (\<lambda>c. c \<noteq> CHR ''/'') rest in
           if rest = [] then ctx
           else if name = [] then ctx
           else Some (om_upd FileDirEntry_new (note_entry (CHR ''/'' \<in> set rest) mode) name entries, total_count + 1))"

definition tree_pids :: "sq_db \<Rightarrow> int \<Rightarrow> bool \<Rightarrow> int oset option" where
  "tree_pids db pid tree = (if tree then get_descendant_pids db pid (os_ins pid []) else Some (os_ins pid []))"

definition filedirs_entries :: "sq_db \<Rightarrow> int oset \<Rightarrow> string \<Rightarrow> filedirs_ctx option" where
  "filedirs_entries db pids prefix =
     snd (scan_file_accesses_by_prefix db prefix (filedirs_scan_cb pids (length prefix)) (Some ([], 0)))"

definition filedirs_entry_json :: "string \<times> FileDirEntry \<Rightarrow> json" where
  "filedirs_entry_json e = JObj [(''name'', JStr (fst e)), (''type'', JStr (if fd_is_dir (snd e) then ''dir'' else ''file'')),
     (''count'', JInt (fd_count (snd e))), (''reads'', JInt (fd_reads (snd e))), (''writes'', JInt (fd_writes (snd e)))]"

definition handle_process_filedirs :: "sq_db \<Rightarrow> int \<Rightarrow> string \<Rightarrow> reply option" where
  "handle_process_filedirs db pid query =
     (let prefix = get_query_param query ''prefix'';
          prefix = (if prefix = [] then ''/'' else prefix)
      in case tree_pids db pid (get_query_param query ''tree'' = ''1'') of
           None \<Rightarrow> None
         | Some pids \<Rightarrow>
            (case filedirs_entries db pids prefix of
               None \<Rightarrow> None
             | Some (entries, total_count) \<Rightarrow> Some (json_reply (JObj [
                 (''total_count'', JInt total_count),
                 (''entries'', JArr (map filedirs_entry_json entries))]))))"

definition access_json :: "FileAccessRecord \<Rightarrow> json" where
  "access_json a = JObj [(''filename'', JStr (fa_filename a)), (''mode'', JInt (fa_mode a)),
     (''mode_str'', JStr (mode_str (fa_mode a))), (''fd'', JInt (fa_fd a)), (''timestamp_us'', JInt (fa_timestamp a))]"

definition handle_process_files :: "sq_db \<Rightarrow> int \<Rightarrow> string \<Rightarrow> reply option" where
  "handle_process_files db pid query =
     (if get_query_param query ''tree'' = ''1''
      then case get_descendant_pids db pid [] of
             None \<Rightarrow> None
           | Some pids \<Rightarrow> Some (json_reply (JArr (map access_json (get_file_accesses_by_pids db (os_ins pid pids)))))
      else Some (json_reply (JArr (map access_json (get_file_accesses_by_pid db pid)))))"

section \<open>All files\<close>

definition file_stat_json :: "FileStatRow \<Rightarrow> json" where
  "file_stat_json s = JObj [(''path'', JStr (fs_filename s)), (''access_count'', JInt (fs_access_count s)),
     (''read_count'', JInt (fs_read_count s)), (''write_count'', JInt (fs_write_count s)),
     (''process_count'', JInt (fs_process_count s))]"

text \<open>The bounds of a page, and its rows; \<open>offset + limit\<close> is a sum of \<open>int\<close>s.\<close>

definition page_bounds :: "int \<Rightarrow> int \<Rightarrow> int \<Rightarrow> int \<times> int" where
  "page_bounds n offset limit =
     (let offset = (if offset < 0 then 0 else offset);
          offset = (if offset > n then n else offset);
          end_i = c_int (offset + limit)
      in (offset, if end_i > n then n else end_i))"

definition file_page :: "'a list \<Rightarrow> int \<Rightarrow> int \<Rightarrow> 'a list" where
  "file_page stats offset limit =
     (let (b, e) = page_bounds (int (length stats)) offset limit in map (\<lambda>i. stats ! nat i) [b..e - 1])"

definition handle_files :: "sq_db \<Rightarrow> string \<Rightarrow> reply" where
  "handle_files db query =
     (let offset = int_param query ''offset'' 0; limit = int_param query ''limit'' 0;
          stats = get_file_stats_grouped db; n = int (length stats)
      in if limit > 0
         then json_reply (JObj [(''total_count'', JInt n), (''offset'', JInt (fst (page_bounds n offset limit))),
           (''limit'', JInt limit), (''files'', JArr (map file_stat_json (file_page stats offset limit)))])
         else json_reply (JArr (map file_stat_json stats)))"

definition write_proc_info :: "ProcessRecord \<Rightarrow> (string \<times> json) list" where
  "write_proc_info p =
     [(''start_time_us'', JInt (pr_start p)), (''end_time_us'', JInt (pr_end p)),
      (''duration_us'', JInt (pr_end p - pr_start p)), (''exit_code'', JInt (pr_exit_code p)),
      (''user_time_us'', JInt (pr_user_time p)), (''sys_time_us'', JInt (pr_sys_time p)),
      (''peak_rss_kb'', JInt (pr_peak_rss p)), (''io_read_bytes'', JInt (pr_io_read p)),
      (''io_write_bytes'', JInt (pr_io_write p))]"

record PidAccess =
  pa_modes :: "int oset"
  pa_first :: int

text \<open>Group by a key: merge the modes, keep the earliest time.\<close>

definition group_access :: "(FileAccessRecord \<Rightarrow> 'k::linorder) \<Rightarrow> FileAccessRecord \<Rightarrow> ('k, PidAccess) omap \<Rightarrow> ('k, PidAccess) omap" where
  "group_access key a m =
     (case om_get m (key a) of
        None \<Rightarrow> om_put (key a) \<lparr>pa_modes = os_ins (fa_mode a) [], pa_first = fa_timestamp a\<rparr> m
      | Some pa \<Rightarrow> om_put (key a)
          \<lparr>pa_modes = os_ins (fa_mode a) (pa_modes pa),
           pa_first = (if fa_timestamp a < pa_first pa then fa_timestamp a else pa_first pa)\<rparr> m)"

definition modes_text :: "int oset \<Rightarrow> string" where
  "modes_text ms = fold (\<lambda>m t. (if t \<noteq> [] then t @ '','' else t) @ mode_str m) ms []"

definition found_cmdline :: "ProcessRecord option \<Rightarrow> string" where
  "found_cmdline r = (case r of None \<Rightarrow> [] | Some p \<Rightarrow> pr_cmdline p)"

definition found_info :: "ProcessRecord option \<Rightarrow> (string \<times> json) list" where
  "found_info r = (case r of None \<Rightarrow> [] | Some p \<Rightarrow> write_proc_info p)"

definition handle_files_by_path :: "sq_db \<Rightarrow> string \<Rightarrow> reply" where
  "handle_files_by_path db path =
     (let accesses = get_file_accesses_by_name db path;
          pid_map = fold (group_access fa_pid) accesses [];
          cache = get_processes_by_pids db (os_of (map fa_pid accesses))
      in json_reply (JArr (map (\<lambda>(pid, pa).
           let r = om_get cache pid in
           JObj ([(''pid'', JInt pid), (''cmdline'', JStr (found_cmdline r)), (''mode'', JInt (-1)),
                  (''mode_str'', JStr (modes_text (pa_modes pa))), (''timestamp_us'', JInt (pa_first pa))] @ found_info r))
         pid_map)))"

definition handle_files_by_prefix :: "sq_db \<Rightarrow> string \<Rightarrow> reply" where
  "handle_files_by_prefix db prefix =
     (let all_fa = get_file_accesses_by_prefix db prefix;
          grouped = fold (group_access (\<lambda>a. (fa_pid a, fa_filename a))) all_fa [];
          cache = get_processes_by_pids db (os_of (map fa_pid all_fa))
      in json_reply (JArr (map (\<lambda>((pid, filename), pa).
           let r = om_get cache pid in
           JObj ([(''pid'', JInt pid), (''cmdline'', JStr (found_cmdline r)), (''filename'', JStr filename),
                  (''mode_str'', JStr (modes_text (pa_modes pa))), (''timestamp_us'', JInt (pa_first pa))] @ found_info r))
         grouped)))"

end
