(* ===== verification/Web_Reports.thy ===== *)
theory Web_Reports
  imports Web_Handlers Viewer_Reports
begin

text \<open>
  The handlers of \<open>web/bdview_web.cpp\<close> for times, hotspots, failures and diagnostics.
\<close>

section \<open>Constant answers\<close>

text \<open>The string literals of the code, with a backquote for every double quote.\<close>

definition quoted :: "string \<Rightarrow> string" where
  "quoted s = map (\<lambda>c. if c = CHR 0x60 then CHR 0x22 else c) s"

section \<open>Slowest processes\<close>

record GroupStats =
  gs_count :: int
  gs_total_us :: int
  gs_max_us :: int
  gs_total_cpu_us :: int
  gs_max_cpu_us :: int
  gs_total_rss_kb :: int
  gs_max_rss_kb :: int

definition GroupStats_new :: GroupStats where
  "GroupStats_new = \<lparr>gs_count = 0, gs_total_us = 0, gs_max_us = 0, gs_total_cpu_us = 0, gs_max_cpu_us = 0,
     gs_total_rss_kb = 0, gs_max_rss_kb = 0\<rparr>"

definition add_to_group :: "ProcessRecord \<Rightarrow> GroupStats \<Rightarrow> GroupStats" where
  "add_to_group p gs =
     (let dur = pr_end p - pr_start p; cpu = pr_user_time p + pr_sys_time p in
      \<lparr>gs_count = gs_count gs + 1,
       gs_total_us = gs_total_us gs + dur,
       gs_max_us = (if dur > gs_max_us gs then dur else gs_max_us gs),
       gs_total_cpu_us = gs_total_cpu_us gs + cpu,
       gs_max_cpu_us = (if cpu > gs_max_cpu_us gs then cpu else gs_max_cpu_us gs),
       gs_total_rss_kb = gs_total_rss_kb gs + pr_peak_rss p,
       gs_max_rss_kb = (if pr_peak_rss p > gs_max_rss_kb gs then pr_peak_rss p else gs_max_rss_kb gs)\<rparr>)"

definition process_groups :: "ProcessRecord list \<Rightarrow> (string, GroupStats) omap" where
  "process_groups procs =
     fold (\<lambda>p groups.
        if pr_end p \<le> 0 then groups
        else om_upd GroupStats_new (add_to_group p) (cmd_name_full (pr_cmdline p) (pr_cwd p)) groups) procs []"

definition group_json :: "string \<times> GroupStats \<Rightarrow> json" where
  "group_json g =
     (let gs = snd g in
      JObj [(''cmd_name'', JStr (fst g)), (''count'', JInt (gs_count gs)), (''total_us'', JInt (gs_total_us gs)),
        (''max_us'', JInt (gs_max_us gs)),
        (''avg_us'', JInt (if gs_count gs > 0 then gs_total_us gs sdiv gs_count gs else 0)),
        (''total_cpu_us'', JInt (gs_total_cpu_us gs)), (''max_cpu_us'', JInt (gs_max_cpu_us gs)),
        (''avg_cpu_us'', JInt (if gs_count gs > 0 then gs_total_cpu_us gs sdiv gs_count gs else 0)),
        (''max_rss_kb'', JInt (gs_max_rss_kb gs))])"

definition matching_processes :: "string \<Rightarrow> ProcessRecord list \<Rightarrow> ProcessRecord list" where
  "matching_processes cmd procs =
     std_sort cmp_duration_desc (filter (\<lambda>p. pr_end p > 0 \<and> cmd_name_full (pr_cmdline p) (pr_cwd p) = cmd) procs)"

definition handle_slowest :: "sq_db \<Rightarrow> string \<Rightarrow> reply" where
  "handle_slowest db query =
     (let group_by = get_query_param query ''group_by'';
          procs = get_all_processes db;
          cmd_filter = get_query_param query ''cmd''
      in if cmd_filter \<noteq> []
         then json_reply (JArr (map (\<lambda>p. JObj ([(''pid'', JInt (pr_pid p)), (''ppid'', JInt (pr_ppid p)),
                (''cmdline'', JStr (pr_cmdline p))] @ write_proc_info p)) (matching_processes cmd_filter procs)))
         else if group_by = ''cmd_name'' then json_reply (JArr (map group_json (process_groups procs)))
         else json_reply (JArr (map short_process (snd (top_of 20 (slowest_processes procs))))))"

section \<open>Time line\<close>

text \<open>The rows written and whether the limit cut them off.\<close>

fun timeline_rows :: "(int, ProcessRecord) omap \<Rightarrow> int \<Rightarrow> int \<Rightarrow> int \<Rightarrow> (int \<times> int) list \<Rightarrow> json list \<times> bool" where
  "timeline_rows m min_dur_us limit emitted [] = ([], False)"
| "timeline_rows m min_dur_us limit emitted (e # es) =
     (case om_get m (fst e) of
        None \<Rightarrow> timeline_rows m min_dur_us limit emitted es
      | Some p \<Rightarrow>
         if pr_end p \<le> 0 then timeline_rows m min_dur_us limit emitted es
         else if pr_end p - pr_start p < min_dur_us then timeline_rows m min_dur_us limit emitted es
         else if emitted \<ge> limit then ([], True)
         else
           let (rows, truncated) = timeline_rows m min_dur_us limit (emitted + 1) es in
           (JObj [(''pid'', JInt (pr_pid p)), (''cmdline'', JStr (pr_cmdline p)), (''start_time_us'', JInt (pr_start p)),
              (''end_time_us'', JInt (pr_end p)), (''exit_code'', JInt (pr_exit_code p)), (''depth'', JInt (snd e))] # rows,
            truncated))"

definition handle_timeline :: "sq_db \<Rightarrow> string \<Rightarrow> reply option" where
  "handle_timeline db query =
     (let min_dur_str = get_query_param query ''min_duration_us'';
          min_dur_us = (if min_dur_str = [] then 0 else fst (strtol10 min_dur_str));
          limit = int_param query ''limit'' 50000;
          limit = (if limit \<le> 0 \<or> limit > 100000 then 50000 else limit);
          procs = compact_runs (get_all_processes db)
      in if procs = [] then Some (send_json (quoted ''{`processes`:[],`min_time_us`:0,`max_time_us`:0}''))
         else
           let (min_time, max_time) = time_span procs in
           case timeline_order procs of
             None \<Rightarrow> None
           | Some ordered \<Rightarrow>
               let (rows, truncated) = timeline_rows (list_proc_map procs) min_dur_us limit 0 ordered in
               Some (json_reply (JObj [(''min_time_us'', JInt min_time), (''max_time_us'', JInt max_time),
                 (''processes'', JArr rows), (''truncated'', JBool truncated),
                 (''total_count'', JInt (int (length ordered)))])))"

section \<open>Parallelism and critical path\<close>

definition no_buckets :: reply where
  "no_buckets = send_json (quoted ''{`buckets`:[],`max_parallelism`:0,`total_time_us`:0}'')"

definition handle_parallelism :: "sq_db \<Rightarrow> reply option" where
  "handle_parallelism db =
     (let procs = compact_runs (get_all_processes db) in
      if procs = [] then Some no_buckets
      else
        let (min_time, max_time) = time_span procs; total_us = max_time - min_time in
        if total_us \<le> 0 then Some no_buckets
        else case parallel_buckets procs of
               None \<Rightarrow> None
             | Some buckets \<Rightarrow> Some (json_reply (JObj [
                 (''total_time_us'', JInt total_us),
                 (''max_parallelism'', JInt (fold (\<lambda>b m. if b > m then b else m) buckets 0)),
                 (''bucket_us'', JInt (snd (bucket_layout total_us))),
                 (''buckets'', JArr (map JInt buckets))])))"

definition handle_critical_path :: "sq_db \<Rightarrow> reply option" where
  "handle_critical_path db =
     (let procs = get_all_processes db in
      if procs = [] then Some (send_json (quoted ''{`path`:[],`total_us`:0}''))
      else
        let m = list_proc_map procs; root = proc_at m (critical_root m (list_roots procs)) in
        case critical_path procs of
          None \<Rightarrow> None
        | Some path \<Rightarrow> Some (json_reply (JObj [
            (''total_us'', JInt (pr_end root - pr_start root)),
            (''path'', JArr (map short_process path))])))"

section \<open>Hotspots and failures\<close>

definition hotspot_dir_scan_cb :: "int \<Rightarrow> string \<Rightarrow> int \<Rightarrow> (string, AccumData) omap \<Rightarrow> (string, AccumData) omap" where
  "hotspot_dir_scan_cb pid filename mode accum =
     om_upd AccumData_new
       (accum_access (FileAccessRecord_default\<lparr>fa_pid := pid, fa_filename := filename, fa_mode := mode\<rparr>))
       (hotspot_key True filename) accum"

definition web_hotspots :: "sq_db \<Rightarrow> bool \<Rightarrow> HotspotEntry list" where
  "web_hotspots db by_dir =
     std_sort cmp_hotspot_desc
       (if by_dir
        then map (\<lambda>(name, d). \<lparr>hs_name = name, hs_total = ac_total d, hs_reads = ac_reads d, hs_writes = ac_writes d,
                   hs_procs = int (length (ac_pids d))\<rparr>) (snd (scan_all_file_accesses db hotspot_dir_scan_cb []))
        else map (\<lambda>s. \<lparr>hs_name = fs_filename s, hs_total = fs_access_count s, hs_reads = fs_read_count s,
                   hs_writes = fs_write_count s, hs_procs = fs_process_count s\<rparr>) (get_file_stats_grouped db))"

definition hotspot_json :: "HotspotEntry \<Rightarrow> json" where
  "hotspot_json e = JObj [(''name'', JStr (hs_name e)), (''total'', JInt (hs_total e)), (''reads'', JInt (hs_reads e)),
     (''writes'', JInt (hs_writes e)), (''num_procs'', JInt (hs_procs e))]"

definition handle_hotspots :: "sq_db \<Rightarrow> string \<Rightarrow> reply" where
  "handle_hotspots db query =
     (let top_n = int_param query ''top'' 20; by_dir = (get_query_param query ''by_dir'' = ''1'')
      in json_reply (JArr (map hotspot_json (snd (top_of top_n (web_hotspots db by_dir))))))"

definition handle_failures :: "sq_db \<Rightarrow> string \<Rightarrow> reply" where
  "handle_failures db query =
     (let filter_errno = int_param query ''errno'' 0;
          all_failures = get_all_failed_accesses db;
          failures = (if filter_errno > 0 then filter (\<lambda>a. fl_errno a = filter_errno) all_failures else all_failures)
      in json_reply (JObj [
           (''total'', JInt (int (length failures))),
           (''by_errno'', JArr (map (\<lambda>(e, n). JObj [(''errno_val'', JInt e), (''name'', JStr (errno_name e)),
              (''count'', JInt n)]) (errno_counts failures))),
           (''by_file'', JArr (map (\<lambda>(n, file). JObj [(''filename'', JStr file), (''count'', JInt (- n))])
              (snd (top_of 20 (failed_files failures)))))]))"

section \<open>Diagnostics\<close>

text \<open>\<open>snprintf\<close> into a buffer of \<open>n\<close> bytes.\<close>

definition in_buffer :: "nat \<Rightarrow> string \<Rightarrow> string" where
  "in_buffer n s = take (n - 1) s"

definition issue_json :: "string \<Rightarrow> string \<Rightarrow> string \<Rightarrow> json" where
  "issue_json kind msg detail = JObj [(''type'', JStr kind), (''message'', JStr msg), (''detail'', JStr detail)]"

definition web_serial_issue :: "sq_db \<Rightarrow> int \<Rightarrow> int \<times> ProcessRecord list \<Rightarrow> json option" where
  "web_serial_issue db total_us it =
     (if length (snd it) < 2 then None
      else
        let (serial_count, serial_time) = serial_stats (std_sort start_less (snd it)) (0, 0) in
        if serial_count \<ge> 3 \<and> serial_time > total_us sdiv 10
        then case get_process db (fst it) of
               None \<Rightarrow> None
             | Some parent \<Rightarrow> Some (issue_json ''SERIAL''
                 (in_buffer 64 (int_str serial_count @ '' sequential children under '' @ pid_str (fst it) @ '' '') @ pr_cmdline parent)
                 (in_buffer 128 (''Potential parallelization savings: '' @ format_duration_us serial_time)))
        else None)"

fun web_slow_issues :: "int \<Rightarrow> ProcessRecord list \<Rightarrow> json list option" where
  "web_slow_issues total_us [] = Some []"
| "web_slow_issues total_us (p # ps) =
     (let dur = pr_end p - pr_start p in
      if dur \<ge> total_us sdiv 4
      then case (percent_of dur total_us, web_slow_issues total_us ps) of
             (Some pct, Some rest) \<Rightarrow>
               Some (issue_json ''SLOW''
                 (in_buffer 128 (format_duration_us dur @ '' ('' @ int_str pct @ ''% of total) '' @ pid_str (pr_pid p) @ '' '') @
                  pr_cmdline p)
                 ''Process takes >25% of build time'' # rest)
           | _ \<Rightarrow> None
      else web_slow_issues total_us ps)"

definition hotfile_issue :: "int \<times> string \<times> int \<Rightarrow> json list" where
  "hotfile_issue stats =
     (case stats of (dup_count, worst_file, worst_count) \<Rightarrow>
        if dup_count > 0
        then [issue_json ''HOTFILE'' (in_buffer 256 (int_str dup_count @ '' files accessed by >10 processes''))
                (in_buffer 256 (''Worst: '' @ c_str worst_file @ '' ('' @ int_str worst_count @ '' processes)''))]
        else [])"

definition failures_issue :: "int \<Rightarrow> json list" where
  "failures_issue failed =
     (if failed > 100
      then [issue_json ''FAILURES'' (in_buffer 128 (int_str failed @ '' failed file accesses detected''))
              ''Check the Failures tab for details'']
      else [])"

definition handle_diagnostics :: "sq_db \<Rightarrow> reply option" where
  "handle_diagnostics db =
     (let procs = get_all_processes db in
      if procs = [] then Some (json_reply (JObj [(''issues'', JArr [])]))
      else
        let (min_time, max_time) = time_span procs; total_us = max_time - min_time in
        case web_slow_issues total_us (take 5 (std_sort cmp_duration_desc procs)) of
          None \<Rightarrow> None
        | Some slow \<Rightarrow> Some (json_reply (JObj [
            (''total_time_us'', JInt total_us),
            (''issues'', JArr (List.map_filter (web_serial_issue db total_us) (by_parent procs) @ slow @
               hotfile_issue (get_hotfile_stats db 10) @ failures_issue (get_failed_access_count db)))])))"

end
