(* ===== verification/Web_Main.thy ===== *)
theory Web_Main
  imports Web_Reports
begin

text \<open>
  The analysis handlers of \<open>web/bdview_web.cpp\<close>, the routing of requests and \<open>main\<close>. A clock is read at
  most once before and once after an analysis, at \<open>t0\<close> and \<open>t1\<close>, and in its loop (\<open>clock\<close>).
\<close>

section \<open>Analyses\<close>

definition strings_json :: "string list \<Rightarrow> json" where
  "strings_json fs = JArr (map JStr fs)"

definition handle_process_io :: "sq_db \<Rightarrow> dep_state \<Rightarrow> int \<Rightarrow> string \<Rightarrow> reply" where
  "handle_process_io db st pid query =
     (let pio = classify_process_io db (ds_graph st) pid (get_query_param query ''tree'' = ''1'') ProcessIO_empty in
      json_reply (JObj [(''inputs'', strings_json (pio_inputs pio)), (''outputs'', strings_json (pio_outputs pio)),
        (''internal'', strings_json (pio_internal pio))]))"

text \<open>\<open>now_us() + timeout * 1000000\<close>.\<close>

definition deadline_of :: "int \<Rightarrow> string \<Rightarrow> int" where
  "deadline_of t0 query = t0 + int_param query ''timeout'' 30 * 1000000"

definition handle_impact :: "dep_state \<Rightarrow> int \<Rightarrow> (nat \<Rightarrow> int) \<Rightarrow> int \<Rightarrow> string \<Rightarrow> reply" where
  "handle_impact st t0 clock t1 query =
     (let top_n = int_param query ''top'' 20; deadline = deadline_of t0 query;
          entries = compute_impact (ds_graph st) clock top_n deadline
      in json_reply (JObj [(''truncated'', JBool (t1 > deadline)),
           (''results'', JArr (map (\<lambda>e. JObj [(''file'', JStr (ie_file e)), (''affected_procs'', JInt (ie_count e)),
              (''affected_duration_us'', JInt (ie_duration e))]) entries))]))"

definition cmdline_of :: "dep_graph \<Rightarrow> int \<Rightarrow> string" where
  "cmdline_of g pid = (case om_get (proc_map g) pid of None \<Rightarrow> [] | Some p \<Rightarrow> pr_cmdline p)"

definition race_json :: "dep_graph \<Rightarrow> RaceEntry \<Rightarrow> json" where
  "race_json g r = JObj [(''file'', JStr (rc_file r)), (''writer_pid'', JInt (rc_writer r)), (''reader_pid'', JInt (rc_reader r)),
     (''overlap_us'', JInt (rc_overlap r)), (''writer_cmd'', JStr (cmdline_of g (rc_writer r))),
     (''reader_cmd'', JStr (cmdline_of g (rc_reader r)))]"

definition handle_races :: "dep_state \<Rightarrow> int \<Rightarrow> (nat \<Rightarrow> int) \<Rightarrow> string \<Rightarrow> reply option" where
  "handle_races st t0 clock query =
     (case detect_races (ds_graph st) clock (deadline_of t0 query) of
        None \<Rightarrow> None
      | Some (completed, races) \<Rightarrow> Some (json_reply (JObj [
          (''count'', JInt (int (length races))), (''truncated'', JBool (\<not> completed)),
          (''races'', JArr (map (race_json (ds_graph st)) races))])))"

section \<open>Rebuild\<close>

text \<open>The non-empty pieces between commas.\<close>

function comma_pieces :: "string \<Rightarrow> string list" where
  "comma_pieces s =
     (if s = [] then []
      else
        let f = takeWhile (\<lambda>c. c \<noteq> CHR '','') s; rest = drop (length f + 1) s in
        if f \<noteq> [] then f # comma_pieces rest else comma_pieces rest)"
  by pat_completeness auto
termination by (relation "measure length") auto

declare comma_pieces.simps [simp del]

definition trace_min_start :: "dep_graph \<Rightarrow> int" where
  "trace_min_start g = fold (\<lambda>(_, p) m. if m = 0 \<or> pr_start p < m then pr_start p else m) (proc_map g) 0"

definition rebuild_process_json :: "dep_graph \<Rightarrow> reason_map \<Rightarrow> RebuildResult \<Rightarrow> ProcessRecord \<Rightarrow> json" where
  "rebuild_process_json g rm rr p =
     (let dur = pr_end p - pr_start p; dur = (if dur < 0 then 0 else dur);
          pids = agg_pids rr (pr_pid p)
      in JObj [(''pid'', JInt (pr_pid p)), (''cmdline'', JStr (pr_cmdline p)), (''cwd'', JStr (pr_cwd p)),
           (''start_time_us'', JInt (pr_start p)), (''duration_us'', JInt dur),
           (''reads'', strings_json (shown_reads rm pids)),
           (''writes'', strings_json (shown_writes g (chain_files rm) pids))])"

definition handle_rebuild_api :: "dep_state \<Rightarrow> string \<Rightarrow> reply option" where
  "handle_rebuild_api st query =
     (let changed_str = get_query_param query ''changed'' in
      if changed_str = [] then Some (send_error 400 ''changed parameter required'')
      else
        let g = ds_graph st;
            rm = rebuild_bfs_reasons g (fold (expand_changed g) (comma_pieces changed_str) []);
            affected = fold (\<lambda>(p, _). os_ins p) rm [];
            collapse_names = fold os_ins (comma_pieces (get_query_param query ''collapse'')) []
        in case filter_rebuild_set g affected collapse_names of
             Inl _ \<Rightarrow> None
           | Inr rr \<Rightarrow>
               let est = compute_rebuild_estimate g affected in
               Some (json_reply (JObj [
                 (''affected_count'', JInt (int (length (rr_processes rr)))),
                 (''total_affected'', JInt (rr_total rr)),
                 (''trace_min_start_us'', JInt (trace_min_start g)),
                 (''serial_estimate_us'', JInt (re_serial est)),
                 (''longest_single_us'', JInt (re_longest est)),
                 (''affected'', JArr (map (rebuild_process_json g rm rr) (rr_processes rr)))])))"

section \<open>Reverse dependencies\<close>

fun write_rdeps_json :: "dep_graph \<Rightarrow> RdepsNode \<Rightarrow> json" where
  "write_rdeps_json g (RdepsNode file via_pid children) =
     JObj ([(''file'', JStr file), (''via_pid'', JInt via_pid)] @
       (if via_pid \<noteq> 0 then [(''via_cmd'', JStr (cmdline_of g via_pid))] else []) @
       [(''children'', JArr (map (write_rdeps_json g) children))])"

definition handle_rdeps :: "dep_state \<Rightarrow> string \<Rightarrow> reply" where
  "handle_rdeps st query =
     (let file = get_query_param query ''file'' in
      if file = [] then send_error 400 ''file parameter required''
      else json_reply (write_rdeps_json (ds_graph st) (compute_rdeps (ds_graph st) file (int_param query ''depth'' 3))))"

section \<open>Routing\<close>

text \<open>The embedded files are generated when the program is built: \<open>asset\<close> gives their contents by name.\<close>

definition serve_embedded :: "string \<Rightarrow> string \<Rightarrow> reply" where
  "serve_embedded content ct = Reply 200 (''Content-Type: '' @ ct) content"

definition serve_static :: "(string \<Rightarrow> string) \<Rightarrow> string \<Rightarrow> string \<Rightarrow> reply" where
  "serve_static asset static_dir uri =
     (if static_dir \<noteq> [] then ServeFile static_dir uri
      else
        let uri = (if uri = ''/'' then ''/index.html'' else uri) in
        if uri = ''/index.html'' then serve_embedded (asset ''index.html'') ''text/html''
        else if uri = ''/app.css'' then serve_embedded (asset ''app.css'') ''text/css''
        else if uri = ''/app.js'' then serve_embedded (asset ''app.js'') ''application/javascript''
        else if uri = ''/timeline.js'' then serve_embedded (asset ''timeline.js'') ''application/javascript''
        else send_error 404 ''Not found'')"

text \<open>The guard of the routes below a process, and what they share.\<close>

definition process_route :: "string \<Rightarrow> string \<Rightarrow> bool" where
  "process_route uri suffix \<longleftrightarrow> starts_with uri ''/api/processes/'' \<and> find_sub suffix uri \<noteq> None"

definition with_pid :: "string \<Rightarrow> string \<Rightarrow> (int \<Rightarrow> reply option) \<Rightarrow> reply option" where
  "with_pid uri suffix handler =
     (let pid = extract_pid_from_uri uri ''/api/processes/'' suffix in
      if pid > 0 then handler pid else Some (send_error 400 ''Bad PID''))"

record web_env =
  we_asset :: "string \<Rightarrow> string"
  we_static_dir :: string
  we_t0 :: int
  we_clock :: "nat \<Rightarrow> int"
  we_t1 :: int

definition ev_handler :: "web_env \<Rightarrow> sq_db \<Rightarrow> dep_state \<Rightarrow> string \<Rightarrow> string \<Rightarrow> reply option" where
  "ev_handler env db st uri query =
     (if uri = ''/api/summary'' then Some (handle_summary db)
      else if uri = ''/api/processes'' then Some (handle_processes db st query)
      else if process_route uri ''/filedirs'' then with_pid uri ''/filedirs'' (\<lambda>pid. handle_process_filedirs db pid query)
      else if process_route uri ''/files'' then with_pid uri ''/files'' (\<lambda>pid. handle_process_files db pid query)
      else if process_route uri ''/children'' then with_pid uri ''/children'' (\<lambda>pid. Some (handle_process_children db st pid))
      else if uri = ''/api/files'' then Some (handle_files db query)
      else if uri = ''/api/files/by-path'' then Some (handle_files_by_path db (get_query_param query ''path''))
      else if uri = ''/api/files/by-prefix'' then Some (handle_files_by_prefix db (get_query_param query ''prefix''))
      else if uri = ''/api/slowest'' then Some (handle_slowest db query)
      else if uri = ''/api/timeline'' then handle_timeline db query
      else if uri = ''/api/parallelism'' then handle_parallelism db
      else if uri = ''/api/critical-path'' then handle_critical_path db
      else if uri = ''/api/hotspots'' then Some (handle_hotspots db query)
      else if uri = ''/api/failures'' then Some (handle_failures db query)
      else if uri = ''/api/diagnostics'' then handle_diagnostics db
      else if process_route uri ''/io'' then with_pid uri ''/io'' (\<lambda>pid. Some (handle_process_io db st pid query))
      else if uri = ''/api/impact'' then Some (handle_impact st (we_t0 env) (we_clock env) (we_t1 env) query)
      else if uri = ''/api/races'' then handle_races st (we_t0 env) (we_clock env) query
      else if uri = ''/api/rebuild'' then handle_rebuild_api st query
      else if uri = ''/api/rdeps'' then Some (handle_rdeps st query)
      else Some (serve_static (we_asset env) (we_static_dir env) uri))"

section \<open>main\<close>

record web_options =
  wo_db_path :: string
  wo_port :: int
  wo_bind :: string
  wo_static_dir :: string

definition web_options_default :: web_options where
  "web_options_default = \<lparr>wo_db_path = [], wo_port = 8080, wo_bind = ''127.0.0.1'', wo_static_dir = []\<rparr>"

text \<open>The option loop: \<open>Inl\<close> is the exit code after the usage text.\<close>

fun web_args :: "web_options \<Rightarrow> string list \<Rightarrow> int + web_options" where
  "web_args o1 [] = Inr o1"
| "web_args o1 (a # rest) =
     (if a = ''--port'' \<and> rest \<noteq> [] then web_args (o1\<lparr>wo_port := atoi (hd rest)\<rparr>) (tl rest)
      else if a = ''--bind'' \<and> rest \<noteq> [] then web_args (o1\<lparr>wo_bind := hd rest\<rparr>) (tl rest)
      else if a = ''--static-dir'' \<and> rest \<noteq> [] then web_args (o1\<lparr>wo_static_dir := hd rest\<rparr>) (tl rest)
      else if a = ''--help'' \<or> a = ''-h'' then Inl 0
      else if a \<noteq> [] \<and> hd a = CHR ''-'' then Inl 1
      else if wo_db_path o1 = [] then web_args (o1\<lparr>wo_db_path := a\<rparr>) rest
      else Inl 1)"

text \<open>
  What \<open>main\<close> does: exit with a code, or serve requests on an address for ever. \<open>open_db\<close> opens the file and
  brings it to the current schema, \<open>bind\<close> says whether mongoose could listen there.
\<close>

datatype web_run =
    WebExit int
  | WebServe string sq_db dep_state string

definition web_main :: "(string \<Rightarrow> sq_db option) \<Rightarrow> (string \<Rightarrow> bool) \<Rightarrow> string list \<Rightarrow> web_run option" where
  "web_main open_db bind args =
     (case web_args web_options_default args of
        Inl rc \<Rightarrow> Some (WebExit rc)
      | Inr o1 \<Rightarrow>
         if wo_db_path o1 = [] then Some (WebExit 1)
         else case open_db (wo_db_path o1) of
                None \<Rightarrow> Some (WebExit 1)
              | Some db \<Rightarrow>
                 (case get_dep_graph db of
                    None \<Rightarrow> None
                  | Some st \<Rightarrow>
                      let listen_addr = wo_bind o1 @ '':'' @ in_buffer 16 (int_str (wo_port o1)) in
                      if bind listen_addr then Some (WebServe listen_addr db st (wo_static_dir o1)) else Some (WebExit 1)))"

end
