(* ===== verification/Web_Contract.thy ===== *)
theory Web_Contract
  imports Web_Main
begin

text \<open>
  What the page can rely on: the type of the answer of every route, and that every handler that returns
  answers with it or with one of the errors of the code.
\<close>

section \<open>The types of the answers\<close>

definition ints :: "string list \<Rightarrow> (string \<times> jty) list" where
  "ints ks = map (\<lambda>k. (k, TInt)) ks"

definition t_short_process :: jty where
  "t_short_process = TObj [(''pid'', TInt), (''cmdline'', TStr), (''duration_us'', TInt)] []"

definition t_process :: jty where
  "t_process = TObj
     ([(''pid'', TInt), (''ppid'', TInt), (''cmdline'', TStr)] @
      ints [''start_time_us'', ''end_time_us'', ''exit_code'', ''file_count'', ''fail_count''] @
      [(''has_children'', TBool)] @
      ints [''user_time_us'', ''sys_time_us'', ''peak_rss_kb'', ''io_read_bytes'', ''io_write_bytes''])
     (ints [''desc_file_count'', ''desc_fail_count'', ''desc_cpu_us'', ''desc_peak_rss_kb'', ''desc_io_bytes''])"

definition proc_info_fields :: "(string \<times> jty) list" where
  "proc_info_fields = ints [''start_time_us'', ''end_time_us'', ''duration_us'', ''exit_code'', ''user_time_us'',
     ''sys_time_us'', ''peak_rss_kb'', ''io_read_bytes'', ''io_write_bytes'']"

definition t_file_stat :: jty where
  "t_file_stat = TObj ((''path'', TStr) # ints [''access_count'', ''read_count'', ''write_count'', ''process_count'']) []"

definition t_summary :: jty where
  "t_summary = TObj (ints [''total_time_us'', ''process_count'', ''file_access_count'', ''failed_count'', ''max_parallelism'',
     ''read_count'', ''write_count''] @ [(''slowest'', TArr t_short_process)]) []"

definition t_processes :: jty where
  "t_processes = TAlt
     (TObj [(''processes'', TArr t_process), (''roots'', TArr TInt), (''total_cpu_us'', TInt)] [])
     (TObj [(''processes'', TArr t_process), (''roots'', TArr TInt), (''children_map'', TMap (TArr TInt))] [])"

definition t_filedirs :: jty where
  "t_filedirs = TObj [(''total_count'', TInt),
     (''entries'', TArr (TObj ([(''name'', TStr), (''type'', TStr)] @ ints [''count'', ''reads'', ''writes'']) []))] []"

definition t_process_files :: jty where
  "t_process_files = TArr (TObj [(''filename'', TStr), (''mode'', TInt), (''mode_str'', TStr), (''fd'', TInt),
     (''timestamp_us'', TInt)] [])"

definition t_files :: jty where
  "t_files = TAlt
     (TObj (ints [''total_count'', ''offset'', ''limit''] @ [(''files'', TArr t_file_stat)]) [])
     (TArr t_file_stat)"

definition t_by_path :: jty where
  "t_by_path = TArr (TObj [(''pid'', TInt), (''cmdline'', TStr), (''mode'', TInt), (''mode_str'', TStr),
     (''timestamp_us'', TInt)] proc_info_fields)"

definition t_by_prefix :: jty where
  "t_by_prefix = TArr (TObj [(''pid'', TInt), (''cmdline'', TStr), (''filename'', TStr), (''mode_str'', TStr),
     (''timestamp_us'', TInt)] proc_info_fields)"

definition t_slowest :: jty where
  "t_slowest = TAlt
     (TArr (TObj ([(''pid'', TInt), (''ppid'', TInt), (''cmdline'', TStr)] @ proc_info_fields) []))
     (TAlt (TArr (TObj ((''cmd_name'', TStr) # ints [''count'', ''total_us'', ''max_us'', ''avg_us'', ''total_cpu_us'',
              ''max_cpu_us'', ''avg_cpu_us'', ''max_rss_kb'']) []))
           (TArr t_short_process))"

definition t_timeline :: jty where
  "t_timeline =
     (let rows = TArr (TObj ([(''pid'', TInt), (''cmdline'', TStr)] @
            ints [''start_time_us'', ''end_time_us'', ''exit_code'', ''depth'']) []) in
      TAlt (TObj ([(''processes'', rows)] @ ints [''min_time_us'', ''max_time_us'']) [])
        (TObj (ints [''min_time_us'', ''max_time_us''] @ [(''processes'', rows), (''truncated'', TBool), (''total_count'', TInt)]) []))"

definition t_parallelism :: jty where
  "t_parallelism = TAlt
     (TObj [(''buckets'', TArr TInt), (''max_parallelism'', TInt), (''total_time_us'', TInt)] [])
     (TObj [(''total_time_us'', TInt), (''max_parallelism'', TInt), (''bucket_us'', TInt), (''buckets'', TArr TInt)] [])"

definition t_critical_path :: jty where
  "t_critical_path = TAlt
     (TObj [(''path'', TArr t_short_process), (''total_us'', TInt)] [])
     (TObj [(''total_us'', TInt), (''path'', TArr t_short_process)] [])"

definition t_hotspots :: jty where
  "t_hotspots = TArr (TObj ((''name'', TStr) # ints [''total'', ''reads'', ''writes'', ''num_procs'']) [])"

definition t_failures :: jty where
  "t_failures = TObj [(''total'', TInt),
     (''by_errno'', TArr (TObj [(''errno_val'', TInt), (''name'', TStr), (''count'', TInt)] [])),
     (''by_file'', TArr (TObj [(''filename'', TStr), (''count'', TInt)] []))] []"

definition t_diagnostics :: jty where
  "t_diagnostics =
     (let issues = TArr (TObj [(''type'', TStr), (''message'', TStr), (''detail'', TStr)] []) in
      TAlt (TObj [(''issues'', issues)] []) (TObj [(''total_time_us'', TInt), (''issues'', issues)] []))"

definition t_io :: jty where
  "t_io = TObj [(''inputs'', TArr TStr), (''outputs'', TArr TStr), (''internal'', TArr TStr)] []"

definition t_impact :: jty where
  "t_impact = TObj [(''truncated'', TBool),
     (''results'', TArr (TObj [(''file'', TStr), (''affected_procs'', TInt), (''affected_duration_us'', TInt)] []))] []"

definition t_races :: jty where
  "t_races = TObj [(''count'', TInt), (''truncated'', TBool),
     (''races'', TArr (TObj [(''file'', TStr), (''writer_pid'', TInt), (''reader_pid'', TInt), (''overlap_us'', TInt),
        (''writer_cmd'', TStr), (''reader_cmd'', TStr)] []))] []"

definition t_rebuild :: jty where
  "t_rebuild = TObj (ints [''affected_count'', ''total_affected'', ''trace_min_start_us'', ''serial_estimate_us'',
       ''longest_single_us''] @
     [(''affected'', TArr (TObj [(''pid'', TInt), (''cmdline'', TStr), (''cwd'', TStr), (''start_time_us'', TInt),
        (''duration_us'', TInt), (''reads'', TArr TStr), (''writes'', TArr TStr)] []))]) []"

definition api_type :: "string \<Rightarrow> jty option" where
  "api_type uri =
     (if uri = ''/api/summary'' then Some t_summary
      else if uri = ''/api/processes'' then Some t_processes
      else if process_route uri ''/filedirs'' then Some t_filedirs
      else if process_route uri ''/files'' then Some t_process_files
      else if process_route uri ''/children'' then Some (TArr t_process)
      else if uri = ''/api/files'' then Some t_files
      else if uri = ''/api/files/by-path'' then Some t_by_path
      else if uri = ''/api/files/by-prefix'' then Some t_by_prefix
      else if uri = ''/api/slowest'' then Some t_slowest
      else if uri = ''/api/timeline'' then Some t_timeline
      else if uri = ''/api/parallelism'' then Some t_parallelism
      else if uri = ''/api/critical-path'' then Some t_critical_path
      else if uri = ''/api/hotspots'' then Some t_hotspots
      else if uri = ''/api/failures'' then Some t_failures
      else if uri = ''/api/diagnostics'' then Some t_diagnostics
      else if process_route uri ''/io'' then Some t_io
      else if uri = ''/api/impact'' then Some t_impact
      else if uri = ''/api/races'' then Some t_races
      else if uri = ''/api/rebuild'' then Some t_rebuild
      else if uri = ''/api/rdeps'' then Some TRdeps
      else None)"

section \<open>Every handler keeps its type\<close>

named_theorems ty_defs \<open>the types of the answers\<close>

lemmas [ty_defs] = ints_def t_short_process_def t_process_def proc_info_fields_def t_file_stat_def t_summary_def
  t_processes_def t_filedirs_def t_process_files_def t_files_def t_by_path_def t_by_prefix_def t_slowest_def
  t_timeline_def t_parallelism_def t_critical_path_def t_hotspots_def t_failures_def t_diagnostics_def t_io_def
  t_impact_def t_races_def t_rebuild_def

lemma short_process_typed [simp]: "has_type (short_process p) t_short_process"
  unfolding short_process_def t_short_process_def by (rule object_typed(1)) (simp_all add: nul_free_def)

lemma process_typed [simp]: "has_type (process_json db st p) t_process"
proof (cases "pr_pid p \<in> set (get_pids_with_children db) \<and> lookup_desc st (pr_pid p) \<noteq> None")
  case True
  then show ?thesis
    unfolding process_json_def write_process_json_def t_process_def ints_def
    by (intro object_typed(2)) (auto simp: nul_free_def)
next
  case False
  then show ?thesis
    unfolding process_json_def write_process_json_def t_process_def ints_def
    by (intro object_typed(1)) (auto simp: nul_free_def split: option.splits)
qed

lemmas typing = json_reply_answers object_typed(1)
lemmas choice1 = json_reply_answers [OF T_Alt1]
lemmas choice2 = json_reply_answers [OF T_Alt2]

lemma summary_answers: "answers (handle_summary db) t_summary"
  unfolding handle_summary_def t_summary_def ints_def
  by (auto simp: Let_def nul_free_def split: prod.splits intro!: typing)

lemma processes_answers: "answers (handle_processes db st query) t_processes"
proof (cases "get_query_param query ''lazy'' = ''1''")
  case True
  then show ?thesis unfolding handle_processes_def t_processes_def
    by (auto simp: Let_def nul_free_def intro!: choice1 object_typed(1))
next
  case False
  then show ?thesis unfolding handle_processes_def t_processes_def
    by (auto simp: Let_def nul_free_def intro!: choice2 object_typed(1))
qed

lemma children_answers: "answers (handle_process_children db st pid) (TArr t_process)"
  unfolding handle_process_children_def by (rule json_reply_answers) simp

lemma filedirs_answers: "handle_process_filedirs db pid query = Some r \<Longrightarrow> answers r t_filedirs"
  unfolding handle_process_filedirs_def t_filedirs_def ints_def
  by (auto simp: Let_def nul_free_def filedirs_entry_json_def split: option.splits intro!: typing)

lemma process_files_answers: "handle_process_files db pid query = Some r \<Longrightarrow> answers r t_process_files"
  unfolding handle_process_files_def t_process_files_def
  by (auto simp: nul_free_def access_json_def split: option.splits if_splits intro!: typing)

lemma file_stat_typed [simp]: "has_type (file_stat_json s) t_file_stat"
  unfolding file_stat_json_def t_file_stat_def ints_def by (auto simp: nul_free_def intro!: object_typed(1))

lemma files_answers: "answers (handle_files db query) t_files"
proof (cases "int_param query ''limit'' 0 > 0")
  case True
  then show ?thesis unfolding handle_files_def t_files_def ints_def
    by (auto simp: Let_def nul_free_def intro!: choice1 object_typed(1))
next
  case False
  then show ?thesis unfolding handle_files_def t_files_def by (auto simp: Let_def intro!: choice2)
qed

lemma grouped_typed:
  assumes "has_members base req" "nul_free req"
  shows "has_type (JObj (base @ found_info r)) (TObj req proc_info_fields)"
proof (cases r)
  case None
  then show ?thesis using assms by (auto simp: found_info_def intro!: object_typed(1))
next
  case (Some p)
  have "has_members (write_proc_info p) proc_info_fields" "nul_free proc_info_fields"
    by (simp_all add: write_proc_info_def proc_info_fields_def ints_def nul_free_def)
  then show ?thesis using assms Some
    by (auto simp: found_info_def has_members_iff intro!: object_typed(2) list_all2_appendI)
qed

lemma by_path_answers: "answers (handle_files_by_path db path) t_by_path"
  unfolding handle_files_by_path_def t_by_path_def Let_def
  by (rule json_reply_answers) (auto simp: nul_free_def simp del: append_Cons intro!: grouped_typed)

lemma by_prefix_answers: "answers (handle_files_by_prefix db prefix) t_by_prefix"
  unfolding handle_files_by_prefix_def t_by_prefix_def Let_def
  by (rule json_reply_answers) (auto simp: nul_free_def simp del: append_Cons intro!: grouped_typed)

lemma slowest_answers: "answers (handle_slowest db query) t_slowest"
proof -
  consider "get_query_param query ''cmd'' \<noteq> []"
    | "get_query_param query ''cmd'' = []" "get_query_param query ''group_by'' = ''cmd_name''"
    | "get_query_param query ''cmd'' = []" "get_query_param query ''group_by'' \<noteq> ''cmd_name''" by blast
  then show ?thesis
  proof cases
    case 1
    then show ?thesis unfolding handle_slowest_def t_slowest_def proc_info_fields_def ints_def write_proc_info_def
      by (auto simp: Let_def nul_free_def intro!: choice1 object_typed(1))
  next
    case 2
    then show ?thesis unfolding handle_slowest_def t_slowest_def group_json_def ints_def
      by (auto simp: Let_def nul_free_def intro!: json_reply_answers [OF T_Alt2 [OF T_Alt1]] object_typed(1))
  next
    case 3
    then show ?thesis unfolding handle_slowest_def t_slowest_def
      by (auto simp: Let_def intro!: json_reply_answers [OF T_Alt2 [OF T_Alt2]])
  qed
qed

text \<open>The constant answers are what the writer would have written.\<close>

lemma empty_answers:
  "send_json (quoted ''{`processes`:[],`min_time_us`:0,`max_time_us`:0}'') =
     json_reply (JObj [(''processes'', JArr []), (''min_time_us'', JInt 0), (''max_time_us'', JInt 0)])"
  "no_buckets = json_reply (JObj [(''buckets'', JArr []), (''max_parallelism'', JInt 0), (''total_time_us'', JInt 0)])"
  "send_json (quoted ''{`path`:[],`total_us`:0}'') = json_reply (JObj [(''path'', JArr []), (''total_us'', JInt 0)])"
  by code_simp+

lemma timeline_rows_typed:
  "\<forall>v \<in> set (fst (timeline_rows m min_dur_us limit emitted es)).
     has_type v (TObj ([(''pid'', TInt), (''cmdline'', TStr)] @ ints [''start_time_us'', ''end_time_us'', ''exit_code'', ''depth'']) [])"
  unfolding ints_def
  by (induction m min_dur_us limit emitted es rule: timeline_rows.induct)
    (auto simp: nul_free_def case_prod_beta split: option.splits intro!: object_typed(1))

lemma timeline_answers: "handle_timeline db query = Some r \<Longrightarrow> answers r t_timeline"
proof (cases "compact_runs (get_all_processes db) = []")
  case True
  assume "handle_timeline db query = Some r"
  with True show ?thesis unfolding handle_timeline_def t_timeline_def Let_def empty_answers ints_def
    by (auto simp: nul_free_def intro!: choice1 object_typed(1))
next
  case False
  assume "handle_timeline db query = Some r"
  with False show ?thesis unfolding handle_timeline_def t_timeline_def Let_def
    using timeline_rows_typed
    by (auto simp: nul_free_def ints_def case_prod_beta split: option.splits intro!: choice2 object_typed(1))
qed

lemma parallelism_answers: "handle_parallelism db = Some r \<Longrightarrow> answers r t_parallelism"
proof -
  have "answers no_buckets t_parallelism"
    unfolding empty_answers t_parallelism_def by (auto simp: nul_free_def intro!: choice1 object_typed(1))
  then show "handle_parallelism db = Some r \<Longrightarrow> ?thesis"
    unfolding handle_parallelism_def t_parallelism_def Let_def
    by (auto simp: nul_free_def case_prod_beta split: option.splits if_splits intro!: choice2 object_typed(1))
qed

lemma critical_path_answers: "handle_critical_path db = Some r \<Longrightarrow> answers r t_critical_path"
proof (cases "get_all_processes db = []")
  case True
  assume "handle_critical_path db = Some r"
  with True show ?thesis unfolding handle_critical_path_def t_critical_path_def Let_def empty_answers
    by (auto simp: nul_free_def intro!: choice1 object_typed(1))
next
  case False
  assume "handle_critical_path db = Some r"
  with False show ?thesis unfolding handle_critical_path_def t_critical_path_def Let_def
    by (auto simp: nul_free_def split: option.splits intro!: choice2 object_typed(1))
qed

lemma hotspots_answers: "answers (handle_hotspots db query) t_hotspots"
  unfolding handle_hotspots_def t_hotspots_def hotspot_json_def ints_def
  by (auto simp: Let_def nul_free_def intro!: typing)

lemma failures_answers: "answers (handle_failures db query) t_failures"
  unfolding handle_failures_def t_failures_def
  by (auto simp: Let_def nul_free_def intro!: typing)

lemma issue_typed: "has_type (issue_json kind msg detail) (TObj [(''type'', TStr), (''message'', TStr), (''detail'', TStr)] [])"
  unfolding issue_json_def by (auto simp: nul_free_def intro!: object_typed(1))

abbreviation is_issue :: "json \<Rightarrow> bool" where
  "is_issue v \<equiv> has_type v (TObj [(''type'', TStr), (''message'', TStr), (''detail'', TStr)] [])"

lemma issues_typed:
  "web_serial_issue db total_us it = Some v \<Longrightarrow> is_issue v"
  "web_slow_issues total_us ps = Some vs \<Longrightarrow> \<forall>v \<in> set vs. is_issue v"
  "\<forall>v \<in> set (hotfile_issue stats). is_issue v" "\<forall>v \<in> set (failures_issue failed). is_issue v"
proof -
  show "web_serial_issue db total_us it = Some v \<Longrightarrow> is_issue v"
    by (auto simp: web_serial_issue_def case_prod_beta Let_def split: if_splits option.splits intro: issue_typed)
  show "web_slow_issues total_us ps = Some vs \<Longrightarrow> \<forall>v \<in> set vs. is_issue v"
    by (induction ps arbitrary: vs) (auto simp: Let_def split: if_splits option.splits intro: issue_typed)
  show "\<forall>v \<in> set (hotfile_issue stats). is_issue v" "\<forall>v \<in> set (failures_issue failed). is_issue v"
    by (auto simp: hotfile_issue_def failures_issue_def case_prod_beta intro: issue_typed)
qed

lemma map_filter_typed: "(\<And>x y. f x = Some y \<Longrightarrow> P y) \<Longrightarrow> \<forall>y \<in> set (List.map_filter f xs). P y"
  by (induction xs) (auto simp: List.map_filter_simps split: option.splits)

lemma diagnostics_answers: "handle_diagnostics db = Some r \<Longrightarrow> answers r t_diagnostics"
proof (cases "get_all_processes db = []")
  case True
  assume "handle_diagnostics db = Some r"
  with True show ?thesis unfolding handle_diagnostics_def t_diagnostics_def Let_def
    by (auto simp: nul_free_def intro!: choice1 object_typed(1))
next
  case False
  assume "handle_diagnostics db = Some r"
  with False obtain total_us slow where
    slow: "web_slow_issues total_us (take 5 (std_sort cmp_duration_desc (get_all_processes db))) = Some slow"
    and r: "r = json_reply (JObj [(''total_time_us'', JInt total_us),
            (''issues'', JArr (List.map_filter (web_serial_issue db total_us) (by_parent (get_all_processes db)) @ slow @
               hotfile_issue (get_hotfile_stats db 10) @ failures_issue (get_failed_access_count db)))])"
    unfolding handle_diagnostics_def Let_def by (auto simp: case_prod_beta split: option.splits)
  have "\<forall>v \<in> set (List.map_filter (web_serial_issue db total_us) (by_parent (get_all_processes db))). is_issue v"
    by (rule map_filter_typed) (rule issues_typed(1))
  then have "\<forall>v \<in> set (List.map_filter (web_serial_issue db total_us) (by_parent (get_all_processes db)) @ slow @
               hotfile_issue (get_hotfile_stats db 10) @ failures_issue (get_failed_access_count db)). is_issue v"
    using issues_typed(2) [OF slow] issues_typed(3,4) unfolding set_append by blast
  then show ?thesis unfolding r t_diagnostics_def Let_def
    by (intro choice2 object_typed(1)) (simp_all add: nul_free_def)
qed

lemma strings_typed [simp]: "has_type (strings_json fs) (TArr TStr)"
  by (auto simp: strings_json_def)

lemma io_answers: "answers (handle_process_io db st pid query) t_io"
  unfolding handle_process_io_def t_io_def Let_def
  by (intro typing) (auto simp: nul_free_def strings_json_def)

lemma impact_answers: "answers (handle_impact st t0 clock t1 query) t_impact"
  unfolding handle_impact_def t_impact_def
  by (auto simp: Let_def nul_free_def intro!: typing)

lemma races_answers: "handle_races st t0 clock query = Some r \<Longrightarrow> answers r t_races"
  unfolding handle_races_def t_races_def race_json_def
  by (auto simp: nul_free_def split: option.splits intro!: typing)

lemma rebuild_answers:
  "handle_rebuild_api st query = Some r \<Longrightarrow> answers r t_rebuild \<or> r = send_error 400 ''changed parameter required''"
proof (cases "get_query_param query ''changed'' = []")
  case False
  assume "handle_rebuild_api st query = Some r"
  with False show ?thesis
    unfolding handle_rebuild_api_def t_rebuild_def Let_def rebuild_process_json_def ints_def
    by (auto simp: nul_free_def strings_json_def split: sum.splits intro!: typing)
qed (auto simp: handle_rebuild_api_def)

lemma rdeps_typed: "has_type (write_rdeps_json g node) TRdeps"
proof (induction node)
  case (RdepsNode name via_pid children)
  then show ?case
    using T_Rdeps [of "map (write_rdeps_json g) children"
        "if via_pid \<noteq> 0 then [(''via_cmd'', JStr (cmdline_of g via_pid))] else []" "cmdline_of g via_pid" name via_pid]
    by auto
qed

lemma rdeps_answers: "answers (handle_rdeps st query) TRdeps \<or> handle_rdeps st query = send_error 400 ''file parameter required''"
  unfolding handle_rdeps_def Let_def using rdeps_typed by (auto intro!: json_reply_answers)

text \<open>A route below a process answers as its handler does, or refuses the process id.\<close>

lemma with_pid_answers:
  "with_pid uri suffix handler = Some r \<Longrightarrow> (\<And>pid. handler pid = Some r \<Longrightarrow> answers r t) \<Longrightarrow>
     answers r t \<or> r = send_error 400 ''Bad PID''"
  by (auto simp: with_pid_def Let_def split: if_splits)

definition refusals :: "reply set" where
  "refusals = {send_error 400 ''Bad PID'', send_error 400 ''changed parameter required'', send_error 400 ''file parameter required''}"

text \<open>An outcome fits an optional type, and two routing chains with the same guards fit step by step.\<close>

definition fits :: "reply option \<Rightarrow> jty option \<Rightarrow> bool" where
  "fits outcome ty \<longleftrightarrow> (\<forall>r t. outcome = Some r \<longrightarrow> ty = Some t \<longrightarrow> answers r t \<or> r \<in> refusals)"

lemma fits_if: "fits a s \<Longrightarrow> fits b t \<Longrightarrow> fits (if c then a else b) (if c then s else t)"
  by simp

lemma fits_plain: "answers r t \<Longrightarrow> fits (Some r) (Some t)"
  by (simp add: fits_def)

lemma fits_option: "(\<And>r. outcome = Some r \<Longrightarrow> answers r t) \<Longrightarrow> fits outcome (Some t)"
  by (simp add: fits_def)

lemma fits_pid: "(\<And>pid r. handler pid = Some r \<Longrightarrow> answers r t) \<Longrightarrow> fits (with_pid uri suffix handler) (Some t)"
  unfolding fits_def refusals_def using with_pid_answers [of uri suffix handler _ t] by blast

lemma fits_none: "fits outcome None"
  by (simp add: fits_def)

lemma fits_errors: "fits (handle_rebuild_api st query) (Some t_rebuild)" "fits (Some (handle_rdeps st query)) (Some TRdeps)"
  unfolding fits_def refusals_def using rebuild_answers rdeps_answers by blast+

lemmas plain_answers = summary_answers processes_answers files_answers by_path_answers by_prefix_answers slowest_answers
  hotspots_answers failures_answers impact_answers children_answers io_answers

lemmas option_answers = timeline_answers parallelism_answers critical_path_answers diagnostics_answers races_answers
  filedirs_answers process_files_answers

lemma routes_fit: "fits (ev_handler env db st uri query) (api_type uri)"
  unfolding ev_handler_def api_type_def
  by (intro fits_if fits_errors fits_none; (rule fits_plain fits_pid fits_option)?; (elim option_answers)?;
      auto intro: plain_answers)

text \<open>
  C34. Every answer of the web interface is well formed and has the shape of its route: whatever the
  database holds (any bytes in names and command lines, any numbers) and whatever the query asks, a
  request on an API route that is answered gets status 200 and a body that is one JSON text, with
  exactly the members the type of the route lists, in order, or one of the three error replies.
\<close>

theorem api_typed:
  assumes "ev_handler env db st uri query = Some r" and "api_type uri = Some t"
  shows "answers r t \<or> r \<in> refusals"
  using routes_fit assms unfolding fits_def by blast

text \<open>A request to an empty trace.\<close>

abbreviation empty_db :: sq_db where
  "empty_db \<equiv> db_empty (\<lambda>_. True)"

definition idle_env :: web_env where
  "idle_env = \<lparr>we_asset = (\<lambda>_. []), we_static_dir = [], we_t0 = 1, we_clock = (\<lambda>_. 1), we_t1 = 1\<rparr>"

definition empty_state :: dep_state where
  "empty_state = \<lparr>ds_graph = dep_graph_empty, ds_stats = [], ds_total_cpu = 0\<rparr>"

lemma api_typed_witness:
  "ev_handler idle_env empty_db empty_state ''/api/files'' ''offset=0'' = Some (handle_files empty_db ''offset=0'')
   \<and> (answers (handle_files empty_db ''offset=0'') t_files \<or> handle_files empty_db ''offset=0'' \<in> refusals)"
proof -
  have "ev_handler idle_env empty_db empty_state ''/api/files'' ''offset=0'' = Some (handle_files empty_db ''offset=0'')"
    "api_type ''/api/files'' = Some t_files"
    by (simp_all add: ev_handler_def api_type_def process_route_def starts_with_def)
  from this(1) api_typed [OF this] show ?thesis by blast
qed

end
