(* ===== verification/Web_Proofs.thy ===== *)
theory Web_Proofs
  imports Web_Contract
begin

text \<open>
  What the answers of the file routes hold: the listing of a directory, the pages of the file list, and
  the ranking SQLite computes against the one the loop of the command line computes.
\<close>

section \<open>Modes in the queries\<close>

text \<open>The lists of numbers in the SQL statements are the modes of the two predicates.\<close>

lemma sql_modes:
  "is_input_mode m \<longleftrightarrow> m \<in> {0, 2, 3, 4, 5, 9}"
  "is_output_mode m \<longleftrightarrow> m \<in> {1, 2, 8, 10, 12, 14, 17, 18}"
  by (simp_all add: is_input_mode_def is_output_mode_def) blast+

section \<open>The listing of a directory\<close>

lemma range_length: "in_prefix_range prefix path \<Longrightarrow> length prefix \<le> length path"
proof (cases "prefix = [] \<or> CHR 0x00 \<notin> set prefix")
  case True
  assume "in_prefix_range prefix path"
  with True in_prefix_range_iff [of prefix path] show ?thesis
    by (cases "prefix = []") (auto simp: starts_with_iff prefix_lower_def)
next
  case False
  then have "CHR 0x00 \<in> set (butlast prefix @ [last prefix])" by simp
  then have "CHR 0x00 \<in> set (butlast prefix) \<or> last prefix = CHR 0x00" unfolding set_append by auto
  then have "\<exists>q. prefix_lower prefix = q @ ''/'' \<and> CHR 0x00 \<in> set q"
  proof (cases "last prefix = CHR ''/''")
    case True
    have "prefix = butlast prefix @ [last prefix]" using False by simp
    with True have "prefix_lower prefix = butlast prefix @ ''/''" by (simp add: prefix_lower_def)
    then show ?thesis using True \<open>_ \<or> _\<close> by auto
  qed (use False in \<open>auto simp: prefix_lower_def\<close>)
  then obtain q where q: "prefix_lower prefix = q @ ''/''" "CHR 0x00 \<in> set q" by blast
  then have "c_str (prefix_lower prefix) = c_str (prefix_upper (prefix_lower prefix))"
    by (simp add: prefix_upper_def c_str_def takeWhile_append1 [of "CHR 0x00"])
  then show "in_prefix_range prefix path \<Longrightarrow> ?thesis" by (auto simp: in_prefix_range_def dest: leD)
qed

text \<open>The first name of a path below the prefix, and the accesses that have one.\<close>

definition name_below :: "string \<Rightarrow> FileAccessRecord \<Rightarrow> string" where
  "name_below prefix a = takeWhile (\<lambda>c. c \<noteq> CHR ''/'') (drop (length prefix) (fa_filename a))"

definition listed :: "int oset \<Rightarrow> string \<Rightarrow> FileAccessRecord \<Rightarrow> bool" where
  "listed pids prefix a \<longleftrightarrow> fa_pid a \<in> set pids \<and> name_below prefix a \<noteq> []"

definition note_file :: "string \<Rightarrow> FileAccessRecord \<Rightarrow> FileDirEntry \<Rightarrow> FileDirEntry" where
  "note_file prefix a = note_entry (CHR ''/'' \<in> set (drop (length prefix) (fa_filename a))) (fa_mode a)"

lemma scan_cb_fold:
  "\<forall>a \<in> set rows. length prefix \<le> length (fa_filename a) \<Longrightarrow>
   fold (\<lambda>a (n, c). (n + 1, filedirs_scan_cb pids (length prefix) (fa_pid a) (fa_filename a) (fa_mode a) c)) rows (k, Some (m, t)) =
     (k + int (length rows),
      Some (fold (\<lambda>a. om_upd FileDirEntry_new (note_file prefix a) (name_below prefix a)) (filter (listed pids prefix) rows) m,
            t + count_if (listed pids prefix) rows))"
proof (induction rows arbitrary: k m t)
  case (Cons a rows)
  have "filedirs_scan_cb pids (length prefix) (fa_pid a) (fa_filename a) (fa_mode a) (Some (m, t)) =
      Some (if listed pids prefix a then (om_upd FileDirEntry_new (note_file prefix a) (name_below prefix a) m, t + 1) else (m, t))"
    using Cons.prems by (auto simp: filedirs_scan_cb_def listed_def name_below_def note_file_def Let_def)
  with Cons show ?case by (simp add: add.commute add.left_commute)
qed simp

lemma scan_prefix_rows:
  "snd (scan_file_accesses_by_prefix db prefix cb ctx) =
     snd (fold (\<lambda>a (n, c). (n + 1, cb (fa_pid a) (fa_filename a) (fa_mode a) c)) (get_file_accesses_by_prefix db prefix) (0 :: int, ctx))"
  by (simp add: scan_file_accesses_by_prefix_def get_file_accesses_by_prefix_def)

lemma note_file_fold:
  "fold (note_file prefix) as e =
     \<lparr>fd_count = fd_count e + int (length as),
      fd_reads = fd_reads e + count_if (\<lambda>a. is_input_mode (fa_mode a)) as,
      fd_writes = fd_writes e + count_if (\<lambda>a. is_output_mode (fa_mode a)) as,
      fd_is_dir = (fd_is_dir e \<or> (\<exists>a \<in> set as. CHR ''/'' \<in> set (drop (length prefix) (fa_filename a))))\<rparr>"
  by (induction as arbitrary: e) (auto simp: note_file_def note_entry_def)

lemma filedirs_fold:
  "filedirs_entries db pids prefix =
     Some (fold (\<lambda>a. om_upd FileDirEntry_new (note_file prefix a) (name_below prefix a))
             (filter (listed pids prefix) (get_file_accesses_by_prefix db prefix)) [],
           count_if (listed pids prefix) (get_file_accesses_by_prefix db prefix))"
proof -
  have "\<forall>a \<in> set (get_file_accesses_by_prefix db prefix). length prefix \<le> length (fa_filename a)"
    using range_length by (auto simp: get_file_accesses_by_prefix_def split: if_splits)
  from scan_cb_fold [OF this, of pids 0 "[]" 0] show ?thesis
    by (simp add: filedirs_entries_def scan_prefix_rows)
qed


section \<open>Pages\<close>

lemma map_nth_range: "a \<le> n \<Longrightarrow> n \<le> length xs \<Longrightarrow> map (\<lambda>i. xs ! nat i) [int a..int n - 1] = take (n - a) (drop a xs)"
  by (rule nth_equalityI) (auto simp: nat_int_add)

text \<open>A page is the part of the list it asks for; an offset below 0 counts as 0.\<close>

lemma file_page_exact:
  assumes "0 < limit" "int (length stats) + limit < 2 ^ 31"
  shows "file_page stats offset limit = take (nat limit) (drop (nat offset) stats)"
proof -
  define b where "b = min (nat offset) (length stats)"
  have "page_bounds (int (length stats)) offset limit = (int b, int (min (b + nat limit) (length stats)))"
    using assms by (auto simp: page_bounds_def b_def Let_def c_int_id min_def)
  then have "file_page stats offset limit = take (min (b + nat limit) (length stats) - b) (drop b stats)"
    using map_nth_range [of b "min (b + nat limit) (length stats)" stats] assms
    by (simp add: file_page_def b_def)
  also have "\<dots> = take (nat limit) (drop (nat offset) stats)"
    by (auto simp: b_def min_def)
  finally show ?thesis .
qed

text \<open>With a limit near the largest \<open>int\<close> the sum overflows and the page is empty.\<close>

lemma file_page_overflow: "file_page [a, b, c] 1 (2 ^ 31 - 1) = []"
  by (simp add: file_page_def page_bounds_def c_int_def)

section \<open>The ranking of the database\<close>

text \<open>With consistent tables every access has one path, and two accesses have the same path exactly if they have the same file.\<close>

definition path_of :: "sq_db \<Rightarrow> int \<Rightarrow> string" where
  "path_of db i = (case file_path db i of None \<Rightarrow> [] | Some p \<Rightarrow> p)"

definition full_access :: "sq_db \<Rightarrow> AccessRow \<Rightarrow> FileAccessRecord" where
  "full_access db a = \<lparr>fa_pid = ar_pid a, fa_filename = path_of db (ar_file a), fa_mode = ar_mode a, fa_fd = ar_fd a,
     fa_timestamp = ar_ts a\<rparr>"

lemma map_filter_all: "(\<And>x. x \<in> set xs \<Longrightarrow> f x = Some (g x)) \<Longrightarrow> List.map_filter f xs = map g xs"
  by (induction xs) (auto simp: List.map_filter_simps)

lemma file_paths:
  assumes "db_inv db"
  shows "a \<in> set (db_accesses db) \<Longrightarrow> file_path db (ar_file a) = Some (path_of db (ar_file a))"
    and "a \<in> set (db_accesses db) \<Longrightarrow> b \<in> set (db_accesses db) \<Longrightarrow>
      path_of db (ar_file a) = path_of db (ar_file b) \<longleftrightarrow> ar_file a = ar_file b"
proof -
  have files: "distinct (map snd (db_files db))" and rows: "\<forall>a \<in> set (db_accesses db). ar_file a \<in> fst ` set (db_files db)"
    using assms by (auto simp: db_inv_def files_ok_def rows_ok_def)
  have some: "file_path db (ar_file a) = Some (path_of db (ar_file a))" if "a \<in> set (db_accesses db)" for a
    using rows that by (cases "file_path db (ar_file a)") (auto simp: path_of_def file_path_def map_of_eq_None_iff)
  then have mem: "(ar_file a, path_of db (ar_file a)) \<in> set (db_files db)" if "a \<in> set (db_accesses db)" for a
    using that by (auto simp: file_path_def dest!: map_of_SomeD)
  show "a \<in> set (db_accesses db) \<Longrightarrow> file_path db (ar_file a) = Some (path_of db (ar_file a))" by (rule some)
  show "a \<in> set (db_accesses db) \<Longrightarrow> b \<in> set (db_accesses db) \<Longrightarrow>
      path_of db (ar_file a) = path_of db (ar_file b) \<longleftrightarrow> ar_file a = ar_file b"
    using mem [of a] mem [of b] inj_onD [of snd "set (db_files db)" "(ar_file a, path_of db (ar_file a))" "(ar_file b, path_of db (ar_file b))"]
      files by (auto simp: distinct_map)
qed

lemma all_accesses_full:
  "db_inv db \<Longrightarrow> db_readable db \<Longrightarrow> get_all_file_accesses db = map (full_access db) (db_accesses db)"
  unfolding get_all_file_accesses_def
  by (simp add: map_filter_all file_paths(1) row_to_file_access_def full_access_def)

definition stat_entry :: "sq_db \<Rightarrow> int \<Rightarrow> HotspotEntry" where
  "stat_entry db i =
     (let rows = filter (\<lambda>a. ar_file a = i) (db_accesses db) in
      \<lparr>hs_name = path_of db i, hs_total = int (length rows),
       hs_reads = count_if (\<lambda>a. is_input_mode (ar_mode a)) rows, hs_writes = count_if (\<lambda>a. is_output_mode (ar_mode a)) rows,
       hs_procs = int (card (ar_pid ` set rows))\<rparr>)"

lemma sql_entries:
  assumes "db_inv db" "db_readable db"
  shows "web_hotspots db False = std_sort cmp_hotspot_desc (map (stat_entry db) (os_of (map ar_file (db_accesses db))))"
proof -
  have card: "length (os_of xs) = card (set xs)" for xs :: "int list"
    using distinct_card [OF os_inv_distinct [OF os_of_inv], of xs] by simp
  have "file_path db i = Some (path_of db i)" if "i \<in> set (os_of (map ar_file (db_accesses db)))" for i
    using that file_paths(1) [OF assms(1)] by auto
  then have "get_file_stats_grouped db = map (\<lambda>i. let rows = filter (\<lambda>a. ar_file a = i) (db_accesses db) in
      \<lparr>fs_filename = path_of db i, fs_access_count = int (length rows),
       fs_read_count = int (length (filter (\<lambda>a. ar_mode a \<in> {0, 2, 3, 4, 5, 9}) rows)),
       fs_write_count = int (length (filter (\<lambda>a. ar_mode a \<in> {1, 2, 8, 10, 12, 14, 17, 18}) rows)),
       fs_process_count = int (length (os_of (map ar_pid rows)))\<rparr>) (os_of (map ar_file (db_accesses db)))"
    unfolding get_file_stats_grouped_def if_P [OF assms(2)] by (intro map_filter_all) (simp add: Let_def)
  then show ?thesis
    by (simp add: web_hotspots_def stat_entry_def [abs_def] Let_def o_def sql_modes card)
qed

lemma loop_entries:
  assumes "db_inv db" "db_readable db"
  shows "set (hotspot_entries False (get_all_file_accesses db)) = stat_entry db ` ar_file ` set (db_accesses db)"
proof -
  let ?rows = "db_accesses db" and ?all = "map (full_access db) (db_accesses db)"
  have here: "filter (\<lambda>a. fa_filename a = path_of db (ar_file r)) ?all = map (full_access db) (filter (\<lambda>a. ar_file a = ar_file r) ?rows)"
    if "r \<in> set ?rows" for r
  proof -
    have "filter (\<lambda>a. path_of db (ar_file a) = path_of db (ar_file r)) ?rows = filter (\<lambda>a. ar_file a = ar_file r) ?rows"
      by (rule filter_cong [OF refl]) (rule file_paths(2) [OF assms(1) _ that])
    then show ?thesis by (simp add: filter_map o_def full_access_def)
  qed
  have entry: "\<lparr>hs_name = path_of db (ar_file r), hs_total = ac_total d, hs_reads = ac_reads d, hs_writes = ac_writes d,
      hs_procs = int (length (ac_pids d))\<rparr> = stat_entry db (ar_file r)"
    if "r \<in> set ?rows" and d: "d = fold accum_access (filter (\<lambda>a. fa_filename a = path_of db (ar_file r)) ?all) AccumData_new" for r d
  proof -
    have "distinct (ac_pids d)" unfolding d by (rule os_inv_distinct, rule accum_fold) (simp add: AccumData_new_def)
    then have "length (ac_pids d) = card (set (ac_pids d))" by (simp add: distinct_card)
    then show ?thesis
      unfolding d here [OF that(1)]
      by (simp add: accum_fold AccumData_new_def stat_entry_def Let_def filter_map o_def full_access_def image_image)
  qed
  have "set (hotspot_entries False ?all) = stat_entry db ` ar_file ` set ?rows"
  proof -
    have "set (accumulate False ?all) = (\<lambda>r. (path_of db (ar_file r),
        fold accum_access (filter (\<lambda>a. fa_filename a = path_of db (ar_file r)) ?all) AccumData_new)) ` set ?rows"
      unfolding accumulate_def by (auto simp: fold_om_upd_mem hotspot_key_def full_access_def image_image)
    then show ?thesis unfolding hotspot_entries_def
      by (auto simp: image_image entry intro!: image_cong)
  qed
  then show ?thesis by (simp add: all_accesses_full [OF assms])
qed

text \<open>
  The two ways to the same ranking agree: on consistent tables the \<open>GROUP BY\<close> query behind the
  hotspots of the page, with its lists of mode numbers, gives the very entries the loop of the command
  line counts from the rows, and both come with the most accessed file first; by directory the two
  lists are the same, order included.
\<close>

theorem hotspots_agree:
  assumes "db_inv db" "db_readable db"
  shows "mset (web_hotspots db False) = mset (hotspot_entries False (get_all_file_accesses db))
    \<and> sorted_wrt (\<lambda>e f. hs_total f \<le> hs_total e) (web_hotspots db False)
    \<and> web_hotspots db True = hotspot_entries True (get_all_file_accesses db)"
proof -
  let ?ids = "os_of (map ar_file (db_accesses db))"
  have inj: "inj_on (stat_entry db) (set ?ids)"
    using file_paths(2) [OF assms(1)] by (auto simp: inj_on_def stat_entry_def Let_def)
  have "distinct (map (stat_entry db) ?ids)"
    using inj os_inv_distinct [OF os_of_inv] by (simp add: distinct_map)
  then have "distinct (web_hotspots db False)"
    unfolding sql_entries [OF assms] mset_eq_imp_distinct_iff [OF std_sort_mset] .
  moreover have "distinct (hotspot_entries False (get_all_file_accesses db))"
  proof -
    have inv: "om_inv (accumulate False (get_all_file_accesses db))"
      unfolding accumulate_def by (rule fold_om_upd_inv) simp
    let ?entry = "\<lambda>(name, d :: AccumData). \<lparr>hs_name = name, hs_total = ac_total d, hs_reads = ac_reads d,
        hs_writes = ac_writes d, hs_procs = int (length (ac_pids d))\<rparr>"
    have "map hs_name (map ?entry m) = map fst m" for m by (induction m) auto
    then have "distinct (map hs_name (map ?entry (accumulate False (get_all_file_accesses db))))"
      using om_inv_distinct [OF inv] by (simp only:)
    then have "distinct (map ?entry (accumulate False (get_all_file_accesses db)))"
      by (rule distinct_map [THEN iffD1, THEN conjunct1])
    then show ?thesis unfolding hotspot_entries_def mset_eq_imp_distinct_iff [OF std_sort_mset] .
  qed
  moreover have "set (web_hotspots db False) = set (hotspot_entries False (get_all_file_accesses db))"
    by (simp add: sql_entries [OF assms] loop_entries [OF assms])
  ultimately have "mset (web_hotspots db False) = mset (hotspot_entries False (get_all_file_accesses db))"
    by (simp add: set_eq_iff_mset_eq_distinct)
  moreover have "weak_order cmp_hotspot_desc"
    using weak_order_key_desc [of hs_total] by (simp add: cmp_hotspot_desc_def [abs_def])
  then have "sorted_wrt (\<lambda>e f. hs_total f \<le> hs_total e) (web_hotspots db False)"
    unfolding web_hotspots_def
    by (rule sorted_wrt_mono_rel [rotated, OF std_sort_sorted]) (auto simp: cmp_hotspot_desc_def)
  moreover have "snd (scan_all_file_accesses db hotspot_dir_scan_cb []) = accumulate True (get_all_file_accesses db)"
  proof -
    have "hotspot_dir_scan_cb (fa_pid a) (fa_filename a) (fa_mode a) m =
        om_upd AccumData_new (accum_access a) (hotspot_key True (fa_filename a)) m" for a :: FileAccessRecord and m
      by (simp add: hotspot_dir_scan_cb_def accum_access_def [abs_def] FileAccessRecord_default_def)
    then have "snd (fold (\<lambda>a (n, c). (n + 1, hotspot_dir_scan_cb (fa_pid a) (fa_filename a) (fa_mode a) c)) as (k :: int, m)) =
        fold (\<lambda>a. om_upd AccumData_new (accum_access a) (hotspot_key True (fa_filename a))) as m"
      for as :: "FileAccessRecord list" and k m
      by (induction as arbitrary: k m) simp_all
    then show ?thesis
      using assms(2) by (simp add: scan_all_file_accesses_def get_all_file_accesses_def accumulate_def)
  qed
  then have "web_hotspots db True = hotspot_entries True (get_all_file_accesses db)"
    by (simp add: web_hotspots_def hotspot_entries_def)
  ultimately show ?thesis by blast
qed

definition one_access_db :: sq_db where
  "one_access_db = snd (insert_file_access (access_at 7 ''/a'') (db_empty (\<lambda>_. True)))"

lemma hotspots_agree_witness:
  "mset (web_hotspots one_access_db False) = mset (hotspot_entries False (get_all_file_accesses one_access_db))"
proof -
  have "db_inv one_access_db" unfolding one_access_db_def by (intro insert_file_access_inv db_inv_empty)
  moreover have "db_readable one_access_db" by code_simp
  ultimately show ?thesis using hotspots_agree by blast
qed

end
