(* ===== verification/Web_Liveness.thy ===== *)
theory Web_Liveness
  imports Web_Proofs
begin

text \<open>
  The server answers. On a recording whose processes have ended and none of which is its own ancestor, every request
  is answered, but for the one division by zero of the code.
\<close>

section \<open>The loops end\<close>

lemma child_rel_graph:
  assumes "rooted_db db"
  shows "Database_Proofs.child_rel db = (Process_IO.child_rel (graph_of db))\<inverse>"
proof -
  have ok: "db_ok db" using assms by (simp add: rooted_db_def)
  have readable: "db_readable db" using ok by (simp add: db_ok_def)
  have "c \<in> set (Database.child_pids db p) \<longleftrightarrow> db_parent db c = Some p" for c p
    using db_tree.kids_iff [OF ok, of c p] readable
    by (simp add: Database.child_pids_def get_children_def)
  moreover have "c \<in> set (children_of (graph_of db) p) \<longleftrightarrow> db_parent db c = Some p" for c p
    using graph_of_forest [OF assms] by (auto simp: forest_def graph_of_rows [OF ok] db_parent_def)
  ultimately show ?thesis by (auto simp: Database_Proofs.child_rel_def)
qed

lemma descendants_return:
  assumes "rooted_db db"
  shows "get_descendant_pids db pid out \<noteq> None"
proof -
  have "wf (Database_Proofs.child_rel db)"
    unfolding child_rel_graph [OF assms] by (rule forest_wf [OF graph_of_forest [OF assms]])
  then have "\<forall>p \<in> set (Database.child_pids db pid). p \<in> Wellfounded.acc (Database_Proofs.child_rel db)"
    by (simp add: wf_iff_acc)
  from descend_returns [OF this] show ?thesis by (auto simp: get_descendant_pids_def)
qed

lemma roots_exist:
  assumes "rooted_db db" and "get_all_processes db \<noteq> []"
  shows "list_roots (get_all_processes db) \<noteq> []"
proof -
  let ?procs = "get_all_processes db"
  have ok: "db_ok db" using assms by (simp add: rooted_db_def)
  note rows = all_processes_rows [OF ok]
  obtain p where p: "p \<in> set ?procs" using assms(2) by (cases ?procs) auto
  then have "get_process db (pr_pid p) \<noteq> None" using rows(2) by simp
  then obtain d where "at_depth (db_parent db) (pr_pid p) d" using assms(1) by (auto simp: rooted_db_def)
  then obtain r where "at_depth (db_parent db) r 0" using rooted_iff by blast
  then obtain q where "db_parent db r = Some q" "db_parent db q = None" by (auto simp: at_depth_0)
  then obtain x where "get_process db r = Some x" "pr_ppid x = q" "get_process db q = None"
    by (auto simp: db_parent_def split: option.splits)
  then have x: "x \<in> set ?procs" "get_process db (pr_ppid x) = None" using rows(2,3) by auto
  have "pr_ppid x \<notin> pr_pid ` set ?procs" using x(2) rows(2) by force
  with x(1) show ?thesis by (auto simp: list_roots_def Let_def filter_empty_conv)
qed

section \<open>The handlers return\<close>

lemma timeline_returns:
  assumes "db_ok db"
  shows "handle_timeline db query \<noteq> None"
proof -
  let ?procs = "compact_runs (get_all_processes db)"
  have "map pr_pid ?procs = map pr_pid (get_all_processes db)" by (simp add: compact_runs_eq)
  then have "distinct (map pr_pid ?procs)" using all_processes_rows(1) [OF assms] by metis
  then obtain L where "timeline_order ?procs = Some L" using timeline_order_exact by blast
  then show ?thesis by (simp add: handle_timeline_def Let_def split: prod.split)
qed

lemma critical_returns:
  assumes "rooted_db db"
  shows "handle_critical_path db \<noteq> None"
proof (cases "get_all_processes db = []")
  case True
  then show ?thesis by (simp add: handle_critical_path_def)
next
  case False
  let ?procs = "get_all_processes db"
  let ?k = "critical_root (list_proc_map ?procs) (list_roots ?procs)"
  have d: "distinct (map pr_pid ?procs)" using assms all_processes_rows(1) by (auto simp: rooted_db_def)
  have roots: "list_roots ?procs \<noteq> []" by (rule roots_exist [OF assms False])
  then have k: "?k \<in> set (list_roots ?procs)" by (rule critical_root_longest(1))
  then obtain p where "p \<in> set ?procs" "pr_pid p = ?k" by (auto simp: list_roots_def Let_def)
  then have "critical_path ?procs \<noteq> None"
    using critical_loop_path [OF d] k list_roots_iff [OF d] roots unfolding critical_path_def Let_def by fastforce
  with False show ?thesis by (auto simp: handle_critical_path_def Let_def)
qed

lemma parallelism_returns:
  assumes "\<forall>p \<in> set (get_all_processes db). finished p"
    and "snd (time_span (compact_runs (get_all_processes db))) - fst (time_span (compact_runs (get_all_processes db))) < 2 ^ 31 * 1000000"
  shows "handle_parallelism db \<noteq> None"
proof -
  let ?procs = "compact_runs (get_all_processes db)"
  obtain t0 t1 where t: "time_span ?procs = (t0, t1)" by fastforce
  have fin: "\<forall>p \<in> set ?procs. pr_start p \<le> pr_end p"
    using assms(1) by (auto simp: compact_runs_eq finished_def)
  show ?thesis
  proof (cases "?procs = [] \<or> t1 - t0 \<le> 0")
    case True
    then show ?thesis by (auto simp: handle_parallelism_def t Let_def)
  next
    case False
    obtain n w where nw: "bucket_layout (t1 - t0) = (n, w)" by fastforce
    have pos: "0 < t1 - t0" "t1 - t0 < 2 ^ 31 * 1000000" using False assms(2) t by simp_all
    note lay = bucket_layout_cases [OF nw pos]
    have "\<forall>p \<in> set ?procs. 0 < pr_end p \<longrightarrow> t0 \<le> pr_start p \<and> pr_start p \<le> pr_end p \<and> pr_end p \<le> t0 + (t1 - t0)"
      using fin time_span_bounds [of _ ?procs] t by auto
    from count_buckets_exact [OF lay(1) _ lay(4,3) this, of "replicate (nat n) 0"] lay(2) False
    have "parallel_buckets ?procs \<noteq> None" by (simp add: parallel_buckets_def t nw Let_def)
    then show ?thesis by (auto simp: handle_parallelism_def t Let_def)
  qed
qed

lemma races_return:
  assumes "forest (ds_graph st)"
  shows "handle_races st t0 clock query \<noteq> None"
proof -
  obtain tms where "dfs_walk (ds_graph st) = Some tms" using dfs_walk_exact [OF assms] by blast
  then show ?thesis by (simp add: handle_races_def detect_races_def split: prod.split)
qed

lemma rebuild_returns:
  assumes "rooted_db db" and "\<forall>a \<in> set (get_all_file_accesses db). get_process db (fa_pid a) \<noteq> None"
    and "ds_graph st = graph_of db"
  shows "handle_rebuild_api st query \<noteq> None"
proof -
  have ok: "db_ok db" using assms(1) by (simp add: rooted_db_def)
  have "\<exists>rr. filter_rebuild_set (graph_of db) affected names = Inr rr" for affected names
    using filter_rebuild_shown [OF graph_of_forest [OF assms(1)], of affected names] writer_has_row [OF ok assms(2)] by blast
  then show ?thesis unfolding handle_rebuild_api_def assms(3) Let_def by (auto split: sum.split) (metis sum.distinct(1))
qed

lemma slow_issues_None:
  "web_slow_issues total_us ps = None \<longleftrightarrow> total_us = 0 \<and> (\<exists>p \<in> set ps. pr_duration p \<ge> total_us sdiv 4)"
  by (induction ps) (auto simp: Let_def percent_of_def pr_duration_def split: option.splits)

lemma diagnostics_return:
  assumes "\<forall>p \<in> set (get_all_processes db). finished p"
  shows "handle_diagnostics db = None \<longleftrightarrow> get_all_processes db \<noteq> []
    \<and> fst (time_span (get_all_processes db)) = snd (time_span (get_all_processes db))"
proof -
  let ?procs = "get_all_processes db"
  obtain t0 t1 where t: "time_span ?procs = (t0, t1)" by fastforce
  have "handle_diagnostics db = None \<longleftrightarrow> ?procs \<noteq> [] \<and> web_slow_issues (t1 - t0) (take 5 (std_sort cmp_duration_desc ?procs)) = None"
    by (auto simp: handle_diagnostics_def t Let_def split: option.splits)
  also have "\<dots> \<longleftrightarrow> ?procs \<noteq> [] \<and> t0 = t1"
  proof -
    have "\<exists>q \<in> set (take 5 (std_sort cmp_duration_desc ?procs)). pr_duration q \<ge> 0" if ne: "?procs \<noteq> []"
    proof -
      obtain p where p: "p \<in> set ?procs" using ne by (cases ?procs) auto
      then have "pr_duration p \<ge> 0" using assms by (simp add: finished_def pr_duration_def)
      with p show ?thesis by (rule longest_first)
    qed
    then show ?thesis by (auto simp: slow_issues_None)
  qed
  finally show ?thesis using t by simp
qed

section \<open>The server\<close>

lemma dep_graph_starts:
  assumes "rooted_db db"
  shows "\<exists>st. get_dep_graph db = Some st \<and> ds_graph st = graph_of db"
proof -
  have "cache_ok (graph_of db) (fst ([], 0))" by (simp add: cache_ok_def)
  from precompute_exact [OF graph_of_forest [OF assms] this, of "proc_map (graph_of db)"]
  show ?thesis by (auto simp: get_dep_graph_def Let_def)
qed

definition servable :: "sq_db \<Rightarrow> bool" where
  "servable db \<longleftrightarrow> rooted_db db \<and> (\<forall>a \<in> set (get_all_file_accesses db). get_process db (fa_pid a) \<noteq> None)
     \<and> (\<forall>p \<in> set (get_all_processes db). finished p)
     \<and> snd (time_span (compact_runs (get_all_processes db))) - fst (time_span (compact_runs (get_all_processes db))) < 2 ^ 31 * 1000000"

text \<open>
  C33. The server answers: on a recording whose processes have ended, in which every access belongs to a recorded process
  and no process is its own ancestor, it starts, and then every request is answered, whatever its path and its
  query, with one exception, the diagnostics of a recording that takes no time at all, which divide by zero.
\<close>

theorem server_answers:
  assumes "servable db"
  shows "\<exists>st. get_dep_graph db = Some st \<and> (\<forall>env uri query.
    ev_handler env db st uri query = None \<longleftrightarrow> uri = ''/api/diagnostics'' \<and> get_all_processes db \<noteq> []
      \<and> fst (time_span (get_all_processes db)) = snd (time_span (get_all_processes db)))"
proof -
  have rooted: "rooted_db db" and owned: "\<forall>a \<in> set (get_all_file_accesses db). get_process db (fa_pid a) \<noteq> None"
    and fin: "\<forall>p \<in> set (get_all_processes db). finished p"
    and span: "snd (time_span (compact_runs (get_all_processes db))) - fst (time_span (compact_runs (get_all_processes db))) < 2 ^ 31 * 1000000"
    using assms by (simp_all add: servable_def)
  have ok: "db_ok db" using rooted by (simp add: rooted_db_def)
  obtain st where st: "get_dep_graph db = Some st" "ds_graph st = graph_of db"
    using dep_graph_starts [OF rooted] by blast
  have forest: "forest (ds_graph st)" using graph_of_forest [OF rooted] st(2) by simp
  have pids: "tree_pids db pid tree \<noteq> None" for pid tree
    using descendants_return [OF rooted] by (simp add: tree_pids_def)
  have dirs: "handle_process_filedirs db pid query \<noteq> None" for pid query
    using pids by (simp add: handle_process_filedirs_def filedirs_fold Let_def split: option.split)
  have files: "handle_process_files db pid query \<noteq> None" for pid query
    using descendants_return [OF rooted, of pid "[]"] by (auto simp: handle_process_files_def)
  have guard: "with_pid uri suffix h \<noteq> None" if "\<And>pid. h pid \<noteq> None" for uri suffix h
    using that by (simp add: with_pid_def Let_def)
  have "ev_handler env db st uri query = None \<longleftrightarrow> uri = ''/api/diagnostics'' \<and> handle_diagnostics db = None" for env uri query
  proof (cases "uri = ''/api/diagnostics''")
    case True
    then have "ev_handler env db st uri query = handle_diagnostics db"
      by (simp add: ev_handler_def process_route_def starts_with_def)
    with True show ?thesis by simp
  next
    case False
    have branch: "(b \<Longrightarrow> x \<noteq> None) \<Longrightarrow> (\<not> b \<Longrightarrow> y \<noteq> None) \<Longrightarrow> (if b then x else y) \<noteq> None"
      for b and x y :: "reply option" by simp
    have "ev_handler env db st uri query \<noteq> None"
      unfolding ev_handler_def
      by (intro branch guard dirs files timeline_returns [OF ok] critical_returns [OF rooted]
          parallelism_returns [OF fin span] races_return [OF forest] rebuild_returns [OF rooted owned st(2)] option.distinct(2))
        (use False in simp)
    with False show ?thesis by simp
  qed
  with st(1) show ?thesis unfolding diagnostics_return [OF fin] by blast
qed

lemma server_answers_witness:
  "\<exists>st. get_dep_graph tree_db = Some st \<and> (\<forall>env query. ev_handler env tree_db st ''/api/critical-path'' query \<noteq> None)"
proof -
  have "servable tree_db"
    unfolding servable_def finished_def by (intro conjI tree_db_rooted; code_simp)
  from server_answers [OF this] show ?thesis by (auto simp del: not_None_eq)
qed

end
