(* ===== verification/Tracer_Main.thy ===== *)
theory Tracer_Main
  imports Tracer_Inv Session_Proofs Seccomp
begin

text \<open>
  \<open>main\<close> of \<open>bdtrace_main.cpp\<close>: the options, then a session, a tracer, and the event loop between them. What
  the system answers (opening the file, \<open>fork\<close> in the parent, the kernel) is the record \<open>host\<close>; the writer
  thread is left out here, it changes nothing in what is written (\<open>pipeline_equals_sync\<close>).
\<close>

section \<open>Options\<close>

record trace_options =
  to_db_path :: string
  to_debug :: bool
  to_procs_only :: bool
  to_no_seccomp :: bool
  to_log_file :: "string option"

definition trace_options_default :: trace_options where
  "trace_options_default = \<lparr>to_db_path = ''bdtrace.db'', to_debug = False, to_procs_only = False,
     to_no_seccomp = False, to_log_file = None\<rparr>"

text \<open>The options up to the command: \<open>Inl\<close> is an exit code, \<open>Inr\<close> the options and the rest, the command with its arguments.\<close>

fun trace_args :: "trace_options \<Rightarrow> string list \<Rightarrow> int + trace_options \<times> string list" where
  "trace_args o1 [] = Inr (o1, [])"
| "trace_args o1 (a # rest) =
     (if a = ''-o'' \<and> rest \<noteq> [] then trace_args (o1\<lparr>to_db_path := hd rest\<rparr>) (tl rest)
      else if a = ''--procs-only'' then trace_args (o1\<lparr>to_procs_only := True\<rparr>) rest
      else if a = ''--no-seccomp'' then trace_args (o1\<lparr>to_no_seccomp := True\<rparr>) rest
      else if a = ''--log-file'' \<and> rest \<noteq> [] then trace_args (o1\<lparr>to_log_file := Some (hd rest)\<rparr>) (tl rest)
      else if a = ''-v'' then trace_args (o1\<lparr>to_debug := True\<rparr>) rest
      else if a = ''-h'' then Inl 0
      else if a = ''--'' then Inr (o1, rest)
      else Inr (o1, a # rest))"

definition log_path :: "trace_options \<Rightarrow> string" where
  "log_path o1 = (case to_log_file o1 of None \<Rightarrow> to_db_path o1 @ ''.log'' | Some f \<Rightarrow> f)"

section \<open>The child\<close>

text \<open>What the forked child asks of the system, in order. \<open>prctl\<close> may refuse each of its two requests.\<close>

datatype child_action =
    NoNewPrivs
  | SetFilter "bd_sock_filter list"
  | TraceMe
  | WriteAck char
  | RaiseStop
  | Execvp "string list"
  | ExitWith int

definition install_seccomp_filter :: "bool \<Rightarrow> bool \<Rightarrow> child_action list \<times> int" where
  "install_seccomp_filter privs_ok filter_ok =
     (if \<not> privs_ok then ([NoNewPrivs], -1)
      else ([NoNewPrivs, SetFilter seccomp_program], if filter_ok then 0 else -1))"

definition child_side :: "bool \<Rightarrow> bool \<Rightarrow> bool \<Rightarrow> string list \<Rightarrow> child_action list" where
  "child_side attempt_seccomp privs_ok filter_ok argv =
     (let install = install_seccomp_filter privs_ok filter_ok
      in [TraceMe] @
         (if attempt_seccomp then fst install @ [WriteAck (if snd install = 0 then CHR ''S'' else CHR ''F'')] else []) @
         [RaiseStop, Execvp argv, ExitWith 127])"

text \<open>
  The byte the parent reads is written before the child stops, so that its read after \<open>waitpid\<close> cannot block, and it
  is \<open>S\<close> exactly when the filter is in place before the command runs. (The exit is reached only if \<open>execvp\<close> returns.)
\<close>

lemma ack_before_stop:
  "takeWhile (\<lambda>a. a \<noteq> RaiseStop) (child_side True privs_ok filter_ok argv) =
     TraceMe # fst (install_seccomp_filter privs_ok filter_ok) @
       [WriteAck (if privs_ok \<and> filter_ok then CHR ''S'' else CHR ''F'')]"
  by (auto simp: child_side_def install_seccomp_filter_def)

section \<open>A run\<close>

record host =
  ho_open :: "string \<Rightarrow> sq_db option"
  ho_getenv_no_seccomp :: bool
  ho_release :: "string option"
  ho_pipe_ok :: bool
  ho_fork :: int
  ho_ack :: "char option"
  ho_self :: int
  ho_kernel :: kernel
  ho_drop_nth :: int
  ho_inputs :: "loop_input list"

definition open_session :: "host \<Rightarrow> string \<Rightarrow> session option" where
  "open_session h path =
     (case ho_open h path of
        None \<Rightarrow> None
      | Some db \<Rightarrow> (case init_schema db of (ok, db1) \<Rightarrow> if ok then Some (session_init db1 False) else None))"

text \<open>\<open>start\<close> from its first line to the fork; the child's side only executes the command.\<close>

definition start_command :: "host \<Rightarrow> trace_options \<Rightarrow> string list \<Rightarrow> int \<times> tracer" where
  "start_command h o1 cmd =
     (let t = PtraceBackend_new (to_procs_only o1) (ho_drop_nth h);
          attempt = \<not> to_no_seccomp o1 \<and> \<not> to_procs_only o1 \<and> \<not> ho_getenv_no_seccomp h
            \<and> kernel_supports_seccomp_trace (ho_release h) \<and> ho_pipe_ok h
      in if cmd = [] then (-1, t)
         else if ho_fork h < 0 then (-1, t)
         else start (ho_kernel h) attempt (ho_ack h) (ho_self h) (ho_fork h) t)"

text \<open>
  The exit code, and the session as its destructor leaves it when there was one. The calls of the tracer are the
  operations of the session, in order; the code is that of the tracer, whatever the command's own was. The event loop
  finalizes the session at its end, the destructor in every case.
\<close>

definition bdtrace_main :: "host \<Rightarrow> string list \<Rightarrow> int \<times> session option" where
  "bdtrace_main h args =
     (case trace_args trace_options_default args of
        Inl rc \<Rightarrow> (rc, None)
      | Inr (o1, cmd) \<Rightarrow>
         if cmd = [] then (1, None)
         else case open_session h (to_db_path o1) of
                None \<Rightarrow> (1, None)
              | Some s \<Rightarrow>
                 (case start_command h o1 cmd of (rc, t) \<Rightarrow>
                    if rc \<noteq> 0 then (1, Some (finalize_tail s))
                    else case run_event_loop (ho_inputs h) t of (_, t1) \<Rightarrow>
                           (0, Some (finalize_tail (finalize_tail (fold session_op (tb_calls t1) s))))))"

section \<open>The command line is kept\<close>

text \<open>The arguments that stand for a set of options.\<close>

definition args_of :: "trace_options \<Rightarrow> string list" where
  "args_of o1 = [''-o'', to_db_path o1] @ (if to_debug o1 then [''-v''] else []) @
     (if to_procs_only o1 then [''--procs-only''] else []) @ (if to_no_seccomp o1 then [''--no-seccomp''] else []) @
     (case to_log_file o1 of None \<Rightarrow> [] | Some f \<Rightarrow> [''--log-file'', f])"

text \<open>The first part of a command line that stands for options is read as these options, whatever follows it.\<close>

lemma trace_args_options: "trace_args trace_options_default (args_of o1 @ rest) = trace_args o1 rest"
proof (cases o1)
  case (fields db dbg po ns lf)
  show ?thesis
    by (cases dbg; cases po; cases ns; cases lf) (simp_all add: fields args_of_def trace_options_default_def)
qed

text \<open>Every set of options can be given, and what follows \<open>--\<close> is the command, whatever it looks like.\<close>

lemma trace_args_roundtrip:
  "trace_args trace_options_default (args_of o1 @ ''--'' # cmd) = Inr (o1, cmd)"
  by (simp add: trace_args_options)

text \<open>Without \<open>--\<close> the command begins at the first argument that is no option, and keeps its own options.\<close>

lemma trace_args_command:
  assumes "hd name \<noteq> CHR ''-''"
  shows "trace_args trace_options_default (args_of o1 @ name # cmd) = Inr (o1, name # cmd)"
proof -
  have "name \<noteq> CHR ''-'' # x" for x
    using assms by auto
  then show ?thesis
    by (simp add: trace_args_options)
qed

text \<open>Nothing is opened or started for a request of help or without a command.\<close>

lemma bdtrace_main_usage: "bdtrace_main h [] = (1, None)" "bdtrace_main h (''-h'' # args) = (0, None)"
  by (simp_all add: bdtrace_main_def)

section \<open>What a recording holds\<close>

text \<open>Paths that are neither devices nor process files. Paths below \<open>/sys\<close> are not filtered (\<open>sys_not_filtered\<close>).\<close>

definition clean_path :: "string \<Rightarrow> bool" where
  "clean_path p \<longleftrightarrow> take 5 p \<noteq> ''/dev/'' \<and> take 6 p \<noteq> ''/proc/''"

definition clean_db :: "sq_db \<Rightarrow> bool" where
  "clean_db db \<longleftrightarrow> list_all (\<lambda>(_, p). clean_path p) (db_files db)"

lemma take_c_str: "take n (c_str q) = w \<Longrightarrow> length w = n \<Longrightarrow> take n q = w"
proof -
  assume w: "take n (c_str q) = w" "length w = n"
  have "q = c_str q @ dropWhile (\<lambda>c. c \<noteq> CHR 0x00) q" by (simp add: c_str_def)
  then have "take n q = take n (c_str q @ dropWhile (\<lambda>c. c \<noteq> CHR 0x00) q)" by metis
  moreover have "n \<le> length (c_str q)" using w by auto
  ultimately show ?thesis using w by simp
qed

lemma clean_c_str: "\<not> should_filter_path q \<Longrightarrow> clean_path (c_str q)"
  using take_c_str [of 5 q "''/dev/''"] take_c_str [of 6 q "''/proc/''"]
  by (auto simp: should_filter_path_def clean_path_def)

lemma clean_db_frame [simp]:
  "clean_db (db\<lparr>db_steps := n\<rparr>) = clean_db db" "clean_db (db\<lparr>db_processes := ps\<rparr>) = clean_db db"
  "clean_db (db\<lparr>db_accesses := fs\<rparr>) = clean_db db" "clean_db (db\<lparr>db_failed := fl\<rparr>) = clean_db db"
  "clean_db (db\<lparr>db_in_tx := b\<rparr>) = clean_db db" "clean_db (db\<lparr>db_meta := m\<rparr>) = clean_db db"
  "clean_db (db\<lparr>db_intern_cache := ca\<rparr>) = clean_db db"
  by (simp_all add: clean_db_def)

lemma clean_intern: "clean_db db \<Longrightarrow> clean_path (c_str path) \<Longrightarrow> clean_db (snd (intern_path path db))"
  by (auto simp: intern_path_def sq_step_def Let_def split: option.splits) (simp_all add: clean_db_def)

text \<open>The path an event is about.\<close>

fun clean_event :: "QueuedEvent \<Rightarrow> bool" where
  "clean_event (EV_FILE_ACCESS fa) = clean_path (c_str (fa_filename fa))"
| "clean_event (EV_FAILED_ACCESS fl) = clean_path (c_str (fl_filename fl))"
| "clean_event _ = True"

lemma clean_event_call:
  assumes "clean_db db" and "clean_event ev"
  shows "clean_db (snd (event_call ev db))"
proof (cases ev)
  case (EV_FILE_ACCESS fa)
  with clean_intern [of db "fa_filename fa"] assms show ?thesis
    by (auto simp: insert_file_access_def sq_step_def split: prod.splits option.splits)
next
  case (EV_FAILED_ACCESS fl)
  with clean_intern [of db "fl_filename fl"] assms show ?thesis
    by (auto simp: insert_failed_access_def sq_step_def split: prod.splits option.splits)
qed (use assms in \<open>auto simp: insert_process_def update_process_exit_def delete_process_row_def sq_step_def
    split: option.splits\<close>)

lemma clean_transactions [simp]:
  "clean_db (snd (begin_transaction db)) = clean_db db" "clean_db (snd (commit_transaction db)) = clean_db db"
  "clean_db (snd (insert_meta k v db)) = clean_db db"
  by (simp_all add: begin_transaction_def commit_transaction_def insert_meta_def sq_step_def)

lemma clean_ensure: "clean_db (w_db (ensure_transaction w)) = clean_db (w_db w)"
  by (simp add: ensure_transaction_def)

lemma clean_commit: "clean_db (w_db (maybe_commit w)) = clean_db (w_db w)"
  by (simp add: maybe_commit_def wal_checkpoint_def sq_step_def Let_def)

lemma clean_perform: "clean_event ev \<Longrightarrow> clean_db (w_db w) \<Longrightarrow> clean_db (w_db (perform_event ev w))"
  using clean_event_call [of "w_db w" ev] by (cases "event_call ev (w_db w)") (simp add: perform_event_def frame_simps)

lemma clean_apply: "clean_event ev \<Longrightarrow> clean_db (w_db w) \<Longrightarrow> clean_db (w_db (apply_event ev w))"
  by (simp add: apply_event_def clean_ensure clean_commit clean_perform Let_def)

lemma clean_applies: "list_all clean_event evs \<Longrightarrow> clean_db (w_db w) \<Longrightarrow> clean_db (w_db (fold apply_event evs w))"
  by (induction evs arbitrary: w) (simp_all add: clean_apply)

lemma clean_emit: "report_ok op \<Longrightarrow> list_all clean_event (snd (op_emit op s))"
  by (cases op) (auto simp: report_ok_def already_seen_def clean_c_str Let_def)

lemma clean_emits: "list_all report_ok ops \<Longrightarrow> list_all clean_event (snd (emit_all ops s))"
  by (induction ops arbitrary: s) (simp_all add: clean_emit split_beta Let_def)

lemma clean_finalize: "clean_db (w_db (ss_writer (finalize_tail s))) = clean_db (w_db (ss_writer s))"
  by (simp add: finalize_tail_def close_transaction_def sq_step_def populate_counts_def Let_def)

lemma clean_session:
  assumes "list_all report_ok ops" and "clean_db db"
  shows "clean_db (w_db (ss_writer (fold session_op ops (session_init db False))))"
proof -
  have "\<not> ss_async (session_init db False)" "w_db (ss_writer (session_init db False)) = db"
    by (simp_all add: session_init_def writer_init_def)
  with clean_applies [OF clean_emits [OF assms(1), of "session_init db False"]] assms(2) show ?thesis
    by (simp add: session_ops_sync)
qed

lemma start_command_ok:
  assumes "start_command h o1 cmd = (0, t)"
  shows "good (snd (run_event_loop is t))"
proof -
  from assms have "snd (start (ho_kernel h) (\<not> to_no_seccomp o1 \<and> \<not> to_procs_only o1 \<and> \<not> ho_getenv_no_seccomp h
      \<and> kernel_supports_seccomp_trace (ho_release h) \<and> ho_pipe_ok h) (ho_ack h) (ho_self h) (ho_fork h)
      (PtraceBackend_new (to_procs_only o1) (ho_drop_nth h))) = t"
    by (auto simp: start_command_def Let_def split: if_splits)
  with good_run_event_loop [OF good_start] show ?thesis by metis
qed

text \<open>What the database holds after the schema statements: nothing new but the version.\<close>

lemma open_session_db:
  assumes "open_session h path = Some s"
  shows "\<exists>db0 db. ho_open h path = Some db0 \<and> s = session_init db False \<and> (clean_db db0 \<longrightarrow> clean_db db)
    \<and> (db_inv db0 \<longrightarrow> db_inv db)"
proof -
  from assms obtain db0 db where db: "ho_open h path = Some db0" "init_schema db0 = (True, db)" "s = session_init db False"
    by (auto simp: open_session_def split: option.splits prod.splits if_splits)
  then have "db = snd (insert_meta ''schema_version'' ''6'' (snd (sq_step db0)))"
    by (auto simp: init_schema_def split: prod.splits if_splits)
  then have "clean_db db = clean_db db0" "db_inv db = db_inv db0"
    by (simp_all add: sq_step_def insert_meta_def db_inv_def files_ok_def rows_ok_def)
  with db show ?thesis by blast
qed


definition idle_host :: host where
  "idle_host = \<lparr>ho_open = (\<lambda>_. Some (db_empty (\<lambda>_. True))), ho_getenv_no_seccomp = False, ho_release = None,
     ho_pipe_ok = True, ho_fork = 7, ho_ack = None, ho_self = 3, ho_kernel = no_kernel, ho_drop_nth = -1,
     ho_inputs = [\<lparr>li_kernel = no_kernel, li_fatal = False, li_signal = None, li_wait = Report 7 256\<rparr>]\<rparr>"


end
