(* ===== verification/Schema_Upgrade.thy ===== *)
theory Schema_Upgrade
  imports Database_Proofs
begin

text \<open>
  Recordings of earlier versions: \<open>migrate_to_interned\<close>, \<open>upgrade_schema\<close> and the whole of \<open>init_schema\<close> of
  \<open>db/database.cpp\<close>, over files whose tables have any of the six layouts. A file of an earlier version names its
  paths in every row; version 6 keeps them in a table of their own. The engine answers each statement: it is carried
  out, refused, or refused with the open transaction rolled back (a full disk). Nothing is assumed about the answers.
\<close>

section \<open>Layouts\<close>

record OldAccess =
  oa_id :: int
  oa_pid :: int
  oa_filename :: string
  oa_mode :: int
  oa_fd :: int
  oa_ts :: int

record OldFailed =
  of_id :: int
  of_pid :: int
  of_filename :: string
  of_mode :: int
  of_errno :: int
  of_ts :: int

text \<open>The flag says whether the table has the column \<open>timestamp_us\<close>; without it \<open>oa_ts\<close> means nothing.\<close>

datatype access_table = No_accesses | Named_accesses bool "OldAccess list" | Interned_accesses "AccessRow list"

datatype failed_table = No_failed | Named_failed "OldFailed list" | Interned_failed "FailedRow list"

text \<open>The tables of a file, and the columns \<open>processes\<close> has besides the six of version 1.\<close>

record tables =
  tt_meta :: "(string, string) omap"
  tt_processes :: "(int, ProcessRecord) omap"
  tt_columns :: "string list"
  tt_files :: "(int \<times> string) list option"
  tt_accesses :: access_table
  tt_failed :: failed_table
  tt_accesses_v6 :: "AccessRow list option"
  tt_failed_v6 :: "FailedRow list option"

section \<open>Statements\<close>

datatype outcome = Done | Refused | Aborted

record connection =
  cn_now :: tables
  cn_saved :: "tables option"
  cn_rc :: "nat \<Rightarrow> outcome"
  cn_steps :: nat
  cn_readable :: bool

text \<open>What the file holds once the connection is closed: an open transaction is undone.\<close>

definition durable :: "connection \<Rightarrow> tables" where
  "durable c = (case cn_saved c of None \<Rightarrow> cn_now c | Some t \<Rightarrow> t)"

definition undo :: "connection \<Rightarrow> connection" where
  "undo c = c\<lparr>cn_now := durable c, cn_saved := None\<rparr>"

text \<open>A statement is a partial function on the tables: \<open>None\<close> where SQLite reports an error.\<close>

type_synonym statement = "tables \<Rightarrow> tables option"

definition exec :: "statement \<Rightarrow> connection \<Rightarrow> bool \<times> connection" where
  "exec stmt c =
     (let c1 = c\<lparr>cn_steps := Suc (cn_steps c)\<rparr>
      in case cn_rc c (cn_steps c) of
           Refused \<Rightarrow> (False, c1)
         | Aborted \<Rightarrow> (False, undo c1)
         | Done \<Rightarrow> (case stmt (cn_now c) of None \<Rightarrow> (False, c1) | Some t \<Rightarrow> (True, c1\<lparr>cn_now := t\<rparr>)))"

definition begin_tx :: "connection \<Rightarrow> bool \<times> connection" where
  "begin_tx c =
     (if cn_saved c \<noteq> None then (False, c)
      else case exec Some c of (ok, c1) \<Rightarrow> if ok then (True, c1\<lparr>cn_saved := Some (cn_now c)\<rparr>) else (False, c1))"

definition commit_tx :: "connection \<Rightarrow> bool \<times> connection" where
  "commit_tx c =
     (if cn_saved c = None then (False, c)
      else case exec Some c of (ok, c1) \<Rightarrow> if ok then (True, c1\<lparr>cn_saved := None\<rparr>) else (False, c1))"

definition rollback_tx :: "connection \<Rightarrow> bool \<times> connection" where
  "rollback_tx c =
     (if cn_saved c = None then (False, c)
      else case exec Some c of (ok, c1) \<Rightarrow> if ok then (True, undo c1) else (False, c1))"

text \<open>Statements joined by \<open>&&\<close>: the first that fails ends the chain.\<close>

fun exec_all :: "statement list \<Rightarrow> connection \<Rightarrow> bool \<times> connection" where
  "exec_all [] c = (True, c)"
| "exec_all (f # fs) c = (case exec f c of (True, c1) \<Rightarrow> exec_all fs c1 | (False, c1) \<Rightarrow> (False, c1))"

text \<open>Statements whose result nobody looks at.\<close>

definition exec_each :: "statement list \<Rightarrow> connection \<Rightarrow> connection" where
  "exec_each fs c = fold (\<lambda>f c. snd (exec f c)) fs c"

section \<open>Interning the file names\<close>

definition create_files :: statement where
  "create_files t = Some (if tt_files t = None then t\<lparr>tt_files := Some []\<rparr> else t)"

text \<open>\<open>INSERT OR IGNORE INTO files(path)\<close> for one path.\<close>

definition add_path :: "string \<Rightarrow> (int \<times> string) list \<Rightarrow> (int \<times> string) list" where
  "add_path p fs = (if p \<in> snd ` set fs then fs else fs @ [(next_rowid (map fst fs), p)])"

text \<open>\<open>SELECT DISTINCT\<close>, in the order of the first occurrences.\<close>

definition distinct_of :: "string list \<Rightarrow> string list" where
  "distinct_of ps = rev (remdups (rev ps))"

definition intern_access_names :: statement where
  "intern_access_names t =
     (case (tt_accesses t, tt_files t) of
        (Named_accesses _ rows, Some fs) \<Rightarrow>
          Some (t\<lparr>tt_files := Some (fold add_path (distinct_of (map oa_filename rows)) fs)\<rparr>)
      | _ \<Rightarrow> None)"

definition intern_failed_names :: statement where
  "intern_failed_names t =
     (case (tt_failed t, tt_files t) of
        (Named_failed rows, Some fs) \<Rightarrow>
          Some (t\<lparr>tt_files := Some (fold add_path (distinct_of (map of_filename rows)) fs)\<rparr>)
      | _ \<Rightarrow> None)"

definition create_accesses_v6 :: statement where
  "create_accesses_v6 t = (if tt_accesses_v6 t = None then Some (t\<lparr>tt_accesses_v6 := Some []\<rparr>) else None)"

definition create_failed_v6 :: statement where
  "create_failed_v6 t = (if tt_failed_v6 t = None then Some (t\<lparr>tt_failed_v6 := Some []\<rparr>) else None)"

text \<open>\<open>JOIN files f ON f.path = a.filename\<close> for one row.\<close>

definition path_id :: "(int \<times> string) list \<Rightarrow> string \<Rightarrow> int option" where
  "path_id fs p = map_option fst (find (\<lambda>(_, q). q = p) fs)"

definition access_v6 :: "(int \<times> string) list \<Rightarrow> OldAccess \<Rightarrow> AccessRow option" where
  "access_v6 fs a = map_option (\<lambda>i. \<lparr>ar_id = oa_id a, ar_pid = oa_pid a, ar_file = i, ar_mode = oa_mode a,
     ar_fd = oa_fd a, ar_ts = oa_ts a\<rparr>) (path_id fs (oa_filename a))"

definition failed_v6 :: "(int \<times> string) list \<Rightarrow> OldFailed \<Rightarrow> FailedRow option" where
  "failed_v6 fs a = map_option (\<lambda>i. \<lparr>fr_id = of_id a, fr_pid = of_pid a, fr_file = i, fr_mode = of_mode a,
     fr_errno = of_errno a, fr_ts = of_ts a\<rparr>) (path_id fs (of_filename a))"

definition copy_accesses :: statement where
  "copy_accesses t =
     (case (tt_accesses t, tt_files t, tt_accesses_v6 t) of
        (Named_accesses True rows, Some fs, Some new) \<Rightarrow>
          Some (t\<lparr>tt_accesses_v6 := Some (new @ List.map_filter (access_v6 fs) rows)\<rparr>)
      | _ \<Rightarrow> None)"

definition copy_failed :: statement where
  "copy_failed t =
     (case (tt_failed t, tt_files t, tt_failed_v6 t) of
        (Named_failed rows, Some fs, Some new) \<Rightarrow>
          Some (t\<lparr>tt_failed_v6 := Some (new @ List.map_filter (failed_v6 fs) rows)\<rparr>)
      | _ \<Rightarrow> None)"

definition drop_accesses :: statement where
  "drop_accesses t = (if tt_accesses t = No_accesses then None else Some (t\<lparr>tt_accesses := No_accesses\<rparr>))"

definition drop_failed :: statement where
  "drop_failed t = (if tt_failed t = No_failed then None else Some (t\<lparr>tt_failed := No_failed\<rparr>))"

definition rename_accesses :: statement where
  "rename_accesses t =
     (case (tt_accesses t, tt_accesses_v6 t) of
        (No_accesses, Some rows) \<Rightarrow> Some (t\<lparr>tt_accesses := Interned_accesses rows, tt_accesses_v6 := None\<rparr>)
      | _ \<Rightarrow> None)"

definition rename_failed :: statement where
  "rename_failed t =
     (case (tt_failed t, tt_failed_v6 t) of
        (No_failed, Some rows) \<Rightarrow> Some (t\<lparr>tt_failed := Interned_failed rows, tt_failed_v6 := None\<rparr>)
      | _ \<Rightarrow> None)"

text \<open>\<open>has_table && has_column\<close>: neither query can be prepared when the engine cannot read.\<close>

definition accesses_old :: "connection \<Rightarrow> bool" where
  "accesses_old c \<longleftrightarrow> cn_readable c \<and> (case tt_accesses (cn_now c) of Named_accesses _ _ \<Rightarrow> True | _ \<Rightarrow> False)"

definition failed_old :: "connection \<Rightarrow> bool" where
  "failed_old c \<longleftrightarrow> cn_readable c \<and> (case tt_failed (cn_now c) of Named_failed _ \<Rightarrow> True | _ \<Rightarrow> False)"

text \<open>The five statements for one table.\<close>

definition access_steps :: "statement list" where
  "access_steps = [intern_access_names, create_accesses_v6, copy_accesses, drop_accesses, rename_accesses]"

definition failed_steps :: "statement list" where
  "failed_steps = [intern_failed_names, create_failed_v6, copy_failed, drop_failed, rename_failed]"

definition interning :: "bool \<Rightarrow> bool \<Rightarrow> statement list" where
  "interning fa_old fl_old = create_files #
     (if fa_old then access_steps else []) @ (if fl_old then failed_steps else [])"

definition migrate_to_interned :: "connection \<Rightarrow> bool \<times> connection" where
  "migrate_to_interned c =
     (if \<not> accesses_old c \<and> \<not> failed_old c then (True, c)
      else case begin_tx c of
             (False, c1) \<Rightarrow> (False, c1)
           | (True, c1) \<Rightarrow>
              (case exec_all (interning (accesses_old c) (failed_old c)) c1 of
                 (False, c2) \<Rightarrow> (False, snd (rollback_tx c2))
               | (True, c2) \<Rightarrow> commit_tx c2))"

section \<open>The upgrade\<close>

definition has_accesses :: "connection \<Rightarrow> bool" where
  "has_accesses c \<longleftrightarrow> cn_readable c \<and> tt_accesses (cn_now c) \<noteq> No_accesses"

definition has_failed :: "connection \<Rightarrow> bool" where
  "has_failed c \<longleftrightarrow> cn_readable c \<and> tt_failed (cn_now c) \<noteq> No_failed"

fun access_has_ts :: "access_table \<Rightarrow> bool" where
  "access_has_ts No_accesses = False"
| "access_has_ts (Named_accesses ts _) = ts"
| "access_has_ts (Interned_accesses _) = True"

definition add_timestamp :: statement where
  "add_timestamp t =
     (case tt_accesses t of
        Named_accesses False rows \<Rightarrow> Some (t\<lparr>tt_accesses := Named_accesses True (map (\<lambda>a. a\<lparr>oa_ts := 0\<rparr>) rows)\<rparr>)
      | _ \<Rightarrow> None)"

definition create_failed_v2 :: statement where
  "create_failed_v2 t = Some (if tt_failed t = No_failed then t\<lparr>tt_failed := Named_failed []\<rparr> else t)"

definition index_failed :: statement where
  "index_failed t = (if tt_failed t = No_failed then None else Some t)"

text \<open>\<open>ALTER TABLE processes ADD COLUMN\<close>: every row gets the default of the column.\<close>

definition default_column :: "string \<Rightarrow> ProcessRecord \<Rightarrow> ProcessRecord" where
  "default_column col r =
     (if col = ''user_time_us'' then r\<lparr>pr_user_time := 0\<rparr>
      else if col = ''sys_time_us'' then r\<lparr>pr_sys_time := 0\<rparr>
      else if col = ''peak_rss_kb'' then r\<lparr>pr_peak_rss := 0\<rparr>
      else if col = ''io_read_bytes'' then r\<lparr>pr_io_read := 0\<rparr>
      else if col = ''io_write_bytes'' then r\<lparr>pr_io_write := 0\<rparr>
      else if col = ''cwd'' then r\<lparr>pr_cwd := []\<rparr>
      else if col = ''file_count'' then r\<lparr>pr_file_count := 0\<rparr>
      else if col = ''fail_count'' then r\<lparr>pr_fail_count := 0\<rparr>
      else r)"

definition set_rows :: "(ProcessRecord \<Rightarrow> ProcessRecord) \<Rightarrow> tables \<Rightarrow> tables" where
  "set_rows f t = t\<lparr>tt_processes := map (\<lambda>(k, r). (k, f r)) (tt_processes t)\<rparr>"

definition add_column :: "string \<Rightarrow> statement" where
  "add_column col t =
     (if col \<in> set (tt_columns t) then None
      else Some (set_rows (default_column col) (t\<lparr>tt_columns := tt_columns t @ [col]\<rparr>)))"

definition has_process_column :: "string \<Rightarrow> connection \<Rightarrow> bool" where
  "has_process_column col c \<longleftrightarrow> cn_readable c \<and> col \<in> set (tt_columns (cn_now c))"

text \<open>\<open>populate_counts\<close> over any layout: both kinds of access tables have the column \<open>pid\<close>.\<close>

fun access_pids :: "access_table \<Rightarrow> int list" where
  "access_pids No_accesses = []"
| "access_pids (Named_accesses _ rows) = map oa_pid rows"
| "access_pids (Interned_accesses rows) = map ar_pid rows"

fun failed_pids :: "failed_table \<Rightarrow> int list" where
  "failed_pids No_failed = []"
| "failed_pids (Named_failed rows) = map of_pid rows"
| "failed_pids (Interned_failed rows) = map fr_pid rows"

definition zero_counts :: statement where
  "zero_counts t =
     (if {''file_count'', ''fail_count''} \<subseteq> set (tt_columns t)
      then Some (set_rows (\<lambda>r. r\<lparr>pr_file_count := 0, pr_fail_count := 0\<rparr>) t) else None)"

definition set_file_counts :: statement where
  "set_file_counts t =
     (if ''file_count'' \<in> set (tt_columns t) \<and> tt_accesses t \<noteq> No_accesses
      then Some (set_rows (\<lambda>r. r\<lparr>pr_file_count :=
             (case om_get (count_by id (access_pids (tt_accesses t))) (pr_pid r) of None \<Rightarrow> 0 | Some n \<Rightarrow> n)\<rparr>) t)
      else None)"

definition set_fail_counts :: statement where
  "set_fail_counts t =
     (if ''fail_count'' \<in> set (tt_columns t) \<and> tt_failed t \<noteq> No_failed
      then Some (set_rows (\<lambda>r. r\<lparr>pr_fail_count :=
             (case om_get (count_by id (failed_pids (tt_failed t))) (pr_pid r) of None \<Rightarrow> 0 | Some n \<Rightarrow> n)\<rparr>) t)
      else None)"

definition populate_file_counts :: "connection \<Rightarrow> bool \<times> connection" where
  "populate_file_counts c =
     (case exec_all [zero_counts, set_file_counts] c of
        (False, c1) \<Rightarrow> (False, c1)
      | (True, c1) \<Rightarrow> if has_failed c1 then exec set_fail_counts c1 else (True, c1))"

text \<open>The indexes of version 6; an index changes no row.\<close>

definition index_tables :: statement where
  "index_tables t =
     (case (tt_accesses t, tt_failed t) of (Interned_accesses _, Interned_failed _) \<Rightarrow> Some t | _ \<Rightarrow> None)"

definition upgrade_v2 :: "connection \<Rightarrow> connection" where
  "upgrade_v2 c =
     (if has_failed c then c
      else exec_each [create_failed_v2, index_failed]
        (if cn_readable c \<and> access_has_ts (tt_accesses (cn_now c)) then c else snd (exec add_timestamp c)))"

definition upgrade_v3 :: "connection \<Rightarrow> connection" where
  "upgrade_v3 c =
     (if has_process_column ''user_time_us'' c then c
      else exec_each (map add_column
        [''user_time_us'', ''sys_time_us'', ''peak_rss_kb'', ''io_read_bytes'', ''io_write_bytes'']) c)"

definition upgrade_v4 :: "connection \<Rightarrow> connection" where
  "upgrade_v4 c = (if has_process_column ''cwd'' c then c else snd (exec (add_column ''cwd'') c))"

definition upgrade_v5 :: "connection \<Rightarrow> connection" where
  "upgrade_v5 c =
     (if has_process_column ''file_count'' c then c
      else snd (populate_file_counts (exec_each (map add_column [''file_count'', ''fail_count'']) c)))"

text \<open>An interrupted trace has accesses but no counts.\<close>

definition counts_missing :: "connection \<Rightarrow> bool" where
  "counts_missing c \<longleftrightarrow> has_process_column ''file_count'' c \<and> has_accesses c
     \<and> list_all (\<lambda>(_, r). pr_file_count r \<le> 0) (tt_processes (cn_now c)) \<and> access_pids (tt_accesses (cn_now c)) \<noteq> []"

definition recover_counts :: "connection \<Rightarrow> connection" where
  "recover_counts c = (if counts_missing c then snd (exec Some (snd (populate_file_counts c))) else c)"

definition upgrade_schema :: "connection \<Rightarrow> bool \<times> connection" where
  "upgrade_schema c =
     (case migrate_to_interned (upgrade_v5 (upgrade_v4 (upgrade_v3 (upgrade_v2 c)))) of
        (False, c1) \<Rightarrow> (False, c1)
      | (True, c1) \<Rightarrow> (True, recover_counts (snd (exec index_tables c1))))"

section \<open>What a file records\<close>

definition path_table :: "tables \<Rightarrow> (int \<times> string) list" where
  "path_table t = (case tt_files t of None \<Rightarrow> [] | Some fs \<Rightarrow> fs)"

text \<open>The accesses a file tells of, whatever its layout; without a column of times all times are 0.\<close>

definition interned_access :: "(int \<times> string) list \<Rightarrow> AccessRow \<Rightarrow> FileAccessRecord option" where
  "interned_access fs a = map_option (\<lambda>p. \<lparr>fa_pid = ar_pid a, fa_filename = p, fa_mode = ar_mode a, fa_fd = ar_fd a,
     fa_timestamp = ar_ts a\<rparr>) (map_of fs (ar_file a))"

definition interned_failed :: "(int \<times> string) list \<Rightarrow> FailedRow \<Rightarrow> FailedAccessRecord option" where
  "interned_failed fs a = map_option (\<lambda>p. \<lparr>fl_pid = fr_pid a, fl_filename = p, fl_mode = fr_mode a,
     fl_errno = fr_errno a, fl_timestamp = fr_ts a\<rparr>) (map_of fs (fr_file a))"

definition recorded_accesses :: "tables \<Rightarrow> FileAccessRecord list" where
  "recorded_accesses t =
     (case tt_accesses t of
        No_accesses \<Rightarrow> []
      | Named_accesses ts rows \<Rightarrow> map (\<lambda>a. \<lparr>fa_pid = oa_pid a, fa_filename = oa_filename a, fa_mode = oa_mode a,
          fa_fd = oa_fd a, fa_timestamp = (if ts then oa_ts a else 0)\<rparr>) rows
      | Interned_accesses rows \<Rightarrow> List.map_filter (interned_access (path_table t)) rows)"

definition recorded_failures :: "tables \<Rightarrow> FailedAccessRecord list" where
  "recorded_failures t =
     (case tt_failed t of
        No_failed \<Rightarrow> []
      | Named_failed rows \<Rightarrow> map (\<lambda>a. \<lparr>fl_pid = of_pid a, fl_filename = of_filename a, fl_mode = of_mode a,
          fl_errno = of_errno a, fl_timestamp = of_ts a\<rparr>) rows
      | Interned_failed rows \<Rightarrow> List.map_filter (interned_failed (path_table t)) rows)"

text \<open>What version 1 already knew of a process.\<close>

definition plain_process :: "ProcessRecord \<Rightarrow> ProcessRecord" where
  "plain_process r = r\<lparr>pr_user_time := 0, pr_sys_time := 0, pr_peak_rss := 0, pr_io_read := 0, pr_io_write := 0,
     pr_cwd := [], pr_file_count := 0, pr_fail_count := 0\<rparr>"

definition recorded_processes :: "tables \<Rightarrow> (int \<times> ProcessRecord) list" where
  "recorded_processes t = map (\<lambda>(k, r). (k, plain_process r)) (tt_processes t)"

section \<open>The layout of version 6\<close>

definition version6_columns :: "string list" where
  "version6_columns = [''user_time_us'', ''sys_time_us'', ''peak_rss_kb'', ''io_read_bytes'', ''io_write_bytes'', ''cwd'',
     ''file_count'', ''fail_count'']"

text \<open>The tables the queries of the viewers are about, when the file has that layout.\<close>

definition viewer_db :: "connection \<Rightarrow> sq_db option" where
  "viewer_db c =
     (case (tt_files (cn_now c), tt_accesses (cn_now c), tt_failed (cn_now c)) of
        (Some fs, Interned_accesses as, Interned_failed fl) \<Rightarrow>
          if set version6_columns \<subseteq> set (tt_columns (cn_now c))
          then Some \<lparr>db_meta = tt_meta (cn_now c), db_processes = tt_processes (cn_now c), db_files = fs,
                 db_accesses = as, db_failed = fl, db_intern_cache = [], db_in_tx = cn_saved c \<noteq> None,
                 db_rc = (\<lambda>n. cn_rc c n = Done), db_steps = cn_steps c, db_readable = cn_readable c\<rparr>
          else None
      | _ \<Rightarrow> None)"

definition version6_tables :: "tables \<Rightarrow> bool" where
  "version6_tables t \<longleftrightarrow> (\<exists>fs as fl. tt_files t = Some fs \<and> tt_accesses t = Interned_accesses as \<and> tt_failed t = Interned_failed fl)"

text \<open>
  \<open>SELECT .. FROM file_accesses a JOIN files f ON f.id = a.file_id\<close> of \<open>get_all_file_accesses\<close> over any layout:
  \<open>None\<close> when it cannot be prepared.
\<close>

definition query_accesses :: "connection \<Rightarrow> FileAccessRecord list option" where
  "query_accesses c =
     (case (tt_files (cn_now c), tt_accesses (cn_now c)) of
        (Some fs, Interned_accesses rows) \<Rightarrow>
          if cn_readable c then Some (List.map_filter (interned_access fs) rows) else None
      | _ \<Rightarrow> None)"

section \<open>Tracing into an older recording\<close>

text \<open>
  \<open>init_schema\<close> on a file that has a table \<open>processes\<close>: the missing tables, the conversion, the statements of the
  tracer, the version. A new file and one of version 6 are the subject of \<open>init_schema\<close> in \<open>Database\<close>.
\<close>

definition create_tables :: statement where
  "create_tables t = Some (t\<lparr>
     tt_files := Some (path_table t),
     tt_accesses := (if tt_accesses t = No_accesses then Interned_accesses [] else tt_accesses t),
     tt_failed := (if tt_failed t = No_failed then Interned_failed [] else tt_failed t)\<rparr>)"

text \<open>The statements of \<open>prepare_stmts\<close> name all columns but the counts.\<close>

definition can_prepare :: "connection \<Rightarrow> bool" where
  "can_prepare c \<longleftrightarrow> cn_readable c \<and> set (take 6 version6_columns) \<subseteq> set (tt_columns (cn_now c))
     \<and> version6_tables (cn_now c)"

definition store_version :: statement where
  "store_version t = Some (t\<lparr>tt_meta := om_put ''schema_version'' ''6'' (tt_meta t)\<rparr>)"

definition init_schema_file :: "connection \<Rightarrow> bool \<times> connection" where
  "init_schema_file c =
     (case exec create_tables c of
        (False, c1) \<Rightarrow> (False, c1)
      | (True, c1) \<Rightarrow>
         (case migrate_to_interned c1 of
            (False, c2) \<Rightarrow> (False, c2)
          | (True, c2) \<Rightarrow> if can_prepare c2 then (True, snd (exec store_version c2)) else (False, c2)))"

end
