(* ===== verification/Upgrade_Proofs.thy ===== *)
theory Upgrade_Proofs
  imports Schema_Upgrade
begin

text \<open>
  The upgrade of an older recording loses nothing, whatever the engine answers, and completes when the engine carries
  out every statement. The first part rests on what each statement keeps (\<open>keeps\<close>), the second on a sound engine.
  Last, what a failed upgrade leaves (\<open>failed_upgrade_hides\<close>) and which old files cannot be traced into.
\<close>

section \<open>The table of paths\<close>

definition paths_ok :: "(int \<times> string) list \<Rightarrow> bool" where
  "paths_ok fs \<longleftrightarrow> distinct (map fst fs) \<and> distinct (map snd fs)"

lemma add_path_ok: "paths_ok fs \<Longrightarrow> paths_ok (add_path p fs)"
  using next_rowid_fresh [of "map fst fs"] by (auto simp: add_path_def paths_ok_def image_iff)

lemma add_paths_ok: "paths_ok fs \<Longrightarrow> paths_ok (fold add_path ps fs)"
  by (rule fold_keeps) (simp_all add: add_path_ok)

lemma add_path_extends: "\<exists>new. add_path p fs = fs @ new"
  by (auto simp: add_path_def)

lemma add_paths_extend: "\<exists>new. fold add_path ps fs = fs @ new"
proof (induction ps arbitrary: fs)
  case (Cons p ps)
  obtain new where "add_path p fs = fs @ new" using add_path_extends by blast
  moreover obtain more where "fold add_path ps (fs @ new) = (fs @ new) @ more" using Cons.IH by blast
  ultimately show ?case by simp
qed simp

lemma add_paths_names: "snd ` set (fold add_path ps fs) = snd ` set fs \<union> set ps"
  by (induction ps arbitrary: fs) (auto simp: add_path_def)

lemma distinct_of_set [simp]: "set (distinct_of ps) = set ps"
  by (simp add: distinct_of_def)

lemma path_id_in: "p \<in> snd ` set fs \<Longrightarrow> \<exists>i. path_id fs p = Some i \<and> (i, p) \<in> set fs"
  by (induction fs) (auto simp: path_id_def)

lemma path_id_back: "paths_ok fs \<Longrightarrow> p \<in> snd ` set fs \<Longrightarrow> \<exists>i. path_id fs p = Some i \<and> map_of fs i = Some p"
  using path_id_in [of p fs] by (fastforce simp: paths_ok_def)

lemma map_of_extends: "i \<in> fst ` set fs \<Longrightarrow> map_of (fs @ new) i = map_of fs i"
  by (cases "map_of fs i") (simp_all add: map_of_eq_None_iff map_add_def)

section \<open>What a statement keeps\<close>

text \<open>Interned rows refer to paths of the table.\<close>

fun access_refs :: "access_table \<Rightarrow> int set" where
  "access_refs (Interned_accesses rows) = ar_file ` set rows"
| "access_refs _ = {}"

fun failed_refs :: "failed_table \<Rightarrow> int set" where
  "failed_refs (Interned_failed rows) = fr_file ` set rows"
| "failed_refs _ = {}"

definition tables_ok :: "tables \<Rightarrow> bool" where
  "tables_ok t \<longleftrightarrow> paths_ok (path_table t)
     \<and> access_refs (tt_accesses t) \<union> failed_refs (tt_failed t) \<subseteq> fst ` set (path_table t)"

text \<open>The keys of the rows, and all paths of the file.\<close>

fun access_ids :: "access_table \<Rightarrow> int list" where
  "access_ids No_accesses = []"
| "access_ids (Named_accesses _ rows) = map oa_id rows"
| "access_ids (Interned_accesses rows) = map ar_id rows"

fun failed_ids :: "failed_table \<Rightarrow> int list" where
  "failed_ids No_failed = []"
| "failed_ids (Named_failed rows) = map of_id rows"
| "failed_ids (Interned_failed rows) = map fr_id rows"

fun access_names :: "access_table \<Rightarrow> string set" where
  "access_names (Named_accesses _ rows) = oa_filename ` set rows"
| "access_names _ = {}"

fun failed_names :: "failed_table \<Rightarrow> string set" where
  "failed_names (Named_failed rows) = of_filename ` set rows"
| "failed_names _ = {}"

definition all_names :: "tables \<Rightarrow> string set" where
  "all_names t = snd ` set (path_table t) \<union> access_names (tt_accesses t) \<union> failed_names (tt_failed t)"

text \<open>\<open>t'\<close> tells the same of the build as \<open>t\<close>, with the same keys and no other paths.\<close>

definition same_recording :: "tables \<Rightarrow> tables \<Rightarrow> bool" where
  "same_recording t t' \<longleftrightarrow> recorded_accesses t' = recorded_accesses t \<and> recorded_failures t' = recorded_failures t
     \<and> recorded_processes t' = recorded_processes t \<and> tt_meta t' = tt_meta t \<and> tables_ok t'
     \<and> access_ids (tt_accesses t') = access_ids (tt_accesses t) \<and> failed_ids (tt_failed t') = failed_ids (tt_failed t)
     \<and> all_names t' = all_names t"

lemma same_trans: "same_recording t u \<Longrightarrow> same_recording u v \<Longrightarrow> same_recording t v"
  by (simp add: same_recording_def)

lemma same_refl: "tables_ok t \<Longrightarrow> same_recording t t"
  by (simp add: same_recording_def)

text \<open>
  What SQLite's constraints and \<open>bdtrace\<close> see to: the processes stand under their keys, the rows of a table have
  distinct ids, and a path ends at its first NUL byte. It depends on nothing the upgrade changes.
\<close>

definition processes_keyed :: "tables \<Rightarrow> bool" where
  "processes_keyed t \<longleftrightarrow> om_inv (tt_processes t) \<and> (\<forall>(k, r) \<in> set (tt_processes t). pr_pid r = k)"

definition well_formed :: "tables \<Rightarrow> bool" where
  "well_formed t \<longleftrightarrow> processes_keyed t \<and> distinct (access_ids (tt_accesses t)) \<and> distinct (failed_ids (tt_failed t))
     \<and> (\<forall>p \<in> all_names t. CHR 0x00 \<notin> set p)"

lemma same_well_formed:
  assumes "same_recording t t'"
  shows "well_formed t' = well_formed t"
proof -
  have "map fst (recorded_processes u) = map fst (tt_processes u)" for u
    by (simp add: recorded_processes_def case_prod_beta' comp_def)
  moreover have "(\<forall>(k, r) \<in> set (tt_processes u). pr_pid r = k) = (\<forall>(k, r) \<in> set (recorded_processes u). pr_pid r = k)" for u
    by (force simp: recorded_processes_def plain_process_def)
  ultimately have "processes_keyed u \<longleftrightarrow> sorted_wrt (<) (map fst (recorded_processes u))
      \<and> (\<forall>(k, r) \<in> set (recorded_processes u). pr_pid r = k)" for u
    by (simp add: processes_keyed_def om_inv_def)
  with assms show ?thesis by (simp add: well_formed_def same_recording_def)
qed

definition keeps :: "statement \<Rightarrow> bool" where
  "keeps f \<longleftrightarrow> (\<forall>t t'. tables_ok t \<longrightarrow> f t = Some t' \<longrightarrow> same_recording t t')"

lemma keeps_Some: "keeps Some"
  by (simp add: keeps_def same_refl)

lemma set_rows_same:
  assumes "tables_ok t" and "\<And>r. plain_process (f r) = plain_process r"
  shows "same_recording t (set_rows f (t\<lparr>tt_columns := cs\<rparr>))" "same_recording t (set_rows f t)"
  using assms by (auto simp: same_recording_def set_rows_def recorded_processes_def recorded_accesses_def
      recorded_failures_def tables_ok_def all_names_def path_table_def split: access_table.split failed_table.split)

lemma keeps_add_column: "keeps (add_column col)"
  by (auto simp: keeps_def add_column_def intro!: set_rows_same) (simp add: default_column_def plain_process_def)

lemma keeps_counts: "keeps zero_counts" "keeps set_file_counts" "keeps set_fail_counts"
  by (auto simp: keeps_def zero_counts_def set_file_counts_def set_fail_counts_def split: if_splits
      intro!: set_rows_same) (simp_all add: plain_process_def)

lemma path_table_frame [simp]:
  "path_table (t\<lparr>tt_accesses := a\<rparr>) = path_table t" "path_table (t\<lparr>tt_failed := f\<rparr>) = path_table t"
  "path_table (t\<lparr>tt_accesses_v6 := a6\<rparr>) = path_table t" "path_table (t\<lparr>tt_failed_v6 := f6\<rparr>) = path_table t"
  "path_table (t\<lparr>tt_files := Some fs\<rparr>) = fs"
  by (simp_all add: path_table_def)

lemma keeps_add_timestamp: "keeps add_timestamp"
  unfolding keeps_def
proof (intro allI impI)
  fix t t' assume ok: "tables_ok t" and "add_timestamp t = Some t'"
  then obtain rows where t: "tt_accesses t = Named_accesses False rows"
    "t' = t\<lparr>tt_accesses := Named_accesses True (map (\<lambda>a. a\<lparr>oa_ts := 0\<rparr>) rows)\<rparr>"
    by (auto simp: add_timestamp_def split: access_table.splits bool.splits)
  then have "all_names t' = all_names t" by (simp add: all_names_def image_image)
  with t ok show "same_recording t t'"
    by (simp add: same_recording_def recorded_accesses_def recorded_failures_def recorded_processes_def tables_ok_def comp_def
        split: failed_table.split)
qed

lemma keeps_create_failed: "keeps create_failed_v2"
  by (auto simp: keeps_def create_failed_v2_def same_refl same_recording_def recorded_accesses_def recorded_failures_def
      recorded_processes_def tables_ok_def all_names_def split: access_table.split)

lemma keeps_indexes: "keeps index_failed" "keeps index_tables"
  by (auto simp: keeps_def index_failed_def index_tables_def same_refl split: access_table.splits failed_table.splits if_splits)

lemmas keeps_v2 = keeps_add_timestamp keeps_create_failed keeps_indexes

section \<open>What a connection keeps\<close>

text \<open>Both what the connection sees and what a crash would leave tell the same as \<open>t\<close>.\<close>

definition kept :: "tables \<Rightarrow> connection \<Rightarrow> bool" where
  "kept t c \<longleftrightarrow> cn_saved c = None \<and> same_recording t (cn_now c)"

lemma exec_saved_None [simp]: "cn_saved c = None \<Longrightarrow> cn_saved (snd (exec f c)) = None"
  by (auto simp: exec_def undo_def Let_def split: outcome.split option.split)

lemma kept_exec:
  assumes "kept t c" and "keeps f"
  shows "kept t (snd (exec f c))"
proof -
  from assms have ok: "tables_ok (cn_now c)" by (simp add: kept_def same_recording_def)
  have "same_recording t (cn_now (snd (exec f c)))"
    using assms ok same_trans unfolding kept_def keeps_def
    by (fastforce simp: exec_def undo_def durable_def Let_def split: outcome.split option.split)
  with assms show ?thesis by (simp add: kept_def)
qed

lemma kept_exec_each:
  assumes "kept t c" and "\<forall>f \<in> set fs. keeps f"
  shows "kept t (exec_each fs c)"
  using assms unfolding exec_each_def by (induction fs arbitrary: c) (simp_all add: kept_exec)

lemma kept_exec_all:
  assumes "kept t c" and "\<forall>f \<in> set fs. keeps f"
  shows "kept t (snd (exec_all fs c))"
  using assms
proof (induction fs arbitrary: c)
  case (Cons f fs)
  then have "kept t (snd (exec f c))" by (simp add: kept_exec)
  with Cons show ?case by (cases "exec f c") (auto split: bool.split)
qed simp

lemma kept_populate: "kept t c \<Longrightarrow> kept t (snd (populate_file_counts c))"
proof -
  assume c: "kept t c"
  then have k: "kept t (snd (exec_all [zero_counts, set_file_counts] c))"
    by (rule kept_exec_all) (simp add: keeps_counts)
  obtain ok c1 where e: "exec_all [zero_counts, set_file_counts] c = (ok, c1)" by fastforce
  with k kept_exec [OF _ keeps_counts(3), of t c1] show ?thesis
    by (cases ok) (simp_all add: populate_file_counts_def)
qed

lemma kept_upgrades:
  "kept t c \<Longrightarrow> kept t (upgrade_v2 c)" "kept t c \<Longrightarrow> kept t (upgrade_v3 c)" "kept t c \<Longrightarrow> kept t (upgrade_v4 c)"
  "kept t c \<Longrightarrow> kept t (upgrade_v5 c)" "kept t c \<Longrightarrow> kept t (recover_counts c)"
  by (simp_all add: upgrade_v2_def upgrade_v3_def upgrade_v4_def upgrade_v5_def recover_counts_def kept_exec
      kept_exec_each kept_populate keeps_v2 keeps_add_column keeps_Some)

section \<open>The conversion is all or nothing\<close>

fun chain :: "statement list \<Rightarrow> tables \<Rightarrow> tables option" where
  "chain [] t = Some t"
| "chain (f # fs) t = (case f t of None \<Rightarrow> None | Some u \<Rightarrow> chain fs u)"

lemma chain_append: "chain (fs @ gs) t = (case chain fs t of None \<Rightarrow> None | Some u \<Rightarrow> chain gs u)"
  by (induction fs arbitrary: t) (simp_all split: option.split)

lemma exec_tx:
  assumes "cn_saved c = Some t" and "exec f c = (ok, c')"
  shows "durable c' = t" and "ok \<Longrightarrow> cn_saved c' = Some t \<and> f (cn_now c) = Some (cn_now c')"
  using assms by (auto simp: exec_def undo_def durable_def Let_def split: outcome.splits option.splits)

lemma exec_all_tx:
  assumes "cn_saved c = Some t" and "exec_all fs c = (ok, c')"
  shows "durable c' = t \<and> (ok \<longrightarrow> cn_saved c' = Some t \<and> chain fs (cn_now c) = Some (cn_now c'))"
  using assms
proof (induction fs arbitrary: c)
  case Nil
  then show ?case by (simp add: durable_def)
next
  case (Cons f fs)
  obtain ok1 c1 where f: "exec f c = (ok1, c1)" by fastforce
  from exec_tx [OF Cons.prems(1) f] Cons.prems(2) f Cons.IH [of c1] show ?case by (cases ok1) auto
qed

lemma interned_access_back:
  assumes "paths_ok fs" and "oa_filename a \<in> snd ` set fs"
  shows "\<exists>r. access_v6 fs a = Some r \<and> interned_access fs r = Some \<lparr>fa_pid = oa_pid a, fa_filename = oa_filename a,
    fa_mode = oa_mode a, fa_fd = oa_fd a, fa_timestamp = oa_ts a\<rparr> \<and> ar_file r \<in> fst ` set fs \<and> ar_id r = oa_id a"
proof -
  from path_id_back [OF assms] obtain i where "path_id fs (oa_filename a) = Some i" "map_of fs i = Some (oa_filename a)" by blast
  then show ?thesis by (force simp: access_v6_def interned_access_def dest: map_of_SomeD)
qed

lemma interned_failed_back:
  assumes "paths_ok fs" and "of_filename a \<in> snd ` set fs"
  shows "\<exists>r. failed_v6 fs a = Some r \<and> interned_failed fs r = Some \<lparr>fl_pid = of_pid a, fl_filename = of_filename a,
    fl_mode = of_mode a, fl_errno = of_errno a, fl_timestamp = of_ts a\<rparr> \<and> fr_file r \<in> fst ` set fs \<and> fr_id r = of_id a"
proof -
  from path_id_back [OF assms] obtain i where "path_id fs (of_filename a) = Some i" "map_of fs i = Some (of_filename a)" by blast
  then show ?thesis by (force simp: failed_v6_def interned_failed_def dest: map_of_SomeD)
qed

text \<open>Converting rows one by one loses none, and reading them back gives the names again.\<close>

lemma convert_rows:
  assumes "\<And>a. a \<in> set rows \<Longrightarrow> \<exists>r. conv a = Some r \<and> back r = Some (old a) \<and> ref r \<in> ids \<and> key r = okey a"
  shows "List.map_filter back (List.map_filter conv rows) = map old rows
    \<and> ref ` set (List.map_filter conv rows) \<subseteq> ids \<and> map key (List.map_filter conv rows) = map okey rows"
  using assms
proof (induction rows)
  case (Cons a rows)
  obtain r where "conv a = Some r" "back r = Some (old a)" "ref r \<in> ids" "key r = okey a" using Cons.prems [of a] by auto
  with Cons show ?case by (simp add: List.map_filter_simps)
qed (simp add: List.map_filter_simps)

text \<open>More paths do not change what the rows already interned say.\<close>

lemma map_filter_same: "(\<And>a. a \<in> set xs \<Longrightarrow> g a = h a) \<Longrightarrow> List.map_filter g xs = List.map_filter h xs"
  by (induction xs) (auto simp: List.map_filter_simps split: option.split)

lemma more_paths:
  assumes "\<forall>a \<in> set rows. ar_file a \<in> fst ` set fs"
  shows "List.map_filter (interned_access (fs @ new)) rows = List.map_filter (interned_access fs) rows"
  using assms by (intro map_filter_same) (simp add: interned_access_def map_of_extends del: map_of_append)

lemma more_paths_failed:
  assumes "\<forall>a \<in> set rows. fr_file a \<in> fst ` set fs"
  shows "List.map_filter (interned_failed (fs @ new)) rows = List.map_filter (interned_failed fs) rows"
  using assms by (intro map_filter_same) (simp add: interned_failed_def map_of_extends del: map_of_append)

lemma access_steps_result:
  assumes "chain access_steps t = Some t'"
  shows "\<exists>rows fs. tt_accesses t = Named_accesses True rows \<and> tt_files t = Some fs \<and>
    (let fs' = fold add_path (distinct_of (map oa_filename rows)) fs
     in t' = t\<lparr>tt_files := Some fs', tt_accesses := Interned_accesses (List.map_filter (access_v6 fs') rows),
               tt_accesses_v6 := None\<rparr>)"
  using assms
  by (auto simp: access_steps_def intern_access_names_def create_accesses_v6_def copy_accesses_def drop_accesses_def
      rename_accesses_def Let_def split: option.splits access_table.splits if_splits bool.splits)

lemma failed_steps_result:
  assumes "chain failed_steps t = Some t'"
  shows "\<exists>rows fs. tt_failed t = Named_failed rows \<and> tt_files t = Some fs \<and>
    (let fs' = fold add_path (distinct_of (map of_filename rows)) fs
     in t' = t\<lparr>tt_files := Some fs', tt_failed := Interned_failed (List.map_filter (failed_v6 fs') rows),
               tt_failed_v6 := None\<rparr>)"
  using assms
  by (auto simp: failed_steps_def intern_failed_names_def create_failed_v6_def copy_failed_def drop_failed_def
      rename_failed_def Let_def split: option.splits failed_table.splits if_splits)

lemma access_steps_same:
  assumes "chain access_steps t = Some t'" and "tables_ok t"
  shows "same_recording t t'"
proof -
  from access_steps_result [OF assms(1)] obtain rows fs where t: "tt_accesses t = Named_accesses True rows" "tt_files t = Some fs"
    and t': "t' = t\<lparr>tt_files := Some (fold add_path (distinct_of (map oa_filename rows)) fs), tt_accesses :=
      Interned_accesses (List.map_filter (access_v6 (fold add_path (distinct_of (map oa_filename rows)) fs)) rows), tt_accesses_v6 := None\<rparr>"
    unfolding Let_def by blast
  obtain fs' new where fs': "fs' = fold add_path (distinct_of (map oa_filename rows)) fs" "fs' = fs @ new"
    using add_paths_extend by blast
  have fs: "path_table t = fs" and ok: "paths_ok fs'" "failed_refs (tt_failed t) \<subseteq> fst ` set fs"
    using assms(2) t add_paths_ok by (auto simp: tables_ok_def path_table_def fs'(1))
  have "oa_filename a \<in> snd ` set fs'" if "a \<in> set rows" for a
    by (simp add: fs'(1) add_paths_names that)
  then have same: "List.map_filter (interned_access fs') (List.map_filter (access_v6 fs') rows) =
      map (\<lambda>a. \<lparr>fa_pid = oa_pid a, fa_filename = oa_filename a, fa_mode = oa_mode a, fa_fd = oa_fd a,
        fa_timestamp = oa_ts a\<rparr>) rows \<and> ar_file ` set (List.map_filter (access_v6 fs') rows) \<subseteq> fst ` set fs'
      \<and> map ar_id (List.map_filter (access_v6 fs') rows) = map oa_id rows"
    by (intro convert_rows interned_access_back ok(1))
  have "recorded_failures t' = recorded_failures t"
    using ok(2) t more_paths_failed [of _ fs new]
    by (auto simp: recorded_failures_def t' fs'(1) [symmetric] fs fs'(2) image_subset_iff path_table_def split: failed_table.split)
  moreover have "all_names t' = all_names t"
    by (simp add: all_names_def path_table_def t' t add_paths_names Un_ac)
  ultimately show ?thesis using same ok t
    by (auto simp: same_recording_def recorded_accesses_def recorded_processes_def tables_ok_def path_table_def t'
        fs'(1) [symmetric]) (auto simp: fs'(2))
qed

lemma failed_steps_same:
  assumes "chain failed_steps t = Some t'" and "tables_ok t"
  shows "same_recording t t'"
proof -
  from failed_steps_result [OF assms(1)] obtain rows fs where t: "tt_failed t = Named_failed rows" "tt_files t = Some fs"
    and t': "t' = t\<lparr>tt_files := Some (fold add_path (distinct_of (map of_filename rows)) fs), tt_failed :=
      Interned_failed (List.map_filter (failed_v6 (fold add_path (distinct_of (map of_filename rows)) fs)) rows), tt_failed_v6 := None\<rparr>"
    unfolding Let_def by blast
  obtain fs' new where fs': "fs' = fold add_path (distinct_of (map of_filename rows)) fs" "fs' = fs @ new"
    using add_paths_extend by blast
  have fs: "path_table t = fs" and ok: "paths_ok fs'" "access_refs (tt_accesses t) \<subseteq> fst ` set fs"
    using assms(2) t add_paths_ok by (auto simp: tables_ok_def path_table_def fs'(1))
  have "of_filename a \<in> snd ` set fs'" if "a \<in> set rows" for a
    by (simp add: fs'(1) add_paths_names that)
  then have same: "List.map_filter (interned_failed fs') (List.map_filter (failed_v6 fs') rows) =
      map (\<lambda>a. \<lparr>fl_pid = of_pid a, fl_filename = of_filename a, fl_mode = of_mode a, fl_errno = of_errno a,
        fl_timestamp = of_ts a\<rparr>) rows \<and> fr_file ` set (List.map_filter (failed_v6 fs') rows) \<subseteq> fst ` set fs'
      \<and> map fr_id (List.map_filter (failed_v6 fs') rows) = map of_id rows"
    by (intro convert_rows interned_failed_back ok(1))
  have "recorded_accesses t' = recorded_accesses t"
    using ok(2) t more_paths [of _ fs new]
    by (auto simp: recorded_accesses_def t' fs'(1) [symmetric] fs fs'(2) image_subset_iff path_table_def split: access_table.split)
  moreover have "all_names t' = all_names t"
    by (simp add: all_names_def path_table_def t' t add_paths_names Un_ac)
  ultimately show ?thesis using same ok t
    by (auto simp: same_recording_def recorded_failures_def recorded_processes_def tables_ok_def path_table_def t'
        fs'(1) [symmetric]) (auto simp: fs'(2))
qed

lemma keeps_create_files: "keeps create_files"
  by (auto simp: keeps_def create_files_def same_refl same_recording_def recorded_accesses_def recorded_failures_def
      recorded_processes_def tables_ok_def all_names_def path_table_def paths_ok_def split: access_table.split failed_table.split)

lemma interning_same:
  assumes "chain (interning fa_old fl_old) t = Some t'" and "tables_ok t"
  shows "same_recording t t'"
proof -
  from assms(1) obtain u v where u: "create_files t = Some u" "chain (if fa_old then access_steps else []) u = Some v"
    "chain (if fl_old then failed_steps else []) v = Some t'"
    by (auto simp: interning_def chain_append split: option.splits)
  have 1: "same_recording t u" using keeps_create_files u(1) assms(2) by (simp add: keeps_def)
  then have ok: "tables_ok u" by (simp add: same_recording_def)
  then have 2: "same_recording u v" using u(2) access_steps_same same_refl by (cases fa_old) auto
  then have "tables_ok v" by (simp add: same_recording_def)
  then have "same_recording v t'" using u(3) failed_steps_same same_refl by (cases fl_old) auto
  with 1 2 show ?thesis using same_trans by blast
qed

lemma migrate_kept:
  assumes "kept t c" and "migrate_to_interned c = (ok, c')"
  shows "same_recording t (durable c') \<and> (ok \<longrightarrow> kept t c')"
proof (cases "accesses_old c \<or> failed_old c")
  case False
  with assms show ?thesis by (auto simp: migrate_to_interned_def kept_def durable_def)
next
  case True
  from assms(1) have c: "cn_saved c = None" "same_recording t (cn_now c)" "tables_ok (cn_now c)"
    by (simp_all add: kept_def same_recording_def)
  obtain b c1 where b: "begin_tx c = (b, c1)" by fastforce
  show ?thesis
  proof (cases b)
    case False
    with b c have "durable c1 = cn_now c"
      by (auto simp: begin_tx_def exec_def undo_def durable_def Let_def split: outcome.splits prod.splits if_splits)
    with False True b c assms(2) show ?thesis by (auto simp: migrate_to_interned_def split: if_splits)
  next
    case begun: True
    with b c have c1: "cn_saved c1 = Some (cn_now c)" "cn_now c1 = cn_now c"
      by (auto simp: begin_tx_def exec_def durable_def Let_def split: outcome.splits prod.splits if_splits)
    obtain e c2 where e: "exec_all (interning (accesses_old c) (failed_old c)) c1 = (e, c2)" by fastforce
    note tx = exec_all_tx [OF c1(1) e]
    show ?thesis
    proof (cases e)
      case False
      then have "c' = snd (rollback_tx c2)" "\<not> ok" using assms(2) True begun b e by (auto simp: migrate_to_interned_def split: if_splits)
      moreover have "durable (snd (rollback_tx c2)) = durable c2"
        by (simp add: rollback_tx_def exec_def undo_def durable_def Let_def split: outcome.split option.split)
      ultimately show ?thesis using tx c by simp
    next
      case carried: True
      then have commit: "commit_tx c2 = (ok, c')" using assms(2) True begun b e by (auto simp: migrate_to_interned_def split: if_splits)
      have "same_recording (cn_now c) (cn_now c2)" using interning_same tx carried c c1 by auto
      then have "same_recording t (cn_now c2)" using c same_trans by blast
      with commit tx carried c show ?thesis
        by (auto simp: commit_tx_def exec_def undo_def durable_def kept_def Let_def split: outcome.splits prod.splits if_splits)
    qed
  qed
qed

lemma upgrade_kept:
  assumes "tables_ok (cn_now c)" and "cn_saved c = None"
  shows "case upgrade_schema c of (ok, c') \<Rightarrow>
    same_recording (cn_now c) (durable c') \<and> (ok \<longrightarrow> cn_saved c' = None \<and> same_recording (cn_now c) (cn_now c'))"
proof -
  let ?t = "cn_now c"
  have "kept ?t c" using assms by (simp add: kept_def same_refl)
  then have k: "kept ?t (upgrade_v5 (upgrade_v4 (upgrade_v3 (upgrade_v2 c))))" by (intro kept_upgrades)
  obtain ok c1 where m: "migrate_to_interned (upgrade_v5 (upgrade_v4 (upgrade_v3 (upgrade_v2 c)))) = (ok, c1)" by fastforce
  note result = migrate_kept [OF k m]
  show ?thesis
  proof (cases ok)
    case False
    with result m show ?thesis by (simp add: upgrade_schema_def)
  next
    case True
    with result have "kept ?t (recover_counts (snd (exec index_tables c1)))"
      by (intro kept_upgrades kept_exec keeps_v2) simp
    with True m show ?thesis by (simp add: upgrade_schema_def kept_def durable_def)
  qed
qed


text \<open>A recording of version 1, on a full disk that undoes the conversion.\<close>

definition old_tables :: tables where
  "old_tables = \<lparr>tt_meta = [], tt_processes = [(7, ProcessRecord_default\<lparr>pr_pid := 7\<rparr>)], tt_columns = [], tt_files = None,
     tt_accesses = Named_accesses False [\<lparr>oa_id = 1, oa_pid = 7, oa_filename = ''/a'', oa_mode = 0, oa_fd = 3, oa_ts = 0\<rparr>,
       \<lparr>oa_id = 2, oa_pid = 7, oa_filename = ''/b'', oa_mode = 1, oa_fd = 4, oa_ts = 0\<rparr>],
     tt_failed = No_failed, tt_accesses_v6 = None, tt_failed_v6 = None\<rparr>"

definition old_connection :: "(nat \<Rightarrow> outcome) \<Rightarrow> connection" where
  "old_connection rc = \<lparr>cn_now = old_tables, cn_saved = None, cn_rc = rc, cn_steps = 0, cn_readable = True\<rparr>"

lemma old_tables_ok: "tables_ok (cn_now (old_connection rc))" "cn_saved (old_connection rc) = None"
  by (simp_all add: old_connection_def old_tables_def tables_ok_def path_table_def paths_ok_def)


section \<open>The upgrade completes\<close>

definition sound_engine :: "connection \<Rightarrow> bool" where
  "sound_engine c \<longleftrightarrow> (\<forall>n. cn_rc c n = Done) \<and> cn_readable c \<and> cn_saved c = None"

text \<open>The same but for rows and columns of \<open>processes\<close>; no column is lost.\<close>

definition same_layout :: "connection \<Rightarrow> connection \<Rightarrow> bool" where
  "same_layout c c' \<longleftrightarrow> sound_engine c' \<and> tt_accesses (cn_now c') = tt_accesses (cn_now c)
     \<and> tt_failed (cn_now c') = tt_failed (cn_now c) \<and> tt_files (cn_now c') = tt_files (cn_now c)
     \<and> tt_accesses_v6 (cn_now c') = tt_accesses_v6 (cn_now c) \<and> tt_failed_v6 (cn_now c') = tt_failed_v6 (cn_now c)
     \<and> set (tt_columns (cn_now c)) \<subseteq> set (tt_columns (cn_now c'))"

lemma same_layout_refl: "sound_engine c \<Longrightarrow> same_layout c c"
  by (simp add: same_layout_def)

lemma same_layout_trans: "same_layout c d \<Longrightarrow> same_layout d e \<Longrightarrow> same_layout c e"
  by (auto simp: same_layout_def)

lemma exec_sound:
  assumes "sound_engine c"
  shows "exec f c = (f (cn_now c) \<noteq> None, c\<lparr>cn_steps := Suc (cn_steps c),
    cn_now := (case f (cn_now c) of None \<Rightarrow> cn_now c | Some t \<Rightarrow> t)\<rparr>)"
  using assms by (auto simp: exec_def sound_engine_def Let_def split: option.split)

lemma add_column_layout:
  assumes "sound_engine c"
  shows "same_layout c (snd (exec (add_column col) c))"
    and "set (tt_columns (cn_now (snd (exec (add_column col) c)))) = insert col (set (tt_columns (cn_now c)))"
  using assms by (auto simp: exec_sound same_layout_def sound_engine_def add_column_def set_rows_def)

lemma add_columns_layout:
  assumes "sound_engine c"
  shows "same_layout c (exec_each (map add_column cols) c)
    \<and> set (tt_columns (cn_now (exec_each (map add_column cols) c))) = set cols \<union> set (tt_columns (cn_now c))"
  using assms
proof (induction cols arbitrary: c)
  case Nil
  then show ?case by (simp add: exec_each_def same_layout_refl)
next
  case (Cons col cols)
  let ?d = "snd (exec (add_column col) c)"
  note one = add_column_layout [OF Cons.prems, of col]
  then have "sound_engine ?d" by (simp add: same_layout_def)
  from one Cons.IH [OF this] same_layout_trans show ?case
    by (auto simp: exec_each_def same_layout_def)
qed

text \<open>The statements that only count.\<close>

definition counting :: "statement \<Rightarrow> bool" where
  "counting f \<longleftrightarrow> (\<forall>t t'. f t = Some t' \<longrightarrow> (\<exists>g. t' = set_rows g t))"

lemma counting_layout:
  assumes "counting f" and "sound_engine c"
  shows "same_layout c (snd (exec f c))"
proof (cases "f (cn_now c)")
  case None
  with assms show ?thesis by (simp add: exec_sound same_layout_def sound_engine_def)
next
  case (Some t')
  with assms(1) obtain g where "t' = set_rows g (cn_now c)" unfolding counting_def by blast
  with Some assms(2) show ?thesis by (simp add: exec_sound same_layout_def sound_engine_def set_rows_def)
qed

lemma counts_counting: "counting zero_counts" "counting set_file_counts" "counting set_fail_counts"
  unfolding counting_def zero_counts_def set_file_counts_def set_fail_counts_def by (auto split: if_splits)

lemma populate_layout:
  assumes "sound_engine c"
  shows "same_layout c (snd (populate_file_counts c))"
proof -
  let ?d = "snd (exec zero_counts c)"
  let ?e = "snd (exec set_file_counts ?d)"
  have d: "same_layout c ?d" using counting_layout counts_counting assms by blast
  then have "same_layout ?d ?e" using counting_layout counts_counting by (simp add: same_layout_def)
  then have e: "same_layout c ?e" using d same_layout_trans by blast
  then have "same_layout ?e (snd (exec set_fail_counts ?e))" using counting_layout counts_counting by (simp add: same_layout_def)
  then have f: "same_layout c (snd (exec set_fail_counts ?e))" using e same_layout_trans by blast
  obtain b1 c1 where 1: "exec zero_counts c = (b1, c1)" by fastforce
  obtain b2 c2 where 2: "exec set_file_counts c1 = (b2, c2)" by fastforce
  from d e f 1 2 show ?thesis by (cases b1; cases b2) (simp_all add: populate_file_counts_def)
qed

section \<open>The upgrade of each layout\<close>

text \<open>The layouts of the six versions, and of a file in which a later bdtrace has added empty tables.\<close>

definition upgradable :: "tables \<Rightarrow> bool" where
  "upgradable t \<longleftrightarrow> tt_accesses t \<noteq> No_accesses \<and> (tt_failed t \<noteq> No_failed \<longrightarrow> access_has_ts (tt_accesses t))
     \<and> tt_accesses_v6 t = None \<and> tt_failed_v6 t = None
     \<and> (tt_files t = None \<longrightarrow> (\<exists>ts rows. tt_accesses t = Named_accesses ts rows))
     \<and> (''user_time_us'' \<in> set (tt_columns t) \<longrightarrow> set (take 5 version6_columns) \<subseteq> set (tt_columns t))
     \<and> (''file_count'' \<in> set (tt_columns t) \<longrightarrow> ''fail_count'' \<in> set (tt_columns t))"

lemma upgrade_v2_layout:
  assumes "sound_engine c" and "upgradable (cn_now c)"
  shows "sound_engine (upgrade_v2 c) \<and> upgradable (cn_now (upgrade_v2 c)) \<and> tt_failed (cn_now (upgrade_v2 c)) \<noteq> No_failed"
proof (cases "tt_failed (cn_now c) = No_failed")
  case False
  with assms show ?thesis by (simp add: upgrade_v2_def has_failed_def sound_engine_def)
next
  case True
  let ?d = "if cn_readable c \<and> access_has_ts (tt_accesses (cn_now c)) then c else snd (exec add_timestamp c)"
  have d: "sound_engine ?d" "upgradable (cn_now ?d)" "access_has_ts (tt_accesses (cn_now ?d))"
    "tt_failed (cn_now ?d) = No_failed"
    using assms True
    by (auto simp: exec_sound sound_engine_def upgradable_def add_timestamp_def split: access_table.split bool.split)
  let ?e = "snd (exec create_failed_v2 ?d)"
  have e: "sound_engine ?e" "upgradable (cn_now ?e)" "tt_failed (cn_now ?e) = Named_failed []"
    using d by (auto simp: exec_sound sound_engine_def upgradable_def create_failed_v2_def)
  have "sound_engine (snd (exec index_failed ?e)) \<and> cn_now (snd (exec index_failed ?e)) = cn_now ?e"
    using e(1) by (auto simp: exec_sound sound_engine_def index_failed_def)
  moreover have "upgrade_v2 c = snd (exec index_failed ?e)"
    using True by (simp add: upgrade_v2_def has_failed_def exec_each_def)
  ultimately show ?thesis using e by simp
qed

lemma has_column_sound: "sound_engine c \<Longrightarrow> has_process_column col c \<longleftrightarrow> col \<in> set (tt_columns (cn_now c))"
  by (simp add: has_process_column_def sound_engine_def)

lemma upgrade_v3_layout:
  assumes "sound_engine c" and "upgradable (cn_now c)"
  shows "same_layout c (upgrade_v3 c) \<and> set (tt_columns (cn_now (upgrade_v3 c))) = set (take 5 version6_columns) \<union> set (tt_columns (cn_now c))"
proof (cases "''user_time_us'' \<in> set (tt_columns (cn_now c))")
  case True
  then have "upgrade_v3 c = c" by (simp add: upgrade_v3_def has_column_sound [OF assms(1)])
  with True assms show ?thesis by (auto simp: same_layout_refl upgradable_def)
next
  case False
  have "take 5 version6_columns = [''user_time_us'', ''sys_time_us'', ''peak_rss_kb'', ''io_read_bytes'', ''io_write_bytes'']"
    by (simp add: version6_columns_def)
  with False have "upgrade_v3 c = exec_each (map add_column (take 5 version6_columns)) c"
    by (simp only: upgrade_v3_def has_column_sound [OF assms(1)] if_False)
  with add_columns_layout [OF assms(1), of "take 5 version6_columns"] show ?thesis by simp
qed

lemma upgrade_v4_layout:
  assumes "sound_engine c"
  shows "same_layout c (upgrade_v4 c) \<and> set (tt_columns (cn_now (upgrade_v4 c))) = insert ''cwd'' (set (tt_columns (cn_now c)))"
  using add_column_layout [OF assms, of "''cwd''"] same_layout_refl [OF assms]
  by (auto simp: upgrade_v4_def has_column_sound [OF assms])

lemma upgrade_v5_layout:
  assumes "sound_engine c" and "''file_count'' \<in> set (tt_columns (cn_now c)) \<longrightarrow> ''fail_count'' \<in> set (tt_columns (cn_now c))"
  shows "same_layout c (upgrade_v5 c) \<and> {''file_count'', ''fail_count''} \<subseteq> set (tt_columns (cn_now (upgrade_v5 c)))"
proof (cases "''file_count'' \<in> set (tt_columns (cn_now c))")
  case True
  with assms show ?thesis by (simp add: upgrade_v5_def has_column_sound same_layout_refl)
next
  case False
  define e where "e = exec_each (map add_column [''file_count'', ''fail_count'']) c"
  then have e: "same_layout c e" "{''file_count'', ''fail_count''} \<subseteq> set (tt_columns (cn_now e))"
    using add_columns_layout [OF assms(1), of "[''file_count'', ''fail_count'']"] by simp_all
  then have p: "same_layout e (snd (populate_file_counts e))" by (intro populate_layout) (simp add: same_layout_def)
  have "upgrade_v5 c = snd (populate_file_counts e)"
    using False by (simp add: upgrade_v5_def has_column_sound [OF assms(1)] e_def)
  with e p show ?thesis using same_layout_trans [OF e(1) p] by (auto simp: same_layout_def)
qed

lemma upgrade_v345_layout:
  assumes "sound_engine c" and "upgradable (cn_now c)"
  shows "same_layout c (upgrade_v5 (upgrade_v4 (upgrade_v3 c)))
    \<and> set version6_columns \<subseteq> set (tt_columns (cn_now (upgrade_v5 (upgrade_v4 (upgrade_v3 c)))))"
proof -
  define d where "d = upgrade_v4 (upgrade_v3 c)"
  have five: "set (take 5 version6_columns) = {''user_time_us'', ''sys_time_us'', ''peak_rss_kb'', ''io_read_bytes'', ''io_write_bytes''}"
    by (simp add: version6_columns_def)
  note 3 = upgrade_v3_layout [OF assms]
  then have "sound_engine (upgrade_v3 c)" by (simp add: same_layout_def)
  note 4 = upgrade_v4_layout [OF this, folded d_def]
  then have s: "sound_engine d" by (simp add: same_layout_def)
  have cols: "set (tt_columns (cn_now d)) = insert ''cwd'' (set (take 5 version6_columns) \<union> set (tt_columns (cn_now c)))"
    using 3 4 by simp
  then have "''file_count'' \<in> set (tt_columns (cn_now d)) \<longrightarrow> ''fail_count'' \<in> set (tt_columns (cn_now d))"
    using assms(2) by (auto simp: five upgradable_def)
  note 5 = upgrade_v5_layout [OF s this]
  have "set version6_columns = insert ''cwd'' (set (take 5 version6_columns)) \<union> {''file_count'', ''fail_count''}"
    by (auto simp: version6_columns_def)
  moreover have "set (tt_columns (cn_now d)) \<subseteq> set (tt_columns (cn_now (upgrade_v5 d)))" using 5 by (simp add: same_layout_def)
  ultimately have "set version6_columns \<subseteq> set (tt_columns (cn_now (upgrade_v5 d)))" using 5 cols by auto
  moreover have "same_layout c (upgrade_v5 d)"
    using same_layout_trans [OF conjunct1 [OF 3] same_layout_trans [OF conjunct1 [OF 4] conjunct1 [OF 5]]] .
  ultimately show ?thesis by (simp add: d_def)
qed

lemma exec_all_done:
  assumes "\<forall>n. cn_rc c n = Done" and "chain fs (cn_now c) = Some t"
  shows "\<exists>k. exec_all fs c = (True, c\<lparr>cn_now := t, cn_steps := k\<rparr>)"
  using assms
proof (induction fs arbitrary: c)
  case Nil
  then show ?case by (auto intro: exI [of _ "cn_steps c"])
next
  case (Cons f fs)
  then obtain u where u: "f (cn_now c) = Some u" "chain fs u = Some t" by (auto split: option.splits)
  then have "exec f c = (True, c\<lparr>cn_steps := Suc (cn_steps c), cn_now := u\<rparr>)"
    using Cons.prems(1) by (simp add: exec_def)
  with Cons.IH [of "c\<lparr>cn_steps := Suc (cn_steps c), cn_now := u\<rparr>"] Cons.prems(1) u(2) show ?case by auto
qed

lemma access_steps_complete:
  assumes "tt_accesses t = Named_accesses True rows" and "tt_files t = Some fs" and "tt_accesses_v6 t = None"
  shows "\<exists>t' as fs'. chain access_steps t = Some t' \<and> tt_accesses t' = Interned_accesses as \<and> tt_files t' = Some fs'
    \<and> tt_failed t' = tt_failed t \<and> tt_failed_v6 t' = tt_failed_v6 t \<and> tt_columns t' = tt_columns t"
  using assms by (simp add: access_steps_def intern_access_names_def create_accesses_v6_def copy_accesses_def
      drop_accesses_def rename_accesses_def)

lemma failed_steps_complete:
  assumes "tt_failed t = Named_failed rows" and "tt_files t = Some fs" and "tt_failed_v6 t = None"
  shows "\<exists>t' fl fs'. chain failed_steps t = Some t' \<and> tt_failed t' = Interned_failed fl \<and> tt_files t' = Some fs'
    \<and> tt_accesses t' = tt_accesses t \<and> tt_columns t' = tt_columns t"
  using assms by (simp add: failed_steps_def intern_failed_names_def create_failed_v6_def copy_failed_def
      drop_failed_def rename_failed_def)

definition is_named :: "tables \<Rightarrow> bool" where
  "is_named t \<longleftrightarrow> (case tt_accesses t of Named_accesses _ _ \<Rightarrow> True | _ \<Rightarrow> False)"

definition is_named_failed :: "tables \<Rightarrow> bool" where
  "is_named_failed t \<longleftrightarrow> (case tt_failed t of Named_failed _ \<Rightarrow> True | _ \<Rightarrow> False)"

lemma interning_complete:
  assumes "upgradable t" and "tt_failed t \<noteq> No_failed"
  shows "\<exists>t'. chain (interning (is_named t) (is_named_failed t)) t = Some t' \<and> version6_tables t' \<and> tt_columns t' = tt_columns t"
proof -
  obtain u fs where u: "create_files t = Some u" "tt_files u = Some fs" "tt_accesses u = tt_accesses t" "tt_failed u = tt_failed t"
    "tt_accesses_v6 u = None" "tt_failed_v6 u = None" "tt_columns u = tt_columns t"
  proof (rule that)
    let ?u = "if tt_files t = None then t\<lparr>tt_files := Some []\<rparr> else t"
    show "create_files t = Some ?u" by (simp add: create_files_def)
    show "tt_files ?u = Some (case_option [] id (tt_files t))" by (cases "tt_files t") simp_all
  qed (use assms(1) in \<open>simp_all add: upgradable_def\<close>)
  have "\<exists>v fs as. chain (if is_named t then access_steps else []) u = Some v \<and> tt_accesses v = Interned_accesses as
      \<and> tt_files v = Some fs \<and> tt_failed v = tt_failed t \<and> tt_failed_v6 v = None \<and> tt_columns v = tt_columns t"
  proof (cases "tt_accesses t")
    case (Named_accesses ts rows)
    with assms have "tt_accesses u = Named_accesses True rows" using u(3) by (simp add: upgradable_def)
    from access_steps_complete [OF this u(2,5)] u(4,6,7) Named_accesses show ?thesis by (auto simp: is_named_def)
  qed (use u assms in \<open>simp_all add: is_named_def upgradable_def\<close>)
  then obtain v fs as where v: "chain (if is_named t then access_steps else []) u = Some v" "tt_accesses v = Interned_accesses as"
    "tt_files v = Some fs" "tt_failed v = tt_failed t" "tt_failed_v6 v = None" "tt_columns v = tt_columns t" by blast
  have "\<exists>w. chain (if is_named_failed t then failed_steps else []) v = Some w \<and> version6_tables w \<and> tt_columns w = tt_columns t"
  proof (cases "tt_failed t")
    case (Named_failed rows)
    with v(4) have "tt_failed v = Named_failed rows" by simp
    from failed_steps_complete [OF this v(3,5)] v(2,6) Named_failed show ?thesis
      by (auto simp: is_named_failed_def version6_tables_def)
  qed (use v assms in \<open>simp_all add: is_named_failed_def version6_tables_def\<close>)
  with u(1) v(1) show ?thesis by (auto simp: interning_def chain_append)
qed

lemma migrate_completes:
  assumes "sound_engine c" and "upgradable (cn_now c)" and "tt_failed (cn_now c) \<noteq> No_failed"
  shows "\<exists>c'. migrate_to_interned c = (True, c') \<and> sound_engine c' \<and> version6_tables (cn_now c')
    \<and> tt_columns (cn_now c') = tt_columns (cn_now c)"
proof -
  let ?t = "cn_now c"
  have old: "accesses_old c = is_named ?t" "failed_old c = is_named_failed ?t"
    using assms(1) by (simp_all add: accesses_old_def failed_old_def is_named_def is_named_failed_def sound_engine_def)
  show ?thesis
  proof (cases "is_named ?t \<or> is_named_failed ?t")
    case False
    with assms have "version6_tables ?t"
      by (auto simp: is_named_def is_named_failed_def version6_tables_def upgradable_def split: access_table.splits failed_table.splits)
    with False assms(1) old show ?thesis by (simp add: migrate_to_interned_def)
  next
    case True
    define c1 where "c1 = c\<lparr>cn_steps := Suc (cn_steps c), cn_saved := Some ?t\<rparr>"
    have b: "begin_tx c = (True, c1)" using assms(1) by (simp add: begin_tx_def exec_def sound_engine_def c1_def)
    from interning_complete [OF assms(2,3)] obtain t' where t': "chain (interning (is_named ?t) (is_named_failed ?t)) (cn_now c1) = Some t'"
      "version6_tables t'" "tt_columns t' = tt_columns ?t" by (auto simp: c1_def)
    have "\<forall>n. cn_rc c1 n = Done" using assms(1) by (simp add: c1_def sound_engine_def)
    from exec_all_done [OF this t'(1)] obtain k where
      k: "exec_all (interning (accesses_old c) (failed_old c)) c1 = (True, c1\<lparr>cn_now := t', cn_steps := k\<rparr>)"
      unfolding old by blast
    have "commit_tx (c1\<lparr>cn_now := t', cn_steps := k\<rparr>) = (True, c1\<lparr>cn_now := t', cn_steps := Suc k, cn_saved := None\<rparr>)"
      using assms(1) by (simp add: commit_tx_def exec_def c1_def sound_engine_def)
    with True old b k have "migrate_to_interned c = (True, c1\<lparr>cn_now := t', cn_steps := Suc k, cn_saved := None\<rparr>)"
      by (auto simp: migrate_to_interned_def)
    with t' assms(1) show ?thesis by (simp add: sound_engine_def c1_def)
  qed
qed

lemma same_layout_upgradable:
  assumes "same_layout c c'" and "upgradable (cn_now c)" and "set version6_columns \<subseteq> set (tt_columns (cn_now c'))"
  shows "upgradable (cn_now c')"
  using assms in_set_takeD [of _ 5 version6_columns] by (auto simp: same_layout_def upgradable_def version6_columns_def)

lemma viewer_db_version6:
  assumes "version6_tables (cn_now c)" and "set version6_columns \<subseteq> set (tt_columns (cn_now c))" and "cn_readable c"
  shows "\<exists>db. viewer_db c = Some db \<and> get_all_file_accesses db = recorded_accesses (cn_now c)
    \<and> get_all_failed_accesses db = recorded_failures (cn_now c) \<and> db_processes db = tt_processes (cn_now c)"
proof -
  from assms(1) obtain fs as fl where t: "tt_files (cn_now c) = Some fs" "tt_accesses (cn_now c) = Interned_accesses as"
    "tt_failed (cn_now c) = Interned_failed fl" unfolding version6_tables_def by blast
  have "row_to_file_access db = interned_access fs" if "db_files db = fs" for db
    using that by (auto simp: row_to_file_access_def interned_access_def file_path_def fun_eq_iff split: option.split)
  moreover have "(\<lambda>a. case map_of fs (fr_file a) of None \<Rightarrow> None
      | Some p \<Rightarrow> Some \<lparr>fl_pid = fr_pid a, fl_filename = p, fl_mode = fr_mode a, fl_errno = fr_errno a, fl_timestamp = fr_ts a\<rparr>) =
      interned_failed fs"
    by (auto simp: interned_failed_def fun_eq_iff split: option.split)
  ultimately show ?thesis
    using assms(2,3) t by (simp add: viewer_db_def get_all_file_accesses_def get_all_failed_accesses_def recorded_accesses_def
        recorded_failures_def path_table_def file_path_def)
qed

lemma viewer_db_inv:
  assumes "viewer_db c = Some db" and "tables_ok (cn_now c)" and "well_formed (cn_now c)"
  shows "db_inv db" "db_readable db = cn_readable c"
proof -
  from assms(1) obtain fs as fl where t: "tt_files (cn_now c) = Some fs" "tt_accesses (cn_now c) = Interned_accesses as"
    "tt_failed (cn_now c) = Interned_failed fl" "db_files db = fs" "db_accesses db = as" "db_failed db = fl"
    "db_processes db = tt_processes (cn_now c)" "db_intern_cache db = []" "db_readable db = cn_readable c"
    by (auto simp: viewer_db_def split: option.splits access_table.splits failed_table.splits if_splits)
  then show "db_readable db = cn_readable c" by simp
  from t assms(2) have "distinct (map fst fs)" "distinct (map snd fs)" "ar_file ` set as \<union> fr_file ` set fl \<subseteq> fst ` set fs"
    by (simp_all add: tables_ok_def path_table_def paths_ok_def)
  with t assms(3) show "db_inv db"
    by (force simp: db_inv_def files_ok_def rows_ok_def well_formed_def processes_keyed_def all_names_def path_table_def)
qed



section \<open>What every statement leaves alone\<close>

text \<open>\<open>P\<close> holds of what the connection sees and of what a crash would leave.\<close>

definition holds :: "(tables \<Rightarrow> bool) \<Rightarrow> connection \<Rightarrow> bool" where
  "holds P c \<longleftrightarrow> P (cn_now c) \<and> P (durable c)"

definition spares :: "(tables \<Rightarrow> bool) \<Rightarrow> statement \<Rightarrow> bool" where
  "spares P f \<longleftrightarrow> (\<forall>t t'. P t \<longrightarrow> f t = Some t' \<longrightarrow> P t')"

lemma holds_exec: "holds P c \<Longrightarrow> spares P f \<Longrightarrow> holds P (snd (exec f c))"
  by (auto simp: holds_def spares_def exec_def undo_def durable_def Let_def split: outcome.split option.splits)

lemma holds_exec_each: "holds P c \<Longrightarrow> \<forall>f \<in> set fs. spares P f \<Longrightarrow> holds P (exec_each fs c)"
  unfolding exec_each_def by (induction fs arbitrary: c) (simp_all add: holds_exec)

lemma holds_exec_all:
  assumes "holds P c" and "\<forall>f \<in> set fs. spares P f"
  shows "holds P (snd (exec_all fs c))"
  using assms
proof (induction fs arbitrary: c)
  case (Cons f fs)
  then have "holds P (snd (exec f c))" by (simp add: holds_exec)
  with Cons show ?case by (cases "exec f c") (auto split: bool.split)
qed simp

lemma holds_tx:
  "holds P c \<Longrightarrow> holds P (snd (begin_tx c))" "holds P c \<Longrightarrow> holds P (snd (commit_tx c))"
  "holds P c \<Longrightarrow> holds P (snd (rollback_tx c))"
  by (auto simp: holds_def begin_tx_def commit_tx_def rollback_tx_def exec_def undo_def durable_def Let_def
      split: outcome.split option.splits if_splits)

section \<open>Tracing into an older recording\<close>

lemma steps_columns: "f \<in> set (interning fa_old fl_old) \<Longrightarrow> f t = Some t' \<Longrightarrow> tt_columns t' = tt_columns t"
  by (auto simp: interning_def access_steps_def failed_steps_def create_files_def intern_access_names_def create_accesses_v6_def
      copy_accesses_def drop_accesses_def rename_accesses_def intern_failed_names_def create_failed_v6_def copy_failed_def
      drop_failed_def rename_failed_def split: if_splits option.splits access_table.splits failed_table.splits bool.splits)

lemma holds_migrate:
  assumes "holds P c" and "\<And>f. f \<in> set (interning (accesses_old c) (failed_old c)) \<Longrightarrow> spares P f"
  shows "holds P (snd (migrate_to_interned c))"
proof -
  obtain b c1 where b: "begin_tx c = (b, c1)" by fastforce
  obtain e c2 where e: "exec_all (interning (accesses_old c) (failed_old c)) c1 = (e, c2)" by fastforce
  have "holds P c1" using holds_tx(1) [OF assms(1)] b by simp
  moreover from this have "holds P c2" using holds_exec_all [of P c1] assms(2) e by force
  ultimately show ?thesis using assms(1) b e holds_tx(2,3) [of P c2] by (cases b; cases e) (simp_all add: migrate_to_interned_def)
qed

text \<open>
  A recording made before version 4 cannot be traced into: its table of processes has no column for the working
  directory, \<open>init_schema\<close> adds none, and \<open>open\<close> fails although the accesses may have been converted.
\<close>

lemma old_recording_refused:
  assumes "''cwd'' \<notin> set (tt_columns (cn_now c))" and "cn_saved c = None"
  shows "\<not> fst (init_schema_file c)"
proof -
  let ?P = "\<lambda>t. ''cwd'' \<notin> set (tt_columns t)"
  have "holds ?P c" using assms by (simp add: holds_def durable_def)
  then have "holds ?P (snd (exec create_tables c))" by (rule holds_exec) (auto simp: spares_def create_tables_def)
  then have "holds ?P (snd (migrate_to_interned (snd (exec create_tables c))))"
    by (rule holds_migrate) (auto simp: spares_def dest: steps_columns)
  then have "\<not> can_prepare (snd (migrate_to_interned (snd (exec create_tables c))))"
    by (auto simp: holds_def can_prepare_def version6_columns_def)
  then show ?thesis by (auto simp: init_schema_file_def split: prod.split bool.split)
qed

section \<open>A failed upgrade\<close>

lemma spares_named:
  "spares is_named add_timestamp" "spares is_named create_failed_v2" "spares is_named index_failed"
  "spares is_named (add_column col)" "spares is_named zero_counts" "spares is_named set_file_counts"
  "spares is_named set_fail_counts"
  by (auto simp: spares_def is_named_def add_timestamp_def create_failed_v2_def index_failed_def add_column_def set_rows_def
      zero_counts_def set_file_counts_def set_fail_counts_def split: access_table.splits bool.splits if_splits)

lemma named_populate: "holds is_named c \<Longrightarrow> holds is_named (snd (populate_file_counts c))"
proof -
  assume c: "holds is_named c"
  obtain ok c1 where e: "exec_all [zero_counts, set_file_counts] c = (ok, c1)" by fastforce
  have "holds is_named c1" using holds_exec_all [OF c, of "[zero_counts, set_file_counts]"] spares_named e by simp
  with e holds_exec [OF _ spares_named(7), of c1] show ?thesis by (cases ok) (simp_all add: populate_file_counts_def)
qed

lemma named_upgrades:
  "holds is_named c \<Longrightarrow> holds is_named (upgrade_v2 c)" "holds is_named c \<Longrightarrow> holds is_named (upgrade_v3 c)"
  "holds is_named c \<Longrightarrow> holds is_named (upgrade_v4 c)" "holds is_named c \<Longrightarrow> holds is_named (upgrade_v5 c)"
  by (simp_all add: upgrade_v2_def upgrade_v3_def upgrade_v4_def upgrade_v5_def holds_exec holds_exec_each named_populate
      spares_named)

lemma migrate_fails:
  assumes "migrate_to_interned c = (False, c')" and "cn_saved c = None" and "cn_saved c' = None"
  shows "cn_now c' = cn_now c"
proof -
  obtain b c1 where b: "begin_tx c = (b, c1)" by fastforce
  obtain e c2 where e: "exec_all (interning (accesses_old c) (failed_old c)) c1 = (e, c2)" by fastforce
  note m = assms(1) [unfolded migrate_to_interned_def b]
  show ?thesis
  proof (cases b)
    case False
    with m b assms show ?thesis
      by (auto simp: begin_tx_def exec_def undo_def durable_def Let_def split: outcome.splits prod.splits if_splits)
  next
    case True
    with b assms(2) have "cn_saved c1 = Some (cn_now c)"
      by (auto simp: begin_tx_def exec_def Let_def split: outcome.splits prod.splits if_splits)
    from exec_all_tx [OF this e] have tx: "durable c2 = cn_now c" by simp
    have "durable c' = durable c2"
      using m True e assms(3)
      by (auto simp: rollback_tx_def commit_tx_def exec_def undo_def durable_def Let_def
          split: if_splits bool.splits prod.splits outcome.splits option.splits)
    with tx assms(3) show ?thesis by (simp add: durable_def)
  qed
qed

text \<open>
  When the accesses of an old recording cannot be converted (a read-only file, a full disk), the upgrade leaves them as
  they were and reports failure, and no query of the viewers can read them.
\<close>

lemma failed_upgrade_hides:
  assumes "upgrade_schema c = (False, c')" and "is_named (cn_now c)" and "cn_saved c = None" and "cn_saved c' = None"
    and "tables_ok (cn_now c)"
  shows "is_named (cn_now c') \<and> query_accesses c' = None"
proof -
  let ?d = "upgrade_v5 (upgrade_v4 (upgrade_v3 (upgrade_v2 c)))"
  have "holds is_named ?d" using assms(2,3) by (intro named_upgrades) (simp add: holds_def durable_def)
  moreover have "migrate_to_interned ?d = (False, c')" using assms(1) by (auto simp: upgrade_schema_def split: prod.splits bool.splits)
  moreover have "cn_saved ?d = None"
    using kept_upgrades [where t = "cn_now c"] assms(3,5) by (simp add: kept_def same_refl)
  ultimately have "is_named (cn_now c')" using migrate_fails [of ?d c'] assms(4) by (simp add: holds_def)
  then show ?thesis by (auto simp: query_accesses_def is_named_def split: access_table.splits option.splits)
qed

end
