(* ===== verification/Log.thy ===== *)
theory Log
  imports Viewer_Text
begin

text \<open>
  \<open>common/log.cpp\<close>: messages on the console and, from warnings on, in a log file that is opened with the first
  line for it. What the calls wrote is kept in the state: the lines on the console, and the lines in files with the
  file's name. Whether a file opens is a parameter, and so is the local time of a call (\<open>None\<close> where
  \<open>localtime_r\<close> fails); the text of a message is the one its \<open>printf\<close> format gives.
\<close>

section \<open>State\<close>

datatype LogLevel = LOG_ERROR | LOG_WARN | LOG_INFO | LOG_DEBUG

fun level_num :: "LogLevel \<Rightarrow> nat" where
  "level_num LOG_ERROR = 0"
| "level_num LOG_WARN = 1"
| "level_num LOG_INFO = 2"
| "level_num LOG_DEBUG = 3"

record log_state =
  lg_level :: LogLevel
  lg_path :: string
  lg_open :: "string option"
  lg_stderr :: "string list"
  lg_files :: "(string \<times> string) list"

definition log_start :: log_state where
  "log_start = \<lparr>lg_level = LOG_INFO, lg_path = [], lg_open = None, lg_stderr = [], lg_files = []\<rparr>"

definition log_init :: "LogLevel \<Rightarrow> log_state \<Rightarrow> log_state" where
  "log_init level L = L\<lparr>lg_level := level\<rparr>"

definition log_set_file :: "string option \<Rightarrow> log_state \<Rightarrow> log_state" where
  "log_set_file path L = L\<lparr>lg_open := None, lg_path := (case path of None \<Rightarrow> [] | Some p \<Rightarrow> c_str p)\<rparr>"

definition log_file_path :: "log_state \<Rightarrow> string" where
  "log_file_path L = (if lg_open L = None then [] else lg_path L)"

section \<open>Messages\<close>

definition ensure_log_file_open :: "(string \<Rightarrow> bool) \<Rightarrow> log_state \<Rightarrow> bool \<times> log_state" where
  "ensure_log_file_open opens L =
     (if lg_path L = [] then (False, L)
      else if lg_open L \<noteq> None then (True, L)
      else if opens (lg_path L) then (True, L\<lparr>lg_open := Some (lg_path L)\<rparr>)
      else (False, L\<lparr>lg_stderr := lg_stderr L @ [''[bdtrace] could not open log file '' @ lg_path L], lg_path := []\<rparr>))"

text \<open>One line into the open file.\<close>

definition write_line :: "string \<Rightarrow> log_state \<Rightarrow> log_state" where
  "write_line line L = (case lg_open L of None \<Rightarrow> L | Some p \<Rightarrow> L\<lparr>lg_files := lg_files L @ [(p, line)]\<rparr>)"

definition log_file_raw :: "(string \<Rightarrow> bool) \<Rightarrow> string \<Rightarrow> log_state \<Rightarrow> log_state" where
  "log_file_raw opens msg L =
     (case ensure_log_file_open opens L of (False, L1) \<Rightarrow> L1 | (True, L1) \<Rightarrow> write_line msg L1)"

fun level_prefix :: "LogLevel \<Rightarrow> string" where
  "level_prefix LOG_ERROR = ''[ERROR] ''"
| "level_prefix LOG_WARN = ''[WARN]  ''"
| "level_prefix LOG_INFO = ''[INFO]  ''"
| "level_prefix LOG_DEBUG = ''[DEBUG] ''"

record tm =
  tm_year :: int
  tm_mon :: int
  tm_mday :: int
  tm_hour :: int
  tm_min :: int
  tm_sec :: int

text \<open>\<open>%0<w>d\<close>.\<close>

definition zero_str :: "nat \<Rightarrow> int \<Rightarrow> string" where
  "zero_str w i =
     (if i < 0 then CHR ''-'' # replicate (w - 1 - length (int_str (- i))) CHR ''0'' @ int_str (- i)
      else replicate (w - length (int_str i)) CHR ''0'' @ int_str i)"

definition time_stamp :: "tm option \<Rightarrow> string" where
  "time_stamp now =
     (case now of
        None \<Rightarrow> []
      | Some t \<Rightarrow> take 63 (''['' @ zero_str 4 (tm_year t + 1900) @ ''-'' @ zero_str 2 (tm_mon t + 1) @ ''-'' @
          zero_str 2 (tm_mday t) @ '' '' @ zero_str 2 (tm_hour t) @ '':'' @ zero_str 2 (tm_min t) @ '':'' @
          zero_str 2 (tm_sec t) @ ''] ''))"

definition log_line :: "LogLevel \<Rightarrow> tm option \<Rightarrow> string \<Rightarrow> string" where
  "log_line level now msg = time_stamp now @ level_prefix level @ c_str (take 2047 msg)"

definition log_msg :: "LogLevel \<Rightarrow> (string \<Rightarrow> bool) \<Rightarrow> tm option \<Rightarrow> string \<Rightarrow> log_state \<Rightarrow> log_state" where
  "log_msg level opens now msg L =
     (let to_console = level_num level \<le> level_num (lg_level L);
          to_file = level_num level \<le> level_num LOG_WARN \<and> lg_path L \<noteq> [];
          line = log_line level now msg;
          L1 = (if to_console then L\<lparr>lg_stderr := lg_stderr L @ [line]\<rparr> else L)
      in if \<not> to_console \<and> \<not> to_file then L
         else if to_file
         then (case ensure_log_file_open opens L1 of (False, L2) \<Rightarrow> L2 | (True, L2) \<Rightarrow> write_line line L2)
         else L1)"

text \<open>The macros test the level before the call.\<close>

definition bdtrace_log :: "LogLevel \<Rightarrow> (string \<Rightarrow> bool) \<Rightarrow> tm option \<Rightarrow> string \<Rightarrow> log_state \<Rightarrow> log_state" where
  "bdtrace_log level opens now msg L =
     (if level_num level \<le> level_num (lg_level L) then log_msg level opens now msg L else L)"

section \<open>What is written\<close>

text \<open>A call of a macro, and the line it stands for.\<close>

type_synonym log_call = "LogLevel \<times> tm option \<times> string"

definition call_line :: "log_call \<Rightarrow> string" where
  "call_line c = (case c of (level, now, msg) \<Rightarrow> log_line level now msg)"

definition run_calls :: "(string \<Rightarrow> bool) \<Rightarrow> log_call list \<Rightarrow> log_state \<Rightarrow> log_state" where
  "run_calls opens cs L = fold (\<lambda>(level, now, msg). bdtrace_log level opens now msg) cs L"

definition at_most :: "LogLevel \<Rightarrow> log_call \<Rightarrow> bool" where
  "at_most level c \<longleftrightarrow> level_num (fst c) \<le> level_num level"

text \<open>A warning is also for the file, when the program's level lets it pass at all.\<close>

definition for_file :: "LogLevel \<Rightarrow> log_call \<Rightarrow> bool" where
  "for_file level c \<longleftrightarrow> at_most level c \<and> at_most LOG_WARN c"

lemma bdtrace_log_step:
  assumes "lg_path L \<noteq> []" and "opens (lg_path L)" and "lg_open L = None \<or> lg_open L = Some (lg_path L)"
  shows "bdtrace_log level opens now msg L = L\<lparr>
    lg_stderr := lg_stderr L @ (if at_most (lg_level L) (level, now, msg) then [log_line level now msg] else []),
    lg_files := lg_files L @ (if for_file (lg_level L) (level, now, msg) then [(lg_path L, log_line level now msg)] else []),
    lg_open := (if for_file (lg_level L) (level, now, msg) then Some (lg_path L) else lg_open L)\<rparr>"
  using assms by (auto simp: bdtrace_log_def log_msg_def ensure_log_file_open_def write_line_def at_most_def for_file_def Let_def)

text \<open>
  Every message the level lets pass is a line on the console, in order; every warning and error among them is also one
  line of the log file, in the same order; and the file is opened, and so created, by the first of these and not before.
\<close>

lemma log_exact:
  assumes "lg_path L \<noteq> []" and "opens (lg_path L)" and "lg_open L = None"
  shows "lg_stderr (run_calls opens cs L) = lg_stderr L @ map call_line (filter (at_most (lg_level L)) cs)
    \<and> lg_files (run_calls opens cs L) =
        lg_files L @ map (\<lambda>c. (lg_path L, call_line c)) (filter (for_file (lg_level L)) cs)
    \<and> (log_file_path (run_calls opens cs L) = (if \<exists>c \<in> set cs. for_file (lg_level L) c then lg_path L else []))"
proof -
  have "lg_stderr (run_calls opens cs L) = lg_stderr L @ map call_line (filter (at_most (lg_level L)) cs)
      \<and> lg_files (run_calls opens cs L) =
          lg_files L @ map (\<lambda>c. (lg_path L, call_line c)) (filter (for_file (lg_level L)) cs)
      \<and> lg_path (run_calls opens cs L) = lg_path L
      \<and> lg_open (run_calls opens cs L) = (if \<exists>c \<in> set cs. for_file (lg_level L) c then Some (lg_path L) else lg_open L)"
    if "lg_path L \<noteq> []" "opens (lg_path L)" "lg_open L = None \<or> lg_open L = Some (lg_path L)" for L
    using that
  proof (induction cs arbitrary: L)
    case Nil
    then show ?case by (simp add: run_calls_def)
  next
    case (Cons c cs)
    obtain level now msg where c: "c = (level, now, msg)" by (cases c)
    from Cons.IH [of "bdtrace_log level opens now msg L"] Cons.prems show ?case
      by (simp add: run_calls_def c bdtrace_log_step call_line_def)
  qed
  from this [of L] assms show ?thesis by (auto simp: log_file_path_def)
qed

text \<open>A file that cannot be opened is tried once; the messages stay on the console.\<close>

lemma log_no_file:
  assumes "\<not> opens (lg_path L)" and "lg_open L = None"
  shows "lg_files (run_calls opens cs L) = lg_files L"
proof -
  have "lg_files (run_calls opens cs L) = lg_files L"
    if "lg_path L = [] \<or> \<not> opens (lg_path L)" "lg_open L = None" for L
    using that
  proof (induction cs arbitrary: L)
    case Nil
    then show ?case by (simp add: run_calls_def)
  next
    case (Cons c cs)
    obtain level now msg where c: "c = (level, now, msg)" by (cases c)
    have "lg_files (bdtrace_log level opens now msg L) = lg_files L"
      "lg_path (bdtrace_log level opens now msg L) = [] \<or> \<not> opens (lg_path (bdtrace_log level opens now msg L))"
      "lg_open (bdtrace_log level opens now msg L) = None"
      using Cons.prems by (auto simp: bdtrace_log_def log_msg_def ensure_log_file_open_def Let_def)
    with Cons.IH [of "bdtrace_log level opens now msg L"] show ?case by (simp add: run_calls_def c)
  qed
  then show ?thesis using assms by blast
qed

end
