(* ===== verification/Tracer_Report.thy ===== *)
theory Tracer_Report
  imports Tracer_Loop Viewer_Text
begin

text \<open>
  What the tracer prints about itself: the counters, the progress line of \<open>run_event_loop\<close> and the report of
  \<open>check_stall\<close>. The lines go to the console and to the log file; they change nothing in the tracer. What
  \<open>check_stall\<close> does to the tracees and to the tracer is \<open>check_stall\<close> in \<open>Tracer_Loop\<close>.
\<close>

section \<open>Counters and progress\<close>

text \<open>\<open>snprintf\<close> into a buffer of \<open>n\<close> bytes.\<close>

definition into_buffer :: "nat \<Rightarrow> string \<Rightarrow> string" where
  "into_buffer n s = take (n - 1) s"

lemma into_buffer_length: "length (into_buffer n s) \<le> n - 1"
  by (simp add: into_buffer_def)

abbreviation nat_str :: "nat \<Rightarrow> string" where
  "nat_str n \<equiv> int_str (int n)"

definition diag_counters_line :: "nat \<Rightarrow> tracer \<Rightarrow> string" where
  "diag_counters_line len t = into_buffer len
     (''events: fork/clone='' @ nat_str (cnt_fork_events t) @ '' exec='' @ nat_str (cnt_exec_events t) @
      '' | sigstop swallowed='' @ nat_str (cnt_sigstop_swallowed t) @
      '' | reinjected='' @ nat_str (cnt_sig_reinjected t) @ '' (sigstop='' @ nat_str (cnt_sigstop_reinjected t) @
      '') | unknown-pid-first races='' @ nat_str (cnt_race_unknown_first t) @
      '' | mem reads='' @ nat_str (cnt_mem_reads t) @ '' peek fallbacks='' @ nat_str (cnt_peek_fallbacks t) @
      '' | getregs skipped='' @ nat_str (cnt_getregs_skipped t) @ '' phase resyncs='' @ nat_str (cnt_phase_resyncs t) @
      '' | seccomp stops='' @ nat_str (cnt_seccomp_stops t) @ '' | plain sigtrap='' @ nat_str (cnt_plain_sigtrap t) @
      '' | stuck kicked='' @ nat_str (cnt_stuck_kicked t) @ '' resume retries='' @ nat_str (cnt_resume_retries t) @
      '' | internal sigs ignored='' @ nat_str (cnt_sig_ignored t) @ '' | stale entries='' @ nat_str (cnt_stale_entries t))"

definition print_diag_counters :: "tracer \<Rightarrow> string" where
  "print_diag_counters t = diag_counters_line 512 t @ nl"

text \<open>Two digits at least.\<close>

definition two_digits :: "int \<Rightarrow> string" where
  "two_digits i = (if 0 \<le> i \<and> i < 10 then ''0'' @ int_str i else int_str i)"

text \<open>
  The line of every minute, from the time since the start, the counters of the session and the size of the database.
  The time is not negative when this is printed: a minute has passed since the last report.
\<close>

definition progress_line :: "int \<Rightarrow> int \<Rightarrow> int \<Rightarrow> int \<Rightarrow> int \<Rightarrow> string" where
  "progress_line elapsed procs files db_bytes errors =
     (let ev_per_sec = (if elapsed > 0 then (procs + files) * 1000000 div elapsed else 0)
      in ''[bdtrace] '' @ two_digits (elapsed div 3600000000) @ '':'' @ two_digits (elapsed mod 3600000000 div 60000000) @ '':'' @
         two_digits (elapsed mod 60000000 div 1000000) @ '' | '' @ int_str procs @ '' procs | '' @ int_str files @
         '' files | '' @ int_str ev_per_sec @ '' ev/s | DB: '' @ int_str (db_bytes div (1024 * 1024)) @ '' MB'' @
         (if errors > 0 then '' | '' @ int_str errors @ '' errors'' else []) @ nl)"

section \<open>The report of a stall\<close>

definition read_proc_wchan :: "string option \<Rightarrow> string" where
  "read_proc_wchan file = (case file of None \<Rightarrow> [] | Some s \<Rightarrow> c_str (take 127 s))"

definition or_unknown :: "string \<Rightarrow> string" where
  "or_unknown s = (if s = [] then ''?'' else c_str s)"

definition has_tracing :: "string \<Rightarrow> bool" where
  "has_tracing st \<longleftrightarrow> (\<exists>i \<le> length st. starts_with (drop i st) ''tracing'')"

definition stopped_state :: "string \<Rightarrow> bool" where
  "stopped_state st \<longleftrightarrow> st \<noteq> [] \<and> (hd st = CHR ''T'' \<or> hd st = CHR ''t'')"

text \<open>A tracee in a stop among the 256 that are looked at, by the states read there.\<close>

definition any_ptrace_stopped :: "(int \<Rightarrow> string) \<Rightarrow> int list \<Rightarrow> bool" where
  "any_ptrace_stopped state pids \<longleftrightarrow> list_ex (\<lambda>pid. has_tracing (state pid) \<or> stopped_state (state pid)) (take 256 pids)"

definition idle_line :: "(int \<Rightarrow> string) \<Rightarrow> (int \<Rightarrow> string option) \<Rightarrow> int \<times> ProcessState \<Rightarrow> string" where
  "idle_line state wchan e = (case e of (pid, ps) \<Rightarrow>
     let cmd = ps_cmdline ps;
         cmd1 = (if length cmd > 60 then take 57 cmd @ ''...'' else cmd)
     in into_buffer 512 (''[bdtrace]   pid='' @ int_str pid @ '' ppid='' @ int_str (ps_ppid ps) @ '' state='' @
          or_unknown (state pid) @ '' wchan='' @ or_unknown (read_proc_wchan (wchan pid)) @ '' cmd='' @ or_unknown cmd1))"

definition stall_line :: "(int \<Rightarrow> string) \<Rightarrow> int \<times> ProcessState \<Rightarrow> string" where
  "stall_line state e = (case e of (pid, ps) \<Rightarrow>
     into_buffer 512 (''[bdtrace]   pid='' @ int_str pid @ '' ppid='' @ int_str (ps_ppid ps) @ '' traced='' @
       (if ps_traced ps then ''1'' else ''0'') @ '' last_syscall='' @ int_str (ps_pending_syscall ps) @
       '' state='' @ or_unknown (state pid) @ (if stopped_state (state pid) then ''   <-- STOPPED (suspect)'' else [])))"

text \<open>Both lists stop after 50 lines with the number of processes left.\<close>

fun dump_lines :: "(int \<times> ProcessState \<Rightarrow> string) \<Rightarrow> nat \<Rightarrow> nat \<Rightarrow> (int, ProcessState) omap \<Rightarrow> string list" where
  "dump_lines f n k [] = []"
| "dump_lines f n k (e # es) =
     (if k \<ge> 50 then [into_buffer 512 (''[bdtrace]   ... and '' @ int_str (int n - int k) @ '' more process(es)'')]
      else f e # dump_lines f n (Suc k) es)"

definition idle_headline :: "int \<Rightarrow> nat \<Rightarrow> string" where
  "idle_headline gap n = ''no ptrace events for '' @ int_str (gap div 1000000) @ ''s; '' @ nat_str n @
     '' process(es) alive, none ptrace-stopped - the build itself appears to be waiting (idle, I/O, or its own deadlock)''"

definition stall_headline :: "int \<Rightarrow> nat \<Rightarrow> string" where
  "stall_headline gap n = ''STALL: no ptrace events for '' @ int_str (gap div 1000000) @ ''s, '' @ nat_str n @
     '' process(es) tracked, tracer blocked in waitpid()''"

text \<open>
  The part of \<open>check_stall\<close> after its tests: the headline and the lines below it. \<open>scan\<close> are the states read by the
  recovery scan, \<open>state\<close> and \<open>wchan\<close> those read for the lines.
\<close>

definition stall_report ::
  "(int \<Rightarrow> string) \<Rightarrow> (int \<Rightarrow> string) \<Rightarrow> (int \<Rightarrow> string option) \<Rightarrow> int \<Rightarrow> tracer \<Rightarrow> string \<times> string list" where
  "stall_report scan state wchan gap t =
     (if (tb_seccomp_mode t \<or> tb_procs_only t) \<and> \<not> any_ptrace_stopped scan (om_keys (tb_procs t))
      then (idle_headline gap (length (tb_procs t)), dump_lines (idle_line state wchan) (length (tb_procs t)) 0 (tb_procs t))
      else (stall_headline gap (length (tb_procs t)), (''[bdtrace] '' @ diag_counters_line 512 t) #
              dump_lines (stall_line state) (length (tb_procs t)) 0 (tb_procs t)))"

section \<open>What a report holds\<close>

text \<open>One line for each of the first 50 processes, in order, and one for the rest if there is any.\<close>

lemma dump_lines_from:
  "k \<le> 50 \<Longrightarrow> dump_lines f n k es = map f (take (50 - k) es) @
     (if length es \<le> 50 - k then [] else [into_buffer 512 (''[bdtrace]   ... and '' @ int_str (int n - 50) @ '' more process(es)'')])"
proof (induction f n k es rule: dump_lines.induct)
  case (2 f n k e es)
  show ?case
  proof (cases "k = 50")
    case False
    with 2 have "50 - k = Suc (50 - Suc k)" "Suc k \<le> 50" by simp_all
    with 2 False show ?thesis by simp
  qed simp
qed simp

lemma dump_lines_exact:
  "dump_lines f (length es) 0 es = map f (take 50 es) @
     (if length es \<le> 50 then [] else [into_buffer 512 (''[bdtrace]   ... and '' @ int_str (int (length es) - 50) @ '' more process(es)'')])"
  using dump_lines_from [of 0 f "length es" es] by simp

text \<open>However many processes are traced, a report is at most 52 lines, none longer than its buffer but for the mark.\<close>

lemma stall_report_bounded:
  "length (snd (stall_report scan state wchan gap t)) \<le> 52
   \<and> (\<forall>line \<in> set (snd (stall_report scan state wchan gap t)). length line \<le> 521)"
proof -
  have dump: "length (dump_lines f (length es) 0 es) \<le> 51" for f es
    by (simp add: dump_lines_exact)
  have lines: "(\<And>e. length (f e) \<le> 521) \<Longrightarrow> line \<in> set (dump_lines f (length es) 0 es) \<Longrightarrow> length line \<le> 521" for f line es
    using into_buffer_length [of 512] order_trans [OF into_buffer_length [of 512], of 521]
    by (auto simp: dump_lines_exact split: if_splits)
  have "length (idle_line state wchan e) \<le> 521" "length (stall_line state e) \<le> 521" for e
    using order_trans [OF into_buffer_length [of 512], of 521]
    by (cases e; simp only: idle_line_def stall_line_def Let_def prod.case; simp)+
  moreover have "length (''[bdtrace] '' @ diag_counters_line 512 t) \<le> 521"
    using into_buffer_length [of 512] by (simp add: diag_counters_line_def)
  ultimately show ?thesis
    using dump [of "idle_line state wchan" "tb_procs t"] dump [of "stall_line state" "tb_procs t"] lines
    by (simp add: stall_report_def Ball_def) blast
qed

end
