(* ===== verification/Session_Accesses.thy ===== *)
theory Session_Accesses
  imports Session_Proofs
begin

text \<open>
  What a session writes of the accesses it is told of. Dropping repeated accesses loses none: over a whole run, process
  starts, exits and recycled pids included, the accesses handed to the writer are, as a set, the accesses asked for, each
  under the id its process had at the time.
\<close>

section \<open>What was asked for, and what was written\<close>

text \<open>The id of the process that had a kernel pid at the time of the \<open>i\<close>-th call.\<close>

definition incarnation :: "session_op list \<Rightarrow> nat \<Rightarrow> int \<Rightarrow> int" where
  "incarnation ops i pid = current_synth (fst (emit_all (take i ops) (session_init (db_empty (\<lambda>_. True)) False))) pid"

text \<open>Some call reports that the process with the id \<open>p\<close> accessed \<open>f\<close> in the mode \<open>m\<close>.\<close>

definition reported :: "session_op list \<Rightarrow> int \<Rightarrow> int \<Rightarrow> string \<Rightarrow> bool" where
  "reported ops p m f \<longleftrightarrow> (\<exists>i fa. i < length ops \<and> ops ! i = Access fa \<and> p = incarnation ops i (fa_pid fa)
     \<and> m = fa_mode fa \<and> f = c_str (fa_filename fa))"

fun asked :: "session_op list \<Rightarrow> session \<Rightarrow> (int \<times> int \<times> string) set" where
  "asked [] s = {}"
| "asked (op # ops) s =
     (case op of Access fa \<Rightarrow> {(current_synth s (fa_pid fa), fa_mode fa, fa_filename fa)} | _ \<Rightarrow> {}) \<union> asked ops (fst (op_emit op s))"

definition written :: "QueuedEvent list \<Rightarrow> (int \<times> int \<times> string) set" where
  "written evs = {(fa_pid fa, fa_mode fa, fa_filename fa) | fa. EV_FILE_ACCESS fa \<in> set evs}"

lemma written_simps [simp]: "written [] = {}" "written (xs @ ys) = written xs \<union> written ys"
  "written (e # es) = (case e of EV_FILE_ACCESS fa \<Rightarrow> {(fa_pid fa, fa_mode fa, fa_filename fa)} | _ \<Rightarrow> {}) \<union> written es"
  by (auto simp: written_def split: QueuedEvent.splits)

text \<open>The same, call by call.\<close>

definition asked_at :: "session_op list \<Rightarrow> session \<Rightarrow> nat \<Rightarrow> (int \<times> int \<times> string) set" where
  "asked_at ops s i =
     {(current_synth (fst (emit_all (take i ops) s)) (fa_pid fa), fa_mode fa, fa_filename fa) | fa. ops ! i = Access fa}"

lemma asked_calls: "asked ops s = (\<Union>i<length ops. asked_at ops s i)"
proof (induction ops arbitrary: s)
  case (Cons op ops)
  have "asked_at (op # ops) s (Suc i) = asked_at ops (fst (op_emit op s)) i" for i
    by (simp only: asked_at_def nth_Cons_Suc take_Suc_Cons emit_all.simps split_beta Let_def fst_conv)
  moreover have "(\<Union>i<length (op # ops). A i) = A 0 \<union> (\<Union>i<length ops. A (Suc i))" for A :: "nat \<Rightarrow> (int \<times> int \<times> string) set"
    by (simp add: lessThan_Suc_eq_insert_0 image_image)
  moreover have "asked_at (op # ops) s 0 =
      (case op of Access fa \<Rightarrow> {(current_synth s (fa_pid fa), fa_mode fa, fa_filename fa)} | _ \<Rightarrow> {})"
    by (auto simp: asked_at_def split: session_op.split)
  ultimately show ?case by (simp only: asked.simps Cons.IH)
qed simp

section \<open>Repeated accesses\<close>

text \<open>The key of a failed access is no mode.\<close>

lemma mode_no_failed_key: "failed_key e m \<noteq> mode_val v"
proof
  assume "failed_key e m = mode_val v"
  moreover have "bit (failed_key e m) 30" by (simp add: failed_key_def bit_simps)
  moreover have "\<not> bit (mode_val v) 30" by (cases v) simp_all
  ultimately show False by simp
qed

text \<open>Every remembered key of an access has been written under the present id of its process.\<close>

definition remembers :: "(int \<times> int \<times> string) set \<Rightarrow> session \<Rightarrow> bool" where
  "remembers W s \<longleftrightarrow> (\<forall>pid v f. (mode_val v, f) \<in> set (seen_of s pid) \<longrightarrow> (current_synth s pid, mode_val v, f) \<in> W)"

lemma current_synth_gen: "om_get (ss_pid_gen s') pid = om_get (ss_pid_gen s) pid \<Longrightarrow> current_synth s' pid = current_synth s pid"
  by (simp add: current_synth_def)

lemma access_event:
  "written (snd (op_emit (Access fa) s)) =
     (if (fa_mode fa, fa_filename fa) \<in> set (seen_of s (fa_pid fa)) then {}
      else {(current_synth s (fa_pid fa), fa_mode fa, fa_filename fa)})"
  by (simp add: already_seen_def current_synth_def Let_def)

lemma remembers_step:
  assumes "remembers W s"
  shows "remembers (W \<union> written (snd (op_emit op s))) (fst (op_emit op s))"
proof (cases "\<exists>rec. op = Start rec")
  case True
  then obtain rec where op: "op = Start rec" by blast
  have "current_synth (fst (op_emit (Start rec) s)) p = current_synth s p" if "p \<noteq> pr_pid rec" for p
    by (rule current_synth_gen) (simp add: start_gen that del: op_emit.simps)
  moreover have "seen_of (fst (op_emit (Start rec) s)) p = (if p = pr_pid rec then [] else seen_of s p)" for p
    by (simp add: seen_of_def Let_def register_start_def om_get_del split: option.split)
  ultimately show ?thesis using assms by (auto simp: op remembers_def simp del: op_emit.simps)
next
  case False
  then have same: "current_synth (fst (op_emit op s)) p = current_synth s p" for p
    by (intro current_synth_gen) (cases op, auto simp: op_emit_gens simp del: op_emit.simps)
  have "(current_synth s p, mode_val v, f) \<in> W \<union> written (snd (op_emit op s))"
    if k: "(mode_val v, f) \<in> set (seen_of (fst (op_emit op s)) p)" for p v f
  proof (cases "restarts p op")
    case True
    with False have "seen_of (fst (op_emit op s)) p = []"
      by (cases op) (auto simp: seen_of_def om_get_del)
    with k show ?thesis by simp
  next
    case new: False
    from k seen_after [OF new] have "(mode_val v, f) \<in> set (seen_of s p) \<or> op_key p op = Some (mode_val v, f)"
      by (auto split: option.splits)
    then show ?thesis
    proof
      assume "op_key p op = Some (mode_val v, f)"
      then obtain fa where "op = Access fa" "fa_pid fa = p" "fa_mode fa = mode_val v" "fa_filename fa = f"
        using mode_no_failed_key by (cases op) (auto split: if_splits)
      with assms access_event [of fa s] show ?thesis
        by (auto simp: remembers_def simp del: op_emit.simps split: if_splits)
    qed (use assms in \<open>auto simp: remembers_def\<close>)
  qed
  then show ?thesis by (auto simp: remembers_def same)
qed

lemma asked_written:
  assumes "remembers W s" and "\<And>fa. Access fa \<in> set ops \<Longrightarrow> fa_mode fa \<in> range mode_val"
  shows "W \<union> written (snd (emit_all ops s)) = W \<union> asked ops s"
  using assms
proof (induction ops arbitrary: s W)
  case (Cons op ops)
  let ?s = "fst (op_emit op s)" and ?W = "W \<union> written (snd (op_emit op s))"
  have "?W \<union> written (snd (emit_all ops ?s)) = ?W \<union> asked ops ?s"
    using Cons.prems(2) by (intro Cons.IH remembers_step Cons.prems(1)) simp
  moreover have "?W = W \<union> (case op of Access fa \<Rightarrow> {(current_synth s (fa_pid fa), fa_mode fa, fa_filename fa)} | _ \<Rightarrow> {})"
  proof (cases op)
    case (Access fa)
    with Cons.prems(2) obtain v where "fa_mode fa = mode_val v" by fastforce
    with Cons.prems(1) access_event [of fa s] show ?thesis
      by (auto simp: Access remembers_def simp del: op_emit.simps split: if_splits)
  qed (simp_all add: already_seen_def Let_def)
  ultimately show ?case by (auto simp: split_beta Let_def)
qed simp

lemma emit_all_init:
  "emit_all ops (session_init db False) =
     (with_pipe (writer_init db) [] (fst (emit_all ops (session_init db' False))), snd (emit_all ops (session_init db' False)))"
proof -
  have "session_init db False = with_pipe (writer_init db) [] (session_init db' False)"
    by (simp add: session_init_def with_pipe_def)
  then show ?thesis by (metis emit_all_with_pipe)
qed

text \<open>The accesses handed over in a whole run are those the calls report.\<close>

theorem accesses_reported:
  assumes "\<And>fa. Access fa \<in> set ops \<Longrightarrow> fa_mode fa \<in> range mode_val"
  shows "(\<exists>a \<in> set (accesses_of (snd (emit_all ops (session_init db False)))). fa_pid a = p \<and> fa_mode a = m \<and> fa_filename a = f)
    \<longleftrightarrow> reported ops p m f"
proof -
  let ?s = "session_init (db_empty (\<lambda>_. True)) False"
  have "remembers {} ?s" by (simp add: remembers_def seen_of_def session_init_def)
  from asked_written [OF this assms] have "written (snd (emit_all ops ?s)) = asked ops ?s" by simp
  moreover have "snd (emit_all ops (session_init db False)) = snd (emit_all ops ?s)" using emit_all_init by (metis snd_conv)
  moreover have "(\<exists>a \<in> set (accesses_of evs). fa_pid a = p \<and> fa_mode a = m \<and> fa_filename a = f)
      \<longleftrightarrow> (\<exists>g. (p, m, g) \<in> written evs \<and> c_str g = f)" for evs
    by (induction evs) (auto simp: accesses_of_Cons accesses_of_def split: QueuedEvent.split)
  moreover have "(\<exists>g. (p, m, g) \<in> asked ops ?s \<and> c_str g = f) \<longleftrightarrow> reported ops p m f"
    by (auto simp: asked_calls asked_at_def reported_def incarnation_def)
  ultimately show ?thesis by simp
qed

end
