(* ===== verification/Recording.thy ===== *)
theory Recording
  imports Tracer_Main Session_Accesses Rebuild
begin

text \<open>
  A whole run of \<open>bdtrace\<close> and what the viewers make of it: tracer, session, tables and dependency graph composed. The
  kernel is taken to report an \<open>execve\<close> of a process only after the process (\<open>orderly\<close>); the engine to complete every
  statement. Then no row collides, every access the tracer saw is in the tables under the process that made it, and the
  rebuild set is the one these accesses call for.
\<close>

section \<open>The calls of the tracer\<close>

definition started :: "session_op list \<Rightarrow> int set" where
  "started ops = {pr_pid rec | rec. Start rec \<in> set ops}"

lemma started_simps [simp]: "started [] = {}" "started (xs @ ys) = started xs \<union> started ys"
  "started (op # ops) = (case op of Start rec \<Rightarrow> {pr_pid rec} | _ \<Rightarrow> {}) \<union> started ops"
  by (auto simp: started_def split: session_op.splits)

lemma calls_ok_append: "calls_ok known (xs @ ys) \<longleftrightarrow> calls_ok known xs \<and> calls_ok (known \<union> started xs) ys"
proof (induction xs arbitrary: known)
  case (Cons op xs)
  then show ?case by (cases op) simp_all
qed simp

lemma calls_ok_accesses:
  "list_all access_report ops \<Longrightarrow> calls_ok known (ops @ ys) \<longleftrightarrow> calls_ok known ys"
proof (induction ops)
  case (Cons op ops)
  then show ?case by (cases op) simp_all
qed simp

lemma started_accesses: "list_all access_report ops \<Longrightarrow> started ops = {}"
  by (auto simp: started_def list_all_iff)

lemma calls_real: "calls_ok known ops \<Longrightarrow> pid \<in> started ops \<Longrightarrow> real_pid pid"
proof (induction ops arbitrary: known)
  case (Cons op ops)
  then show ?case by (cases op) auto
qed simp

text \<open>The calls so far are what the session may be told, and the processes of \<open>known\<close> have been reported.\<close>

definition tracks :: "int set \<Rightarrow> tracer \<Rightarrow> bool" where
  "tracks known t \<longleftrightarrow> calls_ok {} (tb_calls t) \<and> known \<subseteq> started (tb_calls t)"

lemma tracks_same: "tracks known t \<Longrightarrow> tb_calls t' = tb_calls t \<Longrightarrow> tracks known t'"
  by (simp add: tracks_def)

lemma tracks_accesses: "tracks known t \<Longrightarrow> adds access_report t t' \<Longrightarrow> tracks known t'"
  using calls_ok_accesses [of _ _ "[]"] by (auto simp: tracks_def adds_def calls_ok_append started_accesses)

lemma tracks_exit: "tracks known t \<Longrightarrow> tb_calls t' = tb_calls t @ [Exit pid e c u y rss r w] \<Longrightarrow> tracks known t'"
  by (simp add: tracks_def calls_ok_append)

section \<open>An orderly kernel\<close>

text \<open>
  A process is reported by the event of its parent, with a pid of the kernel's range, before it executes a program. The
  set holds the processes reported so far.
\<close>

definition is_fork_event :: "int \<Rightarrow> bool" where
  "is_fork_event ev \<longleftrightarrow> ev = PTRACE_EVENT_FORK \<or> ev = PTRACE_EVENT_VFORK \<or> ev = PTRACE_EVENT_CLONE"

definition reported_by :: "loop_input \<Rightarrow> int set" where
  "reported_by i = (case li_wait i of
     Report pid status \<Rightarrow> (case wait_of status of
       Stopped sig ev \<Rightarrow> if is_fork_event ev \<and> k_msg (li_kernel i) pid \<noteq> 0 then {k_msg (li_kernel i) pid} else {}
     | _ \<Rightarrow> {})
   | _ \<Rightarrow> {})"

definition exec_known :: "int set \<Rightarrow> loop_input \<Rightarrow> bool" where
  "exec_known known i \<longleftrightarrow> (case li_wait i of
     Report pid status \<Rightarrow> (case wait_of status of Stopped sig ev \<Rightarrow> ev = PTRACE_EVENT_EXEC \<longrightarrow> pid \<in> known | _ \<Rightarrow> True)
   | _ \<Rightarrow> True)"

fun orderly :: "int set \<Rightarrow> loop_input list \<Rightarrow> bool" where
  "orderly known [] = True"
| "orderly known (i # is) \<longleftrightarrow>
     exec_known known i \<and> (\<forall>pid \<in> reported_by i. real_pid pid) \<and> orderly (known \<union> reported_by i) is"

lemma fork_calls:
  "k_msg K pid = 0 \<Longrightarrow> tb_calls (handle_fork_event K pid t) = tb_calls t"
  "k_msg K pid \<noteq> 0 \<Longrightarrow> \<exists>rec. pr_pid rec = k_msg K pid \<and> tb_calls (handle_fork_event K pid t) = tb_calls t @ [Start rec]"
proof -
  have "tb_calls (register_child c pid cwd cmd (drop_stale c t)) = tb_calls t" for c cwd cmd
    by (simp add: register_child_def drop_stale_def Let_def split: option.split)
  then show "k_msg K pid = 0 \<Longrightarrow> tb_calls (handle_fork_event K pid t) = tb_calls t"
    "k_msg K pid \<noteq> 0 \<Longrightarrow> \<exists>rec. pr_pid rec = k_msg K pid \<and> tb_calls (handle_fork_event K pid t) = tb_calls t @ [Start rec]"
    by (simp_all add: handle_fork_event_def Let_def now_us_def frame_simps)
qed

lemma tracks_fork:
  assumes "tracks known t" and "k_msg K pid \<noteq> 0 \<Longrightarrow> real_pid (k_msg K pid)"
  shows "tracks (known \<union> (if k_msg K pid \<noteq> 0 then {k_msg K pid} else {})) (handle_fork_event K pid t)"
  using assms fork_calls [of K pid t] by (cases "k_msg K pid = 0") (auto simp: tracks_def calls_ok_append)

lemma exec_calls:
  "\<exists>accs rec. list_all access_report accs \<and> pr_pid rec = pid
     \<and> tb_calls (handle_exec_event K pid t) = tb_calls t @ accs @ [Delete pid, Start rec]"
proof -
  obtain accs where "tb_calls (record_exe K pid t) = tb_calls t @ accs" "list_all access_report accs"
    using adds_record_exe [of t K pid] by (auto simp: adds_def)
  then show ?thesis
    by (intro exI [of _ accs]) (auto simp: handle_exec_event_def Let_def now_us_def frame_simps)
qed

lemma tracks_exec:
  assumes "tracks known t" and "pid \<in> known"
  shows "tracks known (handle_exec_event K pid t)"
proof -
  obtain accs rec where e: "list_all access_report accs" "pr_pid rec = pid"
    "tb_calls (handle_exec_event K pid t) = tb_calls t @ accs @ [Delete pid, Start rec]"
    using exec_calls by blast
  from assms have k: "pid \<in> started (tb_calls t)" "real_pid pid" using calls_real by (auto simp: tracks_def)
  have "calls_ok (started (tb_calls t)) (accs @ [Delete pid, Start rec])"
    unfolding calls_ok_accesses [OF e(1)] using k e(2) by simp
  with assms(1) e show ?thesis by (auto simp: tracks_def calls_ok_append started_accesses)
qed

lemma tracks_exit_event: "tracks known t \<Longrightarrow> tracks known (handle_exit_event K pid t)"
  by (erule tracks_same) (simp add: handle_exit_event_def frame_simps split: prod.split)

lemma tracks_seccomp: "tracks known t \<Longrightarrow> tracks known (handle_seccomp_stop K pid t)"
  by (erule tracks_same) (simp add: handle_seccomp_stop_def Let_def frame_simps split: option.split)

lemma tracks_resume [simp]: "tracks known (resume K pid sig t) = tracks known t"
  by (simp add: tracks_def frame_simps)

lemma tracks_fields:
  "tracks known (t\<lparr>cnt_fork_events := n\<rparr>) = tracks known t" "tracks known (t\<lparr>cnt_exec_events := n\<rparr>) = tracks known t"
  "tracks known (t\<lparr>cnt_seccomp_stops := n\<rparr>) = tracks known t" "tracks known (t\<lparr>cnt_plain_sigtrap := n\<rparr>) = tracks known t"
  "tracks known (t\<lparr>tb_last_event := i, tb_last_stall_report := j\<rparr>) = tracks known t"
  "tracks known (t\<lparr>tb_last_event := i\<rparr>) = tracks known t"
  by (simp_all add: tracks_def)

lemma tracks_stop:
  assumes "tracks known t" and "ev = PTRACE_EVENT_EXEC \<Longrightarrow> pid \<in> known"
    and "is_fork_event ev \<Longrightarrow> k_msg K pid \<noteq> 0 \<Longrightarrow> real_pid (k_msg K pid)"
  shows "tracks (known \<union> (if is_fork_event ev \<and> k_msg K pid \<noteq> 0 then {k_msg K pid} else {})) (handle_stop K pid sig ev t)"
proof (cases "is_fork_event ev")
  case True
  with tracks_fork [of known "t\<lparr>cnt_fork_events := Suc (cnt_fork_events t)\<rparr>" K pid] assms show ?thesis
    by (simp add: handle_stop_def is_fork_event_def tracks_fields)
next
  case False
  have "tracks known (handle_syscall_stop K pid t)" using assms(1) adds_handle_syscall_stop by (rule tracks_accesses)
  moreover have "tb_calls (handle_sigstop K pid t) = tb_calls t" "tb_calls (reinject K pid sig t) = tb_calls t"
    by (simp_all add: handle_sigstop_def reinject_def Let_def frame_simps)
  ultimately show ?thesis
    using False assms(1,2) tracks_same [OF assms(1)]
    by (auto simp: handle_stop_def is_fork_event_def tracks_fields tracks_exec tracks_exit_event tracks_seccomp)
qed

lemma tracks_status:
  assumes "tracks known t" and "\<And>sig ev. st = Stopped sig ev \<Longrightarrow> ev = PTRACE_EVENT_EXEC \<Longrightarrow> pid \<in> known"
    and "\<And>sig ev. st = Stopped sig ev \<Longrightarrow> is_fork_event ev \<Longrightarrow> k_msg K pid \<noteq> 0 \<Longrightarrow> real_pid (k_msg K pid)"
  shows "tracks (known \<union> (case st of Stopped sig ev \<Rightarrow> if is_fork_event ev \<and> k_msg K pid \<noteq> 0 then {k_msg K pid} else {} | _ \<Rightarrow> {}))
    (handle_status K pid st t)"
proof -
  have t1: "tracks known (ensure_known K pid st t)"
    by (rule tracks_same [OF assms(1)]) (simp add: ensure_known_def Let_def frame_simps split: option.split wait_status.split)
  then have "tracks known (handle_death K pid c (ensure_known K pid st t))" for c
    by (auto simp: handle_death_def now_us_def frame_simps split: option.split intro: tracks_exit)
  moreover have "tracks (known \<union> (if is_fork_event ev \<and> k_msg K pid \<noteq> 0 then {k_msg K pid} else {}))
      (handle_stop K pid sig ev (ensure_known K pid st t))" if "st = Stopped sig ev" for sig ev
    using assms(2,3) [OF that] by (intro tracks_stop t1)
  ultimately show ?thesis using t1
    by (cases st) (simp_all add: handle_status_def)
qed

lemma tracks_wait:
  assumes "tracks known t" and "exec_known known i" and "\<forall>pid \<in> reported_by i. real_pid pid"
    and "handle_wait (li_kernel i) (li_wait i) t = (go, t')"
  shows "tracks (known \<union> (if go then reported_by i else {})) t'"
proof (cases "li_wait i")
  case (Report pid status)
  let ?t = "(snd (now_us (li_kernel i) t))\<lparr>tb_last_event := fst (now_us (li_kernel i) t), tb_last_stall_report := 0\<rparr>"
  have "tracks known ?t" using assms(1) by (simp add: tracks_def now_us_def)
  from tracks_status [OF this, of "wait_of status" pid "li_kernel i"] assms(2-4) Report show ?thesis
    by (cases "wait_of status") (auto simp: handle_wait_def exec_known_def reported_by_def split: prod.splits if_splits)
next
  case (Interrupted alarm)
  have one: "tb_calls (recover_one K p u) = tb_calls u" for K p u
    using resume_frame(2) [of K p 0 u] by (auto simp: recover_one_def split: prod.split bool.split)
  have "tb_calls (fold (recover_one K) ps u) = tb_calls u" for K ps u
    by (induction ps arbitrary: u) (simp_all add: one)
  then have "tb_calls (check_stall (li_kernel i) t) = tb_calls t" by (simp add: check_stall_def now_us_def Let_def)
  with assms(1,4) Interrupted tracks_same [OF assms(1)] show ?thesis by (auto simp: handle_wait_def reported_by_def)
qed (use assms in \<open>auto simp: handle_wait_def reported_by_def\<close>)

lemma quiet_calls:
  "tb_calls (snd (now_us K t)) = tb_calls t" "tb_calls (snd (handle_signal K sig t)) = tb_calls t"
  "tb_calls (snd (drain_expired K t)) = tb_calls t"
  by (simp_all add: now_us_def handle_signal_def drain_expired_def frame_simps split: option.split prod.split)

lemma tracks_iteration:
  assumes "tracks known t" and "exec_known known i" and "\<forall>pid \<in> reported_by i. real_pid pid"
    and "loop_iteration i t = (go, t')"
  shows "tracks (known \<union> (if go then reported_by i else {})) t'"
proof -
  define t0 where "t0 = snd (now_us (li_kernel i) t)"
  obtain go1 t1 where 1: "handle_signal (li_kernel i) (li_signal i) t0 = (go1, t1)" by fastforce
  obtain over t2 where 2: "drain_expired (li_kernel i) t1 = (over, t2)" by fastforce
  have calls: "tb_calls t0 = tb_calls t" "tb_calls t1 = tb_calls t" "tb_calls t2 = tb_calls t"
    using quiet_calls(2) [of "li_kernel i" "li_signal i" t0] quiet_calls(3) [of "li_kernel i" t1] 1 2
    by (simp_all add: quiet_calls(1) t0_def [symmetric]) (simp_all add: t0_def quiet_calls(1))
  from assms(4) have "\<not> go \<and> t' \<in> {t0, t1, t2} \<or> handle_wait (li_kernel i) (li_wait i) t2 = (go, t')"
    by (auto simp: loop_iteration_def Let_def t0_def [symmetric] 1 2 split: if_splits bool.splits)
  then show ?thesis
  proof
    assume "\<not> go \<and> t' \<in> {t0, t1, t2}"
    with tracks_same [OF assms(1)] calls show ?thesis by auto
  next
    assume "handle_wait (li_kernel i) (li_wait i) t2 = (go, t')"
    with tracks_wait [OF tracks_same [OF assms(1) calls(3)] assms(2,3)] show ?thesis by blast
  qed
qed

lemma tracks_loop:
  "tracks known t \<Longrightarrow> orderly known is \<Longrightarrow> calls_ok {} (tb_calls (snd (event_loop is t)))"
proof (induction "is" arbitrary: known t)
  case (Cons i "is")
  obtain go t' where it: "loop_iteration i t = (go, t')" by fastforce
  from tracks_iteration [OF Cons.prems(1) _ _ it] Cons.prems(2) have
    "tracks (known \<union> (if go then reported_by i else {})) t'" by simp
  with Cons.IH [of "known \<union> reported_by i" t'] Cons.prems it show ?case by (cases go) (auto simp: tracks_def)
qed (simp add: tracks_def)

lemma tracks_start:
  assumes "start K a ack self pid (PtraceBackend_new po dn) = (rc, t)" and "real_pid pid"
  shows "tracks (if rc = 0 then {pid} else {}) t"
proof -
  have opts: "tb_calls (snd (set_ptrace_options K pid t)) = tb_calls t" for t
    using setup_child_frame(1) [of K pid t] setup_child_frame(2) [of K pid t] by (simp add: setup_child_def)
  have "tb_calls (snd (start_options K a ack pid t)) = tb_calls t" for t
    using opts [of "t\<lparr>tb_seccomp_mode := True\<rparr>"]
    by (auto simp: start_options_def frame_simps split: prod.splits bool.splits)
  from this [of "(PtraceBackend_new po dn)\<lparr>tb_root_pid := pid\<rparr>"]
  have "tb_calls (snd (start_options K a ack pid ((PtraceBackend_new po dn)\<lparr>tb_root_pid := pid\<rparr>))) = []"
    by (simp add: PtraceBackend_new_def)
  with assms show ?thesis
    by (auto simp: start_def Let_def now_us_def tracks_def frame_simps split: prod.splits bool.splits)
qed

section \<open>A run\<close>

text \<open>The calls the tracer of a run makes.\<close>

definition run_calls :: "host \<Rightarrow> string list \<Rightarrow> session_op list" where
  "run_calls h args =
     (case trace_args trace_options_default args of
        Inl rc \<Rightarrow> []
      | Inr (o1, cmd) \<Rightarrow> tb_calls (snd (run_event_loop (ho_inputs h) (snd (start_command h o1 cmd)))))"

text \<open>A kernel that is orderly from the first process on.\<close>

definition orderly_host :: "host \<Rightarrow> bool" where
  "orderly_host h \<longleftrightarrow> real_pid (ho_fork h) \<and> orderly {ho_fork h} (ho_inputs h)"

lemma run_loop_calls:
  assumes "tracks known t" and "orderly known is"
  shows "calls_ok {} (tb_calls (snd (run_event_loop is t)))"
proof (cases "is")
  case (Cons i js)
  have "tracks known ((snd (now_us (li_kernel i) t))\<lparr>tb_last_event := n\<rparr>)" for n
    using assms(1) by (simp add: tracks_fields) (simp add: tracks_def now_us_def)
  from tracks_loop [OF this assms(2)] show ?thesis
    by (simp add: run_event_loop_def Cons split_beta del: event_loop.simps)
qed (use assms(1) in \<open>simp add: run_event_loop_def tracks_def\<close>)

lemma start_command_tracks:
  assumes "start_command h o1 cmd = (0, t)" and "real_pid (ho_fork h)"
  shows "tracks {ho_fork h} t"
  using assms tracks_start [OF _ assms(2)] by (fastforce simp: start_command_def Let_def split: if_splits)

text \<open>A run that reaches its end: the session it leaves, and its calls.\<close>

lemma run_session:
  assumes "bdtrace_main h args = (0, Some s)"
  obtains path db0 db o1 cmd t where "ho_open h path = Some db0" "init_schema db0 = (True, db)" "start_command h o1 cmd = (0, t)"
    "run_calls h args = tb_calls (snd (run_event_loop (ho_inputs h) t))"
    "s = finalize_tail (finalize_tail (fold session_op (run_calls h args) (session_init db False)))"
proof -
  from assms obtain o1 cmd where 1: "trace_args trace_options_default args = Inr (o1, cmd)" "cmd \<noteq> []"
    by (auto simp: bdtrace_main_def split: sum.splits if_splits)
  with assms obtain s0 where 2: "open_session h (to_db_path o1) = Some s0"
    by (auto simp: bdtrace_main_def split: option.splits)
  with 1 assms obtain t where 3: "start_command h o1 cmd = (0, t)"
    "s = finalize_tail (finalize_tail (fold session_op (tb_calls (snd (run_event_loop (ho_inputs h) t))) s0))"
    by (auto simp: bdtrace_main_def split: prod.splits if_splits)
  from 2 obtain db0 db where "ho_open h (to_db_path o1) = Some db0" "init_schema db0 = (True, db)" "s0 = session_init db False"
    by (auto simp: open_session_def split: option.splits prod.splits if_splits)
  with 1 3 that show thesis by (simp add: run_calls_def)
qed

text \<open>A new file, and an engine that carries out every statement.\<close>

definition fresh_db :: "sq_db \<Rightarrow> bool" where
  "fresh_db db \<longleftrightarrow> engine_ok db \<and> db_inv db \<and> db_readable db \<and> db_processes db = [] \<and> db_accesses db = []"

lemma fresh_schema: "fresh_db db0 \<Longrightarrow> init_schema db0 = (ok, db) \<Longrightarrow> fresh_db db"
  by (auto simp: fresh_db_def init_schema_def insert_meta_def sq_step_def engine_ok_def split: if_splits)

lemma finalize_accesses:
  "get_all_file_accesses (w_db (ss_writer (finalize_tail s))) = get_all_file_accesses (w_db (ss_writer s))"
  "w_write_error_count (ss_writer (finalize_tail s)) = w_write_error_count (ss_writer s)"
  by (rule get_all_cong; simp add: finalize_tail_def close_transaction_def commit_transaction_def sq_step_def populate_counts_def Let_def)
    (simp add: finalize_tail_def close_transaction_def Let_def)

text \<open>What a run leaves in the tables is what its calls report.\<close>

lemma run_accesses:
  assumes "bdtrace_main h args = (0, Some s)" and "orderly_host h" and "\<forall>path db. ho_open h path = Some db \<longrightarrow> fresh_db db"
  shows "w_write_error_count (ss_writer s) = 0"
    and "(\<exists>a \<in> set (get_all_file_accesses (w_db (ss_writer s))). fa_pid a = p \<and> fa_mode a = m \<and> fa_filename a = f)
      \<longleftrightarrow> reported (run_calls h args) p m f"
proof -
  obtain path db0 db o1 cmd t where run: "ho_open h path = Some db0" "init_schema db0 = (True, db)" "start_command h o1 cmd = (0, t)"
    "run_calls h args = tb_calls (snd (run_event_loop (ho_inputs h) t))"
    and s: "s = finalize_tail (finalize_tail (fold session_op (run_calls h args) (session_init db False)))"
    using run_session [OF assms(1)] by metis
  have db: "fresh_db db" using run(1,2) assms(3) fresh_schema by blast
  have calls: "calls_ok {} (run_calls h args)"
    using assms(2) run_loop_calls [OF start_command_tracks [OF run(3)]] by (simp add: run(4) orderly_host_def)
  show "w_write_error_count (ss_writer s) = 0"
    using session_no_errors [OF calls] db by (simp add: s finalize_accesses fresh_db_def)
  have "fa_mode fa \<in> range mode_val" if "Access fa \<in> set (run_calls h args)" for fa
    using start_command_ok [OF run(3), of "ho_inputs h"] that by (auto simp: run(4) good_def list_all_iff report_ok_def)
  moreover have "get_all_file_accesses (w_db (ss_writer s)) = accesses_of (snd (emit_all (run_calls h args) (session_init db False)))"
    using session_accesses [OF calls] db
    by (simp add: s finalize_accesses fresh_db_def get_all_file_accesses_def [of db] List.map_filter_simps)
  ultimately show "(\<exists>a \<in> set (get_all_file_accesses (w_db (ss_writer s))). fa_pid a = p \<and> fa_mode a = m \<and> fa_filename a = f)
      \<longleftrightarrow> reported (run_calls h args) p m f"
    using accesses_reported by simp
qed

lemma affects_direct:
  "f \<in> own_outputs db p \<Longrightarrow> q \<in> input_pids db f \<Longrightarrow> (p, q) \<in> affects (build_dependency_graph db dep_graph_empty)"
  using graph_as_recorded [of db f q] graph_as_recorded [of db f p] by (auto simp: affects_def Let_def)

text \<open>
  C1. From the kernel's reports to the rebuild set: after a run of \<open>bdtrace\<close> into a new file, under an orderly kernel and
  an engine that completes every statement, no write has failed, and for every set of changed files the rebuild search on
  the recorded database yields exactly the processes that some reader of a changed file leads to, where the readers are
  those whose accesses the tracer reported, each under the id of its incarnation; and a process that was seen writing
  a file leads to every process that was seen reading it.
\<close>

theorem recording_rebuilds:
  fixes h args s changed
  defines "calls \<equiv> run_calls h args" and "g \<equiv> build_dependency_graph (w_db (ss_writer s)) dep_graph_empty"
  assumes "bdtrace_main h args = (0, Some s)" and "orderly_host h" and "\<forall>path db. ho_open h path = Some db \<longrightarrow> fresh_db db"
  shows "w_write_error_count (ss_writer s) = 0
    \<and> (\<forall>p. p \<in> set (rebuild_bfs g changed) \<longleftrightarrow>
        (\<exists>f r m. f \<in> set changed \<and> reported calls r m f \<and> is_input_mode m \<and> (r, p) \<in> (affects g)\<^sup>*))
    \<and> (\<forall>p q f m n. reported calls p m f \<and> is_output_mode m \<and> reported calls q n f \<and> is_input_mode n \<longrightarrow> (p, q) \<in> affects g)"
proof -
  note run = run_accesses [OF assms(3-5)]
  let ?db = "w_db (ss_writer s)"
  have ins: "r \<in> input_pids ?db f \<longleftrightarrow> (\<exists>m. reported calls r m f \<and> is_input_mode m)" for r f
    unfolding calls_def run(2) [symmetric] by (auto simp: input_pids_def)
  have outs: "f \<in> own_outputs ?db p \<longleftrightarrow> (\<exists>m. reported calls p m f \<and> is_output_mode m)" for p f
    unfolding calls_def run(2) [symmetric] by (auto simp: own_outputs_def)
  have readers: "set (readers_of g f) = input_pids ?db f" for f
    using graph_as_recorded [of ?db f] by (simp add: g_def Let_def)
  have "p \<in> set (rebuild_bfs g changed) \<longleftrightarrow>
      (\<exists>f r m. f \<in> set changed \<and> reported calls r m f \<and> is_input_mode m \<and> (r, p) \<in> (affects g)\<^sup>*)" for p
    unfolding rebuild_bfs_set Image_iff readers UN_iff ins Bex_def by blast
  moreover have "(p, q) \<in> affects g"
    if "reported calls p m f" "is_output_mode m" "reported calls q n f" "is_input_mode n" for p q f m n
    unfolding g_def by (rule affects_direct) (use that in \<open>auto simp: ins outs\<close>)
  ultimately show ?thesis using run(1) by blast
qed

text \<open>A run in which a compiler executes: its program is an input of the process.\<close>

definition cc_kernel :: kernel where
  "cc_kernel = no_kernel\<lparr>k_link := (\<lambda>pid entry. if entry = ''exe'' then ''/bin/cc'' else ''/w'')\<rparr>"

definition cc_host :: host where
  "cc_host = idle_host\<lparr>ho_kernel := cc_kernel, ho_inputs :=
     [\<lparr>li_kernel = cc_kernel, li_fatal = False, li_signal = None, li_wait = Report 7 (4 * 65536 + 5 * 256 + 127)\<rparr>,
      \<lparr>li_kernel = cc_kernel, li_fatal = False, li_signal = None, li_wait = Report 7 0\<rparr>]\<rparr>"

lemma cc_host_fresh: "\<forall>path db. ho_open cc_host path = Some db \<longrightarrow> fresh_db db"
  by (simp add: cc_host_def idle_host_def fresh_db_def db_inv_empty engine_ok_def) (simp add: db_empty_def)

lemma cc_host_orderly: "orderly_host cc_host"
  by (simp add: cc_host_def idle_host_def orderly_host_def exec_known_def reported_by_def wait_of_def is_fork_event_def
      event_numbers real_pid_def PID_GEN_STRIDE_def)

lemma cc_run:
  "trace_args trace_options_default [''cc''] = Inr (trace_options_default, [''cc''])"
  "fst (start_command cc_host trace_options_default [''cc'']) = 0"
  "take 2 (tb_calls (snd (run_event_loop (ho_inputs cc_host) (snd (start_command cc_host trace_options_default [''cc'']))))) =
     [Start (ProcessRecord_default\<lparr>pr_pid := 7, pr_ppid := 3, pr_cwd := ''/w''\<rparr>),
      Access \<lparr>fa_pid = 7, fa_filename = ''/bin/cc'', fa_mode = mode_val FA_EXEC, fa_fd = -1, fa_timestamp = 4\<rparr>]"
  by code_simp+

lemma cc_reported: "reported (run_calls cc_host [''cc'']) 7 (mode_val FA_EXEC) ''/bin/cc''"
proof -
  let ?calls = "run_calls cc_host [''cc'']" and ?rec = "ProcessRecord_default\<lparr>pr_pid := 7, pr_ppid := 3, pr_cwd := ''/w''\<rparr>"
  have t: "take 2 ?calls = [Start ?rec,
      Access \<lparr>fa_pid = 7, fa_filename = ''/bin/cc'', fa_mode = mode_val FA_EXEC, fa_fd = -1, fa_timestamp = 4\<rparr>]"
    using cc_run by (simp add: run_calls_def)
  then have "length (take 2 ?calls) = 2" by simp
  then have len: "1 < length ?calls" by simp
  have "?calls ! 1 = take 2 ?calls ! 1" "take 1 ?calls = take 1 (take 2 ?calls)" by simp_all
  then have at: "?calls ! 1 = Access \<lparr>fa_pid = 7, fa_filename = ''/bin/cc'', fa_mode = mode_val FA_EXEC, fa_fd = -1, fa_timestamp = 4\<rparr>"
    and "take 1 ?calls = [Start ?rec]" unfolding t by simp_all
  then have "incarnation ?calls 1 7 = 7"
    by (simp add: incarnation_def session_init_def register_start_def ProcessRecord_default_def om_get_def current_synth_def Let_def)
  with len at show ?thesis unfolding reported_def by (force simp: c_str_def)
qed

lemma recording_rebuilds_witness:
  "\<exists>s. bdtrace_main cc_host [''cc''] = (0, Some s) \<and> w_write_error_count (ss_writer s) = 0
    \<and> 7 \<in> set (rebuild_bfs (build_dependency_graph (w_db (ss_writer s)) dep_graph_empty) [''/bin/cc''])"
proof -
  have "open_session cc_host (to_db_path trace_options_default) \<noteq> None"
    by (simp add: open_session_def cc_host_def idle_host_def init_schema_def sq_step_def db_empty_def)
  then obtain s0 where s0: "open_session cc_host (to_db_path trace_options_default) = Some s0" by blast
  obtain t where t: "start_command cc_host trace_options_default [''cc''] = (0, t)" using cc_run(2) by (metis prod.collapse)
  have "\<exists>s. bdtrace_main cc_host [''cc''] = (0, Some s)"
    by (simp add: bdtrace_main_def cc_run(1) s0 t split_beta)
  then obtain s where s: "bdtrace_main cc_host [''cc''] = (0, Some s)" ..
  have "is_input_mode (mode_val FA_EXEC)" by (simp add: is_input_mode_def)
  with recording_rebuilds [OF s cc_host_orderly cc_host_fresh, of "[''/bin/cc'']"] cc_reported s show ?thesis
    by (metis (no_types, lifting) list.set_intros(1) rtrancl.rtrancl_refl)
qed

end
