(* ===== verification/Ptrace_I386.thy ===== *)
theory Ptrace_I386
  imports Seccomp
begin

text \<open>
  The other half of \<open>tracer/ptrace_defs.h\<close>: system call numbers and registers of an i386 build, where \<open>unsigned long\<close>
  has 32 bits, with the decoding of a system call and the seccomp program over them. They are those of x86-64 up to
  renumbering.
\<close>

section \<open>System call numbers\<close>

definition SYS_OPEN_NR_i386 :: int where "SYS_OPEN_NR_i386 = 5"
definition SYS_CLOSE_NR_i386 :: int where "SYS_CLOSE_NR_i386 = 6"
definition SYS_STAT_NR_i386 :: int where "SYS_STAT_NR_i386 = 106"
definition SYS_LSTAT_NR_i386 :: int where "SYS_LSTAT_NR_i386 = 107"
definition SYS_ACCESS_NR_i386 :: int where "SYS_ACCESS_NR_i386 = 33"
definition SYS_FORK_NR_i386 :: int where "SYS_FORK_NR_i386 = 2"
definition SYS_VFORK_NR_i386 :: int where "SYS_VFORK_NR_i386 = 190"
definition SYS_EXECVE_NR_i386 :: int where "SYS_EXECVE_NR_i386 = 11"
definition SYS_CLONE_NR_i386 :: int where "SYS_CLONE_NR_i386 = 120"
definition SYS_EXIT_GROUP_NR_i386 :: int where "SYS_EXIT_GROUP_NR_i386 = 252"
definition SYS_CHDIR_NR_i386 :: int where "SYS_CHDIR_NR_i386 = 12"
definition SYS_FCHDIR_NR_i386 :: int where "SYS_FCHDIR_NR_i386 = 133"
definition SYS_RENAME_NR_i386 :: int where "SYS_RENAME_NR_i386 = 38"
definition SYS_MKDIR_NR_i386 :: int where "SYS_MKDIR_NR_i386 = 39"
definition SYS_LINK_NR_i386 :: int where "SYS_LINK_NR_i386 = 9"
definition SYS_UNLINK_NR_i386 :: int where "SYS_UNLINK_NR_i386 = 10"
definition SYS_SYMLINK_NR_i386 :: int where "SYS_SYMLINK_NR_i386 = 83"
definition SYS_READLINK_NR_i386 :: int where "SYS_READLINK_NR_i386 = 85"
definition SYS_CHMOD_NR_i386 :: int where "SYS_CHMOD_NR_i386 = 15"
definition SYS_CHOWN_NR_i386 :: int where "SYS_CHOWN_NR_i386 = 182"
definition SYS_MKNOD_NR_i386 :: int where "SYS_MKNOD_NR_i386 = 14"
definition SYS_TRUNCATE_NR_i386 :: int where "SYS_TRUNCATE_NR_i386 = 92"
definition SYS_CREAT_NR_i386 :: int where "SYS_CREAT_NR_i386 = 8"
definition SYS_OPENAT_NR_i386 :: int where "SYS_OPENAT_NR_i386 = 295"
definition SYS_MKDIRAT_NR_i386 :: int where "SYS_MKDIRAT_NR_i386 = 296"
definition SYS_MKNODAT_NR_i386 :: int where "SYS_MKNODAT_NR_i386 = 297"
definition SYS_FCHOWNAT_NR_i386 :: int where "SYS_FCHOWNAT_NR_i386 = 298"
definition SYS_UNLINKAT_NR_i386 :: int where "SYS_UNLINKAT_NR_i386 = 301"
definition SYS_RENAMEAT_NR_i386 :: int where "SYS_RENAMEAT_NR_i386 = 302"
definition SYS_LINKAT_NR_i386 :: int where "SYS_LINKAT_NR_i386 = 303"
definition SYS_SYMLINKAT_NR_i386 :: int where "SYS_SYMLINKAT_NR_i386 = 304"
definition SYS_READLINKAT_NR_i386 :: int where "SYS_READLINKAT_NR_i386 = 305"
definition SYS_FCHMODAT_NR_i386 :: int where "SYS_FCHMODAT_NR_i386 = 306"
definition SYS_FACCESSAT_NR_i386 :: int where "SYS_FACCESSAT_NR_i386 = 307"
definition SYS_NEWFSTATAT_NR_i386 :: int where "SYS_NEWFSTATAT_NR_i386 = 300"
definition SYS_UTIMENSAT_NR_i386 :: int where "SYS_UTIMENSAT_NR_i386 = 320"
definition SYS_RENAMEAT2_NR_i386 :: int where "SYS_RENAMEAT2_NR_i386 = 353"
definition SYS_EXECVEAT_NR_i386 :: int where "SYS_EXECVEAT_NR_i386 = 358"
definition SYS_STATX_NR_i386 :: int where "SYS_STATX_NR_i386 = 383"
definition SYS_FACCESSAT2_NR_i386 :: int where "SYS_FACCESSAT2_NR_i386 = 439"
definition SYS_OPENAT2_NR_i386 :: int where "SYS_OPENAT2_NR_i386 = 437"

lemmas i386_nrs =
  SYS_OPEN_NR_i386_def SYS_CLOSE_NR_i386_def SYS_STAT_NR_i386_def SYS_LSTAT_NR_i386_def
  SYS_ACCESS_NR_i386_def SYS_FORK_NR_i386_def SYS_VFORK_NR_i386_def SYS_EXECVE_NR_i386_def
  SYS_CLONE_NR_i386_def SYS_EXIT_GROUP_NR_i386_def SYS_CHDIR_NR_i386_def SYS_FCHDIR_NR_i386_def
  SYS_RENAME_NR_i386_def SYS_MKDIR_NR_i386_def SYS_LINK_NR_i386_def SYS_UNLINK_NR_i386_def
  SYS_SYMLINK_NR_i386_def SYS_READLINK_NR_i386_def SYS_CHMOD_NR_i386_def SYS_CHOWN_NR_i386_def
  SYS_MKNOD_NR_i386_def SYS_TRUNCATE_NR_i386_def SYS_CREAT_NR_i386_def SYS_OPENAT_NR_i386_def
  SYS_MKDIRAT_NR_i386_def SYS_MKNODAT_NR_i386_def SYS_FCHOWNAT_NR_i386_def SYS_UNLINKAT_NR_i386_def
  SYS_RENAMEAT_NR_i386_def SYS_LINKAT_NR_i386_def SYS_SYMLINKAT_NR_i386_def SYS_READLINKAT_NR_i386_def
  SYS_FCHMODAT_NR_i386_def SYS_FACCESSAT_NR_i386_def SYS_NEWFSTATAT_NR_i386_def SYS_UTIMENSAT_NR_i386_def
  SYS_RENAMEAT2_NR_i386_def SYS_EXECVEAT_NR_i386_def SYS_STATX_NR_i386_def SYS_FACCESSAT2_NR_i386_def
  SYS_OPENAT2_NR_i386_def

section \<open>Decoding a system call at its entry\<close>

record user_regs_i386 =
  orig_eax :: "32 word"
  eax :: "32 word"
  ebx :: "32 word"
  ecx :: "32 word"
  edx :: "32 word"
  esi :: "32 word"

definition decode_paths_i386 :: "user_regs_i386 \<Rightarrow> int \<Rightarrow> 32 word \<times> 32 word \<times> int" where
  "decode_paths_i386 regs nr =
    (if nr = SYS_OPEN_NR_i386 then (ebx regs, 0, sint (ecx regs))
     else if nr = SYS_OPENAT_NR_i386 \<or> nr = SYS_OPENAT2_NR_i386 then (ecx regs, 0, sint (edx regs))
     else if nr = SYS_CREAT_NR_i386 then (ebx regs, 0, O_WRONLY_CREAT_TRUNC)
     else if nr \<in> {SYS_STAT_NR_i386, SYS_LSTAT_NR_i386, SYS_ACCESS_NR_i386, SYS_CHDIR_NR_i386, SYS_UNLINK_NR_i386,
         SYS_MKDIR_NR_i386, SYS_CHMOD_NR_i386, SYS_CHOWN_NR_i386, SYS_READLINK_NR_i386, SYS_TRUNCATE_NR_i386, SYS_MKNOD_NR_i386,
         SYS_EXECVE_NR_i386} then (ebx regs, 0, 0)
     else if nr \<in> {SYS_NEWFSTATAT_NR_i386, SYS_FACCESSAT_NR_i386, SYS_FACCESSAT2_NR_i386, SYS_UNLINKAT_NR_i386,
         SYS_MKDIRAT_NR_i386, SYS_FCHMODAT_NR_i386, SYS_FCHOWNAT_NR_i386, SYS_READLINKAT_NR_i386, SYS_UTIMENSAT_NR_i386,
         SYS_MKNODAT_NR_i386, SYS_EXECVEAT_NR_i386, SYS_STATX_NR_i386} then (ecx regs, 0, 0)
     else if nr \<in> {SYS_RENAME_NR_i386, SYS_LINK_NR_i386, SYS_SYMLINK_NR_i386} then (ebx regs, ecx regs, 0)
     else if nr = SYS_RENAMEAT_NR_i386 \<or> nr = SYS_RENAMEAT2_NR_i386 then (ecx regs, esi regs, 0)
     else if nr = SYS_LINKAT_NR_i386 then (ecx regs, esi regs, 0)
     else if nr = SYS_SYMLINKAT_NR_i386 then (ebx regs, edx regs, 0)
     else (0, 0, 0))"

section \<open>The seccomp filter\<close>

definition BD_TRACED_SYSCALLS_i386 :: "int list" where
  "BD_TRACED_SYSCALLS_i386 =
    [SYS_OPEN_NR_i386, SYS_CREAT_NR_i386, SYS_OPENAT_NR_i386, SYS_OPENAT2_NR_i386,
     SYS_STAT_NR_i386, SYS_LSTAT_NR_i386, SYS_NEWFSTATAT_NR_i386, SYS_STATX_NR_i386,
     SYS_ACCESS_NR_i386, SYS_FACCESSAT_NR_i386, SYS_FACCESSAT2_NR_i386, SYS_CHDIR_NR_i386,
     SYS_FCHDIR_NR_i386, SYS_RENAME_NR_i386, SYS_RENAMEAT_NR_i386, SYS_RENAMEAT2_NR_i386,
     SYS_MKDIR_NR_i386, SYS_MKDIRAT_NR_i386, SYS_LINK_NR_i386, SYS_LINKAT_NR_i386,
     SYS_UNLINK_NR_i386, SYS_UNLINKAT_NR_i386, SYS_SYMLINK_NR_i386, SYS_SYMLINKAT_NR_i386,
     SYS_READLINK_NR_i386, SYS_READLINKAT_NR_i386, SYS_CHMOD_NR_i386, SYS_FCHMODAT_NR_i386,
     SYS_CHOWN_NR_i386, SYS_FCHOWNAT_NR_i386, SYS_MKNOD_NR_i386, SYS_MKNODAT_NR_i386,
     SYS_TRUNCATE_NR_i386, SYS_UTIMENSAT_NR_i386, SYS_EXECVE_NR_i386, SYS_EXECVEAT_NR_i386]"

definition BD_AUDIT_ARCH_i386 :: "32 word" where "BD_AUDIT_ARCH_i386 = 0x40000003"

definition seccomp_program_i386 :: "bd_sock_filter list" where
  "seccomp_program_i386 = seccomp_program_for BD_AUDIT_ARCH_i386 BD_TRACED_SYSCALLS_i386"

section \<open>The two tables\<close>

definition renumbering :: "(int \<times> int) list" where
  "renumbering =
     [(SYS_OPEN_NR_i386, SYS_OPEN_NR), (SYS_CLOSE_NR_i386, SYS_CLOSE_NR),
      (SYS_STAT_NR_i386, SYS_STAT_NR), (SYS_LSTAT_NR_i386, SYS_LSTAT_NR),
      (SYS_ACCESS_NR_i386, SYS_ACCESS_NR), (SYS_FORK_NR_i386, SYS_FORK_NR),
      (SYS_VFORK_NR_i386, SYS_VFORK_NR), (SYS_EXECVE_NR_i386, SYS_EXECVE_NR),
      (SYS_CLONE_NR_i386, SYS_CLONE_NR), (SYS_EXIT_GROUP_NR_i386, SYS_EXIT_GROUP_NR),
      (SYS_CHDIR_NR_i386, SYS_CHDIR_NR), (SYS_FCHDIR_NR_i386, SYS_FCHDIR_NR),
      (SYS_RENAME_NR_i386, SYS_RENAME_NR), (SYS_MKDIR_NR_i386, SYS_MKDIR_NR),
      (SYS_LINK_NR_i386, SYS_LINK_NR), (SYS_UNLINK_NR_i386, SYS_UNLINK_NR),
      (SYS_SYMLINK_NR_i386, SYS_SYMLINK_NR), (SYS_READLINK_NR_i386, SYS_READLINK_NR),
      (SYS_CHMOD_NR_i386, SYS_CHMOD_NR), (SYS_CHOWN_NR_i386, SYS_CHOWN_NR),
      (SYS_MKNOD_NR_i386, SYS_MKNOD_NR), (SYS_TRUNCATE_NR_i386, SYS_TRUNCATE_NR),
      (SYS_CREAT_NR_i386, SYS_CREAT_NR), (SYS_OPENAT_NR_i386, SYS_OPENAT_NR),
      (SYS_MKDIRAT_NR_i386, SYS_MKDIRAT_NR), (SYS_MKNODAT_NR_i386, SYS_MKNODAT_NR),
      (SYS_FCHOWNAT_NR_i386, SYS_FCHOWNAT_NR), (SYS_UNLINKAT_NR_i386, SYS_UNLINKAT_NR),
      (SYS_RENAMEAT_NR_i386, SYS_RENAMEAT_NR), (SYS_LINKAT_NR_i386, SYS_LINKAT_NR),
      (SYS_SYMLINKAT_NR_i386, SYS_SYMLINKAT_NR), (SYS_READLINKAT_NR_i386, SYS_READLINKAT_NR),
      (SYS_FCHMODAT_NR_i386, SYS_FCHMODAT_NR), (SYS_FACCESSAT_NR_i386, SYS_FACCESSAT_NR),
      (SYS_NEWFSTATAT_NR_i386, SYS_NEWFSTATAT_NR), (SYS_UTIMENSAT_NR_i386, SYS_UTIMENSAT_NR),
      (SYS_RENAMEAT2_NR_i386, SYS_RENAMEAT2_NR), (SYS_EXECVEAT_NR_i386, SYS_EXECVEAT_NR),
      (SYS_STATX_NR_i386, SYS_STATX_NR), (SYS_FACCESSAT2_NR_i386, SYS_FACCESSAT2_NR),
      (SYS_OPENAT2_NR_i386, SYS_OPENAT2_NR)]"

text \<open>Both tables name every system call with a number of its own.\<close>

lemma numbers_distinct: "distinct (map fst renumbering)" "distinct (map snd renumbering)"
  by (simp_all add: renumbering_def i386_nrs sys_nrs)

text \<open>Any other number is none of the tracer's; \<open>- 1\<close> stands for it.\<close>

definition renumber :: "int \<Rightarrow> int" where
  "renumber nr = (case map_of renumbering nr of None \<Rightarrow> - 1 | Some n \<Rightarrow> n)"

definition widen_regs :: "user_regs_i386 \<Rightarrow> user_regs" where
  "widen_regs r = \<lparr>orig_rax = ucast (orig_eax r), rax = ucast (eax r), rdi = ucast (ebx r), rsi = ucast (ecx r),
     rdx = ucast (edx r), r10 = ucast (esi r)\<rparr>"

lemma ucast_round [simp]: "ucast (ucast (w :: 32 word) :: 64 word) = w"
  by (simp add: ucast_up_ucast_id is_up)

lemma as_int_widen [simp]: "as_int (ucast (w :: 32 word)) = sint w"
  by (simp add: as_int_def)

text \<open>The i386 build decodes a system call as the x86-64 build decodes the one of the same name.\<close>

theorem decode_i386:
  "decode_paths_i386 regs nr =
     (case decode_paths (widen_regs regs) (renumber nr) of (a, b, flags) \<Rightarrow> (ucast a, ucast b, flags))"
proof (cases "nr \<in> fst ` set renumbering")
  case True
  then show ?thesis
    by (auto simp: renumber_def decode_paths_i386_def decode_paths_def widen_regs_def renumbering_def i386_nrs sys_nrs)
next
  case False
  then have "map_of renumbering nr = None" by (simp add: map_of_eq_None_iff)
  then have "renumber nr = - 1" by (simp add: renumber_def)
  moreover have "decode_paths_i386 regs nr = (0, 0, 0)"
    using False by (simp add: decode_paths_i386_def renumbering_def)
  ultimately show ?thesis by (simp add: decode_paths_def sys_nrs)
qed

text \<open>The filter stops the same system calls.\<close>

theorem traced_i386: "nr \<in> set BD_TRACED_SYSCALLS_i386 \<longleftrightarrow> renumber nr \<in> set BD_TRACED_SYSCALLS"
proof (cases "nr \<in> fst ` set renumbering")
  case True
  then show ?thesis
    by (auto simp: renumber_def renumbering_def BD_TRACED_SYSCALLS_i386_def BD_TRACED_SYSCALLS_def i386_nrs sys_nrs)
next
  case False
  then have "map_of renumbering nr = None" by (simp add: map_of_eq_None_iff)
  then have "renumber nr = - 1" by (simp add: renumber_def)
  with False show ?thesis
    by (simp add: BD_TRACED_SYSCALLS_i386_def BD_TRACED_SYSCALLS_def renumbering_def) (simp add: sys_nrs)
qed

theorem seccomp_filter_i386:
  "bpf_run seccomp_program_i386 data 0 0 =
     Some (if data 4 = BD_AUDIT_ARCH_i386 \<and> data 0 \<in> word_of_int ` set BD_TRACED_SYSCALLS_i386
           then BD_SECCOMP_RET_TRACE else BD_SECCOMP_RET_ALLOW)"
  unfolding seccomp_program_i386_def by (rule bpf.run_filter) (simp add: BD_TRACED_SYSCALLS_i386_def)

text \<open>
  The calls by which a 32-bit program with large file support asks for the state of a file, \<open>stat64\<close> (195) and
  \<open>lstat64\<close> (196), changes an owner, \<open>chown32\<close> (212), or cuts a file, \<open>truncate64\<close> (193), have no place in the table.
\<close>

lemma large_file_calls_untraced:
  "nr \<in> {193, 195, 196, 212} \<Longrightarrow> nr \<notin> set BD_TRACED_SYSCALLS_i386 \<and> decode_paths_i386 regs nr = (0, 0, 0)"
  by (auto simp: BD_TRACED_SYSCALLS_i386_def decode_paths_i386_def i386_nrs)

end
