(* ===== verification/Tracer_Signals.thy ===== *)
theory Tracer_Signals
  imports Tracer_Loop
begin

text \<open>
  The signal side of \<open>tracer/ptrace_backend.cpp\<close>: the handlers of \<open>SIGINT\<close>, \<open>SIGTERM\<close> and \<open>SIGALRM\<close>, the variables by
  which they speak to the event loop, the watchdog timer, and what the loop makes of them. The signals that arrive are
  the input; the loop of \<open>Tracer_Loop\<close> gets its \<open>li_signal\<close> and its alarms from here.
\<close>

section \<open>The handlers\<close>

record sig_globals =
  g_sig_num :: int
  g_sig_pid :: int
  g_sig_code :: int
  g_sig_count :: nat
  g_alarm_fired :: bool

definition sig_globals_new :: sig_globals where
  "sig_globals_new = \<lparr>g_sig_num = 0, g_sig_pid = 0, g_sig_code = 0, g_sig_count = 0, g_alarm_fired = False\<rparr>"

text \<open>\<open>info\<close> is the sender and \<open>si_code\<close>, when the kernel gave a \<open>siginfo_t\<close>.\<close>

definition signal_handler :: "int \<Rightarrow> (int \<times> int) option \<Rightarrow> sig_globals \<Rightarrow> sig_globals" where
  "signal_handler sig info g =
     g\<lparr>g_sig_num := sig, g_sig_pid := (case info of None \<Rightarrow> 0 | Some (pid, code) \<Rightarrow> pid),
       g_sig_code := (case info of None \<Rightarrow> 0 | Some (pid, code) \<Rightarrow> code),
       g_sig_count := (if g_sig_count g < 100 then Suc (g_sig_count g) else g_sig_count g)\<rparr>"

definition alarm_handler :: "sig_globals \<Rightarrow> sig_globals" where
  "alarm_handler g = g\<lparr>g_alarm_fired := True\<rparr>"

text \<open>The timer value \<open>arm_watchdog\<close> sets: interval and first expiry, each in seconds and microseconds.\<close>

definition arm_watchdog :: "int \<Rightarrow> (int \<times> int) \<times> (int \<times> int)" where
  "arm_watchdog usec = ((0, 0), (usec div 1000000, usec mod 1000000))"

section \<open>What the loop reads\<close>

text \<open>The pending signal, read and counted as seen.\<close>

definition take_signal :: "sig_globals \<Rightarrow> (int \<times> int \<times> int) option \<times> sig_globals" where
  "take_signal g =
     (if g_sig_count g > 0 then (Some (g_sig_num g, g_sig_pid g, g_sig_code g), g\<lparr>g_sig_count := 0\<rparr>) else (None, g))"

datatype arrival = Sig int "(int \<times> int) option" | Alarm

fun arrive :: "arrival \<Rightarrow> sig_globals \<Rightarrow> sig_globals" where
  "arrive (Sig sig info) g = signal_handler sig info g"
| "arrive Alarm g = alarm_handler g"

text \<open>What \<open>waitpid\<close> returned: a report, or an error.\<close>

datatype wait_return = Waited int int | NoChild | Intr | Failure

text \<open>One iteration: what arrives before the loop looks at the pending signal, and while it waits.\<close>

record sig_input =
  si_before :: "arrival list"
  si_during :: "arrival list"
  si_kernel :: kernel
  si_fatal :: bool
  si_wait :: wait_return

definition taken_wait :: "wait_return \<Rightarrow> sig_globals \<Rightarrow> wait_result \<times> sig_globals" where
  "taken_wait w g =
     (case w of
        NoChild \<Rightarrow> (NoChildren, g)
      | Failure \<Rightarrow> (WaitFailed, g)
      | Intr \<Rightarrow> (Interrupted (g_alarm_fired g), g\<lparr>g_alarm_fired := False\<rparr>)
      | Waited pid status \<Rightarrow> (Report pid status, g\<lparr>g_alarm_fired := False\<rparr>))"

definition take_input :: "sig_input \<Rightarrow> sig_globals \<Rightarrow> loop_input \<times> sig_globals" where
  "take_input i g =
     (case take_signal (fold arrive (si_before i) g) of
        (sig, g1) \<Rightarrow>
          (case taken_wait (si_wait i) (fold arrive (si_during i) g1) of
             (w, g2) \<Rightarrow> (\<lparr>li_kernel = si_kernel i, li_fatal = si_fatal i, li_signal = sig, li_wait = w\<rparr>, g2)))"

fun loop_inputs :: "sig_input list \<Rightarrow> sig_globals \<Rightarrow> loop_input list" where
  "loop_inputs [] g = []"
| "loop_inputs (i # is) g = (case take_input i g of (l, g1) \<Rightarrow> l # loop_inputs is g1)"

section \<open>Properties\<close>

text \<open>The timer gets a valid time: the watchdog's tick is half a second, and 0 disarms it.\<close>

lemma arm_watchdog_valid:
  "0 \<le> usec \<Longrightarrow> case arm_watchdog usec of (_, sec, us) \<Rightarrow> 0 \<le> sec \<and> 0 \<le> us \<and> us < 1000000 \<and> sec * 1000000 + us = usec"
  by (simp add: arm_watchdog_def)

lemma arm_watchdog_values: "arm_watchdog WATCHDOG_TICK_US = ((0, 0), 0, 500000)" "arm_watchdog 0 = ((0, 0), 0, 0)"
  by (simp_all add: arm_watchdog_def WATCHDOG_TICK_US_def)

definition is_sig :: "arrival \<Rightarrow> bool" where
  "is_sig a \<longleftrightarrow> (case a of Sig _ _ \<Rightarrow> True | Alarm \<Rightarrow> False)"

text \<open>The signal the handler was last called for.\<close>

fun sig_info :: "arrival \<Rightarrow> (int \<times> int \<times> int) option" where
  "sig_info (Sig sig info) = Some (case info of None \<Rightarrow> (sig, 0, 0) | Some (pid, code) \<Rightarrow> (sig, pid, code))"
| "sig_info Alarm = None"

definition pending :: "sig_globals \<Rightarrow> (int \<times> int \<times> int) option" where
  "pending g = fst (take_signal g)"

lemma pending_arrive: "pending (arrive a g) = (case sig_info a of None \<Rightarrow> pending g | Some s \<Rightarrow> Some s)"
  by (cases a) (auto simp: pending_def take_signal_def signal_handler_def alarm_handler_def split: option.split)

lemma pending_arrives:
  "pending (fold arrive as g) = (if List.map_filter sig_info as = [] then pending g else Some (last (List.map_filter sig_info as)))"
  by (induction as arbitrary: g) (auto simp: pending_arrive List.map_filter_simps split: option.split)

text \<open>
  The loop sees a signal exactly when one has arrived since it last looked, however many came, and what it sees is the
  last of them; an iteration in which none arrives leaves nothing behind.
\<close>

theorem signal_seen:
  assumes "pending g = None"
  shows "li_signal (fst (take_input i g)) =
      (if List.map_filter sig_info (si_before i) = [] then None else Some (last (List.map_filter sig_info (si_before i))))"
    and "pending (snd (take_input i g)) =
      (if List.map_filter sig_info (si_during i) = [] then None else Some (last (List.map_filter sig_info (si_during i))))"
proof -
  obtain s g1 where 1: "take_signal (fold arrive (si_before i) g) = (s, g1)" by fastforce
  obtain w g2 where 2: "taken_wait (si_wait i) (fold arrive (si_during i) g1) = (w, g2)" by fastforce
  have "s = pending (fold arrive (si_before i) g)" using 1 by (simp add: pending_def)
  with assms pending_arrives [of "si_before i" g] 1 2 show "li_signal (fst (take_input i g)) =
      (if List.map_filter sig_info (si_before i) = [] then None else Some (last (List.map_filter sig_info (si_before i))))"
    by (simp add: take_input_def)
  have "pending g1 = None" using 1 by (auto simp: pending_def take_signal_def split: if_splits)
  moreover have "pending g2 = pending (fold arrive (si_during i) g1)"
    using 2 by (auto simp: taken_wait_def pending_def take_signal_def split: wait_return.splits)
  ultimately show "pending (snd (take_input i g)) =
      (if List.map_filter sig_info (si_during i) = [] then None else Some (last (List.map_filter sig_info (si_during i))))"
    using pending_arrives [of "si_during i" g1] 1 2 by (simp add: take_input_def)
qed

text \<open>
  Only the last sender is judged. A Ctrl-C that is followed by a signal of a traced process before the loop looks is
  taken for build-internal, and the trace goes on.
\<close>

lemma interrupt_overwritten:
  assumes "pending g = None" and "si_before i = [Sig 2 (Some (0, 128)), Sig 15 (Some (pid, 0))]"
    and "0 < pid" and "om_get (tb_procs t) pid \<noteq> None"
  shows "handle_signal K (li_signal (fst (take_input i g))) t = (True, t\<lparr>cnt_sig_ignored := Suc (cnt_sig_ignored t)\<rparr>)"
  using assms by (simp add: signal_seen(1) List.map_filter_simps handle_signal_def from_tracee_def)

text \<open>In the other order the trace stops: the terminal's signal has a positive code.\<close>

lemma interrupt_stops:
  assumes "pending g = None" and "si_before i = [Sig 15 (Some (pid, 0)), Sig 2 (Some (0, 128))]" and "tb_running t"
  shows "\<not> tb_running (snd (handle_signal K (li_signal (fst (take_input i g))) t))
    \<and> tb_requests (snd (handle_signal K (li_signal (fst (take_input i g))) t)) = tb_requests t @ [KILL (tb_root_pid t) 2]"
  using assms by (simp add: signal_seen(1) List.map_filter_simps handle_signal_def from_tracee_def now_us_def req_def)

text \<open>Two interrupts at once count as one: the second does not abandon the drain.\<close>

lemma double_interrupt:
  assumes "pending g = None" and "si_before i = [Sig 2 (Some (0, 128)), Sig 2 (Some (0, 128))]" and "tb_running t"
  shows "fst (handle_signal K (li_signal (fst (take_input i g))) t)"
  using assms by (simp add: signal_seen(1) List.map_filter_simps handle_signal_def from_tracee_def now_us_def req_def)

text \<open>An alarm leads to a stall check only if it interrupts the wait; a report forgets it.\<close>

lemma alarm_checks:
  assumes "Alarm \<in> set (si_during i)" and "si_wait i = Intr"
  shows "li_wait (fst (take_input i g)) = Interrupted True \<and> \<not> g_alarm_fired (snd (take_input i g))"
proof -
  have "g_alarm_fired (arrive a h)" if "g_alarm_fired h" for a h
    using that by (cases a) (simp_all add: alarm_handler_def signal_handler_def)
  then have keep: "g_alarm_fired (fold arrive as h)" if "g_alarm_fired h" for as h
    using that by (induction as arbitrary: h) simp_all
  obtain xs ys where "si_during i = xs @ Alarm # ys" using assms(1) by (meson split_list)
  then have "g_alarm_fired (fold arrive (si_during i) h)" for h
    using keep [of "alarm_handler (fold arrive xs h)" ys] by (simp add: alarm_handler_def)
  then show ?thesis using assms(2) by (simp add: take_input_def taken_wait_def split_beta)
qed

section \<open>The first stop signal of the command\<close>

text \<open>
  \<open>start\<close> consumes the first \<open>SIGSTOP\<close> of the command itself but leaves its entry untraced: the next \<open>SIGSTOP\<close> anyone
  sends it is taken for the first stop of a new tracee, swallowed, and the command runs on.
\<close>

lemma root_untraced:
  assumes "start K a ack self pid t = (0, t')"
  shows "\<not> is_traced pid t'"
proof -
  have procs: "tb_procs (resume K pid 0 u) = tb_procs u" for u
  proof -
    have "tb_procs (snd (kick_attempts K pid sig n look k u)) = tb_procs u" for sig n look k u
      by (induction n arbitrary: look k u) (simp_all add: req_def)
    then show ?thesis by (simp add: resume_def kick_if_stuck_def req_def Let_def)
  qed
  from assms show ?thesis
    by (auto simp: start_def Let_def is_traced_def procs call_def now_us_def om_get_put ProcessState_new_def split: prod.splits bool.splits)
qed

lemma root_stop_swallowed:
  assumes "start K a ack self pid t = (0, t')"
  shows "handle_stop K' pid SIGSTOP 0 t' = handle_sigstop K' pid t'"
  using root_untraced [OF assms] by (simp add: handle_stop_def event_numbers)

end
