(* ===== verification/Json_Double.thy ===== *)
theory Json_Double
  imports Complex_Main Json_Writer Durations
begin

text \<open>
  The overload of \<open>val\<close> of \<open>web/json_writer.h\<close> for \<open>double\<close>: \<open>%.6g\<close> of \<open>printf\<close>, and a reader of JSON
  numbers with a fraction and an exponent. A finite number comes out as a JSON number that is off by
  at most one part in 200000; an infinity and a NaN come out as no JSON at all.
\<close>

section \<open>The number\<close>

text \<open>A \<open>double\<close>: sign, significand and binary exponent, or one of the special values.\<close>

datatype c_double = Finite bool nat int | Infinite bool | Not_a_number bool

text \<open>The finite values of the 64-bit format.\<close>

fun is_double :: "c_double \<Rightarrow> bool" where
  "is_double (Finite neg m e) \<longleftrightarrow> m < 2 ^ 53 \<and> - 1074 \<le> e \<and> e \<le> 971"
| "is_double _ \<longleftrightarrow> True"

definition ratio :: "nat \<Rightarrow> int \<Rightarrow> nat \<times> nat" where
  "ratio m e = (if 0 \<le> e then (m * 2 ^ nat e, 1) else (m, 2 ^ nat (- e)))"

text \<open>The \<open>x\<close> with \<open>10 ^ x \<le> n / d < 10 ^ (x + 1)\<close>.\<close>

function decimal_exponent :: "nat \<Rightarrow> nat \<Rightarrow> int" where
  "decimal_exponent n d =
    (if n = 0 \<or> d = 0 then 0
     else if n < d then decimal_exponent (10 * n) d - 1
     else if 10 * d \<le> n then decimal_exponent n (10 * d) + 1
     else 0)"
  by pat_completeness auto
termination
  by (relation "measure (\<lambda>(n, d). (d - n) + (Suc n - 10 * d))") auto

declare decimal_exponent.simps [simp del]

text \<open>Six significant digits and the exponent of the first; rounding may carry into a seventh.\<close>

definition six_digits :: "nat \<Rightarrow> nat \<Rightarrow> int \<times> int" where
  "six_digits n d =
    (let x = decimal_exponent n d;
         r = round_even (int n * 10 ^ nat (5 - x)) (int d * 10 ^ nat (x - 5))
     in if r = 10 ^ 6 then (10 ^ 5, x + 1) else (r, x))"

section \<open>The text\<close>

definition strip_zeros :: "string \<Rightarrow> string" where
  "strip_zeros s = rev (dropWhile (\<lambda>c. c = CHR ''0'') (rev s))"

definition fraction :: "string \<Rightarrow> string" where
  "fraction s = (if s = [] then [] else CHR ''.'' # s)"

definition exponent_str :: "int \<Rightarrow> string" where
  "exponent_str x =
    CHR ''e'' # (if x < 0 then CHR ''-'' else CHR ''+'') #
    (if \<bar>x\<bar> < 10 then ''0'' else []) @ nat_digits (nat \<bar>x\<bar>)"

definition general_str :: "int \<times> int \<Rightarrow> string" where
  "general_str rx =
    (let (r, x) = rx; ds = nat_digits (nat r)
     in if x < - 4 \<or> 6 \<le> x then take 1 ds @ fraction (strip_zeros (drop 1 ds)) @ exponent_str x
        else if 0 \<le> x then take (nat x + 1) ds @ fraction (strip_zeros (drop (nat x + 1) ds))
        else ''0'' @ fraction (replicate (nat (- x) - 1) CHR ''0'' @ strip_zeros ds))"

definition minus_if :: "bool \<Rightarrow> string" where
  "minus_if b = (if b then ''-'' else [])"

fun double_str :: "c_double \<Rightarrow> string" where
  "double_str (Finite neg m e) = minus_if neg @ (if m = 0 then ''0'' else general_str (case_prod six_digits (ratio m e)))"
| "double_str (Infinite neg) = minus_if neg @ ''inf''"
| "double_str (Not_a_number neg) = minus_if neg @ ''nan''"

text \<open>\<open>val(double)\<close>: \<open>snprintf\<close> into 64 bytes.\<close>

definition val_double :: "c_double \<Rightarrow> JsonWriter \<Rightarrow> JsonWriter" where
  "val_double v w = jw_put (take 63 (double_str v)) True (jw_comma w)"

section \<open>A reader of JSON numbers\<close>

text \<open>\<open>m * 10 ^ x\<close> and the rest; no leading zero, digits on both sides of the point.\<close>

definition read_exponent :: "string \<Rightarrow> (int \<times> string) option" where
  "read_exponent s =
    (if \<not> starts_with s ''e'' then Some (0, s)
     else let neg = starts_with (tl s) ''-'';
              u = (if neg \<or> starts_with (tl s) ''+'' then tl (tl s) else tl s);
              (v, rest) = digits_val 0 u
          in if rest = u then None else Some (if neg then - v else v, rest))"

definition read_unsigned :: "string \<Rightarrow> (int \<times> int \<times> string) option" where
  "read_unsigned s =
    (let (i, r) = digits_val 0 s
     in if r = s \<or> starts_with s ''0'' \<and> r \<noteq> tl s then None
        else if starts_with r ''.''
        then let (m, r2) = digits_val i (tl r)
             in if r2 = tl r then None
                else map_option (\<lambda>(x, rest). (m, x - int (length (tl r) - length r2), rest)) (read_exponent r2)
        else map_option (\<lambda>(x, rest). (i, x, rest)) (read_exponent r))"

definition read_number :: "string \<Rightarrow> (int \<times> int \<times> string) option" where
  "read_number s =
    (if starts_with s ''-'' then map_option (\<lambda>(m, x, rest). (- m, x, rest)) (read_unsigned (tl s)) else read_unsigned s)"

section \<open>Six digits are near\<close>

lemma decimal_exponent_bounds:
  assumes "0 < n" and "0 < d"
  shows "10 powi decimal_exponent n d \<le> (of_nat n / of_nat d :: rat)"
    and "(of_nat n / of_nat d :: rat) < 10 * 10 powi decimal_exponent n d"
proof -
  have "10 powi decimal_exponent n d \<le> (of_nat n / of_nat d :: rat) \<and>
      (of_nat n / of_nat d :: rat) < 10 * 10 powi decimal_exponent n d"
    using assms
  proof (induction n d rule: decimal_exponent.induct)
    case (1 n d)
    consider "n < d" | "10 * d \<le> n" | "d \<le> n" "n < 10 * d" by linarith
    then show ?case
    proof cases
      case 1
      define y where "y = decimal_exponent (10 * n) d"
      have e: "decimal_exponent n d = y - 1"
        using 1 "1.prems" by (simp add: y_def decimal_exponent.simps [of n d])
      have p: "(10 powi (y - 1) :: rat) = 10 powi y / 10" by (simp add: power_int_diff)
      have "10 powi y \<le> (of_nat (10 * n) / of_nat d :: rat) \<and> (of_nat (10 * n) / of_nat d :: rat) < 10 * 10 powi y"
        unfolding y_def using "1.IH"(1) 1 "1.prems" by simp
      moreover have "(of_nat (10 * n) / of_nat d :: rat) = 10 * (of_nat n / of_nat d)" by simp
      ultimately show ?thesis unfolding e p by linarith
    next
      case 2
      define y where "y = decimal_exponent n (10 * d)"
      have "decimal_exponent n d = y + 1"
        using 2 "1.prems" by (simp add: y_def decimal_exponent.simps [of n d])
      moreover have "10 powi y \<le> (of_nat n / of_nat (10 * d) :: rat) \<and> (of_nat n / of_nat (10 * d) :: rat) < 10 * 10 powi y"
        unfolding y_def using "1.IH"(2) 2 "1.prems" by simp
      ultimately show ?thesis using "1.prems" by (simp add: power_int_add field_simps)
    next
      case 3
      then have "decimal_exponent n d = 0" using "1.prems" by (simp add: decimal_exponent.simps [of n d])
      moreover have "(of_nat d :: rat) \<le> of_nat n" "(of_nat n :: rat) < of_nat (10 * d)"
        using 3 by (simp_all only: of_nat_le_iff of_nat_less_iff)
      ultimately show ?thesis using "1.prems" by (simp add: field_simps)
    qed
  qed
  then show "10 powi decimal_exponent n d \<le> (of_nat n / of_nat d :: rat)"
    "(of_nat n / of_nat d :: rat) < 10 * 10 powi decimal_exponent n d" by simp_all
qed

lemma round_even_rat:
  assumes "0 < d"
  shows "2 * \<bar>of_int (round_even n d) - (of_int n / of_int d :: rat)\<bar> \<le> 1"
proof -
  have "(of_int (2 * \<bar>round_even n d * d - n\<bar>) :: rat) \<le> of_int d"
    using round_even_near [OF assms] by (simp only: of_int_le_iff)
  moreover have "(of_int (round_even n d) - of_int n / of_int d :: rat) = (of_int (round_even n d * d - n)) / of_int d"
    using assms by (simp add: field_simps)
  ultimately show ?thesis using assms by (simp add: abs_divide field_simps)
qed

lemma scaled_quotient:
  assumes "0 < d"
  shows "(of_int (int n * 10 ^ nat (5 - x)) / of_int (int d * 10 ^ nat (x - 5)) :: rat) = of_nat n / of_nat d * 10 powi (5 - x)"
proof (cases "x \<le> 5")
  case True
  then show ?thesis by (simp add: power_int_def)
next
  case False
  then have "nat (- (5 - x)) = nat (x - 5)" by simp
  with False show ?thesis by (simp add: power_int_def field_simps power_inverse)
qed

lemma six_digits_near:
  assumes "0 < n" and "0 < d" and "six_digits n d = (r, x)"
  shows "10 ^ 5 \<le> r" and "r < 10 ^ 6"
    and "\<bar>of_int r * 10 powi (x - 5) - (of_nat n / of_nat d :: rat)\<bar> \<le> of_nat n / of_nat d / 200000"
proof -
  define y s v where "y = decimal_exponent n d"
    and "s = round_even (int n * 10 ^ nat (5 - y)) (int d * 10 ^ nat (y - 5))"
    and "v = (of_nat n / of_nat d :: rat)"
  define p where "p = (10 powi (y - 5) :: rat)"
  have p: "0 < p" "10 powi (5 - y) = 1 / p" "10 powi y = 100000 * p"
    by (simp_all add: p_def power_int_diff field_simps)
  have v: "100000 * p \<le> v" "v < 1000000 * p"
    using decimal_exponent_bounds [OF assms(1,2)] p(3) by (simp_all add: y_def v_def)
  have near: "2 * \<bar>of_int s - v / p\<bar> \<le> 1"
    using round_even_rat [of "int d * 10 ^ nat (y - 5)" "int n * 10 ^ nat (5 - y)"] assms(2)
      scaled_quotient [OF assms(2), of n y] by (simp add: s_def v_def p(2))
  have q: "100000 \<le> v / p" "v / p < 1000000" using v p(1) by (simp_all add: field_simps)
  have "(of_int 99999 :: rat) < of_int s" "(of_int s :: rat) < of_int 1000001"
    using near q by (auto simp: abs_if split: if_splits)
  then have s: "100000 \<le> s" "s \<le> 1000000" by (simp_all only: of_int_less_iff)
  have rx: "(r, x) = (if s = 10 ^ 6 then (10 ^ 5, y + 1) else (s, y))"
    using assms(3) [symmetric] by (simp only: six_digits_def Let_def y_def s_def)
  then show "10 ^ 5 \<le> r" "r < 10 ^ 6" using s by (auto split: if_splits)
  have "of_int r * 10 powi (x - 5) = of_int s * p"
    using rx by (auto simp: p_def power_int_add power_int_diff split: if_splits)
  moreover have "of_int s * p - v = (of_int s - v / p) * p" using p(1) by (simp add: field_simps)
  then have "\<bar>of_int s * p - v\<bar> = \<bar>of_int s - v / p\<bar> * p" using p(1) by (simp add: abs_mult)
  moreover have "\<bar>of_int s - v / p\<bar> * p \<le> 1 / 2 * p" using near p(1) by (intro mult_right_mono) simp_all
  ultimately show "\<bar>of_int r * 10 powi (x - 5) - (of_nat n / of_nat d :: rat)\<bar> \<le> of_nat n / of_nat d / 200000"
    using v(1) by (simp add: v_def)
qed

section \<open>Reading the text\<close>

definition digits_in :: "string \<Rightarrow> bool" where
  "digits_in s \<longleftrightarrow> (\<forall>c \<in> set s. digit_val c \<noteq> None)"

definition digits_num :: "int \<Rightarrow> string \<Rightarrow> int" where
  "digits_num a s = fst (digits_val a s)"

lemma digits_in_append [simp]: "digits_in (s @ t) \<longleftrightarrow> digits_in s \<and> digits_in t"
  by (auto simp: digits_in_def)

lemma digits_in_Cons [simp]: "digits_in (c # s) \<longleftrightarrow> digit_val c \<noteq> None \<and> digits_in s"
  by (auto simp: digits_in_def)

lemma digits_in_Nil [simp]: "digits_in []"
  by (simp add: digits_in_def)

lemma digits_in_take [intro]: "digits_in s \<Longrightarrow> digits_in (take k s)"
  by (auto simp: digits_in_def dest: in_set_takeD)

lemma digits_in_drop [intro]: "digits_in s \<Longrightarrow> digits_in (drop k s)"
  by (auto simp: digits_in_def dest: in_set_dropD)

lemma digit_val_zero [simp]: "digit_val CHR ''0'' = Some 0"
  by (simp add: digit_val_def)

lemma digits_in_zeros [simp]: "digits_in (replicate k CHR ''0'')"
  by (auto simp: digits_in_def)

lemma digits_val_append: "digits_in s \<Longrightarrow> digits_val a (s @ t) = digits_val (digits_num a s) t"
  by (induction s arbitrary: a) (auto simp: digits_num_def)

lemma digits_num_append: "digits_in s \<Longrightarrow> digits_num a (s @ t) = digits_num (digits_num a s) t"
  by (simp add: digits_num_def digits_val_append)

lemma digits_num_zeros [simp]: "digits_num a (replicate k CHR ''0'') = a * 10 ^ k"
  by (induction k arbitrary: a) (simp_all add: digits_num_def algebra_simps)

lemma nat_digits_in [simp]: "digits_in (nat_digits n)"
proof (induction n rule: nat_digits.induct)
  case (1 n)
  then show ?case by (cases "n < 10") (auto simp: nat_digits.simps [of n] digit_val_digit)
qed

lemma digits_num_nat_digits: "digits_num 0 (nat_digits n) = int n"
  using digits_val_nat_digits [of 0 n "[]"] by (simp add: digits_num_def)

lemma length_nat_digits: "10 ^ k \<le> n \<Longrightarrow> n < 10 ^ Suc k \<Longrightarrow> length (nat_digits n) = Suc k"
proof (induction k arbitrary: n)
  case 0
  then show ?case by (simp add: nat_digits.simps [of n])
next
  case (Suc k)
  have "(10::nat) * 10 ^ k \<le> n" "n < 10 * 10 ^ Suc k" using Suc.prems by simp_all
  then have "10 ^ k \<le> n div 10" "n div 10 < 10 ^ Suc k" by (simp_all add: less_eq_div_iff_mult_less_eq div_less_iff_less_mult mult.commute)
  moreover have "\<not> n < 10" using \<open>10 * 10 ^ k \<le> n\<close> one_le_power [of "10::nat" k] by linarith
  ultimately show ?case using Suc.IH by (simp add: nat_digits.simps [of n])
qed

lemma nat_digits_hd: "0 < n \<Longrightarrow> hd (nat_digits n) \<noteq> CHR ''0''"
proof (induction n rule: nat_digits.induct)
  case (1 n)
  show ?case
  proof (cases "n < 10")
    case True
    have "digit_char n \<noteq> CHR ''0''"
    proof
      assume "digit_char n = CHR ''0''"
      then have "Some n = Some 0" using digit_val_digit [OF True] by simp
      then show False using 1 by simp
    qed
    then show ?thesis using True by (simp add: nat_digits.simps [of n])
  next
    case False
    have "nat_digits (n div 10) \<noteq> []" using nat_digits_first [of "n div 10"] by auto
    then show ?thesis using 1 False by (simp add: nat_digits.simps [of n])
  qed
qed

lemma strip_zeros_eq: "\<exists>k. s = strip_zeros s @ replicate k CHR ''0''"
proof (induction s rule: rev_induct)
  case Nil
  then show ?case by (simp add: strip_zeros_def)
next
  case (snoc c s)
  show ?case
  proof (cases "c = CHR ''0''")
    case True
    obtain k where k: "s = strip_zeros s @ replicate k CHR ''0''" using snoc by blast
    have "strip_zeros (s @ [c]) = strip_zeros s" using True by (simp add: strip_zeros_def)
    moreover have "s @ [c] = strip_zeros s @ replicate (Suc k) CHR ''0''"
      by (subst k) (simp add: True replicate_append_same)
    ultimately show ?thesis by metis
  next
    case False
    then have "s @ [c] = strip_zeros (s @ [c]) @ replicate 0 CHR ''0''" by (simp add: strip_zeros_def)
    then show ?thesis by blast
  qed
qed

lemma read_exponent_str: "read_exponent (exponent_str x) = Some (x, [])"
proof -
  have "digits_val 0 (nat_digits n) = (int n, [])" for n using digits_val_nat_digits [of 0 n "[]"] by simp
  moreover have "nat_digits n \<noteq> []" "[] \<noteq> nat_digits n" for n using nat_digits_first [of n] by auto
  ultimately show ?thesis
    by (auto simp: read_exponent_def exponent_str_def starts_with_Cons Let_def)
qed

lemma read_number_text:
  assumes "digits_in i" and "i \<noteq> []" and "hd i = CHR ''0'' \<longrightarrow> i = ''0''" and "digits_in f"
    and "e = [] \<and> x = 0 \<or> e = exponent_str x"
  shows "read_number (minus_if neg @ i @ fraction f @ e) =
    Some (if neg then - digits_num 0 (i @ f) else digits_num 0 (i @ f), x - int (length f), [])"
proof -
  have e: "read_exponent e = Some (x, [])" "digits_val a e = (a, e)" "\<not> starts_with e ''.''" for a
    using assms(5) read_exponent_str [of x]
    by (auto simp: read_exponent_def exponent_str_def digit_val_def starts_with_Cons starts_with_iff)
  obtain c r where c: "i = c # r" "digit_val c \<noteq> None" using assms(1,2) by (cases i) auto
  then have "c \<noteq> CHR ''-''" by (auto simp: digit_val_def)
  have i: "digits_val 0 (i @ fraction f @ e) = (digits_num 0 i, fraction f @ e)"
    using digits_val_append [OF assms(1)] e(2) by (simp add: fraction_def digit_val_def)
  have f: "digits_val (digits_num 0 i) (f @ e) = (digits_num 0 (i @ f), e)"
    by (simp add: digits_val_append [OF assms(4)] digits_num_append [OF assms(1)] e(2))
  have z: "\<not> (starts_with (i @ t) ''0'' \<and> t \<noteq> tl (i @ t))" for t
    using assms(3) c by (auto simp: starts_with_Cons)
  have "read_unsigned (i @ fraction f @ e) = Some (digits_num 0 (i @ f), x - int (length f), [])"
  proof (cases "f = []")
    case True
    then show ?thesis
      using i z [of e] e assms(2) by (simp add: read_unsigned_def fraction_def)
  next
    case False
    then show ?thesis
      using i z [of "fraction f @ e"] e f assms(2) by (simp add: read_unsigned_def fraction_def starts_with_Cons)
  qed
  moreover have "\<not> starts_with (i @ t) ''-''" for t
    using c \<open>c \<noteq> CHR ''-''\<close> by (simp add: starts_with_Cons)
  ultimately show ?thesis by (simp add: read_number_def minus_if_def starts_with_Cons)
qed

text \<open>The digits before and after the point, without the zeros at the end, are the number.\<close>

lemma stripped_value:
  assumes "digits_in i" and "digits_in f" and "i @ f = replicate j CHR ''0'' @ nat_digits n"
  shows "of_int (digits_num 0 (i @ strip_zeros f)) * 10 powi (x - int (length (strip_zeros f))) =
    (of_nat n * 10 powi (x - int (length f)) :: rat)"
proof -
  obtain k where k: "f = strip_zeros f @ replicate k CHR ''0''" using strip_zeros_eq by blast
  define g where "g = strip_zeros f"
  have f: "f = g @ replicate k CHR ''0''" using k by (simp add: g_def)
  have "digits_num 0 (i @ f) = digits_num 0 (i @ g) * 10 ^ k"
    using assms(1,2) unfolding f by (simp add: digits_num_append)
  moreover have "digits_num 0 (i @ f) = int n"
    by (simp add: assms(3) digits_num_append digits_num_nat_digits)
  ultimately have "int n = digits_num 0 (i @ g) * 10 ^ k" by simp
  then have "(of_int (int n) :: rat) = of_int (digits_num 0 (i @ g) * 10 ^ k)" by (simp only:)
  moreover have "(10 powi (x - int (length f)) :: rat) = 10 powi (x - int (length g)) / 10 ^ k"
    unfolding f by (simp add: power_int_diff power_int_add field_simps)
  ultimately show ?thesis by (simp add: g_def)
qed

lemma digits_in_strip [intro]: "digits_in s \<Longrightarrow> digits_in (strip_zeros s)"
  using strip_zeros_eq [of s] by (metis digits_in_append)

lemma strip_zeros_length: "length (strip_zeros s) \<le> length s"
  by (simp add: strip_zeros_def) (metis length_dropWhile_le length_rev)

lemma strip_zeros_prefix: "strip_zeros (replicate j CHR ''0'' @ s) = replicate j CHR ''0'' @ strip_zeros s \<or> set s \<subseteq> {CHR ''0''}"
  by (auto simp: strip_zeros_def dropWhile_append split: if_splits)

lemma read_stripped:
  assumes "digits_in i" and "i \<noteq> []" and "hd i = CHR ''0'' \<longrightarrow> i = ''0''" and "digits_in f"
    and "e = [] \<and> x = 0 \<or> e = exponent_str x" and "i @ f = replicate j CHR ''0'' @ nat_digits n"
    and "x - int (length f) = y"
  shows "\<exists>m y'. read_number (minus_if neg @ i @ fraction (strip_zeros f) @ e) = Some (if neg then - m else m, y', []) \<and>
    (of_int m * 10 powi y' :: rat) = of_nat n * 10 powi y"
  using read_number_text [OF assms(1-3) digits_in_strip [OF assms(4)] assms(5), of neg]
    stripped_value [OF assms(1,4,6), of x] assms(7) by blast

lemma general_read:
  assumes r: "10 ^ 5 \<le> r" "r < 10 ^ 6"
  shows "\<exists>m y. read_number (minus_if neg @ general_str (r, x)) = Some (if neg then - m else m, y, []) \<and>
    (of_int m * 10 powi y :: rat) = of_int r * 10 powi (x - 5)"
proof -
  define ds where "ds = nat_digits (nat r)"
  have len: "length ds = 6" unfolding ds_def by (rule length_nat_digits [of 5, simplified]) (use r in auto)
  have hd: "hd ds \<noteq> CHR ''0''" unfolding ds_def by (rule nat_digits_hd) (use r in simp)
  have dg: "digits_in ds" by (simp add: ds_def)
  have r': "(of_int r :: rat) = of_nat (nat r)" using r by simp
  have first: "hd (take (Suc k) ds) \<noteq> CHR ''0''" "take (Suc k) ds \<noteq> []" for k using len hd by (cases ds; simp)+
  consider "x < - 4 \<or> 6 \<le> x" | "0 \<le> x" "x < 6" | "- 4 \<le> x" "x < 0" by linarith
  then show ?thesis
  proof cases
    case 1
    then have g: "general_str (r, x) = take (Suc 0) ds @ fraction (strip_zeros (drop (Suc 0) ds)) @ exponent_str x"
      by (simp add: general_str_def ds_def Let_def)
    show ?thesis unfolding g r'
      by (rule read_stripped [where x = x and j = 0]) (use first dg len in \<open>auto simp: ds_def\<close>)
  next
    case 2
    then have g: "general_str (r, x) = take (Suc (nat x)) ds @ fraction (strip_zeros (drop (Suc (nat x)) ds)) @ []"
      by (simp add: general_str_def ds_def Let_def)
    show ?thesis unfolding g r'
      by (rule read_stripped [where x = 0 and j = 0]) (use first dg len 2 in \<open>auto simp: ds_def\<close>)
  next
    case 3
    define z where "z = replicate (nat (- x) - 1) CHR ''0''"
    have "\<not> set ds \<subseteq> {CHR ''0''}" using hd len by (cases ds) auto
    then have "z @ strip_zeros ds = strip_zeros (z @ ds)" using strip_zeros_prefix [of "nat (- x) - 1" ds] by (simp add: z_def)
    then have g: "general_str (r, x) = ''0'' @ fraction (strip_zeros (z @ ds)) @ []"
      using 3 by (simp add: general_str_def ds_def z_def Let_def)
    have "''0'' @ z @ ds = replicate (nat (- x)) CHR ''0'' @ nat_digits (nat r)"
      using 3 by (cases "nat (- x)") (simp_all add: z_def ds_def)
    then show ?thesis unfolding g r'
      by (intro read_stripped [where x = 0 and j = "nat (- x)"]) (use dg len 3 in \<open>auto simp: z_def\<close>)
  qed
qed

section \<open>The buffer\<close>

lemma nat_digits_bound: "n < 10 ^ Suc k \<Longrightarrow> length (nat_digits n) \<le> Suc k"
proof (induction k arbitrary: n)
  case 0
  then show ?case by (simp add: nat_digits.simps [of n])
next
  case (Suc k)
  then have "n div 10 < 10 ^ Suc k" by (simp add: div_less_iff_less_mult mult.commute)
  then show ?case using Suc.IH by (cases "n < 10") (simp_all add: nat_digits.simps [of n])
qed

lemma general_str_length:
  assumes "10 ^ 5 \<le> r" "r < 10 ^ 6" and "\<bar>x\<bar> < 10 ^ 4"
  shows "length (general_str (r, x)) \<le> 20"
proof -
  have len: "length (nat_digits (nat r)) = 6" by (rule length_nat_digits [of 5, simplified]) (use assms in auto)
  have e: "length (nat_digits (nat \<bar>x\<bar>)) \<le> 4"
    using nat_digits_bound [of "nat \<bar>x\<bar>" 3] assms(3) by simp
  have s: "length (fraction (strip_zeros s)) \<le> Suc (length s)" for s
    using strip_zeros_length [of s] by (simp add: fraction_def)
  have f: "length (fraction (z @ strip_zeros s)) \<le> Suc (length z + length s)" for z s
    using strip_zeros_length [of s] by (simp add: fraction_def)
  show ?thesis
    using s [of "drop 1 (nat_digits (nat r))"] s [of "drop (nat x + 1) (nat_digits (nat r))"]
      f [of "replicate (nat (- x) - 1) CHR ''0''" "nat_digits (nat r)"] len e
      nat_le_iff [of x 5] nat_le_iff [of "- x" 4]
    by (auto simp: general_str_def Let_def exponent_str_def) linarith
qed

lemma powi10_less: "(10 :: rat) powi a < 10 powi b \<Longrightarrow> a < b"
  using power_int_increasing [of b a "10 :: rat"] by force

lemma powi_2_10: "0 \<le> k \<Longrightarrow> (2 :: rat) powi k \<le> 10 powi k" "0 \<le> k \<Longrightarrow> (10 :: rat) powi (- k) \<le> 2 powi (- k)"
  by (simp_all add: power_int_def power_mono power_inverse)

lemma double_range:
  assumes "m < 2 ^ 53" "0 < m" "- 1074 \<le> e" "e \<le> 971" and nd: "ratio m e = (n, d)"
  shows "0 < n" "0 < d" "\<bar>decimal_exponent n d\<bar> < 2000"
proof -
  show n: "0 < n" and d: "0 < d" using assms by (auto simp: ratio_def split: if_splits)
  define x where "x = decimal_exponent n d"
  define v where "v = (of_nat n / of_nat d :: rat)"
  have v: "v = of_nat m * 2 powi e" using nd by (auto simp: v_def ratio_def power_int_def field_simps split: if_splits)
  have x: "10 powi x \<le> v" "v < 10 powi (x + 1)"
    using decimal_exponent_bounds [OF n d] by (simp_all add: v_def x_def power_int_add)
  have "v < 2 powi 53 * 2 powi e"
  proof -
    have "(of_nat m :: rat) < of_nat (2 ^ 53)" using assms(1) by (simp only: of_nat_less_iff)
    then show ?thesis unfolding v by (intro mult_strict_right_mono) simp_all
  qed
  also have "\<dots> \<le> 2 powi 53 * 2 powi 971" using assms(4) by (intro mult_left_mono power_int_increasing) simp_all
  also have "\<dots> = 2 powi (53 + 971)" by (rule power_int_add [symmetric]) simp
  also have "\<dots> \<le> 10 powi (53 + 971)" by (rule powi_2_10) simp
  finally have "x < 53 + 971" using le_less_trans [OF x(1)] powi10_less by blast
  moreover have "- 1074 < x + 1"
  proof -
    have "(10 powi (- 1074) :: rat) \<le> 2 powi (- 1074)" by (rule powi_2_10) simp
    also have "\<dots> \<le> 2 powi e" using assms(3) by (intro power_int_increasing) simp_all
    also have "\<dots> \<le> v" unfolding v using assms(2) by simp
    also note x(2)
    finally show ?thesis by (rule powi10_less)
  qed
  ultimately show "\<bar>decimal_exponent n d\<bar> < 2000" unfolding x_def by linarith
qed

lemma six_digits_exponent: "six_digits n d = (r, x) \<Longrightarrow> x \<le> decimal_exponent n d + 1 \<and> decimal_exponent n d \<le> x"
  by (auto simp: six_digits_def Let_def split: if_splits)

lemma double_str_fits: "is_double v \<Longrightarrow> length (double_str v) \<le> 21"
proof (induction v rule: is_double.induct)
  case (1 neg m e)
  obtain n d where nd: "ratio m e = (n, d)" by fastforce
  obtain r x where rx: "six_digits n d = (r, x)" by fastforce
  show ?case
  proof (cases "m = 0")
    case False
    note b = double_range [of m e n d]
    have "length (general_str (r, x)) \<le> 20"
      using six_digits_near(1,2) [OF _ _ rx] six_digits_exponent [OF rx] b 1 False nd
      by (intro general_str_length) auto
    then show ?thesis using False by (simp add: nd rx minus_if_def)
  qed (simp add: minus_if_def)
qed (simp_all add: minus_if_def)

section \<open>What is written\<close>

fun double_value :: "c_double \<Rightarrow> rat option" where
  "double_value (Finite neg m e) = Some ((if neg then - 1 else 1) * of_nat m * 2 powi e)"
| "double_value _ = None"

text \<open>The JSON number of a finite \<open>double\<close> is off by at most one part in 200000, and an infinity or
  a NaN is written as \<open>inf\<close> or \<open>nan\<close>, which no JSON reader takes.\<close>

theorem val_double_near:
  assumes "is_double v"
  shows "val_double v w = w\<lparr>jw_buf := jw_buf w @ comma_if (jw_need_comma w) @ double_str v, jw_need_comma := True\<rparr>"
    and "case double_value v of
      None \<Rightarrow> read_number (double_str v) = None
    | Some q \<Rightarrow> \<exists>m x. read_number (double_str v) = Some (m, x, []) \<and> \<bar>of_int m * 10 powi x - q\<bar> \<le> \<bar>q\<bar> / 200000"
proof -
  show "val_double v w = w\<lparr>jw_buf := jw_buf w @ comma_if (jw_need_comma w) @ double_str v, jw_need_comma := True\<rparr>"
    using double_str_fits [OF assms] by (simp add: val_double_def jw_defs)
  show "case double_value v of
      None \<Rightarrow> read_number (double_str v) = None
    | Some q \<Rightarrow> \<exists>m x. read_number (double_str v) = Some (m, x, []) \<and> \<bar>of_int m * 10 powi x - q\<bar> \<le> \<bar>q\<bar> / 200000"
  proof (cases v)
    case (Finite neg m e)
    obtain n d where nd: "ratio m e = (n, d)" by fastforce
    obtain r x where rx: "six_digits n d = (r, x)" by fastforce
    define q where "q = (of_nat n / of_nat d :: rat)"
    have q: "of_nat m * 2 powi e = q"
      using nd by (auto simp: q_def ratio_def power_int_def field_simps split: if_splits)
    show ?thesis
    proof (cases "m = 0")
      case True
      then show ?thesis using read_number_text [of "''0''" "[]" "[]" 0 neg]
        by (simp add: Finite fraction_def digits_num_def)
    next
      case False
      then have pos: "0 < n" "0 < d" using double_range [of m e n d] assms nd by (auto simp: Finite)
      obtain k y where k: "read_number (minus_if neg @ general_str (r, x)) = Some (if neg then - k else k, y, [])"
        "(of_int k * 10 powi y :: rat) = of_int r * 10 powi (x - 5)"
        using general_read [OF six_digits_near(1,2) [OF pos rx], of neg x] by blast
      have "\<bar>of_int k * 10 powi y - q\<bar> \<le> q / 200000"
        using six_digits_near(3) [OF pos rx] k(2) by (simp add: q_def)
      moreover have "0 \<le> q" by (simp add: q_def)
      ultimately show ?thesis using k(1) False q
        by (cases neg) (auto simp: Finite nd rx abs_minus_commute)
    qed
  qed (simp_all add: read_number_def read_unsigned_def minus_if_def starts_with_Cons digit_val_def)
qed


text \<open>Some texts of \<open>printf\<close>: no point without a fraction, scientific notation outside \<open>10 ^ -4\<close> to
  \<open>10 ^ 6\<close>, and the smallest positive \<open>double\<close>.\<close>

lemmas double_eval = decimal_exponent.simps ratio_def six_digits_def round_even_def general_str_def nat_digits.simps
  digit_char_def char_of_def strip_zeros_def fraction_def exponent_str_def minus_if_def bit_0

lemma double_str_examples:
  "double_str (Finite True 3 (- 1)) = ''-1.5''"
  "double_str (Finite False 1 (- 20)) = ''9.53674e-07''"
  "double_str (Finite False 9999995 0) = ''1e+07''"
  "double_str (Finite False 1 (- 1074)) = ''4.94066e-324''"
  by (simp_all add: double_eval)

lemma val_double_near_example:
  "\<exists>m x. read_number (double_str (Finite True 3 (- 1))) = Some (m, x, []) \<and> \<bar>of_int m * 10 powi x - (- (3 / 2 :: rat))\<bar> \<le> 3 / 400000"
  using val_double_near(2) [of "Finite True 3 (- 1)"] by (simp add: power_int_def)

end
